(* ===== verification/Prelude.thy ===== *)
theory Prelude
  imports "HOL-Library.Word" "HOL-Library.Monad_Syntax"
begin

text \<open>
  Shared vocabulary of the development: the machine integer types of the 32-bit ARM target
  (\<open>unsigned\<close>, \<open>unsigned long\<close> and, with \<open>_PADDR_BITS\<close> unset, \<open>paddr_t\<close> are 32 bits wide;
  \<open>paddr64_t\<close> is 64 bits wide), the result type of code that may \<open>crash()\<close>, the rounding
  macros of \<open>src/hardware/startup/lib/startup.h\<close>, and generic lemmas on words and lists that
  the component theories use.
\<close>

unbundle bit_operations_syntax

type_synonym u8 = "8 word"
type_synonym u16 = "16 word"
type_synonym u32 = "32 word"
type_synonym u64 = "64 word"

named_theorems word_nat "unsigned readings of word operations that do not wrap"

section \<open>Errors as values\<close>

text \<open>
  The startup library reports a fatal condition with \<open>crash(fmt, ...)\<close>, which does not
  return. A fatal condition is the left side of a sum, tagged by the call site.
\<close>

datatype crash_code =
    RamArrayOverflow
  | SysramWholeEntry
  | NoReserve
  | NoWatcher
  | SyspageOverflow
  | ImageHeaderCorrupt
  | UnsupportedCompression
  | ScanLeavesSection
  | NoName
  | AllocDiverges
  | AssertFailed
  | LibraryDiverges
  | UnsupportedCpu
  | NoPteDescriptors
  | GicNotInitialised
  | NoRamEntry
  | TooManySegments
  | TimerNotRunning
  | LoopDiverges

type_synonym 'a res = "crash_code + 'a"

definition rbind :: "'a res \<Rightarrow> ('a \<Rightarrow> 'b res) \<Rightarrow> 'b res" where
  "rbind m f = (case m of Inl e \<Rightarrow> Inl e | Inr x \<Rightarrow> f x)"

lemma rbind_simps [simp]:
  "rbind (Inl e) f = Inl e"
  "rbind (Inr x) f = f x"
  by (simp_all add: rbind_def)

lemma rbind_Inr_iff: "rbind m f = Inr y \<longleftrightarrow> (\<exists>x. m = Inr x \<and> f x = Inr y)"
  by (cases m) auto

section \<open>Rounding macros\<close>

definition TRUNC :: "u32 \<Rightarrow> u32 \<Rightarrow> u32" where
  "TRUNC x a = x AND NOT (a - 1)"

definition ROUND :: "u32 \<Rightarrow> u32 \<Rightarrow> u32" where
  "ROUND x a = TRUNC (x + (a - 1)) a"

section \<open>Words\<close>

lemma unat_add_no_wrap [word_nat]:
  fixes a b :: "'a::len word"
  shows "unat a + unat b < 2 ^ LENGTH('a) \<Longrightarrow> unat (a + b) = unat a + unat b"
  by (simp add: unat_word_ariths)

lemma unat_sub_no_wrap [word_nat]:
  fixes a b :: "'a::len word"
  shows "b \<le> a \<Longrightarrow> unat (a - b) = unat a - unat b"
  by (rule unat_sub)

lemma unat_push_bit_no_wrap [word_nat]:
  fixes a :: "'a::len word"
  shows "unat a * 2 ^ n < 2 ^ LENGTH('a) \<Longrightarrow> unat (push_bit n a) = unat a * 2 ^ n"
  by (simp only: unsigned_push_bit_eq) (simp add: push_bit_eq_mult take_bit_nat_eq_self)

lemma unat_drop_bit [word_nat]:
  fixes a :: "'a::len word"
  shows "unat (drop_bit n a) = unat a div 2 ^ n"
  by (simp only: unsigned_drop_bit_eq) (simp add: drop_bit_eq_div take_bit_nat_eq_self)

lemma unat_lt32: "unat (x :: u32) < 4294967296"
  using unsigned_less [of x] by simp

lemma unat_lt64: "unat (x :: u64) < 18446744073709551616"
  using unsigned_less [of x] by simp

lemma unat_ucast64: "unat (ucast (x :: u32) :: u64) = unat x"
  using unat_lt32 [of x] by (simp add: unsigned_ucast_eq take_bit_nat_eq_self)

lemma unat_ucast32: "unat (x :: u64) < 2 ^ 32 \<Longrightarrow> unat (ucast x :: u32) = unat x"
  by (simp add: unsigned_ucast_eq take_bit_nat_eq_self)

text \<open>\<open>x OR y\<close> adds when \<open>x\<close> is a multiple of \<open>2 ^ n\<close> and \<open>y\<close> is below it.\<close>

lemma or_eq_add_nat:
  fixes a b n :: nat
  assumes "2 ^ n dvd a" and "b < 2 ^ n"
  shows "a OR b = a + b"
proof -
  have "a AND b = 0"
  proof (rule bit_eqI)
    fix m
    from assms obtain k where k: "a = k * 2 ^ n" by (auto simp: dvd_def mult.commute)
    show "bit (a AND b) m = bit 0 m"
    proof (cases "m < n")
      case True
      then have "\<not> bit a m"
        using k by (simp add: bit_push_bit_iff_nat flip: push_bit_eq_mult)
      then show ?thesis by (simp add: bit_and_iff)
    next
      case False
      then have "b < 2 ^ m"
        using assms(2) by (metis leI order_less_le_trans power_increasing_iff one_less_numeral_iff
            semiring_norm(76))
      then have "\<not> bit b m" by (simp add: bit_iff_odd)
      then show ?thesis by (simp add: bit_and_iff)
    qed
  qed
  then show ?thesis
    by (simp add: disjunctive_add_eq_or)
qed

lemma unat_or_disjoint [word_nat]:
  fixes a b :: "'a::len word"
  assumes "2 ^ n dvd unat a" and "unat b < 2 ^ n"
  shows "unat (a OR b) = unat a + unat b"
  using or_eq_add_nat [OF assms] by (simp add: unsigned_or_eq)

text \<open>The sign bit of a \<open>long\<close>, its two's complement reading and the arithmetic shift.\<close>

lemma bit31_iff: "bit (x :: u32) 31 \<longleftrightarrow> 2 ^ 31 \<le> unat x"
proof -
  have "bit x 31 \<longleftrightarrow> bit (unat x) 31" by (simp add: bit_unsigned_iff)
  also have "\<dots> \<longleftrightarrow> odd (unat x div 2 ^ 31)" by (simp only: bit_iff_odd)
  finally have "bit x 31 \<longleftrightarrow> odd (unat x div 2 ^ 31)" .
  moreover have "unat x div 2 ^ 31 < 2"
    using unat_lt32 [of x] by (simp add: less_mult_imp_div_less)
  ultimately show ?thesis
    by (cases "unat x div 2 ^ 31 = 0") (auto simp: div_eq_0_iff less_2_cases_iff not_less dest: div_le_mono)
qed

lemma msb_clear_iff: "(den :: u32) AND 0x80000000 = 0 \<longleftrightarrow> unat den < 2 ^ 31"
proof -
  have m: "(0x80000000 :: u32) = 2 ^ 31" by simp
  have "den AND 0x80000000 = 0 \<longleftrightarrow> \<not> bit den 31"
    unfolding m by (simp only: and_exp_eq_0_iff_not_bit)
  then show ?thesis by (simp add: bit31_iff not_le)
qed

lemma sdrop_pos: "unat (b :: u32) < 2 ^ 31 \<Longrightarrow> signed_drop_bit 1 b = drop_bit 1 b"
  apply (rule bit_word_eqI)
  using bit31_iff [of b]
  apply (auto simp: bit_signed_drop_bit_iff bit_drop_bit_eq)
  using bit_imp_le_length apply fastforce
  done

lemma sint32: "sint (x :: u32) = (if 2 ^ 31 \<le> uint x then uint x - 2 ^ 32 else uint x)"
proof -
  have "bit (uint x) 31 = (2 ^ 31 \<le> unat x)"
    using bit31_iff [of x] by (simp add: bit_unsigned_iff)
  moreover have "2 ^ 31 \<le> unat x \<longleftrightarrow> 2 ^ 31 \<le> uint x"
    using of_nat_le_iff [of "2 ^ 31" "unat x", where ?'a = int] by simp
  moreover have "take_bit 32 (uint x) = uint x"
    using unsigned_less [of x, where ?'a = int] by (simp add: take_bit_int_eq_self)
  ultimately show ?thesis
    by (simp add: sint_uint signed_take_bit_eq_take_bit_minus)
qed

lemma slt0_iff: "(x :: u32) <s 0 \<longleftrightarrow> 2 ^ 31 \<le> uint x"
  using unsigned_less [of x, where ?'a = int] by (auto simp: word_sless_alt sint32)

lemma uint_neg: "(x :: u32) \<noteq> 0 \<Longrightarrow> uint (- x) = 2 ^ 32 - uint x"
proof -
  assume "x \<noteq> 0"
  then have "0 < uint x" by (simp add: less_le uint_0_iff)
  moreover have "uint (- x) = (- uint x) mod 2 ^ 32" by (simp add: uint_word_ariths)
  moreover have "(- uint x) mod 2 ^ 32 = (2 ^ 32 - uint x) mod 2 ^ 32" by (simp add: mod_diff_left_eq)
  moreover have "(2 ^ 32 - uint x) mod 2 ^ 32 = 2 ^ 32 - uint x"
    using unsigned_less [of x, where ?'a = int] calculation(1)
    by (intro mod_pos_pos_trivial) simp_all
  ultimately show ?thesis by simp
qed

lemma slt0_sgn: "x <s 0 \<longleftrightarrow> sint (x :: u32) < 0"
  by (simp add: word_sless_alt)

lemma slt0_iff_unat: "(x :: u32) <s 0 \<longleftrightarrow> 2147483648 \<le> unat x"
  using of_nat_le_iff [of 2147483648 "unat x", where ?'a = int] by (simp add: slt0_iff)

section \<open>Rounding to a power of two\<close>

lemma unat_TRUNC:
  assumes "n < 32"
  shows "unat (TRUNC x (2 ^ n)) = unat x div 2 ^ n * 2 ^ n"
proof -
  have "TRUNC x (2 ^ n) = push_bit n (drop_bit n x)"
    unfolding TRUNC_def by (rule bit_word_eqI)
      (auto simp: bit_push_bit_iff bit_drop_bit_eq bit_and_iff bit_not_iff bit_mask_iff
        simp flip: mask_eq_exp_minus_1)
  moreover have "unat (drop_bit n x) * 2 ^ n = unat x div 2 ^ n * 2 ^ n"
    by (simp add: unat_drop_bit)
  moreover have "unat x div 2 ^ n * 2 ^ n < 2 ^ 32"
    using unat_lt32 [of x] by (simp add: order_le_less_trans [OF div_times_less_eq_dividend])
  ultimately show ?thesis by (simp add: unat_push_bit_no_wrap)
qed

lemma unat_ROUND:
  assumes "n < 32" "unat x + 2 ^ n \<le> 2 ^ 32"
  shows "unat (ROUND x (2 ^ n)) = (unat x + 2 ^ n - 1) div 2 ^ n * 2 ^ n"
proof -
  have p: "(2 :: nat) ^ n < 2 ^ 32" using assms(1) by (simp only: power_strict_increasing_iff)
  have "unat (of_nat (2 ^ n) :: u32) = 2 ^ n"
    using p assms(1) by (simp only: unsigned_of_nat) (simp add: take_bit_nat_eq_self)
  then have "unat ((2 :: u32) ^ n) = 2 ^ n" by simp
  then have m: "unat ((2 :: u32) ^ n - 1) = 2 ^ n - 1"
    using p by (simp add: unat_sub word_le_nat_alt)
  have "unat (x + (2 ^ n - 1)) = unat x + (2 ^ n - 1)"
    using assms(2) m by (subst unat_add_no_wrap) (simp_all add: Suc_le_eq)
  then show ?thesis
    by (simp add: ROUND_def unat_TRUNC [OF assms(1)])
qed

end
