(* ===== verification/Ipl_Div.thy ===== *)
theory Ipl_Div
  imports Prelude "HOL-Library.Signed_Division"
begin

text \<open>
  The software division of the IPL, \<open>src/hardware/ipl/boards/mx6q-sabresmart/divsi3.c\<close>.
  \<open>long\<close> is a 32-bit word read in two's complement; a right shift of a negative \<open>long\<close> is
  the arithmetic shift of the target compiler, and signed negation and left shift wrap. The
  two loops of \<open>divmodsi4\<close> are partial functions: the value \<^term>\<open>None\<close> is a loop that
  never ends, which is a behaviour this code has. The theory characterises exactly when the
  routine returns, and shows that it is then the quotient and remainder.
\<close>

section \<open>The routines\<close>

partial_function (option) norm_loop :: "u32 \<Rightarrow> u32 \<Rightarrow> u32 \<Rightarrow> (u32 \<times> u32) option" where
  "norm_loop num den bt =
     (if den < num \<and> bt \<noteq> 0 \<and> den AND 0x80000000 = 0
      then norm_loop num (push_bit 1 den) (push_bit 1 bt)
      else Some (den, bt))"

partial_function (option) div_loop :: "u32 \<Rightarrow> u32 \<Rightarrow> u32 \<Rightarrow> u32 \<Rightarrow> (u32 \<times> u32) option" where
  "div_loop num den bt res =
     (if bt \<noteq> 0
      then (if den \<le> num
            then div_loop (num - den) (drop_bit 1 den) (signed_drop_bit 1 bt) (res OR bt)
            else div_loop num (drop_bit 1 den) (signed_drop_bit 1 bt) res)
      else Some (num, res))"

definition divmodsi4 :: "bool \<Rightarrow> u32 \<Rightarrow> u32 \<Rightarrow> u32 option" where
  "divmodsi4 modwanted num den =
     Option.bind (norm_loop num den 1) (\<lambda>(den', bt).
     Option.bind (div_loop num den' bt 0) (\<lambda>(num', res).
     Some (if modwanted then num' else res)))"

definition modsi3 :: "u32 \<Rightarrow> u32 \<Rightarrow> u32 option" where
  "modsi3 numerator denominator =
     (let sign = numerator <s 0;
          numerator = (if numerator <s 0 then - numerator else numerator);
          denominator = (if denominator <s 0 then - denominator else denominator)
      in map_option (\<lambda>modul. if sign then - modul else modul)
           (divmodsi4 True numerator denominator))"

definition divnorm :: "u32 \<Rightarrow> u32 \<Rightarrow> u32 \<times> u32 \<times> bool" where
  "divnorm num den =
     (let (num, sign) = (if num <s 0 then (- num, True) else (num, False))
      in if den <s 0 then (num, - den, \<not> sign) else (num, den, sign))"

definition exitdiv :: "bool \<Rightarrow> u32 \<Rightarrow> u32" where
  "exitdiv sign res = (if sign then - res else res)"

definition divsi3 :: "u32 \<Rightarrow> u32 \<Rightarrow> u32 option" where
  "divsi3 numerator denominator =
     (let (num, den, sign) = divnorm numerator denominator
      in map_option (exitdiv sign) (divmodsi4 False num den))"

definition aeabi_uidiv :: "u32 \<Rightarrow> u32 \<Rightarrow> u32 option" where
  "aeabi_uidiv numerator denominator = divsi3 numerator denominator"

definition umodsi3 :: "u32 \<Rightarrow> u32 \<Rightarrow> u32 option" where
  "umodsi3 numerator denominator = divmodsi4 True numerator denominator"

definition udivsi3 :: "u32 \<Rightarrow> u32 \<Rightarrow> u32 option" where
  "udivsi3 numerator denominator = divmodsi4 False numerator denominator"

section \<open>The normalising loop and the subtracting loop\<close>

lemma norm_loop_spec:
  assumes "d \<noteq> 0" "unat den = d * 2 ^ k" "unat bt = 2 ^ k" "k \<le> 31"
  shows "\<exists>k' den' bt'. norm_loop num den bt = Some (den', bt') \<and> k \<le> k' \<and> k' \<le> 31 \<and>
           unat den' = d * 2 ^ k' \<and> unat bt' = 2 ^ k' \<and> (unat num \<le> unat den' \<or> 2 ^ 31 \<le> unat den') \<and>
           (k < k' \<longrightarrow> d * 2 ^ (k' - 1) < unat num \<and> d * 2 ^ (k' - 1) < 2 ^ 31)"
  using assms
proof (induction "31 - k" arbitrary: k den bt rule: less_induct)
  case less
  show ?case
  proof (cases "den < num \<and> unat den < 2 ^ 31")
    case True
    have "2 ^ k \<le> d * 2 ^ k" using less.prems(1) by simp
    then have "(2 :: nat) ^ k < 2 ^ 31" using True less.prems(2) by linarith
    then have k: "k < 31" by (simp only: power_strict_increasing_iff)
    have bt: "bt \<noteq> 0" using less.prems(3) by (metis power_not_zero unat_eq_0 zero_neq_numeral)
    have den': "unat (push_bit 1 den) = d * 2 ^ Suc k"
      using True less.prems(2) unat_push_bit_no_wrap [of den 1] by simp
    have bt': "unat (push_bit 1 bt) = 2 ^ Suc k"
      using \<open>2 ^ k < 2 ^ 31\<close> less.prems(3) unat_push_bit_no_wrap [of bt 1] by simp
    have unf: "norm_loop num den bt = norm_loop num (push_bit 1 den) (push_bit 1 bt)"
      using True bt by (subst norm_loop.simps) (simp add: msb_clear_iff)
    have "31 - Suc k < 31 - k" "Suc k \<le> 31" using k by auto
    from less.hyps [OF this(1) less.prems(1) den' bt' this(2)] obtain k' e c where
      *: "norm_loop num (push_bit 1 den) (push_bit 1 bt) = Some (e, c)" "Suc k \<le> k'" "k' \<le> 31"
        "unat e = d * 2 ^ k'" "unat c = 2 ^ k'" "unat num \<le> unat e \<or> 2 ^ 31 \<le> unat e"
        "Suc k < k' \<longrightarrow> d * 2 ^ (k' - 1) < unat num \<and> d * 2 ^ (k' - 1) < 2 ^ 31"
      by blast
    have "d * 2 ^ (k' - 1) < unat num \<and> d * 2 ^ (k' - 1) < 2 ^ 31"
    proof (cases "Suc k = k'")
      case eq: True
      then have "k' - 1 = k" by simp
      then show ?thesis using True less.prems(2) by (simp add: word_less_nat_alt)
    next
      case False
      then show ?thesis using *(2,7) by simp
    qed
    then show ?thesis using * unf by (metis Suc_leD)
  next
    case False
    have "norm_loop num den bt = Some (den, bt)"
      using False by (subst norm_loop.simps) (auto simp: msb_clear_iff)
    moreover have "unat num \<le> unat den \<or> 2 ^ 31 \<le> unat den"
      using False by (simp add: word_less_nat_alt not_less)
    ultimately show ?thesis using less.prems by (metis le_refl less_irrefl)
  qed
qed

lemma norm_loop_den0: "0 < num \<Longrightarrow> norm_loop num 0 1 = Some (0, 0)"
  by (simp add: norm_loop.simps)

lemma power_Suc_dvdD: "2 ^ Suc n dvd (a :: nat) \<Longrightarrow> 2 ^ n dvd a"
  by (metis dvd_trans dvd_triv_right power_Suc)

lemma div_loop_spec:
  assumes "k \<le> 30" "unat bt = 2 ^ k" "d \<noteq> 0" "unat den = d * 2 ^ k" "unat num < 2 * unat den"
    "2 ^ Suc k dvd unat res" "unat res + 2 ^ Suc k \<le> 2 ^ 32"
  shows "\<exists>num' res'. div_loop num den bt res = Some (num', res') \<and>
     unat res' = unat res + unat num div d \<and> unat num' = unat num mod d"
  using assms
proof (induction k arbitrary: bt den num res)
  case 0
  then have bt1: "bt = 1" by (simp add: word_unat_eq_iff)
  have d: "unat den = d" using 0 by simp
  have or: "unat (res OR 1) = unat res + 1"
    using unat_or_disjoint [of 1 res 1] 0 by simp
  show ?case
  proof (cases "den \<le> num")
    case True
    have n: "unat (num - den) = unat num - d" using True d by (simp add: unat_sub)
    have lt: "unat num - d < d" "d \<le> unat num" using 0 d True by (simp_all add: word_le_nat_alt)
    then have "unat num div d = 1" "unat num mod d = unat num - d"
      by (simp_all add: le_div_geq le_mod_geq)
    then show ?thesis using True or n
      by (subst div_loop.simps) (simp add: bt1 div_loop.simps [where bt = 0])
  next
    case False
    then have "unat num < d" using d by (simp add: word_le_nat_alt)
    then show ?thesis using False
      by (subst div_loop.simps) (simp add: bt1 div_loop.simps [where bt = 0])
  qed
next
  case (Suc k)
  have p: "(2 :: nat) ^ Suc k < 2 ^ 31" using Suc.prems(1) by (simp only: power_strict_increasing_iff)
  have bt0: "bt \<noteq> 0" using Suc.prems(2) by (metis power_not_zero unat_eq_0 zero_neq_numeral)
  have bt': "unat (signed_drop_bit 1 bt) = 2 ^ k"
    using sdrop_pos [of bt] Suc.prems(2) p by (simp add: unat_drop_bit)
  have den': "unat (drop_bit 1 den) = d * 2 ^ k"
    using Suc.prems(4) by (simp add: unat_drop_bit)
  have k: "k \<le> 30" using Suc.prems(1) by simp
  have or: "unat (res OR bt) = unat res + 2 ^ Suc k"
    using unat_or_disjoint [of "Suc (Suc k)" res bt] Suc.prems by simp
  show ?case
  proof (cases "den \<le> num")
    case True
    have n: "unat (num - den) = unat num - d * 2 ^ Suc k"
      using True Suc.prems(4) by (simp add: unat_sub)
    have le: "d * 2 ^ Suc k \<le> unat num" using True Suc.prems(4) by (simp add: word_le_nat_alt)
    have dv: "2 ^ Suc k dvd unat (res OR bt)" unfolding or
      by (rule dvd_add [OF power_Suc_dvdD [OF Suc.prems(6)] dvd_refl])
    have "unat (num - den) < 2 * unat (drop_bit 1 den)"
      using n den' Suc.prems(4,5) le by simp
    moreover have "unat (res OR bt) + 2 ^ Suc k \<le> 2 ^ 32" using or Suc.prems(7) by simp
    ultimately obtain a b where
      *: "div_loop (num - den) (drop_bit 1 den) (signed_drop_bit 1 bt) (res OR bt) = Some (a, b)"
        "unat b = unat (res OR bt) + unat (num - den) div d" "unat a = unat (num - den) mod d"
      using Suc.IH [OF k bt' Suc.prems(3) den' _ dv] by blast
    obtain r where r: "unat num = d * 2 ^ Suc k + r" using le le_Suc_ex by blast
    have "unat num div d = 2 ^ Suc k + r div d" "unat num mod d = r mod d"
      unfolding r using Suc.prems(3) by simp_all
    then show ?thesis
      using * True bt0 or n r by (subst div_loop.simps) simp
  next
    case False
    have dv: "2 ^ Suc k dvd unat res"
      by (rule power_Suc_dvdD [OF Suc.prems(6)])
    have "unat num < 2 * unat (drop_bit 1 den)"
      using False den' Suc.prems(4) by (simp add: word_le_nat_alt)
    moreover have "unat res + 2 ^ Suc k \<le> 2 ^ 32" using Suc.prems(7) by simp
    ultimately show ?thesis
      using Suc.IH [OF k bt' Suc.prems(3) den' _ dv, of num] False bt0
      by (subst div_loop.simps) simp
  qed
qed

lemma div_loop_diverges:
  assumes "bit bt 31"
  shows "div_loop num den bt res = None"
proof (rule ccontr)
  assume "div_loop num den bt res \<noteq> None"
  then obtain y where y: "div_loop num den bt res = Some y" by blast
  have "\<not> bit bt 31"
  proof (rule div_loop.raw_induct [where P = "\<lambda>num den bt res y. \<not> bit bt 31", OF _ y])
    fix f and num den bt res :: u32 and y
    assume IH: "\<And>num den bt res y. f num den bt res = Some y \<Longrightarrow> \<not> bit bt 31"
      and eq: "(if bt \<noteq> 0
          then if den \<le> num
               then f (num - den) (drop_bit 1 den) (signed_drop_bit 1 bt) (res OR bt)
               else f num (drop_bit 1 den) (signed_drop_bit 1 bt) res
          else Some (num, res)) = Some y"
    show "\<not> bit bt 31"
    proof
      assume b: "bit bt 31"
      then have "bt \<noteq> 0" by auto
      then have "\<not> bit (signed_drop_bit 1 bt) 31"
        using eq IH by (auto split: if_splits)
      then show False using b by (simp add: bit_signed_drop_bit_iff)
    qed
  qed
  then show False using assms by simp
qed

section \<open>Every branch of \<open>divmodsi4\<close>\<close>

lemma divmodsi4_zero:
  "divmodsi4 m num 0 = Some (if m then num else if num = 0 then 1 else 0)"
proof (cases "num = 0")
  case True
  then show ?thesis
    by (simp add: divmodsi4_def norm_loop.simps div_loop.simps)
next
  case False
  then have "0 < num" by (simp add: word_neq_0_conv)
  then show ?thesis using False
    by (simp add: divmodsi4_def norm_loop_den0 div_loop.simps)
qed

lemma norm_loop_from_1:
  assumes "den \<noteq> 0"
  obtains k den' bt where "norm_loop num den 1 = Some (den', bt)" "k \<le> 31"
    "unat den' = unat den * 2 ^ k" "unat bt = 2 ^ k" "unat num \<le> unat den' \<or> 2 ^ 31 \<le> unat den'"
    "0 < k \<Longrightarrow> unat den * 2 ^ (k - 1) < unat num"
proof -
  have "unat den \<noteq> 0" "unat den = unat den * 2 ^ 0" "unat (1 :: u32) = 2 ^ 0" "(0 :: nat) \<le> 31"
    using assms by (simp_all add: unat_eq_0)
  from norm_loop_spec [OF this, of num] show ?thesis using that by blast
qed

lemma divmodsi4_hang:
  assumes "2 ^ 30 < unat num"
  shows "divmodsi4 m num 1 = None"
proof -
  obtain k den bt where n: "norm_loop num 1 1 = Some (den, bt)" "k \<le> 31"
      "unat den = 2 ^ k" "unat bt = 2 ^ k" "unat num \<le> unat den \<or> 2 ^ 31 \<le> unat den"
    using norm_loop_from_1 [of 1 num] by (metis mult_1 one_neq_zero unat_1)
  have "\<not> k \<le> 30"
  proof
    assume "k \<le> 30"
    then have "(2 :: nat) ^ k \<le> 2 ^ 30" by (rule power_increasing) simp
    then show False using n assms by auto
  qed
  then have "k = 31" using n(2) by simp
  then have "bit bt 31" using n(4) by (simp add: bit31_iff)
  then show ?thesis using n(1) by (simp add: divmodsi4_def div_loop_diverges)
qed

lemma divmodsi4_ok:
  assumes d: "den \<noteq> 0" and nh: "\<not> (den = 1 \<and> 2 ^ 30 < unat num)"
  shows "divmodsi4 m num den = Some (if m then num mod den else num div den)"
proof -
  have d0: "unat den \<noteq> 0" using d by (simp add: unat_eq_0)
  obtain k den' bt where n: "norm_loop num den 1 = Some (den', bt)" "k \<le> 31"
      "unat den' = unat den * 2 ^ k" "unat bt = 2 ^ k" "unat num \<le> unat den' \<or> 2 ^ 31 \<le> unat den'"
      "0 < k \<Longrightarrow> unat den * 2 ^ (k - 1) < unat num"
    using norm_loop_from_1 [OF d] by blast
  have k30: "k \<le> 30"
  proof (rule ccontr)
    assume "\<not> k \<le> 30"
    then have k: "k = 31" using n(2) by simp
    have "unat den * 2 ^ 31 < 2 ^ 32" using n(3) k unat_lt32 [of den'] by simp
    then have u1: "unat den = 1" using d0 by simp
    then have "den = 1" by (simp add: word_unat_eq_iff)
    moreover have "2 ^ 30 < unat num" using n(6) k u1 by simp
    ultimately show False using nh by simp
  qed
  have lt: "unat num < 2 * unat den'"
  proof -
    have "0 < unat den'" using d0 n(3) by simp
    then show ?thesis using n(5) unat_lt32 [of num] by auto
  qed
  have "(2 :: nat) ^ Suc k \<le> 2 ^ 32"
    using k30 by (intro power_increasing) auto
  then obtain a b where "div_loop num den' bt 0 = Some (a, b)"
      "unat b = unat num div unat den" "unat a = unat num mod unat den"
    using div_loop_spec [OF k30 n(4) d0 n(3) lt, of 0] by auto
  moreover from this have "b = num div den" "a = num mod den"
    by (simp_all add: word_unat_eq_iff unat_div_distrib unat_mod_distrib)
  ultimately show ?thesis using n(1) by (simp add: divmodsi4_def)
qed

lemmas divmodsi4_branches = divmodsi4_zero divmodsi4_hang divmodsi4_ok

text \<open>
  C24: \<open>__udivsi3\<close> is the quotient of its unsigned operands, with the three cases the code has beside
  it: a zero divisor gives one or zero, and a division by one of a number above \<open>2 ^ 30\<close> never
  returns, because the signed \<open>bit\<close> is shifted out.
\<close>

theorem udivsi3_spec:
  "udivsi3 n d =
     (if d = 0 then Some (if n = 0 then 1 else 0)
      else if d = 1 \<and> 2 ^ 30 < unat n then None
      else Some (n div d))"
  by (auto simp: udivsi3_def divmodsi4_branches)

text \<open>
  \<open>__umodsi3\<close> is the remainder of its unsigned operands, the dividend itself for a zero
  divisor, and does not return where \<open>__udivsi3\<close> does not.
\<close>

theorem umodsi3_spec:
  "umodsi3 n d =
     (if d = 0 then Some n
      else if d = 1 \<and> 2 ^ 30 < unat n then None
      else Some (n mod d))"
  by (auto simp: umodsi3_def divmodsi4_branches)


definition long_abs :: "u32 \<Rightarrow> u32" where
  "long_abs x = (if x <s 0 then - x else x)"

lemma uint_long_abs: "uint (long_abs x) = \<bar>sint x\<bar>"
  using unsigned_less [of x, where ?'a = int]
  by (cases "x = 0") (auto simp: long_abs_def slt0_iff sint32 uint_neg)


lemma divsi3_long_abs: "divsi3 a b = map_option (exitdiv ((a <s 0) \<noteq> (b <s 0))) (divmodsi4 False (long_abs a) (long_abs b))"
  by (simp add: divsi3_def divnorm_def long_abs_def)

lemma modsi3_long_abs: "modsi3 a b = map_option (\<lambda>m. if a <s 0 then - m else m) (divmodsi4 True (long_abs a) (long_abs b))"
  by (simp add: modsi3_def long_abs_def Let_def)

lemma long_abs_0_iff: "long_abs x = 0 \<longleftrightarrow> x = 0"
  by (auto simp: long_abs_def)

lemma long_abs_1_iff: "long_abs x = 1 \<longleftrightarrow> \<bar>sint x\<bar> = 1"
  by (simp add: word_uint_eq_iff flip: uint_long_abs)

lemma long_abs_big: "1073741824 < unat (long_abs x) \<longleftrightarrow> 1073741824 < \<bar>sint x\<bar>"
  using of_nat_less_iff [of "2 ^ 30" "unat (long_abs x)", where ?'a = int] by (simp add: uint_long_abs)

lemma long_abs_div: "long_abs a div long_abs b = word_of_int (\<bar>sint a\<bar> div \<bar>sint b\<bar>)"
proof -
  have "word_of_int (uint (long_abs a div long_abs b)) = long_abs a div long_abs b" by (rule word_of_int_uint)
  then show ?thesis by (simp only: uint_div uint_long_abs)
qed

lemma long_abs_mod: "long_abs a mod long_abs b = word_of_int (\<bar>sint a\<bar> mod \<bar>sint b\<bar>)"
proof -
  have "word_of_int (uint (long_abs a mod long_abs b)) = long_abs a mod long_abs b" by (rule word_of_int_uint)
  then show ?thesis by (simp only: uint_mod uint_long_abs)
qed

text \<open>
  \<open>__divsi3\<close> is C's division, which truncates towards zero, on all signed operands but a zero
  divisor and a divisor of magnitude one under a dividend above \<open>2 ^ 30\<close>, where it never returns.
\<close>

lemma divsi3_spec:
  "divsi3 a b =
     (if b = 0 then Some (if a = 0 then 1 else 0)
      else if \<bar>sint b\<bar> = 1 \<and> 2 ^ 30 < \<bar>sint a\<bar> then None
      else Some (word_of_int (sint a sdiv sint b)))"
proof (cases "b = 0")
  case True
  then show ?thesis
    by (auto simp: divsi3_long_abs long_abs_def divmodsi4_zero exitdiv_def)
next
  case b: False
  show ?thesis
  proof (cases "long_abs b = 1 \<and> 2 ^ 30 < unat (long_abs a)")
    case True
    show ?thesis
    proof -
      have "divmodsi4 False (long_abs a) (long_abs b) = None"
        using True by (metis divmodsi4_hang)
      moreover have "\<bar>sint b\<bar> = 1 \<and> 2 ^ 30 < \<bar>sint a\<bar>"
        using True by (simp add: long_abs_1_iff long_abs_big)
      ultimately show ?thesis
        using b by (simp add: divsi3_long_abs)
    qed
  next
    case False
    have "exitdiv ((a <s 0) \<noteq> (b <s 0)) (long_abs a div long_abs b) = word_of_int (sint a sdiv sint b)"
      using b by (auto simp: exitdiv_def long_abs_div slt0_sgn signed_divide_int_def sgn_if abs_if wi_hom_neg
          simp flip: wi_hom_neg)
    with False show ?thesis
      using b by (simp add: divsi3_long_abs divmodsi4_ok long_abs_0_iff long_abs_1_iff long_abs_big)
  qed
qed

text \<open>
  \<open>__modsi3\<close> is C's remainder, with the sign of the dividend, under the same two exceptions.
\<close>

theorem modsi3_spec:
  "modsi3 a b =
     (if b = 0 then Some a
      else if \<bar>sint b\<bar> = 1 \<and> 2 ^ 30 < \<bar>sint a\<bar> then None
      else Some (word_of_int (sint a smod sint b)))"
proof (cases "b = 0")
  case True
  then show ?thesis
    by (auto simp: modsi3_long_abs long_abs_def divmodsi4_zero)
next
  case b: False
  show ?thesis
  proof (cases "long_abs b = 1 \<and> 2 ^ 30 < unat (long_abs a)")
    case True
    show ?thesis
    proof -
      have "divmodsi4 True (long_abs a) (long_abs b) = None"
        using True by (metis divmodsi4_hang)
      moreover have "\<bar>sint b\<bar> = 1 \<and> 2 ^ 30 < \<bar>sint a\<bar>"
        using True by (simp add: long_abs_1_iff long_abs_big)
      ultimately show ?thesis
        using b by (simp add: modsi3_long_abs)
    qed
  next
    case False
    have "(if a <s 0 then - (long_abs a mod long_abs b) else long_abs a mod long_abs b) = word_of_int (sint a smod sint b)"
      using b by (auto simp: long_abs_mod slt0_sgn signed_modulo_int_def sgn_if abs_if simp flip: wi_hom_neg)
    with False show ?thesis
      using b by (simp add: modsi3_long_abs divmodsi4_ok long_abs_0_iff long_abs_1_iff long_abs_big)
  qed
qed

text \<open>
  \<open>__aeabi_uidiv\<close> agrees with the unsigned division while both operands are below \<open>2 ^ 31\<close>.
\<close>

theorem aeabi_uidiv_small:
  assumes "unat a < 2 ^ 31" and "unat b < 2 ^ 31"
  shows "aeabi_uidiv a b = udivsi3 a b"
proof -
  have "\<not> a <s 0" "\<not> b <s 0"
    using assms by (simp_all add: slt0_iff_unat)
  then show ?thesis
    by (cases "divmodsi4 False a b")
      (simp_all add: aeabi_uidiv_def udivsi3_def divsi3_def divnorm_def exitdiv_def)
qed

theorem aeabi_uidiv_small_witness: "aeabi_uidiv 100 7 = udivsi3 100 7"
  using aeabi_uidiv_small [of 100 7] by simp

text \<open>
  \<open>__aeabi_uidiv\<close> is the unsigned division of the ARM run-time ABI, but the code declares
  its operands \<open>long\<close> and calls the signed routine: above \<open>2 ^ 31\<close> the answer is wrong.
\<close>

lemma aeabi_uidiv_large_wrong:
  "aeabi_uidiv 0x80000000 2 = Some 0xC0000000 \<and> udivsi3 0x80000000 2 = Some 0x40000000"
  by (simp add: aeabi_uidiv_def divsi3_long_abs udivsi3_def long_abs_def slt0_iff_unat divmodsi4_ok exitdiv_def)

end
