(* ===== verification/Startup_Num.thy ===== *)
theory Startup_Num
  imports Prelude
begin

text \<open>
  Numbers and text in the startup library (\<open>src/hardware/startup/lib\<close>): the number parser
  \<open>strtopaddr\<close> with \<open>getsize\<close>'s unit suffixes, the digit writer of \<open>ultoa_end\<close>, the formatted
  output engine \<open>vmsg\<close> behind \<open>kprintf\<close>, \<open>ksprintf\<close> and \<open>crash\<close>, \<open>bcd2bin\<close> and the byte
  checksum. A C string is a HOL string without its terminating NUL; a \<open>char *\<close> that walks a
  string is the suffix it points at, so the empty suffix is the NUL. The call of \<open>mdriver_check\<close> that
  \<open>kprintf\<close> makes while it prints is left out: it polls the early drivers and writes no output.
\<close>

section \<open>Parsing numbers: \<open>strtoul.c\<close>, \<open>getsize.c\<close>\<close>

definition radix_value :: "char \<Rightarrow> int" where
  "radix_value ch =
     (let c = (of_char ch :: int)
      in if of_char (CHR ''0'') \<le> c \<and> c \<le> of_char (CHR ''9'') then c - of_char (CHR ''0'')
      else if of_char (CHR ''a'') \<le> c \<and> c \<le> of_char (CHR ''f'') then c - of_char (CHR ''a'') + 10
      else if of_char (CHR ''A'') \<le> c \<and> c \<le> of_char (CHR ''F'') then c - of_char (CHR ''A'') + 10
      else 37)"

fun hexstr :: "string \<Rightarrow> bool" where
  "hexstr (a # b # _) = (a = CHR ''0'' \<and> (b = CHR ''x'' \<or> b = CHR ''X''))"
| "hexstr _ = False"

text \<open>
  The digit loop. \<open>radix_value\<close> of the terminating NUL is 37, which ends the loop for every
  base the callers use (0, 2, 8, 10, 16).
\<close>

fun digits_loop :: "int \<Rightarrow> u32 \<Rightarrow> string \<Rightarrow> u32 \<times> string" where
  "digits_loop base val [] = (val, [])"
| "digits_loop base val (c # p) =
     (if base \<le> radix_value c then (val, c # p)
      else digits_loop base (val * of_int base + of_int (radix_value c)) p)"

definition strtopaddr :: "string \<Rightarrow> int \<Rightarrow> u32 \<times> string" where
  "strtopaddr nptr base =
     (let base = (if base = 0
                  then (if hexstr nptr then 16
                        else if nptr \<noteq> [] \<and> hd nptr = CHR ''0'' then 8 else 10)
                  else base);
          startp = (if base = 16 \<and> hexstr nptr then drop 2 nptr else nptr);
          (val, p) = digits_loop base 0 startp
      in (val, if p = startp then nptr else p))"

definition strtoul :: "string \<Rightarrow> int \<Rightarrow> u32 \<times> string" where
  "strtoul nptr base = strtopaddr nptr base"

definition getsize :: "string \<Rightarrow> u32 \<times> string" where
  "getsize str =
     (let (v, s) = strtopaddr str 0
      in case s of
           [] \<Rightarrow> (v, s)
         | ch # rest \<Rightarrow>
             (if ch = CHR ''G'' \<or> ch = CHR ''g'' then (v * 1024 * 1024 * 1024, rest)
              else if ch = CHR ''M'' \<or> ch = CHR ''m'' then (v * 1024 * 1024, rest)
              else if ch = CHR ''K'' \<or> ch = CHR ''k'' then (v * 1024, rest)
              else (v, s)))"

section \<open>Writing numbers: \<open>ultoa_end.c\<close>\<close>

definition digit_chars :: string where
  "digit_chars = ''0123456789abcdef''"

text \<open>
  The \<open>do ... while\<close> loop that fills a buffer from its end, with the digits already written
  as accumulator. Both \<open>ultoa_end\<close> and \<open>vmsg\<close> contain it; the radix is 2 to 16.
\<close>

function write_digits :: "nat \<Rightarrow> nat \<Rightarrow> string \<Rightarrow> string" where
  "write_digits radix v acc =
     (let acc' = (digit_chars ! (v mod radix)) # acc; v' = v div radix
      in if v' = 0 \<or> radix < 2 then acc' else write_digits radix v' acc')"
  by pat_completeness auto
termination
  by (relation "measure (\<lambda>(radix, v, acc). v)") (auto intro!: div_less_dividend intro: gr0I)

declare write_digits.simps [simp del]

definition ultoa_end :: "u32 \<Rightarrow> nat \<Rightarrow> string" where
  "ultoa_end v radix = write_digits radix (unat v) []"

section \<open>Formatted output: \<open>kprintf.c\<close>\<close>

text \<open>
  The variable arguments are a list of typed values. \<^term>\<open>None\<close> is undefined behaviour of
  the C code: an argument of the wrong type or a missing one, or a format that ends in a
  lone \<open>%\<close> (the loop then steps over the terminating NUL).
\<close>

datatype vararg = ArgUnsigned u32 | ArgU64 u64 | ArgString string

definition one_char :: "char \<Rightarrow> string" where
  "one_char c = (if c = CHR 0x0A then [CHR 0x0D, c] else [c])"

definition number_out :: "nat \<Rightarrow> nat \<Rightarrow> nat \<Rightarrow> string" where
  "number_out num dig radix =
     (let vs = write_digits radix num []
      in replicate (dig - length vs) (CHR ''0'') @ vs)"

fun vmsg :: "string \<Rightarrow> vararg list \<Rightarrow> string option" where
  "vmsg [] args = Some []"
| "vmsg [c] args = (if c = CHR ''%'' then None else Some (one_char c))"
| "vmsg (c # d # fmt) args =
     (if c \<noteq> CHR ''%'' then map_option ((@) (one_char c)) (vmsg (d # fmt) args)
      else if d = CHR ''b'' then
        (case args of ArgUnsigned n # as \<Rightarrow> map_option ((@) (number_out (unat n) 2 16)) (vmsg fmt as)
         | _ \<Rightarrow> None)
      else if d = CHR ''w'' then
        (case args of ArgUnsigned n # as \<Rightarrow> map_option ((@) (number_out (unat n) 4 16)) (vmsg fmt as)
         | _ \<Rightarrow> None)
      else if d = CHR ''P'' \<or> d = CHR ''x'' \<or> d = CHR ''X'' \<or> d = CHR ''l'' then
        (case args of ArgUnsigned n # as \<Rightarrow> map_option ((@) (number_out (unat n) 8 16)) (vmsg fmt as)
         | _ \<Rightarrow> None)
      else if d = CHR ''L'' then
        (case args of ArgU64 n # as \<Rightarrow> map_option ((@) (number_out (unat n) 16 16)) (vmsg fmt as)
         | _ \<Rightarrow> None)
      else if d = CHR ''d'' \<or> d = CHR ''u'' then
        (case args of ArgUnsigned n # as \<Rightarrow> map_option ((@) (number_out (unat n) 0 10)) (vmsg fmt as)
         | _ \<Rightarrow> None)
      else if d = CHR ''s'' then
        (case args of ArgString s # as \<Rightarrow> map_option ((@) (concat (map one_char s))) (vmsg fmt as)
         | _ \<Rightarrow> None)
      else map_option ((@) (one_char d)) (vmsg fmt args))"

definition ksprintf :: "string \<Rightarrow> vararg list \<Rightarrow> string option" where
  "ksprintf fmt args = vmsg fmt args"

section \<open>BCD and the byte checksum\<close>

definition bcd2bin :: "u32 \<Rightarrow> u32" where
  "bcd2bin a =
     drop_bit 12 (a AND 0xf000) * 1000 + drop_bit 8 (a AND 0xf00) * 100
     + drop_bit 4 (a AND 0xf0) * 10 + (a AND 0xf)"

fun cksum_loop :: "u32 \<Rightarrow> u8 list \<Rightarrow> u32" where
  "cksum_loop s [] = s"
| "cksum_loop s (b # cp) = cksum_loop (s + ucast b) cp"

definition calc_cksum :: "u8 list \<Rightarrow> u32" where
  "calc_cksum mem = cksum_loop 0 mem AND 0xFF"

section \<open>Digits written are digits read\<close>

lemma radix_value_digit: "k < 16 \<Longrightarrow> radix_value (digit_chars ! k) = int k"
proof -
  assume "k < 16"
  then have "k \<in> set [0..<16]" by simp
  moreover have "\<forall>k \<in> set [0..<16]. radix_value (digit_chars ! k) = int k"
    by (simp add: radix_value_def digit_chars_def upt_conv_Cons)
  ultimately show ?thesis by blast
qed

lemma digits_loop_zero: "1 \<le> base \<Longrightarrow> digits_loop base 0 (replicate n (CHR ''0'') @ s) = digits_loop base 0 s"
  by (induction n) (simp_all add: radix_value_def)

lemma digits_loop_write_digits:
  assumes "2 \<le> r" "r \<le> 16"
  shows "digits_loop (int r) 0 (write_digits r v acc) = digits_loop (int r) (of_nat v) acc"
  using assms
proof (induction r v acc rule: write_digits.induct)
  case (1 r v acc)
  have digit: "radix_value (digit_chars ! (v mod r)) = int (v mod r)"
    using "1.prems" by (intro radix_value_digit) (simp add: order_less_le_trans [OF mod_less_divisor])
  have lt: "\<not> int r \<le> int (v mod r)"
    using "1.prems" by (simp add: not_le)
  show ?case
  proof (cases "v div r = 0")
    case True
    then have "v mod r = v" by (metis add_0 div_mult_mod_eq mult_0)
    with True show ?thesis
      using digit lt by (subst write_digits.simps) (simp add: Let_def)
  next
    case False
    have "of_nat (v div r) * of_int (int r) + of_int (int (v mod r)) = (of_nat v :: u32)"
      by (metis div_mult_mod_eq of_int_of_nat_eq of_nat_add of_nat_mult)
    moreover have "write_digits r v acc = write_digits r (v div r) ((digit_chars ! (v mod r)) # acc)"
      using False "1.prems" by (subst write_digits.simps) (simp add: Let_def)
    ultimately show ?thesis
      using "1.IH" [OF refl refl] False "1.prems" digit lt by simp
  qed
qed

lemma write_digits_chars:
  assumes "2 \<le> r" "r \<le> 16" "set acc \<subseteq> set digit_chars"
  shows "set (write_digits r v acc) \<subseteq> set digit_chars \<and> write_digits r v acc \<noteq> []"
  using assms
proof (induction r v acc rule: write_digits.induct)
  case (1 r v acc)
  have "v mod r < length digit_chars"
    using "1.prems" by (simp add: digit_chars_def order_less_le_trans [OF mod_less_divisor])
  then have "digit_chars ! (v mod r) \<in> set digit_chars" by (rule nth_mem)
  then show ?case
    using "1.IH" [OF refl refl] "1.prems" by (subst (1 2) write_digits.simps) (auto simp: Let_def)
qed

lemma strtopaddr_digits:
  assumes "2 \<le> r" "r \<le> 16" "set s \<subseteq> set digit_chars" "s \<noteq> []"
    and "digits_loop (int r) 0 s = (v, [])"
  shows "strtopaddr s (int r) = (v, [])"
proof -
  have "\<not> hexstr s"
    using assms(3) by (cases s rule: hexstr.cases) (auto simp: digit_chars_def)
  then show ?thesis
    using assms by (auto simp: strtopaddr_def)
qed

lemma strtopaddr_number_out:
  assumes "2 \<le> r" "r \<le> 16"
  shows "strtopaddr (number_out n dig r) (int r) = (of_nat n, [])"
proof (rule strtopaddr_digits [OF assms])
  show "set (number_out n dig r) \<subseteq> set digit_chars"
    using write_digits_chars [OF assms, of "[]" n]
    by (auto simp: number_out_def Let_def digit_chars_def)
  show "number_out n dig r \<noteq> []"
    using write_digits_chars [OF assms, of "[]" n] by (simp add: number_out_def Let_def)
  show "digits_loop (int r) 0 (number_out n dig r) = (of_nat n, [])"
    using assms digits_loop_write_digits [OF assms, of n "[]"] digits_loop_zero
    by (simp add: number_out_def Let_def)
qed

lemma ultoa_end_number_out: "ultoa_end v r = number_out (unat v) 0 r"
  by (simp add: ultoa_end_def number_out_def Let_def)

text \<open>
  C25: parsing what \<open>ultoa_end\<close> printed in a base gives the number back and stops at the end.
\<close>

theorem strtopaddr_ultoa_end:
  assumes "2 \<le> r" "r \<le> 16"
  shows "strtopaddr (ultoa_end v r) (int r) = (v, [])"
  using strtopaddr_number_out [OF assms, of "unat v" 0] by (simp add: ultoa_end_number_out)

theorem strtopaddr_ultoa_end_witness: "strtopaddr (ultoa_end 4096 10) 10 = (4096, [])"
  using strtopaddr_ultoa_end [of 10 4096] by simp

text \<open>The number of digits: a value below \<open>radix ^ k\<close> has at most \<open>k\<close>, so padding is exact.\<close>

lemma length_write_digits:
  assumes "2 \<le> r" "v < r ^ k" "0 < k"
  shows "length (write_digits r v acc) \<le> k + length acc"
  using assms
proof (induction k arbitrary: v acc)
  case (Suc k)
  show ?case
  proof (cases "v div r = 0")
    case True
    then show ?thesis by (subst write_digits.simps) simp
  next
    case False
    then have "0 < k" using Suc.prems by (cases k) auto
    moreover have "v div r < r ^ k" using Suc.prems by (simp add: less_mult_imp_div_less mult.commute)
    ultimately show ?thesis
      using Suc.IH [of "v div r" "(digit_chars ! (v mod r)) # acc"] Suc.prems False
      by (subst write_digits.simps) (simp add: Let_def)
  qed
qed simp

text \<open>
  C26: a field \<open>%x\<close> of \<open>kprintf\<close> prints eight characters, from which \<open>strtoul\<close>'s loop reads the
  same number back.
\<close>

theorem vmsg_hex:
  "\<exists>s. vmsg ''%x'' [ArgUnsigned v] = Some s \<and> length s = 8 \<and> strtopaddr s 16 = (v, [])"
proof -
  have "length (write_digits 16 (unat v) []) \<le> 8"
    using length_write_digits [of 16 "unat v" 8 "[]"] unat_lt32 [of v] by simp
  then have "length (number_out (unat v) 8 16) = 8" by (simp add: number_out_def Let_def)
  moreover have "strtopaddr (number_out (unat v) 8 16) 16 = (v, [])"
    using strtopaddr_number_out [of 16 "unat v" 8] by simp
  ultimately show ?thesis by simp
qed

lemma cksum_loop_sum: "cksum_loop s bs = s + of_nat (sum_list (map unat bs))"
  by (induction bs arbitrary: s) (simp_all add: add.assoc)

text \<open>
  \<open>calc_cksum\<close> is the sum of the bytes modulo 256.
\<close>

theorem calc_cksum_sum: "unat (calc_cksum bs) = sum_list (map unat bs) mod 256"
proof -
  have "(0xFF :: u32) = mask 8" by (simp add: mask_eq_exp_minus_1)
  then have "calc_cksum bs = take_bit 8 (of_nat (sum_list (map unat bs)))"
    by (simp add: calc_cksum_def cksum_loop_sum take_bit_eq_mask)
  then show ?thesis
    by (simp only: unsigned_take_bit_eq unsigned_of_nat) (simp add: take_bit_eq_mod mod_mod_cancel)
qed

section \<open>Unit suffixes\<close>

lemma write_digits_append: "write_digits r v (a @ b) = write_digits r v a @ b"
proof (induction r v a rule: write_digits.induct)
  case (1 r v a)
  then show ?case
    by (subst (1 2) write_digits.simps) (auto simp: Let_def)
qed

lemma hd_write_digits:
  assumes "2 \<le> r" "r \<le> 16" "v \<noteq> 0"
  shows "hd (write_digits r v acc) \<noteq> CHR ''0''"
  using assms
proof (induction r v acc rule: write_digits.induct)
  case (1 r v acc)
  have d: "digit_chars ! k \<noteq> CHR ''0''" if "k < 16" "k \<noteq> 0" for k
  proof
    assume "digit_chars ! k = CHR ''0''"
    then show False using radix_value_digit [OF that(1)] that(2) by (simp add: radix_value_def)
  qed
  show ?case
  proof (cases "v div r = 0")
    case True
    then have "v mod r = v" "v < r" using "1.prems" by (auto simp: div_eq_0_iff)
    then show ?thesis using True d [of v] "1.prems" by (subst write_digits.simps) (simp add: Let_def)
  next
    case False
    then show ?thesis
      using "1.IH" [OF refl refl] "1.prems" by (subst write_digits.simps) (simp add: Let_def)
  qed
qed

lemma strtopaddr_decimal_suffix:
  assumes "v \<noteq> 0" "rest \<noteq> []" "radix_value (hd rest) = 37" "hd rest \<noteq> CHR ''x''" "hd rest \<noteq> CHR ''X''"
  shows "strtopaddr (ultoa_end v 10 @ rest) 0 = (v, rest)"
proof -
  have v: "unat v \<noteq> 0" using assms(1) by (simp add: unat_eq_0)
  have w: "ultoa_end v 10 @ rest = write_digits 10 (unat v) rest"
    using write_digits_append [of 10 "unat v" "[]" rest] by (simp add: ultoa_end_def)
  have hd: "hd (ultoa_end v 10 @ rest) \<noteq> CHR ''0''"
    using hd_write_digits [of 10 "unat v" rest] v by (simp add: w)
  then have nh: "\<not> hexstr (ultoa_end v 10 @ rest)"
    by (cases "ultoa_end v 10 @ rest" rule: hexstr.cases) auto
  have "digits_loop 10 0 (ultoa_end v 10 @ rest) = (v, rest)"
    unfolding w using digits_loop_write_digits [of 10 "unat v" rest] assms(2,3)
    by (cases rest) simp_all
  moreover have "ultoa_end v 10 \<noteq> []"
    using write_digits_chars [of 10 "[]" "unat v"] by (simp add: ultoa_end_def)
  ultimately show ?thesis
    using hd nh by (simp add: strtopaddr_def)
qed

text \<open>
  \<open>getsize\<close> on a printed decimal number and a unit suffix is the number scaled by the unit,
  modulo \<open>2 ^ 32\<close>.
\<close>

lemma getsize_suffix:
  assumes "v \<noteq> 0"
  shows "getsize (ultoa_end v 10 @ ''K'' @ rest) = (v * 1024, rest) \<and>
         getsize (ultoa_end v 10 @ ''M'' @ rest) = (v * 1048576, rest) \<and>
         getsize (ultoa_end v 10 @ ''G'' @ rest) = (v * 1073741824, rest)"
  using assms
  by (simp add: getsize_def strtopaddr_decimal_suffix radix_value_def)

section \<open>BCD\<close>

lemma nibble: "unat (drop_bit n a AND 0xf :: u32) = unat a div 2 ^ n mod 16"
proof -
  have "drop_bit n a AND 0xf = take_bit 4 (drop_bit n a)"
    by (simp add: take_bit_eq_mask mask_eq_exp_minus_1)
  then show ?thesis
    by (simp only: unsigned_take_bit_eq unat_drop_bit) (simp add: take_bit_eq_mod)
qed

text \<open>
  \<open>bcd2bin\<close> reads the low four BCD digits of its argument.
\<close>

theorem bcd2bin_digits:
  "unat (bcd2bin a) =
     unat a div 4096 mod 16 * 1000 + unat a div 256 mod 16 * 100 + unat a div 16 mod 16 * 10 + unat a mod 16"
proof -
  have "drop_bit 12 (a AND 0xf000) = drop_bit 12 a AND 0xf" "drop_bit 8 (a AND 0xf00) = drop_bit 8 a AND 0xf"
    "drop_bit 4 (a AND 0xf0) = drop_bit 4 a AND 0xf" "a AND 0xf = drop_bit 0 a AND 0xf"
    by (simp_all add: drop_bit_and)
  note f = this
  have n: "unat (drop_bit n a AND 0xf) \<le> 15" for n by (simp add: nibble)
  show ?thesis
    using n [of 12] n [of 8] n [of 4] n [of 0] nibble [of 0 a]
    by (simp only: bcd2bin_def f) (simp add: unat_word_ariths nibble)
qed

end
