(* ===== verification/Startup_Time.thy ===== *)
theory Startup_Time
  imports Prelude
begin

text \<open>
  Calendar time and timer scaling in the startup library: \<open>_gmtime\<close> (\<open>gmtime.c\<close>),
  \<open>calc_time_t\<close> (\<open>calc_time_t.c\<close>) and \<open>invert_timer_freq\<close> (\<open>invert_timer_freq.c\<close>), all under
  \<open>src/hardware/startup/lib\<close>. \<open>time_t\<close> and \<open>unsigned long\<close> are 32 bits wide. The loops of
  \<open>_gmtime\<close> only divide and subtract what is there, so they are on naturals;
  \<open>calc_time_t\<close> adds and multiplies and is on words, as is \<open>invert_timer_freq\<close>.
\<close>

section \<open>Calendar\<close>

record tm =
  tm_sec :: int
  tm_min :: int
  tm_hour :: int
  tm_mday :: int
  tm_mon :: int
  tm_year :: int
  tm_wday :: int
  tm_yday :: int

definition mdays :: "bool \<Rightarrow> nat list" where
  "mdays leap = (if leap then [31, 29, 31, 30, 31, 30, 31, 31, 30, 31, 30, 31]
                 else [31, 28, 31, 30, 31, 30, 31, 31, 30, 31, 30, 31])"

function gm_year :: "nat \<Rightarrow> nat \<Rightarrow> nat \<times> nat" where
  "gm_year year days =
     (let t = 365 + (if (year + 2) mod 4 = 0 then 1 else 0)
      in if t > days then (year, days) else gm_year (Suc year) (days - t))"
  by pat_completeness auto
termination
  by (relation "measure (\<lambda>(year, days). days)") auto

declare gm_year.simps [simp del]

text \<open>The month loop: \<open>mon\<close> counts the entries of the year's table that were passed.\<close>

fun gm_mon :: "nat list \<Rightarrow> nat \<Rightarrow> nat \<Rightarrow> nat \<times> nat" where
  "gm_mon [] mon days = (mon, days)"
| "gm_mon (t # ts) mon days = (if t > days then (mon, days) else gm_mon ts (Suc mon) (days - t))"

definition gmtime :: "u32 \<Rightarrow> tm" where
  "gmtime timer =
     (let days = unat timer div (60 * 60 * 24);
          secs = unat timer mod (60 * 60 * 24);
          wday = (days + 4) mod 7;
          (year, yday) = gm_year 0 days;
          (mon, mday) = gm_mon (mdays ((year + 2) mod 4 = 0)) 0 yday
      in \<lparr>tm_sec = int (secs mod 60), tm_min = int (secs div 60 mod 60), tm_hour = int (secs div 60 div 60),
          tm_mday = int (mday + 1), tm_mon = int mon, tm_year = int (year + 70),
          tm_wday = int wday, tm_yday = int yday\<rparr>)"

definition month_sec :: "u32 list" where
  "month_sec = [0, 2678400, 5097600, 7776000, 10368000, 13046400,
                15638400, 18316800, 20995200, 23587200, 26265600, 28857600]"

abbreviation SEC_PER_DAY :: u32 where
  "SEC_PER_DAY \<equiv> 24 * (60 * 60)"

text \<open>\<^term>\<open>None\<close> is the read of \<open>month_sec\<close> out of its bounds.\<close>

definition calc_time_t :: "tm \<Rightarrow> u32 option" where
  "calc_time_t tm =
     (if tm_mon tm < 0 \<or> 12 \<le> tm_mon tm then None
      else
        (let year = of_int (tm_year tm - 70) :: u32;
             sec = (year * 365 + drop_bit 2 (year + 1)) * SEC_PER_DAY;
             sec = sec + month_sec ! nat (tm_mon tm);
             year = of_int (tm_year tm + 1900) :: u32;
             sec = (if 2 \<le> tm_mon tm \<and> year mod 4 = 0 \<and> (year mod 100 \<noteq> 0 \<or> year mod 400 = 0)
                    then sec + SEC_PER_DAY else sec);
             sec = sec + of_int (tm_mday tm - 1) * SEC_PER_DAY;
             sec = sec + of_int (tm_hour tm) * (60 * 60);
             sec = sec + of_int (tm_min tm) * 60
         in Some (sec + of_int (tm_sec tm))))"

section \<open>Round trip\<close>

lemma gm_year_spec:
  assumes "gm_year y0 d0 = (y, d)"
  shows "365 * y0 + (y0 + 1) div 4 + d0 = 365 * y + (y + 1) div 4 + d \<and>
         d < 365 + (if (y + 2) mod 4 = 0 then 1 else 0)"
  using assms
proof (induction y0 d0 rule: gm_year.induct)
  case (1 y0 d0)
  let ?t = "365 + (if (y0 + 2) mod 4 = 0 then 1 else 0 :: nat)"
  show ?case
  proof (cases "?t > d0")
    case True
    with "1.prems" show ?thesis by (subst (asm) gm_year.simps) (auto simp: Let_def split: if_splits)
  next
    case False
    then have rec: "gm_year (Suc y0) (d0 - ?t) = (y, d)"
      using "1.prems" by (subst (asm) gm_year.simps) (simp add: Let_def)
    have step: "(Suc y0 + 1) div 4 = (y0 + 1) div 4 + (if (y0 + 2) mod 4 = 0 then 1 else 0 :: nat)"
      by (simp, presburger)
    show ?thesis
      using "1.IH" [OF refl False rec] False step by (simp split: if_splits)
  qed
qed

text \<open>Cumulative day counts before each month of a year.\<close>

definition cum_days :: "bool \<Rightarrow> nat \<Rightarrow> nat" where
  "cum_days leap mon = sum_list (take mon (mdays leap))"

lemma gm_mon_spec:
  "gm_mon ts mon days = (m, d) \<Longrightarrow> days < sum_list ts \<Longrightarrow>
     mon \<le> m \<and> m - mon < length ts \<and> days = sum_list (take (m - mon) ts) + d \<and> d < ts ! (m - mon)"
proof (induction ts mon days rule: gm_mon.induct)
  case (2 t ts mon days)
  show ?case
  proof (cases "t > days")
    case True
    with 2 show ?thesis by auto
  next
    case False
    then have "Suc mon \<le> m \<and> m - Suc mon < length ts \<and>
        days - t = sum_list (take (m - Suc mon) ts) + d \<and> d < ts ! (m - Suc mon)"
      using 2 by simp
    moreover from this have "m - mon = Suc (m - Suc mon)" by linarith
    moreover obtain r where "days = t + r" using False by (metis le_Suc_ex not_less)
    ultimately show ?thesis by simp
  qed
qed simp

lemma cum_days_leap: "m < 12 \<Longrightarrow> cum_days True m = cum_days False m + (if 2 \<le> m then 1 else 0)"
proof -
  have "\<forall>m \<in> set [0..<12]. cum_days True m = cum_days False m + (if 2 \<le> m then 1 else 0)"
    by (simp add: cum_days_def mdays_def upt_conv_Cons)
  then show "m < 12 \<Longrightarrow> ?thesis" by simp
qed

lemma month_sec_cum: "m < 12 \<Longrightarrow> month_sec ! m = of_nat (cum_days False m * 86400)"
proof -
  have "\<forall>m \<in> set [0..<12]. month_sec ! m = of_nat (cum_days False m * 86400)"
    by (simp add: month_sec_def cum_days_def mdays_def upt_conv_Cons)
  then show "m < 12 \<Longrightarrow> ?thesis" by simp
qed

lemma cum_days_ge2: "m < 12 \<Longrightarrow> d < mdays True ! m \<Longrightarrow> (60 \<le> cum_days True m + d) = (2 \<le> m)"
proof -
  have "\<forall>m \<in> set [0..<12]. \<forall>d < mdays True ! m. (60 \<le> cum_days True m + d) = (2 \<le> m)"
    by (simp add: cum_days_def mdays_def upt_conv_Cons) 
  then show "m < 12 \<Longrightarrow> d < mdays True ! m \<Longrightarrow> ?thesis" by simp
qed

lemma calc_time_t_fields:
  assumes y: "y \<le> 1000" and m: "m < 12"
  shows "calc_time_t \<lparr>tm_sec = int s, tm_min = int mi, tm_hour = int h, tm_mday = int (d + 1), tm_mon = int m,
           tm_year = int (y + 70), tm_wday = wd, tm_yday = yd\<rparr> =
    Some (of_nat ((365 * y + (y + 1) div 4 + cum_days False m +
       (if 2 \<le> m \<and> (y + 1970) mod 4 = 0 \<and> ((y + 1970) mod 100 \<noteq> 0 \<or> (y + 1970) mod 400 = 0) then 1 else 0) + d)
       * 86400 + h * 3600 + mi * 60 + s))"
proof -
  obtain Q where Q: "(y + 1) div 4 = Q" by simp
  have q: "drop_bit 2 (of_nat y + 1 :: u32) = of_nat Q"
  proof -
    have "unat (of_nat y + 1 :: u32) = y + 1"
      using y by (simp add: unat_word_ariths unsigned_of_nat take_bit_eq_mod)
    then show ?thesis using y Q
      by (simp add: word_unat_eq_iff unat_drop_bit unsigned_of_nat take_bit_eq_mod)
  qed
  have r: "((1970 + of_nat y :: u32) mod k = 0) = ((y + 1970) mod unat k = 0)" for k
  proof -
    have "unat (1970 + of_nat y :: u32) = y + 1970"
      using y by (simp add: unat_word_ariths unsigned_of_nat take_bit_eq_mod)
    then show ?thesis by (simp only: word_unat_eq_iff unat_mod_distrib unat_0)
  qed
  define C where "C = (2 \<le> m \<and> (y + 1970) mod 4 = 0 \<and> ((y + 1970) mod 100 \<noteq> 0 \<or> (y + 1970) mod 400 = 0))"
  have r': "((1970 + of_nat y :: u32) mod 4 = 0) = ((y + 1970) mod 4 = 0)"
    "((1970 + of_nat y :: u32) mod 100 = 0) = ((y + 1970) mod 100 = 0)"
    "((1970 + of_nat y :: u32) mod 400 = 0) = ((y + 1970) mod 400 = 0)"
    using r [of 4] r [of 100] r [of 400] by simp_all
  have "calc_time_t \<lparr>tm_sec = int s, tm_min = int mi, tm_hour = int h, tm_mday = int (d + 1), tm_mon = int m,
      tm_year = int (y + 70), tm_wday = wd, tm_yday = yd\<rparr> =
    Some ((of_nat y * 365 + of_nat Q) * 86400 + of_nat (cum_days False m * 86400) + (if C then 86400 else 0)
      + of_nat d * 86400 + of_nat h * 3600 + of_nat mi * 60 + of_nat s)"
    using month_sec_cum [OF m] m by (auto simp: calc_time_t_def Let_def q r' C_def)
  then show ?thesis
    unfolding Q C_def [symmetric] by (simp add: algebra_simps)
qed

lemma calc_time_t_of_gmtime:
  "calc_time_t (gmtime t) =
     Some (if 4107628800 \<le> unat t \<and> unat t < 4134067200 then t - 86400 else t)"
proof -
  define D where "D = unat t div 86400"
  define sc where "sc = unat t mod 86400"
  obtain y yd where gy: "gm_year 0 D = (y, yd)" by fastforce
  define leap where "leap = ((y + 2) mod 4 = 0)"
  obtain m d where gm: "gm_mon (mdays leap) 0 yd = (m, d)" by fastforce
  have ys: "D = 365 * y + (y + 1) div 4 + yd" "yd < 365 + (if leap then 1 else 0)"
    using gm_year_spec [OF gy] by (simp_all add: leap_def)
  have "yd < sum_list (mdays leap)" using ys(2) by (cases leap) (simp_all add: mdays_def)
  from gm_mon_spec [OF gm this] have ms: "m < 12" "yd = cum_days leap m + d" "d < mdays leap ! m"
    by (simp_all add: cum_days_def mdays_def split: if_splits)
  have tD: "unat t = D * 86400 + sc" by (simp add: D_def sc_def)
  have "D \<le> 49710" using unat_lt32 [of t] by (simp add: D_def)
  then have y136: "y \<le> 136" using ys by linarith
  have hms: "sc div 60 div 60 * 3600 + sc div 60 mod 60 * 60 + sc mod 60 = sc"
  proof -
    have "sc div 60 div 60 * 60 + sc div 60 mod 60 = sc div 60" "sc div 60 * 60 + sc mod 60 = sc"
      by (rule div_mult_mod_eq)+
    then show ?thesis by linarith
  qed
  have sc: "sc < 86400" by (simp add: sc_def)
  let ?cal = "2 \<le> m \<and> (y + 1970) mod 4 = 0 \<and> ((y + 1970) mod 100 \<noteq> 0 \<or> (y + 1970) mod 400 = 0)"
  let ?N = "(365 * y + (y + 1) div 4 + cum_days False m + (if ?cal then 1 else 0) + d) * 86400 + sc"
  have calc: "calc_time_t (gmtime t) = Some (of_nat ?N)"
  proof -
    have g: "gmtime t = \<lparr>tm_sec = int (sc mod 60), tm_min = int (sc div 60 mod 60),
        tm_hour = int (sc div 60 div 60), tm_mday = int (d + 1), tm_mon = int m,
        tm_year = int (y + 70), tm_wday = int ((D + 4) mod 7), tm_yday = int yd\<rparr>"
      using gy gm by (simp add: gmtime_def D_def sc_def leap_def Let_def)
    have "(365 * y + (y + 1) div 4 + cum_days False m + (if ?cal then 1 else 0) + d) * 86400
        + sc div 60 div 60 * 3600 + sc div 60 mod 60 * 60 + sc mod 60 = ?N"
      using hms by linarith
    then show ?thesis
      unfolding g using y136 ms(1) by (subst calc_time_t_fields) (simp_all only:)
  qed
  have cumleap: "cum_days leap m = cum_days False m + (if leap \<and> 2 \<le> m then 1 else 0)"
    using cum_days_leap [OF ms(1)] by (cases leap) simp_all
  show ?thesis
  proof (cases "y = 130 \<and> 2 \<le> m")
    case True
    then have leap: leap by (simp add: leap_def)
    then have "60 \<le> yd" using cum_days_ge2 ms True by simp
    then have "47542 \<le> D" "D < 47848" using True ys leap by simp_all
    then have rng: "4107628800 \<le> unat t" "unat t < 4134067200" using tD sc by linarith+
    have "\<not> ?cal" using True by simp
    then have "?N + 86400 = unat t" using tD ys(1) ms(2) cumleap leap True by simp
    then have "(of_nat (?N + 86400) :: u32) = of_nat (unat t)" by simp
    then have "of_nat ?N = t - 86400" by (simp only: of_nat_add of_nat_numeral of_nat_unat ucast_id eq_diff_eq)
    then show ?thesis using rng calc by simp
  next
    case False
    have "?cal = (leap \<and> 2 \<le> m)"
    proof -
      have "y \<noteq> 130 \<Longrightarrow> ((y + 1970) mod 4 = 0 \<and> ((y + 1970) mod 100 \<noteq> 0 \<or> (y + 1970) mod 400 = 0)) = leap"
      proof -
        assume "y \<noteq> 130"
        moreover have "(y + 1970) mod 100 = 0 \<Longrightarrow> y = 30 \<or> y = 130"
          using y136 by presburger
        moreover have "((y + 1970) mod 4 = 0) = ((y + 2) mod 4 = 0)" by presburger
        ultimately show "((y + 1970) mod 4 = 0 \<and> ((y + 1970) mod 100 \<noteq> 0 \<or> (y + 1970) mod 400 = 0)) = leap"
          unfolding leap_def by (cases "y = 30") (simp, metis)
      qed
      then show ?thesis using False by auto
    qed
    then have N: "?N = unat t" using tD ys(1) ms(2) cumleap by simp
    have "\<not> (4107628800 \<le> unat t \<and> unat t < 4134067200)"
    proof
      assume "4107628800 \<le> unat t \<and> unat t < 4134067200"
      then have D: "47542 \<le> D" "D < 47848" using tD sc by linarith+
      then have y: "y = 130" using ys by (auto split: if_splits)
      then have leap "60 \<le> yd" using D ys by (simp_all add: leap_def)
      then have "2 \<le> m" using cum_days_ge2 ms by simp
      then show False using y False by simp
    qed
    then show ?thesis unfolding calc N by simp
  qed
qed

text \<open>The fields of a date before 2070 are in their calendar ranges.\<close>

lemma gmtime_ranges:
  assumes "unat t < 3155760000"
  shows "0 \<le> tm_sec (gmtime t) \<and> tm_sec (gmtime t) < 60" "0 \<le> tm_min (gmtime t) \<and> tm_min (gmtime t) < 60"
    "0 \<le> tm_hour (gmtime t) \<and> tm_hour (gmtime t) < 24" "1 \<le> tm_mday (gmtime t) \<and> tm_mday (gmtime t) \<le> 31"
    "0 \<le> tm_mon (gmtime t) \<and> tm_mon (gmtime t) < 12" "70 \<le> tm_year (gmtime t) \<and> tm_year (gmtime t) < 170"
proof -
  define D where "D = unat t div 86400"
  obtain y yd where gy: "gm_year 0 D = (y, yd)" by fastforce
  define leap where "leap = ((y + 2) mod 4 = 0)"
  obtain m d where gm: "gm_mon (mdays leap) 0 yd = (m, d)" by fastforce
  have ys: "D = 365 * y + (y + 1) div 4 + yd" "yd < 365 + (if leap then 1 else 0)"
    using gm_year_spec [OF gy] by (simp_all add: leap_def)
  have "yd < sum_list (mdays leap)" using ys(2) by (cases leap) (simp_all add: mdays_def)
  from gm_mon_spec [OF gm this] have ms: "m < 12" "d < mdays leap ! m"
    by (simp_all add: mdays_def split: if_splits)
  have "\<forall>n \<in> set (mdays leap). n \<le> 31" by (simp add: mdays_def)
  moreover have "mdays leap ! m \<in> set (mdays leap)" using ms(1) by (intro nth_mem) (simp add: mdays_def)
  ultimately have "d < 31" using ms(2) by fastforce
  have "D < 36525" using assms by (simp add: D_def less_mult_imp_div_less)
  then have "y < 100" using ys(1) by linarith
  have g: "gmtime t = \<lparr>tm_sec = int (unat t mod 86400 mod 60), tm_min = int (unat t mod 86400 div 60 mod 60),
      tm_hour = int (unat t mod 86400 div 60 div 60), tm_mday = int (d + 1), tm_mon = int m,
      tm_year = int (y + 70), tm_wday = int ((D + 4) mod 7), tm_yday = int yd\<rparr>"
    using gy gm by (simp add: gmtime_def D_def leap_def Let_def)
  have "unat t mod 86400 < 24 * (60 * 60)" by simp
  then have "unat t mod 86400 div 60 div 60 < 24" by (intro less_mult_imp_div_less) simp
  then show "0 \<le> tm_sec (gmtime t) \<and> tm_sec (gmtime t) < 60" "0 \<le> tm_min (gmtime t) \<and> tm_min (gmtime t) < 60"
    "0 \<le> tm_hour (gmtime t) \<and> tm_hour (gmtime t) < 24" "1 \<le> tm_mday (gmtime t) \<and> tm_mday (gmtime t) \<le> 31"
    "0 \<le> tm_mon (gmtime t) \<and> tm_mon (gmtime t) < 12" "70 \<le> tm_year (gmtime t) \<and> tm_year (gmtime t) < 170"
    unfolding g using \<open>d < 31\<close> \<open>y < 100\<close> ms(1) by simp_all
qed

text \<open>Only six fields are read.\<close>

lemma calc_time_t_cong:
  "calc_time_t (tm\<lparr>tm_wday := a, tm_yday := b\<rparr>) = calc_time_t tm"
  by (simp add: calc_time_t_def)

text \<open>
  C22: \<open>calc_time_t\<close> inverts \<open>_gmtime\<close> on every 32-bit time except March to December 2100:
  \<open>_gmtime\<close> takes 2100 for a leap year, \<open>calc_time_t\<close> does not.
\<close>

theorem calc_time_t_gmtime:
  "calc_time_t (gmtime t) =
     Some (if 4107628800 \<le> unat t \<and> unat t < 4134067200 then t - 86400 else t)"
  by (rule calc_time_t_of_gmtime)

section \<open>Inverting the timer frequency\<close>

text \<open>
  The result is the pair \<open>timer_rate\<close>, \<open>timer_scale\<close>; \<^term>\<open>None\<close> of the outer option is the
  crash on a zero frequency. \<open>itf_loop\<close> is the \<open>for(;;)\<close> loop; \<open>ULONG_MAX / 10\<close> is 429496729.
\<close>

partial_function (option) itf_loop :: "u32 \<Rightarrow> u32 \<Rightarrow> int \<Rightarrow> u32 \<Rightarrow> (u32 \<times> int) option" where
  "itf_loop freq quot scale rate =
     (let dv = quot div freq;
          rate = rate * 10 + dv
      in if 429496729 - 10 \<le> rate then Some (rate, scale)
         else (let rem = quot mod freq
               in if rem = 0 then Some (rate, scale)
                  else itf_loop freq (rem * 10) (scale - 1) rate))"

datatype itf_result = ItfCrash | ItfHang | ItfSet (itf_rate: u32) (itf_scale: int)

definition invert_timer_freq :: "u32 \<Rightarrow> itf_result" where
  "invert_timer_freq freq =
     (if freq = 0 then ItfCrash
      else
        (let (scale, freq) = (if 429496729 < freq then (-1, freq div 10) else (0, freq))
         in case itf_loop freq 1 scale 0 of
              None \<Rightarrow> ItfHang
            | Some (rate, scale) \<Rightarrow> ItfSet rate scale))"

lemma itf_loop_spec:
  assumes "0 < unat freq" "unat freq \<le> 429496729" "unat quot < 10 * unat freq" "unat rate < 429496719"
    "10 ^ k = unat rate * 10 * unat freq + unat quot" "k \<le> 18"
  shows "\<exists>k' rate' rem. itf_loop freq quot scale rate = Some (rate', scale - int k') \<and>
     10 ^ (k + k') = unat rate' * unat freq + rem \<and> rem < unat freq \<and> (rem = 0 \<or> 429496719 \<le> unat rate')"
  using assms
proof (induction "18 - k" arbitrary: k quot scale rate rule: less_induct)
  case less
  let ?q = "unat quot div unat freq" and ?r = "unat quot mod unat freq"
  have q9: "?q \<le> 9" using less.prems(3) by (simp add: less_mult_imp_div_less flip: less_Suc_eq_le)
  have rate': "unat (rate * 10 + quot div freq) = unat rate * 10 + ?q"
    using q9 less.prems(4) by (simp add: unat_word_ariths unat_div_distrib)
  have eq: "10 ^ k = (unat rate * 10 + ?q) * unat freq + ?r"
    using less.prems(5) div_mult_mod_eq [of "unat quot" "unat freq"] by (simp add: algebra_simps)
  have r: "?r < unat freq" using less.prems(1) by simp
  have rem: "unat (quot mod freq) = ?r" by (simp add: unat_mod_distrib)
  have stop: "(429496719 \<le> rate * 10 + quot div freq) = (429496719 \<le> unat rate * 10 + ?q)"
    by (simp add: word_le_nat_alt rate')
  show ?case
  proof (cases "429496719 \<le> unat rate * 10 + ?q \<or> ?r = 0")
    case True
    then have "itf_loop freq quot scale rate = Some (rate * 10 + quot div freq, scale)"
      by (subst itf_loop.simps) (auto simp: Let_def stop rem word_unat_eq_iff)
    then show ?thesis using True eq r rate'
      by (intro exI [of _ 0] exI [of _ "rate * 10 + quot div freq"] exI [of _ ?r]) auto
  next
    case False
    then have rec: "itf_loop freq quot scale rate =
        itf_loop freq (quot mod freq * 10) (scale - 1) (rate * 10 + quot div freq)"
      by (subst itf_loop.simps) (simp add: Let_def stop word_unat_eq_iff rem)
    have quot': "unat (quot mod freq * 10) = ?r * 10"
      using r less.prems(2) by (simp add: unat_word_ariths rem)
    have "(unat rate * 10 + ?q) * unat freq \<le> 429496718 * 429496729"
      using False less.prems(2) by (intro mult_le_mono) auto
    then have "(10 :: nat) ^ k < 10 ^ 18" using eq r less.prems(2) by simp
    then have k: "k < 18" by (simp only: power_strict_increasing_iff)
    have "10 ^ Suc k = unat (rate * 10 + quot div freq) * 10 * unat freq + unat (quot mod freq * 10)"
      using eq by (simp add: rate' quot')
    moreover have "unat (quot mod freq * 10) < 10 * unat freq" using r by (simp add: quot')
    moreover have "unat (rate * 10 + quot div freq) < 429496719" using False by (simp add: rate')
    moreover have "18 - Suc k < 18 - k" "Suc k \<le> 18" using k by simp_all
    ultimately obtain k' rate1 rem1 where
      *: "itf_loop freq (quot mod freq * 10) (scale - 1) (rate * 10 + quot div freq) = Some (rate1, scale - 1 - int k')"
        "10 ^ (Suc k + k') = unat rate1 * unat freq + rem1" "rem1 < unat freq"
        "rem1 = 0 \<or> 429496719 \<le> unat rate1"
      using less.hyps [of "Suc k" "quot mod freq * 10" "rate * 10 + quot div freq" "scale - 1"] less.prems(1,2)
      by blast
    then show ?thesis using rec
      by (intro exI [of _ "Suc k'"] exI [of _ rate1] exI [of _ rem1]) (simp add: algebra_simps)
  qed
qed

lemma invert_timer_freq_small:
  assumes "freq \<noteq> 0" "unat freq \<le> 429496729"
  shows "\<exists>rate k. itf_loop freq 1 scale 0 = Some (rate, scale - int k) \<and>
     unat rate = 10 ^ k div unat freq \<and> (unat freq dvd 10 ^ k \<or> 429496719 \<le> unat rate)"
proof -
  have "0 < unat freq" using assms(1) by (simp add: unat_gt_0)
  from itf_loop_spec [OF this assms(2), of 1 0 0 scale] obtain k rate rem where
    *: "itf_loop freq 1 scale 0 = Some (rate, scale - int k)" "10 ^ k = unat rate * unat freq + rem"
      "rem < unat freq" "rem = 0 \<or> 429496719 \<le> unat rate"
    using \<open>0 < unat freq\<close> by auto
  moreover have "unat rate = 10 ^ k div unat freq" using *(2,3) by simp
  moreover have "unat freq dvd 10 ^ k \<or> 429496719 \<le> unat rate" using *(2,4) by auto
  ultimately show ?thesis by blast
qed

text \<open>
  C23: the loop always ends, and \<open>timer_rate\<close> is the floor of \<open>10 ^ k / freq\<close>, exact or with at
  least nine significant digits, where \<open>timer_scale\<close> is \<open>- k\<close>. A frequency above
  \<open>ULONG_MAX / 10\<close> is first divided by ten, and the scale is one less for it.
\<close>

theorem invert_timer_freq_spec:
  assumes "freq \<noteq> 0"
  defines "big \<equiv> 429496729 < unat freq"
  defines "f \<equiv> (if big then unat freq div 10 else unat freq)"
  shows "\<exists>rate k. invert_timer_freq freq = ItfSet rate ((if big then -1 else 0) - int k) \<and>
     unat rate = 10 ^ k div f \<and> (f dvd 10 ^ k \<or> 429496719 \<le> unat rate)"
proof (cases big)
  case True
  have f: "unat (freq div 10) = f" using True by (simp add: f_def unat_div_distrib)
  have "freq div 10 \<noteq> 0" "unat (freq div 10) \<le> 429496729"
    using True unat_lt32 [of freq] unfolding f by (simp_all add: word_unat_eq_iff f f_def big_def)
  from invert_timer_freq_small [OF this, of "-1"] show ?thesis
    using True assms(1) by (auto simp: invert_timer_freq_def f big_def word_less_nat_alt)
next
  case False
  then have "unat freq \<le> 429496729" by (simp add: big_def)
  from invert_timer_freq_small [OF assms(1) this, of 0] show ?thesis
    using False assms(1) by (auto simp: invert_timer_freq_def f_def big_def word_less_nat_alt)
qed

theorem invert_timer_freq_spec_witness:
  "\<exists>rate k. invert_timer_freq 66000000 = ItfSet rate (- int k) \<and> unat rate = 10 ^ k div 66000000"
  using invert_timer_freq_spec [of 66000000] by auto

end
