(* ===== verification/Startup_Syspage.thy ===== *)
theory Startup_Syspage
  imports Prelude
begin

text \<open>
  The system page under construction: \<open>syspage_memory.c\<close>, \<open>strings.c\<close> and
  \<open>callout_reloc_data\<close> of \<open>callouts.c\<close> (all in \<open>src/hardware/startup/lib\<close>).

  Every table of the system page is a \<^emph>\<open>section\<close> of one growing block of memory. The model
  keeps the bytes: memory maps an address to a byte, a section is the pointer and size the
  structure \<open>lsp\<close> holds, and growing one section moves the bytes behind it and every section
  pointer that points there, with the comparisons of the code. The two header fields that the
  code uses for its accounting, \<open>total_size\<close> and (as the limit) \<open>size\<close> and the \<open>num_cpu\<close> it
  sets, are fields of the state. Sizes and addresses are naturals; the sums that the code does
  in \<open>unsigned\<close> are taken modulo \<open>2 ^ 32\<close>. The sizes of the structures of the system headers,
  which are not part of the repository, are the fields of \<open>abi\<close>. The \<open>mdriver_check\<close> hook is
  a function pointer whose default does nothing and is left out.
\<close>

section \<open>State\<close>

datatype sect_id =
    S_syspage | S_system_private | S_meminfo | S_asinfo | S_hwinfo | S_cpuinfo | S_cacheattr
  | S_qtime | S_callout | S_callin | S_typed_strings | S_strings | S_intrinfo | S_smp | S_pminfo
  | S_mdriver | S_arm_boxinfo | S_arm_cpu

record local_section =
  sec_p :: nat
  sec_size :: nat

record abi =
  sz_syspage :: nat
  sz_callout :: nat
  sz_callin :: nat
  sz_hwi_prefix :: nat
  sz_arm_cpu :: nat
  sz_asinfo :: nat

record co_patch =
  pd_owner :: nat
  pd_data :: nat

record lsp =
  lsp_mem :: "nat \<Rightarrow> u8"
  lsp_sects :: "sect_id \<Rightarrow> local_section"
  sp_total_size :: nat
  sp_size :: nat
  sp_num_cpu :: nat
  fixed_size :: nat
  patch_data :: "co_patch list"
  lsp_abi :: abi

abbreviation s_p :: "lsp \<Rightarrow> sect_id \<Rightarrow> nat" where
  "s_p s k \<equiv> sec_p (lsp_sects s k)"

abbreviation s_size :: "lsp \<Rightarrow> sect_id \<Rightarrow> nat" where
  "s_size s k \<equiv> sec_size (lsp_sects s k)"

abbreviation lsp_base :: "lsp \<Rightarrow> nat" where
  "lsp_base s \<equiv> s_p s S_syspage"

definition round8 :: "nat \<Rightarrow> nat" where
  "round8 n = unat (ROUND (of_nat n) 8)"

definition mem_write :: "(nat \<Rightarrow> u8) \<Rightarrow> nat \<Rightarrow> u8 list \<Rightarrow> nat \<Rightarrow> u8" where
  "mem_write m a bs = (\<lambda>x. if a \<le> x \<and> x < a + length bs then bs ! (x - a) else m x)"

definition mem_read :: "(nat \<Rightarrow> u8) \<Rightarrow> nat \<Rightarrow> nat \<Rightarrow> u8 list" where
  "mem_read m a n = map m [a..<a + n]"

text \<open>\<open>memmove\<close> and \<open>memset\<close> of the C library, on the address-indexed memory.\<close>

definition mem_move :: "(nat \<Rightarrow> u8) \<Rightarrow> nat \<Rightarrow> nat \<Rightarrow> nat \<Rightarrow> nat \<Rightarrow> u8" where
  "mem_move m d s n = (\<lambda>x. if d \<le> x \<and> x < d + n then m (s + (x - d)) else m x)"

definition mem_zero :: "(nat \<Rightarrow> u8) \<Rightarrow> nat \<Rightarrow> nat \<Rightarrow> nat \<Rightarrow> u8" where
  "mem_zero m d n = (\<lambda>x. if d \<le> x \<and> x < d + n then 0 else m x)"

definition sec_data :: "lsp \<Rightarrow> sect_id \<Rightarrow> u8 list" where
  "sec_data s k = mem_read (lsp_mem s) (s_p s k) (s_size s k)"

section \<open>Operations of \<open>syspage_memory.c\<close>\<close>

definition callout_reloc_data :: "nat \<Rightarrow> nat \<Rightarrow> int \<Rightarrow> lsp \<Rightarrow> lsp" where
  "callout_reloc_data base len diff s =
     s\<lparr>patch_data := map (\<lambda>pd. if base \<le> pd_owner pd \<and> base + len > pd_owner pd
                                 then pd\<lparr>pd_owner := nat (int (pd_owner pd) + diff)\<rparr> else pd)
                       (patch_data s)\<rparr>"

definition grow_syspage_section :: "sect_id \<Rightarrow> nat \<Rightarrow> lsp \<Rightarrow> lsp res" where
  "grow_syspage_section sect add s =
     (if add > 0 then
        (let add = round8 add;
             new_size = (sp_total_size s + add) mod 2 ^ 32;
             max_size = sp_size s
         in if new_size > max_size then Inl SyspageOverflow
            else
              (let bottom = s_p s sect + s_size s sect;
                   sects = (\<lambda>s2. if s2 \<noteq> sect \<and> s_p s s2 \<ge> bottom
                                  then (lsp_sects s s2)\<lparr>sec_p := s_p s s2 + add\<rparr> else lsp_sects s s2);
                   new = bottom + add;
                   len = sp_total_size s - (bottom - lsp_base s);
                   mem = mem_zero (mem_move (lsp_mem s) new bottom len) bottom add;
                   s = callout_reloc_data bottom len (int add) s
               in Inr (s\<lparr>lsp_mem := mem,
                         lsp_sects := sects(sect := (sects sect)\<lparr>sec_size := s_size s sect + add\<rparr>),
                         sp_total_size := new_size\<rparr>)))
      else Inr s)"

definition set_syspage_section :: "sect_id \<Rightarrow> nat \<Rightarrow> lsp \<Rightarrow> lsp res" where
  "set_syspage_section sect sz s =
     (let sz = round8 sz;
          s = s\<lparr>lsp_sects := (lsp_sects s)(sect := (lsp_sects s sect)\<lparr>sec_p := lsp_base s + fixed_size s\<rparr>),
                fixed_size := (fixed_size s + sz) mod 2 ^ 32\<rparr>
      in grow_syspage_section sect sz s)"

text \<open>
  \<open>init_syspage_memory\<close> up to the call of \<open>hwi_default\<close>: the caller continues with it.
\<close>

definition cpu_init_syspage_memory :: "lsp \<Rightarrow> lsp res" where
  "cpu_init_syspage_memory s = set_syspage_section S_arm_cpu (sz_arm_cpu (lsp_abi s)) s"

definition init_syspage_memory :: "nat \<Rightarrow> nat \<Rightarrow> lsp \<Rightarrow> lsp res" where
  "init_syspage_memory base max_size s =
     (let a = lsp_abi s;
          spsize = round8 (sz_syspage a);
          sects = (\<lambda>_. \<lparr>sec_p = base + spsize, sec_size = 0\<rparr>);
          s = s\<lparr>lsp_sects := sects(S_syspage := \<lparr>sec_p = base, sec_size = spsize\<rparr>),
                lsp_mem := mem_zero (lsp_mem s) base spsize,
                fixed_size := spsize, sp_total_size := spsize, sp_size := max_size\<rparr>
      in rbind (set_syspage_section S_callout (sz_callout a) s) (\<lambda>s.
         rbind (set_syspage_section S_callin (sz_callin a) s) (\<lambda>s.
         rbind (grow_syspage_section S_typed_strings 4 s) (\<lambda>s.
         rbind (grow_syspage_section S_strings 1 s) (\<lambda>s.
         rbind (grow_syspage_section S_hwinfo (sz_hwi_prefix a) s) (\<lambda>s.
         cpu_init_syspage_memory (s\<lparr>sp_num_cpu := 1\<rparr>)))))))"

definition reloc_syspage_memory :: "nat \<Rightarrow> nat \<Rightarrow> lsp \<Rightarrow> lsp" where
  "reloc_syspage_memory base max_size s =
     (let mem = mem_move (lsp_mem s) base (lsp_base s) (sp_total_size s);
          diff = int base - int (lsp_base s);
          s = callout_reloc_data (lsp_base s) (sp_total_size s) diff s
      in s\<lparr>lsp_mem := mem,
           lsp_sects := (\<lambda>k. (lsp_sects s k)\<lparr>sec_p := nat (int (s_p s k) + diff)\<rparr>),
           sp_size := max_size\<rparr>)"

section \<open>Sections keep their contents\<close>

text \<open>
  The layout: sections lie inside the block, and for two sections one ends before the other
  begins. An empty section may sit anywhere but inside another one.
\<close>

definition lsp_ok :: "lsp \<Rightarrow> bool" where
  "lsp_ok s \<longleftrightarrow>
     (\<forall>k. (k = S_syspage \<or> lsp_base s + s_size s S_syspage \<le> s_p s k) \<and>
           s_p s k + s_size s k \<le> lsp_base s + sp_total_size s) \<and>
     (\<forall>j k. j \<noteq> k \<longrightarrow> s_p s j + s_size s j \<le> s_p s k \<or> s_p s k + s_size s k \<le> s_p s j) \<and>
     0 < s_size s S_syspage \<and> sp_total_size s \<le> 2 ^ 31 \<and> sp_size s \<le> 2 ^ 31"

lemma mem_read_cong: "(\<And>x. a \<le> x \<Longrightarrow> x < a + n \<Longrightarrow> m x = m' x) \<Longrightarrow> mem_read m a n = mem_read m' a n"
  by (simp add: mem_read_def)

lemma mem_read_shift:
  "(\<And>x. x < n \<Longrightarrow> m' (b + x) = m (a + x)) \<Longrightarrow> mem_read m' b n = mem_read m a n"
  by (auto simp: mem_read_def intro!: nth_equalityI)

lemma mem_read_append: "mem_read m a (n + k) = mem_read m a n @ mem_read m (a + n) k"
  using upt_add_eq_append [of a "a + n" k] by (simp add: mem_read_def add.assoc)

lemma length_mem_read [simp]: "length (mem_read m a n) = n"
  by (simp add: mem_read_def)

lemma callout_reloc_data_simps [simp]:
  "lsp_mem (callout_reloc_data b l d s) = lsp_mem s"
  "lsp_sects (callout_reloc_data b l d s) = lsp_sects s"
  "sp_total_size (callout_reloc_data b l d s) = sp_total_size s"
  "sp_size (callout_reloc_data b l d s) = sp_size s"
  "fixed_size (callout_reloc_data b l d s) = fixed_size s"
  "lsp_abi (callout_reloc_data b l d s) = lsp_abi s"
  by (simp_all add: callout_reloc_data_def)

lemma round8_eq: "n + 8 \<le> 2 ^ 32 \<Longrightarrow> round8 n = (n + 7) div 8 * 8"
  using unat_ROUND [of 3 "of_nat n"] by (simp add: round8_def unsigned_of_nat take_bit_eq_mod)

lemma round8_bounds: "n \<le> 2 ^ 30 \<Longrightarrow> n \<le> round8 n \<and> round8 n < n + 8"
  by (simp add: round8_eq) linarith

lemma lsp_ok_base: "lsp_ok s \<Longrightarrow> lsp_base s \<le> s_p s k"
  by (cases "k = S_syspage") (auto simp: lsp_ok_def intro: add_leD1)

lemma grow_unfold:
  assumes ok: "lsp_ok s" and add: "0 < add" "add \<le> 2 ^ 30"
    and g: "grow_syspage_section sect add s = Inr s'"
  defines "r \<equiv> round8 add" and "b \<equiv> s_p s sect + s_size s sect"
  shows "sp_total_size s' = sp_total_size s + r"
    and "lsp_mem s' = mem_zero (mem_move (lsp_mem s) (b + r) b (lsp_base s + sp_total_size s - b)) b r"
    and "s_size s' k = s_size s k + (if k = sect then r else 0)"
    and "s_p s' k = s_p s k + (if k \<noteq> sect \<and> b \<le> s_p s k then r else 0)"
    and "sp_size s' = sp_size s" "fixed_size s' = fixed_size s" "lsp_abi s' = lsp_abi s"
    and "sp_total_size s' \<le> sp_size s"
proof -
  have "sp_total_size s \<le> 2 ^ 31" "lsp_base s \<le> s_p s sect" "b \<le> lsp_base s + sp_total_size s"
    using ok lsp_ok_base [OF ok] by (simp_all add: lsp_ok_def b_def)
  then have "sp_total_size s \<le> 2 ^ 31" "lsp_base s \<le> b" "b \<le> lsp_base s + sp_total_size s"
    by (auto simp: b_def)
  moreover have "r < 2 ^ 30 + 8" using round8_bounds [OF add(2)] add by (simp add: r_def)
  ultimately have nw: "(sp_total_size s + r) mod 4294967296 = sp_total_size s + r"
    and len: "sp_total_size s - (b - lsp_base s) = lsp_base s + sp_total_size s - b"
    by simp_all
  show "sp_total_size s' = sp_total_size s + r"
    "lsp_mem s' = mem_zero (mem_move (lsp_mem s) (b + r) b (lsp_base s + sp_total_size s - b)) b r"
    "s_size s' k = s_size s k + (if k = sect then r else 0)"
    "s_p s' k = s_p s k + (if k \<noteq> sect \<and> b \<le> s_p s k then r else 0)"
    "sp_size s' = sp_size s" "fixed_size s' = fixed_size s" "lsp_abi s' = lsp_abi s"
    "sp_total_size s' \<le> sp_size s"
    using g add nw len
    by (auto simp: grow_syspage_section_def Let_def r_def [symmetric] b_def [symmetric] split: if_splits)
qed

lemma grow_ok:
  assumes ok: "lsp_ok s" and add: "0 < add" "add \<le> 2 ^ 30"
    and g: "grow_syspage_section sect add s = Inr s'"
  shows "lsp_ok s'" and "lsp_base s' = lsp_base s"
proof -
  note u = grow_unfold [OF ok add g]
  let ?b = "s_p s sect + s_size s sect" and ?r = "round8 add"
  have bounds: "k \<noteq> S_syspage \<Longrightarrow> lsp_base s + s_size s S_syspage \<le> s_p s k"
    "s_p s k + s_size s k \<le> lsp_base s + sp_total_size s" for k
    using ok by (auto simp: lsp_ok_def)
  have disj: "j \<noteq> k \<Longrightarrow> s_p s j + s_size s j \<le> s_p s k \<or> s_p s k + s_size s k \<le> s_p s j" for j k
    using ok by (simp add: lsp_ok_def)
  have pos: "0 < s_size s S_syspage" and max: "sp_size s \<le> 2 ^ 31"
    using ok by (simp_all add: lsp_ok_def)
  have base: "S_syspage \<noteq> sect \<Longrightarrow> \<not> ?b \<le> lsp_base s"
    using pos bounds(1) [of sect] by simp
  then show b: "lsp_base s' = lsp_base s" by (auto simp: u(4))
  show "lsp_ok s'"
    unfolding lsp_ok_def
  proof (intro conjI allI impI)
    fix k
    show "k = S_syspage \<or> lsp_base s' + s_size s' S_syspage \<le> s_p s' k"
      unfolding b u(3) u(4) using bounds(1) [of k] base by (cases "k = S_syspage"; cases "sect = S_syspage") auto
    show "s_p s' k + s_size s' k \<le> lsp_base s' + sp_total_size s'"
      unfolding b u(1) u(3) u(4) using bounds(2) [of k] by auto
  next
    fix j k :: sect_id
    assume "j \<noteq> k"
    then show "s_p s' j + s_size s' j \<le> s_p s' k \<or> s_p s' k + s_size s' k \<le> s_p s' j"
      unfolding u(3) u(4) using disj [of j k] disj [of j sect] disj [of k sect] by auto
  next
    show "0 < s_size s' S_syspage" using pos by (simp add: u(3))
    show "sp_total_size s' \<le> 2 ^ 31" using u(8) max by linarith
    show "sp_size s' \<le> 2 ^ 31" using u(5) max by simp
  qed
qed

lemma grow_data:
  assumes ok: "lsp_ok s" and add: "0 < add" "add \<le> 2 ^ 30"
    and g: "grow_syspage_section sect add s = Inr s'"
  shows "sec_data s' k = sec_data s k @ (if k = sect then replicate (round8 add) 0 else [])"
proof -
  note u = grow_unfold [OF ok add g]
  let ?b = "s_p s sect + s_size s sect" and ?r = "round8 add"
  have bounds: "s_p s k + s_size s k \<le> lsp_base s + sp_total_size s"
    using ok by (simp add: lsp_ok_def)
  have disj: "k \<noteq> sect \<Longrightarrow> s_p s k + s_size s k \<le> s_p s sect \<or> ?b \<le> s_p s k"
    using ok by (auto simp: lsp_ok_def)
  show ?thesis
  proof (cases "k = sect")
    case True
    have "mem_read (lsp_mem s') (s_p s sect) (s_size s sect) = mem_read (lsp_mem s) (s_p s sect) (s_size s sect)"
      by (rule mem_read_cong) (simp add: u(2) mem_zero_def mem_move_def)
    moreover have "mem_read (lsp_mem s') ?b ?r = replicate ?r 0"
      by (rule nth_equalityI) (simp_all add: u(2) mem_zero_def mem_read_def)
    ultimately show ?thesis
      using True by (simp add: sec_data_def u(3,4) mem_read_append)
  next
    case False
    show ?thesis
    proof (cases "?b \<le> s_p s k")
      case True
      then have "mem_read (lsp_mem s') (s_p s k + ?r) (s_size s k) = mem_read (lsp_mem s) (s_p s k) (s_size s k)"
        using bounds by (intro mem_read_shift) (simp add: u(2) mem_zero_def mem_move_def)
      then show ?thesis using True False by (simp add: sec_data_def u(3,4))
    next
      case nb: False
      then have "s_p s k + s_size s k \<le> s_p s sect" using disj False by simp
      then have "mem_read (lsp_mem s') (s_p s k) (s_size s k) = mem_read (lsp_mem s) (s_p s k) (s_size s k)"
        by (intro mem_read_cong) (simp add: u(2) mem_zero_def mem_move_def)
      then show ?thesis using False nb by (simp add: sec_data_def u(3,4))
    qed
  qed
qed

section \<open>The fixed part, placement and relocation\<close>

text \<open>
  \<open>fixed_size\<close> separates the sections placed by \<open>set_syspage_section\<close> from the growing ones,
  which float behind it.
\<close>

definition floating :: "lsp \<Rightarrow> sect_id \<Rightarrow> bool" where
  "floating s k \<longleftrightarrow> lsp_base s + fixed_size s \<le> s_p s k"

definition sp_inv :: "lsp \<Rightarrow> bool" where
  "sp_inv s \<longleftrightarrow> lsp_ok s \<and> s_size s S_syspage \<le> fixed_size s \<and> fixed_size s \<le> sp_total_size s \<and>
     (\<forall>k. floating s k \<or> s_p s k + s_size s k \<le> lsp_base s + fixed_size s)"

lemma grow_inv:
  assumes inv: "sp_inv s" and fl: "floating s sect" and add: "0 < add" "add \<le> 2 ^ 30"
    and g: "grow_syspage_section sect add s = Inr s'"
  shows "sp_inv s'" and "floating s k \<Longrightarrow> floating s' k"
    and "sec_data s' k = sec_data s k @ (if k = sect then replicate (round8 add) 0 else [])"
proof -
  have ok: "lsp_ok s" using inv by (simp add: sp_inv_def)
  note u = grow_unfold [OF ok add g] and b = grow_ok [OF ok add g]
  show "sec_data s' k = sec_data s k @ (if k = sect then replicate (round8 add) 0 else [])"
    by (rule grow_data [OF ok add g])
  show fl': "floating s k \<Longrightarrow> floating s' k" for k
    unfolding floating_def b(2) unfolding u(4) u(6) by simp
  have nosys: "sect \<noteq> S_syspage"
    using fl inv by (auto simp: sp_inv_def floating_def lsp_ok_def)
  have "floating s' k \<or> s_p s' k + s_size s' k \<le> lsp_base s' + fixed_size s'" for k
  proof (cases "floating s k")
    case False
    then have "s_p s k + s_size s k \<le> lsp_base s + fixed_size s" "k \<noteq> sect"
      using inv fl by (auto simp: sp_inv_def)
    then show ?thesis using fl False unfolding floating_def b(2) unfolding u(3) u(4) u(6) by auto
  qed (simp add: fl')
  then show "sp_inv s'"
    using inv b nosys by (simp add: sp_inv_def u(1,3,6))
qed

lemma set_inv:
  assumes inv: "sp_inv s" and sect: "sect \<noteq> S_syspage" "s_size s sect = 0"
    and sz: "0 < sz" "sz \<le> 2 ^ 30 - 8" and g: "set_syspage_section sect sz s = Inr s'"
  shows "sp_inv s'" and "k \<noteq> sect \<Longrightarrow> floating s k \<Longrightarrow> floating s' k"
    and "sec_data s' k = (if k = sect then replicate (round8 sz) 0 else sec_data s k)"
proof -
  define f where "f = lsp_base s + fixed_size s"
  define r where "r = round8 sz"
  define s1 where "s1 = s\<lparr>lsp_sects := (lsp_sects s)(sect := (lsp_sects s sect)\<lparr>sec_p := f\<rparr>),
      fixed_size := (fixed_size s + r) mod 2 ^ 32\<rparr>"
  have r: "0 < r" "r \<le> 2 ^ 30"
    using round8_bounds [of sz] sz by (simp_all add: r_def)
  have r8: "round8 r = r"
    using sz by (simp add: r_def round8_eq)
  have fl: "fixed_size s + r < 2 ^ 32" and sysf: "lsp_base s + s_size s S_syspage \<le> f"
    using inv r by (simp_all add: sp_inv_def lsp_ok_def f_def)
  have p1: "s_p s1 k = (if k = sect then f else s_p s k)" and z1: "s_size s1 k = s_size s k"
    and b1: "lsp_base s1 = lsp_base s" and f1: "fixed_size s1 = fixed_size s + r" for k
    using sect fl by (simp_all add: s1_def)
  have g1: "grow_syspage_section sect r s1 = Inr s'"
    using g by (simp add: set_syspage_section_def s1_def f_def r_def Let_def)
  have fx: "f \<le> s_p s k \<or> s_p s k + s_size s k \<le> f" for k
    using inv by (simp add: sp_inv_def floating_def f_def)
  have ok1: "lsp_ok s1"
    using inv sect sysf fx unfolding lsp_ok_def sp_inv_def
    by (auto simp: p1 z1 b1 f_def) (simp_all add: s1_def)
  note u = grow_unfold [OF ok1 r g1, unfolded r8] and b = grow_ok [OF ok1 r g1]
  have fs: "fixed_size s' = fixed_size s + r" by (simp add: u(6) f1)
  have bs: "lsp_base s' = lsp_base s" by (simp add: b(2) b1)
  show fk: "k \<noteq> sect \<Longrightarrow> floating s k \<Longrightarrow> floating s' k" for k
    using sect unfolding floating_def bs fs unfolding u(4) p1 z1 by (simp add: f_def)
  have "floating s' k \<or> s_p s' k + s_size s' k \<le> lsp_base s' + fixed_size s'" for k
  proof (cases "k = sect")
    case True
    then show ?thesis using sect unfolding fs bs unfolding u(3) u(4) p1 z1 by (simp add: f_def)
  next
    case False
    show ?thesis
    proof (cases "floating s k")
      case nf: False
      then have "s_p s k + s_size s k \<le> lsp_base s + fixed_size s" "\<not> f \<le> s_p s k"
        using inv by (auto simp: sp_inv_def floating_def f_def)
      then show ?thesis using False sect unfolding fs bs unfolding u(3) u(4) p1 z1 by simp
    qed (simp add: fk False)
  qed
  then show "sp_inv s'"
    using b(1) sysf sect inv by (simp add: sp_inv_def u(1,3) fs z1 f_def) (simp add: s1_def)
  have d1: "sec_data s1 k = (if k = sect then [] else sec_data s k)"
    using sect by (simp add: sec_data_def p1 z1 mem_read_def) (simp add: s1_def)
  show "sec_data s' k = (if k = sect then replicate (round8 sz) 0 else sec_data s k)"
    using grow_data [OF ok1 r g1, of k] by (simp add: d1 r8 r_def [symmetric])
qed

text \<open>C13: moving the whole block keeps the layout and the bytes of every section.\<close>

theorem reloc_syspage_memory_data:
  assumes "lsp_ok s" and "mx \<le> 2 ^ 31"
  shows "lsp_ok (reloc_syspage_memory base mx s) \<and>
    lsp_base (reloc_syspage_memory base mx s) = base \<and>
    sec_data (reloc_syspage_memory base mx s) k = sec_data s k"
proof -
  let ?s' = "reloc_syspage_memory base mx s"
  have lo: "lsp_base s \<le> s_p s k" and hi: "s_p s k + s_size s k \<le> lsp_base s + sp_total_size s" for k
    using assms(1) lsp_ok_base by (auto simp: lsp_ok_def)
  have p: "s_p ?s' k = base + (s_p s k - lsp_base s)" for k
    using lo [of k] by (simp add: reloc_syspage_memory_def Let_def)
  have z: "s_size ?s' k = s_size s k" and t: "sp_total_size ?s' = sp_total_size s" "sp_size ?s' = mx" for k
    by (simp_all add: reloc_syspage_memory_def Let_def)
  have m: "lsp_mem ?s' = mem_move (lsp_mem s) base (lsp_base s) (sp_total_size s)"
    by (simp add: reloc_syspage_memory_def Let_def)
  have "sec_data ?s' k = sec_data s k"
    unfolding sec_data_def z p m
    using lo [of k] hi [of k] by (intro mem_read_shift) (auto simp: mem_move_def)
  moreover have "lsp_ok ?s'"
    unfolding lsp_ok_def
  proof (intro conjI allI impI)
    show "s_p ?s' k + s_size ?s' k \<le> lsp_base ?s' + sp_total_size ?s'" for k
      unfolding p z t using lo [of k] hi [of k] by simp
    show "k = S_syspage \<or> lsp_base ?s' + s_size ?s' S_syspage \<le> s_p ?s' k" for k
      unfolding p z using assms(1) lo [of k] by (auto simp: lsp_ok_def)
    show "s_p ?s' j + s_size ?s' j \<le> s_p ?s' k \<or> s_p ?s' k + s_size ?s' k \<le> s_p ?s' j" if "j \<noteq> k" for j k
    proof -
      have "s_p s j + s_size s j \<le> s_p s k \<or> s_p s k + s_size s k \<le> s_p s j"
        using assms(1) that by (simp add: lsp_ok_def)
      then show ?thesis unfolding p z using lo [of j] lo [of k] by linarith
    qed
  qed (use assms in \<open>simp_all add: lsp_ok_def z t\<close>)
  ultimately show ?thesis by (simp add: p)
qed

section \<open>Building the page\<close>

lemma length_sec_data [simp]: "length (sec_data s k) = s_size s k"
  by (simp add: sec_data_def)

lemma grow_returns:
  assumes "lsp_ok s" "0 < add" "add \<le> 2 ^ 30" "sp_total_size s + round8 add \<le> sp_size s"
  shows "\<exists>s'. grow_syspage_section sect add s = Inr s'"
  using assms by (auto simp: grow_syspage_section_def Let_def lsp_ok_def)

lemma grow_step:
  assumes "sp_inv s" "floating s sect" "0 < add" "add \<le> 2 ^ 30" "sp_total_size s + round8 add \<le> sp_size s"
  shows "\<exists>s'. grow_syspage_section sect add s = Inr s' \<and> sp_inv s' \<and>
    sp_total_size s' = sp_total_size s + round8 add \<and> sp_size s' = sp_size s \<and> lsp_abi s' = lsp_abi s \<and>
    lsp_base s' = lsp_base s \<and> (\<forall>k. floating s k \<longrightarrow> floating s' k) \<and>
    (\<forall>k. sec_data s' k = sec_data s k @ (if k = sect then replicate (round8 add) 0 else []))"
proof -
  have ok: "lsp_ok s" using assms(1) by (simp add: sp_inv_def)
  obtain s' where g: "grow_syspage_section sect add s = Inr s'"
    using grow_returns [OF ok assms(3-5)] by blast
  then show ?thesis
    using grow_inv [OF assms(1-4) g] grow_unfold [OF ok assms(3,4) g] grow_ok [OF ok assms(3,4) g] by auto
qed

lemma set_step:
  assumes "sp_inv s" "sect \<noteq> S_syspage" "sec_data s sect = []" "0 < sz" "sz \<le> 2 ^ 30 - 8"
    "sp_total_size s + round8 sz \<le> sp_size s"
  shows "\<exists>s'. set_syspage_section sect sz s = Inr s' \<and> sp_inv s' \<and>
    sp_total_size s' = sp_total_size s + round8 sz \<and> sp_size s' = sp_size s \<and> lsp_abi s' = lsp_abi s \<and>
    lsp_base s' = lsp_base s \<and> (\<forall>k. k \<noteq> sect \<longrightarrow> floating s k \<longrightarrow> floating s' k) \<and>
    (\<forall>k. sec_data s' k = (if k = sect then replicate (round8 sz) 0 else sec_data s k))"
proof -
  have empty: "s_size s sect = 0"
    using assms(3) length_sec_data [of s sect] by simp
  define f where "f = lsp_base s + fixed_size s"
  define s1 where "s1 = s\<lparr>lsp_sects := (lsp_sects s)(sect := (lsp_sects s sect)\<lparr>sec_p := f\<rparr>),
      fixed_size := (fixed_size s + round8 sz) mod 2 ^ 32\<rparr>"
  have r: "0 < round8 sz" "round8 sz \<le> 2 ^ 30" "round8 (round8 sz) = round8 sz"
    using assms(4,5) by (simp_all add: round8_eq)
  have set: "set_syspage_section sect sz s = grow_syspage_section sect (round8 sz) s1"
    by (simp add: set_syspage_section_def s1_def f_def Let_def)
  have p1: "s_p s1 k = (if k = sect then f else s_p s k)" and z1: "s_size s1 k = s_size s k"
    and b1: "lsp_base s1 = lsp_base s" and t1: "sp_total_size s1 = sp_total_size s" "sp_size s1 = sp_size s"
      "lsp_abi s1 = lsp_abi s" for k
    using assms(2) by (simp_all add: s1_def)
  have fx: "f \<le> s_p s k \<or> s_p s k + s_size s k \<le> f" for k
    using assms(1) by (simp add: sp_inv_def floating_def f_def)
  have "lsp_base s + s_size s S_syspage \<le> f" "f \<le> lsp_base s + sp_total_size s"
    using assms(1) by (simp_all add: sp_inv_def f_def)
  then have ok1: "lsp_ok s1"
    using assms(1,2) empty fx unfolding lsp_ok_def sp_inv_def
    by (auto simp: p1 z1 b1 t1 f_def)
  obtain s' where g: "grow_syspage_section sect (round8 sz) s1 = Inr s'"
    using grow_returns [OF ok1 r(1,2)] assms(6) r(3) t1 by auto
  note u = grow_unfold [OF ok1 r(1,2) g, unfolded r(3)] and b = grow_ok [OF ok1 r(1,2) g]
  show ?thesis
    using set_inv [OF assms(1,2) empty assms(4,5)] u b b1 t1 unfolding set g by simp
qed

text \<open>
  C16: \<open>init_syspage_memory\<close> returns whenever its sections fit below the limit; the page it
  builds is laid out consistently and its string sections are one zeroed unit each.
\<close>

theorem init_syspage_memory_returns:
  fixes s :: lsp
  defines "a \<equiv> lsp_abi s"
  assumes sz: "0 < sz_syspage a" "0 < sz_callout a" "0 < sz_callin a" "0 < sz_hwi_prefix a" "0 < sz_arm_cpu a"
    and fit: "round8 (sz_syspage a) + round8 (sz_callout a) + round8 (sz_callin a) + 16 +
      round8 (sz_hwi_prefix a) + round8 (sz_arm_cpu a) \<le> mx"
    and mx: "mx \<le> 2 ^ 30 - 16"
    and szs: "sz_syspage a \<le> mx" "sz_callout a \<le> mx" "sz_callin a \<le> mx" "sz_hwi_prefix a \<le> mx" "sz_arm_cpu a \<le> mx"
  shows "\<exists>s'. init_syspage_memory base mx s = Inr s' \<and> sp_inv s' \<and> lsp_base s' = base \<and>
    floating s' S_strings \<and> floating s' S_typed_strings \<and> floating s' S_hwinfo \<and> floating s' S_asinfo \<and>
    sec_data s' S_strings = replicate 8 0 \<and> sec_data s' S_typed_strings = replicate 8 0 \<and>
    sec_data s' S_asinfo = [] \<and> sp_size s' = mx"
proof -
  define r0 where "r0 = round8 (sz_syspage a)"
  have r0: "0 < r0" "r0 \<le> 2 ^ 30" "r0 \<le> mx"
    using round8_bounds [of "sz_syspage a"] sz szs mx fit by (simp_all add: r0_def)
  define s0 where "s0 = s\<lparr>lsp_sects := (\<lambda>_. \<lparr>sec_p = base + r0, sec_size = 0\<rparr>)(S_syspage := \<lparr>sec_p = base, sec_size = r0\<rparr>),
      lsp_mem := mem_zero (lsp_mem s) base r0, fixed_size := r0, sp_total_size := r0, sp_size := mx\<rparr>"
  have inv0: "sp_inv s0"
    using r0 mx by (auto simp: sp_inv_def lsp_ok_def s0_def floating_def)
  have fl0: "k \<noteq> S_syspage \<Longrightarrow> floating s0 k" and d0: "k \<noteq> S_syspage \<Longrightarrow> sec_data s0 k = []" for k
    by (simp_all add: s0_def floating_def sec_data_def mem_read_def)
  have f0: "sp_total_size s0 = r0" "sp_size s0 = mx" "lsp_abi s0 = a" "lsp_base s0 = base"
    by (simp_all add: s0_def a_def)
  have r8: "round8 4 = 8" "round8 1 = 8" by (simp_all add: round8_eq)
  obtain s1 where s1: "set_syspage_section S_callout (sz_callout a) s0 = Inr s1" "sp_inv s1"
    "sp_total_size s1 = r0 + round8 (sz_callout a)" "sp_size s1 = mx" "lsp_abi s1 = a" "lsp_base s1 = base"
    "\<forall>k. k \<noteq> S_callout \<longrightarrow> floating s0 k \<longrightarrow> floating s1 k"
    "\<forall>k. k \<noteq> S_callout \<longrightarrow> sec_data s1 k = sec_data s0 k"
    using set_step [OF inv0, of S_callout "sz_callout a"] d0 f0 sz szs mx fit r0_def by auto
  obtain s2 where s2: "set_syspage_section S_callin (sz_callin a) s1 = Inr s2" "sp_inv s2"
    "sp_total_size s2 = r0 + round8 (sz_callout a) + round8 (sz_callin a)" "sp_size s2 = mx" "lsp_abi s2 = a"
    "lsp_base s2 = base" "\<forall>k. k \<noteq> S_callin \<longrightarrow> floating s1 k \<longrightarrow> floating s2 k"
    "\<forall>k. k \<noteq> S_callin \<longrightarrow> sec_data s2 k = sec_data s1 k"
    using set_step [OF s1(2), of S_callin "sz_callin a"] s1 d0 sz szs mx fit r0_def by auto
  obtain s3 where s3: "grow_syspage_section S_typed_strings 4 s2 = Inr s3" "sp_inv s3"
    "sp_total_size s3 = r0 + round8 (sz_callout a) + round8 (sz_callin a) + 8" "sp_size s3 = mx" "lsp_abi s3 = a"
    "lsp_base s3 = base" "\<forall>k. floating s2 k \<longrightarrow> floating s3 k"
    "\<forall>k. sec_data s3 k = sec_data s2 k @ (if k = S_typed_strings then replicate 8 0 else [])"
    using grow_step [OF s2(2), of S_typed_strings 4] s2 s1(7) fl0 fit r8 r0_def by auto
  obtain s4 where s4: "grow_syspage_section S_strings 1 s3 = Inr s4" "sp_inv s4"
    "sp_total_size s4 = r0 + round8 (sz_callout a) + round8 (sz_callin a) + 16" "sp_size s4 = mx" "lsp_abi s4 = a"
    "lsp_base s4 = base" "\<forall>k. floating s3 k \<longrightarrow> floating s4 k"
    "\<forall>k. sec_data s4 k = sec_data s3 k @ (if k = S_strings then replicate 8 0 else [])"
    using grow_step [OF s3(2), of S_strings 1] s3 s2(7) s1(7) fl0 fit r8 r0_def by auto
  obtain s5 where s5: "grow_syspage_section S_hwinfo (sz_hwi_prefix a) s4 = Inr s5" "sp_inv s5"
    "sp_total_size s5 = r0 + round8 (sz_callout a) + round8 (sz_callin a) + 16 + round8 (sz_hwi_prefix a)"
    "sp_size s5 = mx" "lsp_abi s5 = a" "lsp_base s5 = base" "\<forall>k. floating s4 k \<longrightarrow> floating s5 k"
    "\<forall>k. k \<noteq> S_hwinfo \<longrightarrow> sec_data s5 k = sec_data s4 k"
    using grow_step [OF s4(2), of S_hwinfo "sz_hwi_prefix a"] s4 s3(7) s2(7) s1(7) fl0 sz szs mx fit r0_def by auto
  let ?s5 = "s5\<lparr>sp_num_cpu := 1\<rparr>"
  have s5': "sp_inv ?s5" "sec_data ?s5 = sec_data s5" "floating ?s5 = floating s5"
    using s5(2) by (auto simp: sp_inv_def lsp_ok_def floating_def sec_data_def fun_eq_iff)
  obtain s6 where s6: "set_syspage_section S_arm_cpu (sz_arm_cpu a) ?s5 = Inr s6" "sp_inv s6"
    "sp_size s6 = mx" "lsp_base s6 = base" "\<forall>k. k \<noteq> S_arm_cpu \<longrightarrow> floating s5 k \<longrightarrow> floating s6 k"
    "\<forall>k. k \<noteq> S_arm_cpu \<longrightarrow> sec_data s6 k = sec_data s5 k"
    using set_step [OF s5'(1), of S_arm_cpu "sz_arm_cpu a"] s5 s4(8) s3(8) s2(8) s1(8) d0 s5' sz szs mx fit r0_def
    by auto
  have "init_syspage_memory base mx s = Inr s6"
    using s1(1) s2(1) s3(1) s4(1) s5(1,5) s6(1)
    by (simp add: init_syspage_memory_def cpu_init_syspage_memory_def Let_def a_def r0_def s0_def)
  then show ?thesis
    using s6 s5 s4 s3 s2 s1 d0 fl0 by auto
qed

section \<open>A small page\<close>

text \<open>
  A page with a header of eight bytes, the given typed strings and strings, and the other
  sections empty: a state on which the theorems are instantiated.
\<close>

definition page_of :: "u8 list \<Rightarrow> u8 list \<Rightarrow> lsp" where
  "page_of ts ss =
     \<lparr>lsp_mem = mem_write (mem_write (\<lambda>_. 0) 8 ts) (8 + length ts) ss,
      lsp_sects = (\<lambda>k. if k = S_syspage then \<lparr>sec_p = 0, sec_size = 8\<rparr>
                        else if k = S_typed_strings then \<lparr>sec_p = 8, sec_size = length ts\<rparr>
                        else if k = S_strings then \<lparr>sec_p = 8 + length ts, sec_size = length ss\<rparr>
                        else \<lparr>sec_p = 8 + length ts + length ss, sec_size = 0\<rparr>),
      sp_total_size = 8 + length ts + length ss, sp_size = 0x8000, sp_num_cpu = 1, fixed_size = 8,
      patch_data = [],
      lsp_abi = \<lparr>sz_syspage = 8, sz_callout = 64, sz_callin = 8, sz_hwi_prefix = 4, sz_arm_cpu = 16, sz_asinfo = 40\<rparr>\<rparr>"

lemma page_of_sizes [simp]:
  "sp_total_size (page_of ts ss) = 8 + length ts + length ss" "sp_size (page_of ts ss) = 0x8000"
  "sz_asinfo (lsp_abi (page_of ts ss)) = 40"
  by (simp_all add: page_of_def)

lemma page_of_inv:
  assumes "length ts + length ss \<le> 2 ^ 20"
  shows "sp_inv (page_of ts ss)" "k \<noteq> S_syspage \<Longrightarrow> floating (page_of ts ss) k"
    "sec_data (page_of ts ss) S_typed_strings = ts" "sec_data (page_of ts ss) S_strings = ss"
proof -
  show "sp_inv (page_of ts ss)" using assms by (auto simp: sp_inv_def lsp_ok_def page_of_def floating_def)
  show "k \<noteq> S_syspage \<Longrightarrow> floating (page_of ts ss) k" by (simp add: page_of_def floating_def)
  show "sec_data (page_of ts ss) S_typed_strings = ts" "sec_data (page_of ts ss) S_strings = ss"
    by (auto intro!: nth_equalityI simp: sec_data_def mem_read_def page_of_def mem_write_def)
qed

theorem reloc_syspage_memory_data_witness:
  "sec_data (reloc_syspage_memory 0x100000 0x8000 (page_of [1, 2, 3] [4, 5])) S_strings = [4, 5]"
  using reloc_syspage_memory_data [of "page_of [1, 2, 3] [4, 5]" "0x8000" "0x100000" S_strings]
    page_of_inv [of "[1, 2, 3]" "[4, 5]"] by (simp add: sp_inv_def)

theorem init_syspage_memory_returns_witness:
  "\<exists>s'. init_syspage_memory 0x100000 0x8000 (page_of [] []) = Inr s' \<and> sec_data s' S_strings = replicate 8 0"
  using init_syspage_memory_returns [of "page_of [] []" "0x8000" "0x100000"]
  by (auto simp: page_of_def round8_eq)

end
