(* ===== verification/Startup_Strings.thy ===== *)
theory Startup_Strings
  imports Startup_Syspage
begin

text \<open>
  The string sections of the system page: \<open>strings.c\<close> and \<open>__hwi_find_string\<close> of
  \<open>hwi_alloc.c\<close>. Strings are byte lists without the terminating NUL. A scan reads the bytes
  of its section; \<open>ScanLeavesSection\<close> is a scan that runs past the section's end, which in C
  reads the bytes of the next section and which the theorems exclude. \<open>add_string\<close> is shown
  to implement an append-only table of distinct strings, \<open>add_typed_string\<close> and
  \<open>del_typed_string\<close> a finite map from type to string.
\<close>

section \<open>The string table\<close>

definition cstr_at :: "u8 list \<Rightarrow> nat \<Rightarrow> u8 list" where
  "cstr_at c i = takeWhile (\<lambda>b. b \<noteq> 0) (drop i c)"

definition hwi_find_string :: "lsp \<Rightarrow> nat \<Rightarrow> u8 list" where
  "hwi_find_string s off = cstr_at (sec_data s S_strings) off"

function add_string_scan :: "u8 list \<Rightarrow> u8 list \<Rightarrow> nat \<Rightarrow> (nat \<times> bool) option" where
  "add_string_scan c name i =
     (if length c \<le> i then None
      else if c ! i = 0 then Some (i, False)
      else if name = cstr_at c i then Some (i, True)
      else add_string_scan c name (i + length (cstr_at c i) + 1))"
  by pat_completeness auto
termination
  by (relation "measure (\<lambda>(c, name, i). length c - i)") auto

declare add_string_scan.simps [simp del]

definition add_string :: "u8 list \<Rightarrow> lsp \<Rightarrow> (nat \<times> lsp) res" where
  "add_string name s =
     (case add_string_scan (sec_data s S_strings) name 0 of
        None \<Rightarrow> Inl ScanLeavesSection
      | Some (i, True) \<Rightarrow> Inr (i, s)
      | Some (i, False) \<Rightarrow>
          (let str = s_p s S_strings + i;
               len = length name + 2;
               spare = s_size s S_strings - i
           in rbind (if len > spare then grow_syspage_section S_strings (len - spare) s else Inr s) (\<lambda>s.
              Inr (i, s\<lparr>lsp_mem := mem_write (lsp_mem s) str (name @ [0])\<rparr>))))"

section \<open>Typed strings\<close>

text \<open>
  An entry is a little-endian 32-bit type, the string with its NUL, and padding to the next
  multiple of four. \<open>cs_none\<close> stands for \<open>_CS_NONE\<close> of the system headers; the code relies on
  its being the type that zeroed memory reads as.
\<close>

abbreviation (input) cs_none :: u32 where
  "cs_none \<equiv> 0"

definition le32 :: "u32 \<Rightarrow> u8 list" where
  "le32 w = [ucast w, ucast (drop_bit 8 w), ucast (drop_bit 16 w), ucast (drop_bit 24 w)]"

definition word_at :: "u8 list \<Rightarrow> nat \<Rightarrow> u32" where
  "word_at c i = ucast (c ! i) OR push_bit 8 (ucast (c ! (i + 1))) OR
     push_bit 16 (ucast (c ! (i + 2))) OR push_bit 24 (ucast (c ! (i + 3)))"

definition round4 :: "nat \<Rightarrow> nat" where
  "round4 n = unat (ROUND (of_nat n) 4)"

lemma round4_eq: "n < 2 ^ 31 \<Longrightarrow> round4 n = (n + 3) div 4 * 4"
  using unat_ROUND [of 2 "of_nat n"] by (simp add: round4_def unsigned_of_nat take_bit_eq_mod)

lemma round4_ge: "n < 2 ^ 31 \<Longrightarrow> n \<le> round4 n"
  by (simp add: round4_eq)

function find_typed_loop :: "u8 list \<Rightarrow> u32 \<Rightarrow> nat \<Rightarrow> int option" where
  "find_typed_loop c ty i =
     (if length c < i + 4 then None
      else if word_at c i = ty then Some (int i)
      else if word_at c i = cs_none then Some (- 1)
      else (let j = i + 4 + (length (cstr_at c (i + 4)) + 1)
            in if 2 ^ 31 \<le> j then None else find_typed_loop c ty (round4 j)))"
  by pat_completeness auto
termination
proof (relation "measure (\<lambda>(c, ty, i). length c - i)", goal_cases)
  case (2 c ty i j)
  then have "i < round4 j" "i < length c" using round4_ge [of j] by simp_all
  then show ?case by simp
qed simp

declare find_typed_loop.simps [simp del]

definition find_typed_string :: "u32 \<Rightarrow> lsp \<Rightarrow> int res" where
  "find_typed_string ty s =
     (case find_typed_loop (sec_data s S_typed_strings) ty 0 of
        None \<Rightarrow> Inl ScanLeavesSection | Some i \<Rightarrow> Inr i)"

text \<open>The two copying loops of \<open>del_typed_string\<close>, on the section's bytes.\<close>

function del_copy :: "u8 list \<Rightarrow> nat \<Rightarrow> nat \<Rightarrow> nat \<Rightarrow> u8 list \<times> nat \<times> nat" where
  "del_copy c i j fin = (if j < fin then del_copy (c[i := c ! j]) (i + 1) (j + 1) fin else (c, i, j))"
  by pat_completeness auto
termination
  by (relation "measure (\<lambda>(c, i, j, fin). fin - j)") auto

function del_clear :: "u8 list \<Rightarrow> nat \<Rightarrow> nat \<Rightarrow> u8 list" where
  "del_clear c i j = (if i < j then del_clear (c[i := 0]) (i + 1) j else c)"
  by pat_completeness auto
termination
  by (relation "measure (\<lambda>(c, i, j). j - i)") auto

declare del_copy.simps [simp del] del_clear.simps [simp del]

definition del_typed_string :: "u32 \<Rightarrow> lsp \<Rightarrow> (int \<times> lsp) res" where
  "del_typed_string ty s =
     rbind (find_typed_string ty s) (\<lambda>i.
       if i < 0 then Inr (0, s)
       else
         (let c = sec_data s S_typed_strings;
              j = nat i + length (cstr_at c (nat i + 4)) + 1;
              j = round4 j
          in rbind (find_typed_string cs_none s) (\<lambda>fin.
             let (c, i, j) = del_copy c (nat i) j (nat fin);
                 c = del_clear c i j
             in Inr (1, s\<lparr>lsp_mem := mem_write (lsp_mem s) (s_p s S_typed_strings) c\<rparr>))))"

definition add_typed_string :: "u32 \<Rightarrow> u8 list \<Rightarrow> lsp \<Rightarrow> (nat \<times> lsp) res" where
  "add_typed_string ty name s =
     (let p = s_p s S_typed_strings
      in rbind (del_typed_string ty s) (\<lambda>(_, s).
         rbind (find_typed_string cs_none s) (\<lambda>i.
         let i = nat i;
             len = round4 (length name + 1);
             need = len + 8;
             spare = s_size s S_typed_strings - i
         in rbind (if spare < need then grow_syspage_section S_typed_strings (need - spare) s else Inr s) (\<lambda>s.
            Inr (i, s\<lparr>lsp_mem := mem_write (mem_write (lsp_mem s) (p + i) (le32 ty)) (p + i + 4) (name @ [0])\<rparr>)))))"

section \<open>Reading and writing a section\<close>

definition list_write :: "u8 list \<Rightarrow> nat \<Rightarrow> u8 list \<Rightarrow> u8 list" where
  "list_write c i bs = take i c @ bs @ drop (i + length bs) c"

lemma length_list_write: "i + length bs \<le> length c \<Longrightarrow> length (list_write c i bs) = length c"
  by (simp add: list_write_def)

lemma poke_read:
  assumes "i + length bs \<le> n"
  shows "mem_read (mem_write m (p + i) bs) p n = list_write (mem_read m p n) i bs"
proof (rule nth_equalityI)
  show "length (mem_read (mem_write m (p + i) bs) p n) = length (list_write (mem_read m p n) i bs)"
    using assms by (simp add: length_list_write)
next
  fix x
  assume "x < length (mem_read (mem_write m (p + i) bs) p n)"
  then show "mem_read (mem_write m (p + i) bs) p n ! x = list_write (mem_read m p n) i bs ! x"
    using assms by (auto simp: mem_read_def mem_write_def list_write_def nth_append)
qed

lemma poke_data:
  assumes ok: "lsp_ok s" and i: "i + length bs \<le> s_size s k"
  shows "sec_data (s\<lparr>lsp_mem := mem_write (lsp_mem s) (s_p s k + i) bs\<rparr>) j =
    (if j = k then list_write (sec_data s k) i bs else sec_data s j)"
proof (cases "j = k")
  case True
  then show ?thesis using i by (simp add: sec_data_def poke_read)
next
  case False
  then have "s_p s j + s_size s j \<le> s_p s k \<or> s_p s k + s_size s k \<le> s_p s j"
    using ok by (simp add: lsp_ok_def)
  then have "mem_read (mem_write (lsp_mem s) (s_p s k + i) bs) (s_p s j) (s_size s j) =
      mem_read (lsp_mem s) (s_p s j) (s_size s j)"
    using i by (intro mem_read_cong) (auto simp: mem_write_def)
  then show ?thesis using False by (simp add: sec_data_def)
qed

lemma poke_inv [simp]:
  "lsp_ok (s\<lparr>lsp_mem := m\<rparr>) = lsp_ok s" "sp_inv (s\<lparr>lsp_mem := m\<rparr>) = sp_inv s"
  "floating (s\<lparr>lsp_mem := m\<rparr>) k = floating s k"
  by (simp_all add: lsp_ok_def sp_inv_def floating_def)

lemma cstr_at_append:
  "0 \<notin> set x \<Longrightarrow> length a = i \<Longrightarrow> cstr_at (a @ x @ 0 # z) i = x"
  by (simp add: cstr_at_def) (subst takeWhile_append2, auto)

section \<open>The string table is an append-only list of distinct strings\<close>

definition str_ok :: "u8 list \<Rightarrow> bool" where
  "str_ok x \<longleftrightarrow> x \<noteq> [] \<and> 0 \<notin> set x"

definition table :: "u8 list list \<Rightarrow> u8 list" where
  "table ss = concat (map (\<lambda>x. x @ [0]) ss)"

definition is_table :: "u8 list \<Rightarrow> u8 list list \<Rightarrow> bool" where
  "is_table c ss \<longleftrightarrow> (\<exists>n > 0. c = table ss @ replicate n 0) \<and> (\<forall>x \<in> set ss. str_ok x) \<and> distinct ss"

lemma table_simps [simp]: "table [] = []" "table (x # ss) = x @ 0 # table ss" "table (a @ b) = table a @ table b"
  by (simp_all add: table_def)

lemma add_string_scan_table:
  assumes "c = table a @ table b @ replicate n 0" "0 < n" "\<forall>x \<in> set b. str_ok x"
  shows "add_string_scan c name (length (table a)) =
    Some (length (table (a @ takeWhile (\<lambda>x. x \<noteq> name) b)), name \<in> set b)"
  using assms
proof (induction b arbitrary: a)
  case Nil
  then show ?case by (subst add_string_scan.simps) (auto simp: nth_append)
next
  case (Cons x b)
  have x: "x \<noteq> []" "0 \<notin> set x" using Cons.prems(3) by (auto simp: str_ok_def)
  have "c ! length (table a) = hd x" "hd x \<noteq> 0"
    using x Cons.prems(1) by (auto simp: nth_append hd_conv_nth in_set_conv_nth)
  moreover have cs: "cstr_at c (length (table a)) = x"
    using cstr_at_append [OF x(2), of "table a"] Cons.prems(1) by simp
  moreover have "length (table a) < length c" using Cons.prems(1,2) by simp
  moreover have "add_string_scan c name (length (table (a @ [x]))) =
      Some (length (table ((a @ [x]) @ takeWhile (\<lambda>x. x \<noteq> name) b)), name \<in> set b)"
    using Cons.prems by (intro Cons.IH) auto
  ultimately show ?case
    by (subst add_string_scan.simps) (auto simp: cs)
qed

lemma find_in_table:
  assumes "c = table ss @ z" "z \<noteq> []" "x \<in> set ss" "\<forall>x \<in> set ss. str_ok x"
  shows "cstr_at c (length (table (takeWhile (\<lambda>y. y \<noteq> x) ss))) = x"
proof -
  obtain b where b: "ss = takeWhile (\<lambda>y. y \<noteq> x) ss @ x # b"
  proof -
    have "dropWhile (\<lambda>y. y \<noteq> x) ss \<noteq> []" using assms(3) by (auto simp: dropWhile_eq_Nil_conv)
    moreover from this have "hd (dropWhile (\<lambda>y. y \<noteq> x) ss) = x" using hd_dropWhile by blast
    ultimately have "dropWhile (\<lambda>y. y \<noteq> x) ss = x # tl (dropWhile (\<lambda>y. y \<noteq> x) ss)"
      by (metis list.collapse)
    then show ?thesis using that takeWhile_dropWhile_id by metis
  qed
  have "c = table (takeWhile (\<lambda>y. y \<noteq> x) ss) @ x @ 0 # (table b @ z)"
    unfolding assms(1) by (subst b) simp
  then show ?thesis
    using assms(3,4) cstr_at_append [of x] by (simp add: str_ok_def)
qed

lemma add_string_step:
  assumes inv: "sp_inv s" and fl: "floating s S_strings" and tab: "is_table (sec_data s S_strings) ss"
    and name: "str_ok name" "length name \<le> 2 ^ 20" and add: "add_string name s = Inr (off, s')"
  defines "ss' \<equiv> (if name \<in> set ss then ss else ss @ [name])"
  shows "sp_inv s'" and "\<And>k. floating s k \<Longrightarrow> floating s' k"
    and "is_table (sec_data s' S_strings) ss'"
    and "off = length (table (takeWhile (\<lambda>x. x \<noteq> name) ss'))"
    and "\<And>k. k \<noteq> S_strings \<Longrightarrow> sec_data s' k = sec_data s k"
proof -
  obtain n where n: "0 < n" "sec_data s S_strings = table ss @ replicate n 0" "\<forall>x \<in> set ss. str_ok x"
    "distinct ss"
    using tab by (auto simp: is_table_def)
  have scan: "add_string_scan (sec_data s S_strings) name 0 =
      Some (length (table (takeWhile (\<lambda>x. x \<noteq> name) ss)), name \<in> set ss)"
    using add_string_scan_table [of _ "[]" ss n name] n by simp
  have "sp_inv s' \<and> (\<forall>k. floating s k \<longrightarrow> floating s' k) \<and> is_table (sec_data s' S_strings) ss' \<and>
    off = length (table (takeWhile (\<lambda>x. x \<noteq> name) ss')) \<and> (\<forall>k. k \<noteq> S_strings \<longrightarrow> sec_data s' k = sec_data s k)"
  proof (cases "name \<in> set ss")
    case True
    then show ?thesis using add inv tab scan by (auto simp: add_string_def ss'_def)
  next
    case False
    define i where "i = length (table ss)"
    have tw: "takeWhile (\<lambda>x. x \<noteq> name) ss = ss" using False by (auto simp: takeWhile_eq_all_conv)
    have size: "s_size s S_strings = i + n"
      using n(2) length_sec_data [of s S_strings] by (simp add: i_def)
    define more where "more = length name + 2 - n"
    have eq: "add_string name s = rbind (if n < length name + 2 then grow_syspage_section S_strings more s else Inr s)
        (\<lambda>s1. Inr (i, s1\<lparr>lsp_mem := mem_write (lsp_mem s1) (s_p s S_strings + i) (name @ [0])\<rparr>))"
      using False by (simp add: add_string_def scan tw size more_def Let_def flip: i_def)
    obtain s1 where s1: "(if n < length name + 2 then grow_syspage_section S_strings more s else Inr s) = Inr s1"
      and s': "s' = s1\<lparr>lsp_mem := mem_write (lsp_mem s1) (s_p s S_strings + i) (name @ [0])\<rparr>" and off: "off = i"
      using add unfolding eq rbind_Inr_iff by blast
    define r where "r = (if n < length name + 2 then round8 more else 0)"
    have m: "n < length name + 2 \<Longrightarrow> 0 < more \<and> more \<le> 2 ^ 30" using name(2) by (simp add: more_def)
    have s1': "sp_inv s1 \<and> (\<forall>k. floating s k \<longrightarrow> floating s1 k) \<and>
        (\<forall>k. sec_data s1 k = sec_data s k @ (if k = S_strings then replicate r 0 else [])) \<and>
        s_p s1 S_strings = s_p s S_strings"
    proof (cases "n < length name + 2")
      case True
      then have g: "grow_syspage_section S_strings more s = Inr s1" using s1 by simp
      show ?thesis
        using grow_inv [OF inv fl _ _ g] grow_unfold(4) [OF _ _ _ g] inv m True by (auto simp: r_def sp_inv_def)
    qed (use s1 inv in \<open>simp add: r_def\<close>)
    have "length name + 2 \<le> n + r"
      using round8_bounds [of more] m by (auto simp: r_def more_def)
    then obtain z where z: "n + r = length name + 1 + z" "0 < z"
      by (metis add.assoc add.commute add_0 le_Suc_ex less_numeral_extra(1) nat_arith.rule0 one_add_one zero_less_Suc add_Suc_right plus_1_eq_Suc)
    have c1: "sec_data s1 S_strings = table ss @ replicate (n + r) 0"
      using s1' n(2) by (simp add: replicate_add)
    have p: "s_p s S_strings = s_p s1 S_strings" using s1' by simp
    have len1: "i + length (name @ [0]) \<le> s_size s1 S_strings"
      using c1 length_sec_data [of s1 S_strings] z by (simp add: i_def)
    have ok1: "lsp_ok s1" using s1' by (simp add: sp_inv_def)
    have d: "sec_data s' k = (if k = S_strings then list_write (sec_data s1 k) i (name @ [0]) else sec_data s1 k)" for k
      unfolding s' p using poke_data [OF ok1 len1, of k] by simp
    have "list_write (sec_data s1 S_strings) i (name @ [0]) = table (ss @ [name]) @ replicate z 0"
      unfolding c1 z(1) by (simp add: list_write_def i_def)
    then have "is_table (sec_data s' S_strings) (ss @ [name])"
      using d z n(3,4) name(1) False by (auto simp: is_table_def)
    moreover have "sp_inv s'" "\<forall>k. floating s k \<longrightarrow> floating s' k" using s1' by (simp_all add: s')
    moreover have "takeWhile (\<lambda>x. x \<noteq> name) (ss @ [name]) = ss" using False by (auto simp: takeWhile_eq_all_conv takeWhile_append)
    ultimately show ?thesis using False off s1' d by (simp add: ss'_def i_def)
  qed
  then show "sp_inv s'" "\<And>k. floating s k \<Longrightarrow> floating s' k" "is_table (sec_data s' S_strings) ss'"
    "off = length (table (takeWhile (\<lambda>x. x \<noteq> name) ss'))"
    "\<And>k. k \<noteq> S_strings \<Longrightarrow> sec_data s' k = sec_data s k"
    by auto
qed

lemma cstr_at_keep:
  assumes "o1 < length t" "last t = 0"
  shows "cstr_at (t @ z) o1 = cstr_at t o1"
proof -
  have "drop o1 t \<noteq> []" "last (drop o1 t) = 0" using assms by simp_all
  then have "0 \<in> set (drop o1 t)" by (metis last_in_set)
  then show ?thesis using assms(1) by (auto simp: cstr_at_def takeWhile_append1)
qed

lemma last_table: "ss \<noteq> [] \<Longrightarrow> last (table ss) = 0"
  by (cases ss rule: rev_cases) simp_all

lemma table_find_keep:
  assumes "is_table c ss" "is_table c' (ss @ xs)" "cstr_at c o1 \<noteq> []"
  shows "cstr_at c' o1 = cstr_at c o1"
proof -
  obtain n n' where c: "c = table ss @ replicate n 0" and c': "c' = table ss @ table xs @ replicate n' 0"
    using assms(1,2) by (auto simp: is_table_def)
  have o1: "o1 < length (table ss)"
  proof (rule ccontr)
    assume "\<not> o1 < length (table ss)"
    then have "drop o1 c = replicate (n - (o1 - length (table ss))) 0" using c by simp
    then show False using assms(3) by (simp add: cstr_at_def)
  qed
  moreover from this have "ss \<noteq> []" by auto
  ultimately show ?thesis unfolding c c' using cstr_at_keep last_table by metis
qed

text \<open>
  The interface the other parts of the startup library rely on: adding a name gives an offset
  that reads back as the name, and every offset handed out before still reads as it did.
\<close>

locale string_store =
  fixes ok :: "'s \<Rightarrow> bool" and good :: "'n \<Rightarrow> bool" and find :: "'s \<Rightarrow> nat \<Rightarrow> 'n"
    and live :: "'s \<Rightarrow> nat \<Rightarrow> bool" and add :: "'n \<Rightarrow> 's \<Rightarrow> (nat \<times> 's) res"
  assumes add_ok: "ok s \<Longrightarrow> good x \<Longrightarrow> add x s = Inr (off, s') \<Longrightarrow> ok s'"
    and add_find: "ok s \<Longrightarrow> good x \<Longrightarrow> add x s = Inr (off, s') \<Longrightarrow> live s' off \<and> find s' off = x"
    and add_keep: "ok s \<Longrightarrow> good x \<Longrightarrow> add x s = Inr (off, s') \<Longrightarrow> live s o1 \<Longrightarrow>
      live s' o1 \<and> find s' o1 = find s o1"
begin

lemma add_twice:
  assumes "ok s" "good x" "good y" "add x s = Inr (o1, s1)" "add y s1 = Inr (o2, s2)"
  shows "find s2 o1 = x \<and> find s2 o2 = y \<and> (o1 = o2 \<longrightarrow> x = y)"
  using assms add_ok add_find add_keep by metis

lemma add_names_stable:
  assumes "ok s" "good x" "add x s = Inr (off, s')" "\<forall>e \<in> set es. live s (nm e)"
  shows "map (\<lambda>e. find s' (nm e)) es = map (\<lambda>e. find s (nm e)) es \<and> (\<forall>e \<in> set es. live s' (nm e))"
  using assms add_keep by fastforce

end

definition strings_ok :: "lsp \<Rightarrow> bool" where
  "strings_ok s \<longleftrightarrow> sp_inv s \<and> floating s S_strings \<and> (\<exists>ss. is_table (sec_data s S_strings) ss)"

definition name_ok :: "u8 list \<Rightarrow> bool" where
  "name_ok x \<longleftrightarrow> str_ok x \<and> length x \<le> 2 ^ 20"

definition live_string :: "lsp \<Rightarrow> nat \<Rightarrow> bool" where
  "live_string s off \<longleftrightarrow> hwi_find_string s off \<noteq> []"

lemma add_string_laws:
  assumes ok: "strings_ok s" and x: "name_ok x" and add: "add_string x s = Inr (off, s')"
  shows "strings_ok s'" "hwi_find_string s' off = x"
    and "live_string s o1 \<Longrightarrow> hwi_find_string s' o1 = hwi_find_string s o1"
    and "k \<noteq> S_strings \<Longrightarrow> sec_data s' k = sec_data s k" "floating s k \<Longrightarrow> floating s' k"
proof -
  obtain ss where ss: "sp_inv s" "floating s S_strings" "is_table (sec_data s S_strings) ss" "str_ok x" "length x \<le> 2 ^ 20"
    using ok x by (auto simp: strings_ok_def name_ok_def)
  note st = add_string_step [OF ss add]
  show "strings_ok s'" using st(1,2,3) ss(2) unfolding strings_ok_def by blast
  show "k \<noteq> S_strings \<Longrightarrow> sec_data s' k = sec_data s k" by (rule st(5))
  show "floating s k \<Longrightarrow> floating s' k" by (rule st(2))
  obtain n where n: "0 < n" "sec_data s' S_strings = table (if x \<in> set ss then ss else ss @ [x]) @ replicate n 0"
    "\<forall>y \<in> set (if x \<in> set ss then ss else ss @ [x]). str_ok y"
    using st(3) unfolding is_table_def by blast
  have "x \<in> set (if x \<in> set ss then ss else ss @ [x])" by simp
  from find_in_table [OF n(2) _ this n(3)] show "hwi_find_string s' off = x"
    using n(1) by (simp add: hwi_find_string_def st(4))
  have "is_table (sec_data s' S_strings) (ss @ (if x \<in> set ss then [] else [x]))"
    using st(3) by (auto split: if_splits)
  then show "live_string s o1 \<Longrightarrow> hwi_find_string s' o1 = hwi_find_string s o1"
    using table_find_keep [OF ss(3)] by (simp add: live_string_def hwi_find_string_def)
qed

interpretation strs: string_store strings_ok name_ok hwi_find_string live_string add_string
  by unfold_locales (auto simp: add_string_laws live_string_def name_ok_def str_ok_def dest: add_string_laws(2,3))

lemma round8_mono: "a \<le> b \<Longrightarrow> b \<le> 2 ^ 30 \<Longrightarrow> round8 a \<le> round8 b"
  by (simp add: round8_eq div_le_mono)

lemma add_string_returns:
  assumes ok: "strings_ok s" and x: "name_ok x"
    and room: "sp_total_size s + round8 (length x + 2) \<le> sp_size s"
  shows "\<exists>off s'. add_string x s = Inr (off, s') \<and> sp_size s' = sp_size s \<and>
    sp_total_size s' \<le> sp_total_size s + round8 (length x + 2)"
proof -
  obtain ss n where ss: "sp_inv s" "floating s S_strings" "sec_data s S_strings = table ss @ replicate n 0"
    "0 < n" "\<forall>y \<in> set ss. str_ok y" "str_ok x" "length x \<le> 2 ^ 20"
    using ok x by (auto simp: strings_ok_def name_ok_def is_table_def)
  define i where "i = length (table (takeWhile (\<lambda>y. y \<noteq> x) ss))"
  have scan: "add_string_scan (sec_data s S_strings) x 0 = Some (i, x \<in> set ss)"
    using add_string_scan_table [of _ "[]" ss n x] ss by (simp add: i_def)
  have lok: "lsp_ok s" using ss(1) by (simp add: sp_inv_def)
  let ?k = "length x + 2 - (s_size s S_strings - i)"
  show ?thesis
  proof (cases "0 < ?k \<and> x \<notin> set ss")
    case True
    have k: "?k \<le> 2 ^ 30" "?k \<le> length x + 2" using ss(7) by simp_all
    have r: "round8 ?k \<le> round8 (length x + 2)" using ss(7) by (intro round8_mono) simp_all
    then obtain s1 where g: "grow_syspage_section S_strings ?k s = Inr s1"
      using grow_returns [OF lok _ k(1), of S_strings] True room by force
    have "sp_total_size s1 = sp_total_size s + round8 ?k" "sp_size s1 = sp_size s"
      using grow_unfold [OF lok _ k(1) g] True by simp_all
    then show ?thesis using True r g by (simp add: add_string_def scan Let_def)
  next
    case False
    then show ?thesis by (cases "x \<in> set ss") (auto simp: add_string_def scan Let_def)
  qed
qed

text \<open>
  C12: with room below the limit two names can be added; both then read back at the offsets
  they were given, and the same offset is given only to the same name.
\<close>

theorem add_string_readback:
  assumes ok: "strings_ok s" and xy: "name_ok x" "name_ok y"
    and room: "sp_total_size s + round8 (length x + 2) + round8 (length y + 2) \<le> sp_size s"
  shows "\<exists>o1 s1 o2 s2. add_string x s = Inr (o1, s1) \<and> add_string y s1 = Inr (o2, s2) \<and>
    hwi_find_string s2 o1 = x \<and> hwi_find_string s2 o2 = y \<and> (o1 = o2 \<longrightarrow> x = y)"
proof -
  obtain o1 s1 where 1: "add_string x s = Inr (o1, s1)" "sp_size s1 = sp_size s"
    "sp_total_size s1 \<le> sp_total_size s + round8 (length x + 2)"
    using add_string_returns [OF ok xy(1)] room by auto
  then obtain o2 s2 where 2: "add_string y s1 = Inr (o2, s2)"
    using add_string_returns [OF strs.add_ok [OF ok xy(1) 1(1)] xy(2)] room by force
  show ?thesis using 1(1) 2 strs.add_twice [OF ok xy 1(1) 2] by blast
qed

section \<open>Typed strings: adding a fresh type is a map update\<close>

definition pad4 :: "u8 list \<Rightarrow> u8 list" where
  "pad4 x = x @ replicate (round4 (length x) - length x) 0"

definition tenc :: "u32 \<times> u8 list \<Rightarrow> u8 list" where
  "tenc e = le32 (fst e) @ pad4 (snd e @ [0])"

definition ttable :: "(u32 \<times> u8 list) list \<Rightarrow> u8 list" where
  "ttable es = concat (map tenc es)"

definition is_ttable :: "u8 list \<Rightarrow> (u32 \<times> u8 list) list \<Rightarrow> bool" where
  "is_ttable c es \<longleftrightarrow> (\<exists>n \<ge> 4. c = ttable es @ replicate n 0) \<and> length c \<le> 2 ^ 30 \<and>
     (\<forall>e \<in> set es. fst e \<noteq> cs_none \<and> 0 \<notin> set (snd e)) \<and> distinct (map fst es)"

lemma ttable_simps [simp]: "ttable [] = []" "ttable (e # es) = tenc e @ ttable es" "ttable (a @ b) = ttable a @ ttable b"
  by (simp_all add: ttable_def)

lemma length_le32 [simp]: "length (le32 w) = 4"
  by (simp add: le32_def)

lemma length_pad4: "length x < 2 ^ 31 \<Longrightarrow> length (pad4 x) = round4 (length x)"
  using round4_ge by (simp add: pad4_def)

lemma length_tenc: "length (snd e) < 2 ^ 31 - 1 \<Longrightarrow> length (tenc e) = 4 + round4 (length (snd e) + 1)"
  by (simp add: tenc_def length_pad4)

lemma round4_add: "4 dvd a \<Longrightarrow> a + n < 2 ^ 31 \<Longrightarrow> round4 (a + n) = a + round4 n"
  by (auto simp: round4_eq elim!: dvdE) (metis add.assoc add.commute div_mult_self4 zero_neq_numeral distrib_right mult.commute)

lemma word_at_le32: "length a = i \<Longrightarrow> word_at (a @ le32 w @ z) i = w"
proof -
  have "ucast (ucast w :: u8) OR push_bit 8 (ucast (ucast (drop_bit 8 w) :: u8)) OR
      push_bit 16 (ucast (ucast (drop_bit 16 w) :: u8)) OR push_bit 24 (ucast (ucast (drop_bit 24 w) :: u8)) = w"
  proof (rule bit_word_eqI, goal_cases)
    case (1 n)
    then have "n < 32" by simp
    then consider "n < 8" | "8 \<le> n \<and> n < 16" | "16 \<le> n \<and> n < 24" | "24 \<le> n \<and> n < 32" by linarith
    then show ?case
      by cases (auto simp: bit_or_iff bit_push_bit_iff bit_unsigned_iff bit_drop_bit_eq)
  qed
  then show "length a = i \<Longrightarrow> ?thesis"
    by (auto simp: word_at_def le32_def nth_append)
qed

lemma keys_nonzero: "\<forall>e \<in> A. fst e \<noteq> z \<and> P (snd e) \<Longrightarrow> z \<notin> fst ` A"
  by (rule notI, erule imageE, drule (1) bspec, simp)

lemma zeros_le32: "4 \<le> n \<Longrightarrow> replicate n 0 = le32 0 @ replicate (n - 4) 0"
  by (auto simp: le32_def numeral_eq_Suc Suc_le_eq dest!: less_imp_Suc_add)

lemma find_typed_ttable:
  assumes "c = ttable a @ ttable b @ le32 0 @ z" "length c \<le> 2 ^ 30"
    "\<forall>e \<in> set b. fst e \<noteq> cs_none \<and> 0 \<notin> set (snd e)" "4 dvd length (ttable a)"
  shows "find_typed_loop c ty (length (ttable a)) =
    Some (if ty \<in> fst ` set b then int (length (ttable (a @ takeWhile (\<lambda>e. fst e \<noteq> ty) b)))
          else if ty = cs_none then int (length (ttable (a @ b))) else - 1)"
  using assms
proof (induction b arbitrary: a)
  case Nil
  have "word_at c (length (ttable a)) = 0"
    using Nil.prems word_at_le32 [of "ttable a"] by simp
  then show ?case
    using Nil.prems by (subst find_typed_loop.simps) auto
next
  case (Cons e b)
  obtain t x where e: "e = (t, x)" by (cases e)
  have tx: "t \<noteq> cs_none" "0 \<notin> set x" using Cons.prems(3) by (auto simp: e)
  let ?i = "length (ttable a)"
  have c: "c = ttable a @ le32 t @ pad4 (x @ [0]) @ ttable b @ le32 0 @ z"
    using Cons.prems(1) by (simp add: e tenc_def)
  have "length c \<ge> ?i + 4 + (length x + 1)" unfolding c by (simp add: pad4_def)
  then have len: "?i + 4 + (length x + 1) \<le> 2 ^ 30" using Cons.prems(2) by linarith
  have w: "word_at c ?i = t" unfolding c by (rule word_at_le32) simp
  have s: "cstr_at c (?i + 4) = x"
    using cstr_at_append [OF tx(2), of "ttable a @ le32 t" "?i + 4"] unfolding c by (simp add: pad4_def)
  have j: "round4 (?i + 4 + (length x + 1)) = length (ttable (a @ [e]))"
    using round4_add [of "?i + 4" "length x + 1"] Cons.prems(4) len by (simp add: e length_tenc)
  have dvd: "4 dvd length (ttable (a @ [e]))"
    using len Cons.prems(4) by (simp add: e length_tenc round4_eq)
  have IH: "find_typed_loop c ty (length (ttable (a @ [e]))) =
    Some (if ty \<in> fst ` set b then int (length (ttable ((a @ [e]) @ takeWhile (\<lambda>e. fst e \<noteq> ty) b)))
          else if ty = cs_none then int (length (ttable ((a @ [e]) @ b))) else - 1)"
    using Cons.prems dvd by (intro Cons.IH) auto
  have "?i + 4 \<le> length c" unfolding c by simp
  then have "find_typed_loop c ty ?i =
      (if t = ty then Some (int ?i) else find_typed_loop c ty (length (ttable (a @ [e]))))"
    using len tx by (subst find_typed_loop.simps) (simp only: w s Let_def j, simp)
  then show ?case unfolding IH using tx(1) by (auto simp: e)
qed

text \<open>The finite map a section of typed strings stands for.\<close>

definition typed_lookup :: "lsp \<Rightarrow> u32 \<Rightarrow> u8 list option" where
  "typed_lookup s ty =
     (case find_typed_string ty s of
        Inr i \<Rightarrow> (if ty = cs_none \<or> i < 0 then None else Some (cstr_at (sec_data s S_typed_strings) (nat i + 4)))
      | Inl _ \<Rightarrow> None)"

lemma typed_lookup_ttable:
  assumes "is_ttable (sec_data s S_typed_strings) es"
  shows "typed_lookup s ty = map_of es ty"
proof -
  obtain n where n: "4 \<le> n" "sec_data s S_typed_strings = ttable es @ replicate n 0"
    "length (sec_data s S_typed_strings) \<le> 2 ^ 30" "\<forall>e \<in> set es. fst e \<noteq> cs_none \<and> 0 \<notin> set (snd e)"
    using assms unfolding is_ttable_def by blast
  have f: "find_typed_string ty s =
      Inr (if ty \<in> fst ` set es then int (length (ttable (takeWhile (\<lambda>e. fst e \<noteq> ty) es)))
          else if ty = cs_none then int (length (ttable es)) else - 1)"
    using find_typed_ttable [of "sec_data s S_typed_strings" "[]" es "replicate (n - 4) 0" ty] n zeros_le32 [of n] by (simp add: find_typed_string_def)
  show ?thesis
  proof (cases "ty \<in> fst ` set es")
    case False
    then have "map_of es ty = None" by (simp add: map_of_eq_None_iff)
    then show ?thesis using False by (simp add: typed_lookup_def f)
  next
    case True
    obtain x b where split: "es = takeWhile (\<lambda>e. fst e \<noteq> ty) es @ (ty, x) # b"
    proof -
      have ne: "dropWhile (\<lambda>e. fst e \<noteq> ty) es \<noteq> []" using True by (auto simp: dropWhile_eq_Nil_conv)
      then have "fst (hd (dropWhile (\<lambda>e. fst e \<noteq> ty) es)) = ty" using hd_dropWhile by blast
      with ne obtain x b where "dropWhile (\<lambda>e. fst e \<noteq> ty) es = (ty, x) # b"
        by (metis list.collapse prod.collapse)
      then show ?thesis using that takeWhile_dropWhile_id by metis
    qed
    define a where "a = takeWhile (\<lambda>e. fst e \<noteq> ty) es"
    have split: "es = a @ (ty, x) # b" using split by (simp add: a_def)
    have "ty \<notin> fst ` set a" unfolding a_def by (auto dest: set_takeWhileD)
    then have m: "map_of es ty = Some x"
      by (subst split) (simp add: map_add_def map_of_eq_None_iff [THEN iffD2])
    have "0 \<notin> set x" "ty \<noteq> cs_none" using n(4) split by auto
    moreover have "sec_data s S_typed_strings = (ttable a @ le32 ty) @ x @ 0 #
        (replicate (round4 (length (x @ [0])) - length (x @ [0])) 0 @ ttable b @ replicate n 0)"
      unfolding n(2) by (subst split) (simp add: tenc_def pad4_def)
    ultimately have "cstr_at (sec_data s S_typed_strings) (length (ttable a) + 4) = x"
      by (simp only:) (rule cstr_at_append, simp_all)
    then show ?thesis using True \<open>ty \<noteq> cs_none\<close> m by (simp add: typed_lookup_def f flip: a_def)
  qed
qed

lemma s_size_le_total: "lsp_ok s \<Longrightarrow> s_size s k \<le> sp_total_size s"
proof -
  assume ok: "lsp_ok s"
  then have "s_p s k + s_size s k \<le> lsp_base s + sp_total_size s" by (simp add: lsp_ok_def)
  then show ?thesis using lsp_ok_base [OF ok, of k] by linarith
qed

lemma is_ttableE:
  assumes "is_ttable c es"
  obtains n where "4 \<le> n" "c = ttable es @ replicate n 0" "length c \<le> 2 ^ 30"
    "\<forall>e \<in> set es. fst e \<noteq> cs_none \<and> 0 \<notin> set (snd e)" "distinct (map fst es)"
  using assms unfolding is_ttable_def by blast

lemma find_typed_is_ttable:
  assumes "is_ttable (sec_data s S_typed_strings) es"
  shows "find_typed_string ty s =
      Inr (if ty \<in> fst ` set es then int (length (ttable (takeWhile (\<lambda>e. fst e \<noteq> ty) es)))
          else if ty = cs_none then int (length (ttable es)) else - 1)"
  using assms
proof (rule is_ttableE)
  fix n
  assume "4 \<le> n" "sec_data s S_typed_strings = ttable es @ replicate n 0"
    "length (sec_data s S_typed_strings) \<le> 2 ^ 30" "\<forall>e \<in> set es. fst e \<noteq> cs_none \<and> 0 \<notin> set (snd e)"
  then show ?thesis
    using find_typed_ttable [of "sec_data s S_typed_strings" "[]" es "replicate (n - 4) 0" ty] zeros_le32 [of n] by (simp add: find_typed_string_def)
qed

lemma ttable_write:
  assumes "round4 (length x + 1) + 8 \<le> m" "length x \<le> 2 ^ 20"
  shows "list_write (list_write (ttable es @ replicate m 0) (length (ttable es)) (le32 ty)) (length (ttable es) + 4) (x @ [0])
    = ttable (es @ [(ty, x)]) @ replicate (m - 4 - round4 (length x + 1)) 0"
proof -
  have "length x + 1 \<le> round4 (length x + 1)" using assms(2) by (intro round4_ge) simp
  then obtain d where d: "round4 (length x + 1) = length x + 1 + d" by (metis le_Suc_ex)
  define z where "z = m - 4 - round4 (length x + 1)"
  have z: "m = 4 + (length x + 1 + (d + z))"
    using assms(1) d by (simp add: z_def)
  have "list_write (list_write (ttable es @ replicate m 0) (length (ttable es)) (le32 ty)) (length (ttable es) + 4) (x @ [0])
    = ttable es @ le32 ty @ x @ 0 # replicate (d + z) 0"
    unfolding z by (simp add: list_write_def)
  also have "\<dots> = ttable (es @ [(ty, x)]) @ replicate z 0"
    using d by (simp add: tenc_def pad4_def replicate_add)
  finally show ?thesis by (simp add: z_def)
qed

text \<open>
  C17: adding a string of a type that the table does not have, with room below the limit,
  returns and is the map update: the new type reads as the string, every other type as before,
  and no other section of the system page changes.
\<close>

theorem add_typed_string_fresh:
  assumes inv: "sp_inv s" "floating s S_typed_strings" and tab: "is_ttable (sec_data s S_typed_strings) es"
    and ty: "ty \<noteq> cs_none" "ty \<notin> fst ` set es" and x: "0 \<notin> set x" "length x \<le> 2 ^ 20"
    and room: "sp_total_size s + round8 (round4 (length x + 1) + 8) \<le> sp_size s" "sp_size s \<le> 2 ^ 30"
  shows "\<exists>i s'. add_typed_string ty x s = Inr (i, s') \<and> sp_inv s' \<and>
    is_ttable (sec_data s' S_typed_strings) (es @ [(ty, x)]) \<and>
    typed_lookup s' = (typed_lookup s)(ty \<mapsto> x) \<and>
    (\<forall>k. k \<noteq> S_typed_strings \<longrightarrow> sec_data s' k = sec_data s k)"
proof -
  obtain n where n: "4 \<le> n" "sec_data s S_typed_strings = ttable es @ replicate n 0"
    "\<forall>e \<in> set es. fst e \<noteq> cs_none \<and> 0 \<notin> set (snd e)" "distinct (map fst es)"
    using tab by (rule is_ttableE)
  let ?S = S_typed_strings
  define i where "i = length (ttable es)"
  define need where "need = round4 (length x + 1) + 8"
  have lok: "lsp_ok s" using inv by (simp add: sp_inv_def)
  have sz: "s_size s ?S = i + n" using n(2) length_sec_data [of s ?S] by (simp add: i_def)
  have noty: "cs_none \<notin> fst ` set es" using n(3) by auto
  have del: "del_typed_string ty s = Inr (0, s)"
    using ty by (simp add: del_typed_string_def find_typed_is_ttable [OF tab])
  have fin: "find_typed_string cs_none s = Inr (int i)"
    using noty by (simp add: find_typed_is_ttable [OF tab] i_def)
  have add: "add_typed_string ty x s =
      rbind (if n < need then grow_syspage_section ?S (need - n) s else Inr s)
        (\<lambda>s1. Inr (i, s1\<lparr>lsp_mem := mem_write (mem_write (lsp_mem s1) (s_p s ?S + i) (le32 ty)) (s_p s ?S + i + 4) (x @ [0])\<rparr>))"
    using fin by (simp add: add_typed_string_def del sz need_def Let_def)
  have nd: "need \<le> 2 ^ 30"
    using x(2) by (simp add: need_def round4_eq)
  have mono: "round8 (need - n) \<le> round8 need" using nd by (intro round8_mono) simp_all
  define r where "r = (if n < need then round8 (need - n) else 0)"
  obtain s1 where s1: "(if n < need then grow_syspage_section ?S (need - n) s else Inr s) = Inr s1"
    "sp_inv s1" "s_p s1 ?S = s_p s ?S" "sp_total_size s1 \<le> sp_size s" "lsp_base s1 = lsp_base s"
    "\<forall>k. sec_data s1 k = sec_data s k @ (if k = ?S then replicate r 0 else [])"
  proof (cases "n < need")
    case True
    then have pos: "0 < need - n" "need - n \<le> 2 ^ 30" using nd by simp_all
    from grow_returns [OF lok this, of ?S] room(1) mono obtain s1
      where g: "grow_syspage_section ?S (need - n) s = Inr s1" by (auto simp: need_def)
    show ?thesis
      using that [of s1] True g grow_inv(1,3) [OF inv pos g] grow_unfold(4,8) [OF lok pos g] grow_ok(2) [OF lok pos g]
      by (simp add: r_def)
  next
    case False
    then show ?thesis using that [of s] inv room(1) by (simp add: r_def)
  qed
  define m where "m = n + r"
  have m: "need \<le> m" using round8_bounds [of "need - n"] nd by (simp add: m_def r_def) linarith
  have c1: "sec_data s1 ?S = ttable es @ replicate m 0" using s1(6) n(2) by (simp add: m_def replicate_add)
  define s2 where "s2 = s1\<lparr>lsp_mem := mem_write (lsp_mem s1) (s_p s1 ?S + i) (le32 ty)\<rparr>"
  define s3 where "s3 = s2\<lparr>lsp_mem := mem_write (lsp_mem s2) (s_p s2 ?S + (i + 4)) (x @ [0])\<rparr>"
  have z1: "s_size s1 ?S = i + m" using c1 length_sec_data [of s1 ?S] by (simp add: i_def)
  have r4: "length x + 1 \<le> round4 (length x + 1)" using x(2) by (intro round4_ge) simp
  have lok1: "lsp_ok s1" using s1(2) by (simp add: sp_inv_def)
  have d2: "sec_data s2 k = (if k = ?S then list_write (sec_data s1 k) i (le32 ty) else sec_data s1 k)" for k
    unfolding s2_def using poke_data [OF lok1, of i "le32 ty" ?S k] z1 m by (simp add: need_def)
  have lok2: "lsp_ok s2" using lok1 by (simp add: s2_def)
  have z2: "s_size s2 ?S = i + m" using z1 by (simp add: s2_def)
  have d3: "sec_data s3 k = (if k = ?S then list_write (sec_data s2 k) (i + 4) (x @ [0]) else sec_data s2 k)" for k
    unfolding s3_def using poke_data [OF lok2, of "i + 4" "x @ [0]" ?S k] z2 m r4 by (simp add: need_def)
  have c3: "sec_data s3 ?S = ttable (es @ [(ty, x)]) @ replicate (m - 4 - round4 (length x + 1)) 0"
    using d3 [of ?S] d2 [of ?S] c1 ttable_write [of x m es ty] m x(2) by (simp add: need_def i_def)
  have "s_size s3 ?S \<le> sp_total_size s1"
    using s_size_le_total [OF lok1] by (simp add: s3_def s2_def)
  then have "length (sec_data s3 ?S) \<le> 2 ^ 30" using s1(4) room(2) by simp
  moreover have "4 \<le> m - 4 - round4 (length x + 1)" using m by (simp add: need_def)
  moreover have "\<forall>e \<in> set (es @ [(ty, x)]). fst e \<noteq> cs_none \<and> 0 \<notin> set (snd e)" "distinct (map fst (es @ [(ty, x)]))"
    using n(3,4) ty x(1) by auto
  ultimately have tab3: "is_ttable (sec_data s3 ?S) (es @ [(ty, x)])"
    unfolding is_ttable_def using c3 by blast
  have "map_of (es @ [(ty, x)]) = (map_of es)(ty \<mapsto> x)"
  proof
    fix t
    have "map_of es ty = None" using ty(2) by (simp add: map_of_eq_None_iff)
    then show "map_of (es @ [(ty, x)]) t = ((map_of es)(ty \<mapsto> x)) t"
      by (cases "t = ty") (auto simp: map_add_def split: option.splits)
  qed
  then have "typed_lookup s3 = (typed_lookup s)(ty \<mapsto> x)"
    using typed_lookup_ttable [OF tab3] typed_lookup_ttable [OF tab] by (simp add: fun_eq_iff)
  moreover have "sp_inv s3" using s1(2) by (simp add: s3_def s2_def)
  moreover have "add_typed_string ty x s = Inr (i, s3)"
    using s1(1,3) by (simp add: add s3_def s2_def add.assoc)
  moreover have "k \<noteq> ?S \<Longrightarrow> sec_data s3 k = sec_data s k" for k using d3 d2 s1(6) by simp
  ultimately show ?thesis using tab3 by blast
qed

section \<open>Deleting a typed string\<close>

text \<open>
  \<open>del_typed_string\<close> computes where the next entry begins as the entry's own offset plus the
  length of its string, without the four bytes of the type. The copy therefore starts inside
  the entry: its last four bytes stay in the table, and are taken for the type of an entry.
\<close>

lemma del_copy_spec:
  assumes "i \<le> j" "j \<le> fin" "fin \<le> length c"
  shows "\<exists>c'. del_copy c i j fin = (c', i + (fin - j), fin) \<and> length c' = length c \<and>
    take (i + (fin - j)) c' = take i c @ take (fin - j) (drop j c) \<and> drop fin c' = drop fin c"
  using assms
proof (induction c i j fin rule: del_copy.induct)
  case (1 c i j fin)
  show ?case
  proof (cases "j < fin")
    case True
    define c1 where "c1 = c[i := c ! j]"
    have "\<exists>c'. del_copy c1 (i + 1) (j + 1) fin = (c', i + 1 + (fin - (j + 1)), fin) \<and> length c' = length c1 \<and>
        take (i + 1 + (fin - (j + 1))) c' = take (i + 1) c1 @ take (fin - (j + 1)) (drop (j + 1) c1) \<and> drop fin c' = drop fin c1"
      unfolding c1_def using 1 True by (intro "1.IH") simp_all
    then obtain c' where c': "del_copy c1 (i + 1) (j + 1) fin = (c', i + 1 + (fin - (j + 1)), fin)"
      "length c' = length c" "drop fin c' = drop fin c1"
      "take (i + 1 + (fin - (j + 1))) c' = take (i + 1) c1 @ take (fin - (j + 1)) (drop (j + 1) c1)"
      by (auto simp: c1_def)
    have i: "i + 1 + (fin - (j + 1)) = i + (fin - j)" using True by simp
    have "take (i + 1) c1 = take i c @ [c ! j]"
      using 1 True by (simp add: c1_def take_Suc_conv_app_nth)
    moreover have "drop (j + 1) c1 = drop (j + 1) c" "drop fin c1 = drop fin c"
      using 1 True by (simp_all add: c1_def)
    moreover have "c ! j # take (fin - (j + 1)) (drop (j + 1) c) = take (fin - j) (drop j c)"
      using 1 True by (simp add: Cons_nth_drop_Suc [symmetric] take_Suc_conv_app_nth)
        (metis Cons_nth_drop_Suc Suc_diff_Suc order_less_le_trans take_Suc_Cons)
    ultimately show ?thesis
      using c' True i by (subst del_copy.simps) (simp add: c1_def)
  next
    case False
    then show ?thesis using 1 by (subst del_copy.simps) simp
  qed
qed

lemma del_clear_spec:
  "i \<le> j \<Longrightarrow> j \<le> length c \<Longrightarrow> del_clear c i j = take i c @ replicate (j - i) 0 @ drop j c"
proof (induction c i j rule: del_clear.induct)
  case (1 c i j)
  show ?case
  proof (cases "i < j")
    case True
    then have "del_clear (c[i := 0]) (i + 1) j = take i c @ [0] @ replicate (j - (i + 1)) 0 @ drop j c"
      using 1 by (simp add: take_Suc_conv_app_nth)
    moreover have "replicate (j - i) 0 = [0 :: u8] @ replicate (j - (i + 1)) 0"
      using True by (metis Suc_diff_Suc Suc_eq_plus1 append_Cons append_Nil replicate_Suc)
    ultimately show ?thesis using True by (subst del_clear.simps) simp
  qed (use 1 in \<open>subst del_clear.simps, simp\<close>)
qed

text \<open>what \<open>del_typed_string\<close> leaves of a table that has the type.\<close>

lemma del_typed_string_leftover_aux:
  assumes inv: "sp_inv s" and tab: "is_ttable (sec_data s S_typed_strings) (a @ (ty, x) # b)"
  defines "e \<equiv> tenc (ty, x)"
  shows "\<exists>s' n. del_typed_string ty s = Inr (1, s') \<and> 4 \<le> n \<and> s_size s' S_typed_strings = s_size s S_typed_strings \<and>
    sec_data s' S_typed_strings = ttable a @ drop (length e - 4) e @ ttable b @ replicate n 0"
proof -
  let ?S = S_typed_strings and ?es = "a @ (ty, x) # b"
  obtain n where n: "4 \<le> n" "sec_data s ?S = ttable ?es @ replicate n 0" "length (sec_data s ?S) \<le> 2 ^ 30"
    "\<forall>e \<in> set ?es. fst e \<noteq> cs_none \<and> 0 \<notin> set (snd e)" "distinct (map fst ?es)"
    using tab by (rule is_ttableE)
  define i where "i = length (ttable a)"
  define c where "c = sec_data s ?S"
  have tw: "takeWhile (\<lambda>e. fst e \<noteq> ty) ?es = a"
    using n(5) by (subst takeWhile_append2) auto
  have x: "0 \<notin> set x" "cs_none \<notin> fst ` set ?es"
  proof -
    show "0 \<notin> set x" using n(4) by simp
    show "cs_none \<notin> fst ` set ?es" using n(4) by (rule keys_nonzero)
  qed
  have c: "c = ttable a @ e @ ttable b @ replicate n 0" using n(2) by (simp add: c_def e_def)
  have nl: "length (ttable a @ e @ ttable b @ replicate n 0) \<le> 2 ^ 30"
    using n(3) unfolding c_def [symmetric] c .
  have "length x + 1 \<le> length e" by (simp add: e_def tenc_def pad4_def)
  then have lx: "i + length x + 5 \<le> 2 ^ 30" "length x < 2 ^ 30"
    using nl by (simp_all add: i_def e_def tenc_def pad4_def)
  have le: "length e = 4 + round4 (length x + 1)" using lx(2) by (simp add: e_def length_tenc)
  have dvd: "4 dvd i"
  proof -
    have "\<forall>e \<in> set a. 4 dvd length (tenc e)"
    proof
      fix f assume "f \<in> set a"
      then obtain u v where "a = u @ f # v" by (meson split_list)
      then have "length (snd f) < 2 ^ 30" using nl by (simp add: tenc_def pad4_def)
      then show "4 dvd length (tenc f)" by (simp add: length_tenc round4_eq)
    qed
    then show ?thesis unfolding i_def ttable_def by (induction a) auto
  qed
  define fin where "fin = length (ttable ?es)"
  have fi: "find_typed_string ty s = Inr (int i)" and ff: "find_typed_string cs_none s = Inr (int fin)"
    using x(2) by (simp_all add: find_typed_is_ttable [OF tab] tw i_def fin_def)
  have cs: "cstr_at c (i + 4) = x"
    using cstr_at_append [OF x(1), of "ttable a @ le32 ty" "i + 4"] by (simp add: c e_def tenc_def pad4_def i_def)
  have j: "round4 (i + length x + 1) = i + (length e - 4)"
    using round4_add [OF dvd, of "length x + 1"] lx by (simp add: le add.assoc)
  have fin: "fin = i + length e + length (ttable b)" by (simp add: fin_def i_def e_def)
  let ?k = "i + (length e - 4)"
  have "i \<le> ?k" "?k \<le> fin" "fin \<le> length c" using fin c by (simp_all add: i_def)
  from del_copy_spec [OF this] obtain c' where c': "del_copy c i ?k fin = (c', i + (fin - ?k), fin)"
    "length c' = length c" "take (i + (fin - ?k)) c' = take i c @ take (fin - ?k) (drop ?k c)" "drop fin c' = drop fin c"
    by blast
  have "del_clear c' (i + (fin - ?k)) fin = take (i + (fin - ?k)) c' @ replicate (fin - (i + (fin - ?k))) 0 @ drop fin c'"
    using c'(2) \<open>?k \<le> fin\<close> \<open>fin \<le> length c\<close> by (intro del_clear_spec) simp_all
  moreover have "take (fin - ?k) (drop ?k c) = drop (length e - 4) e @ ttable b"
    using fin le by (simp add: c i_def)
  moreover have "drop fin c = replicate n 0" by (simp add: c fin i_def)
  moreover have "take i c = ttable a" by (simp add: c i_def)
  ultimately have cl: "del_clear c' (i + (fin - ?k)) fin =
      ttable a @ drop (length e - 4) e @ ttable b @ replicate (fin - (i + (fin - ?k)) + n) 0"
    using c' by (simp add: replicate_add)
  define s' where "s' = s\<lparr>lsp_mem := mem_write (lsp_mem s) (s_p s ?S) (del_clear c' (i + (fin - ?k)) fin)\<rparr>"
  have "del_typed_string ty s = Inr (1, s')"
    using fi ff cs j c'(1) by (simp add: del_typed_string_def s'_def Let_def flip: c_def)
  moreover have "length (del_clear c' (i + (fin - ?k)) fin) = length c"
    unfolding cl by (simp add: c i_def fin le)
  then have "sec_data s' ?S = del_clear c' (i + (fin - ?k)) fin"
    using poke_data [of s 0 "del_clear c' (i + (fin - ?k)) fin" ?S ?S] inv
    by (simp add: s'_def sp_inv_def list_write_def c_def)
  ultimately show ?thesis
    using cl n(1) by (intro exI [of _ s'] exI [of _ "fin - (i + (fin - ?k)) + n"]) (simp add: s'_def)
qed

lemma del_typed_string_lost:
  assumes tab: "is_ttable (sec_data s S_typed_strings) (a @ (ty, x) # b)" and x: "4 dvd length x" and y: "(t, y) \<in> set b"
    and len: "s_size s' S_typed_strings = s_size s S_typed_strings"
    and d: "sec_data s' S_typed_strings = ttable a @ drop (length (tenc (ty, x)) - 4) (tenc (ty, x)) @ ttable b @ replicate n 0"
  shows "typed_lookup s t = Some y \<and> typed_lookup s' t = None"
proof -
  let ?S = S_typed_strings and ?es = "a @ (ty, x) # b"
  obtain m where m: "sec_data s ?S = ttable ?es @ replicate m 0" "length (sec_data s ?S) \<le> 2 ^ 30"
    "\<forall>e \<in> set ?es. fst e \<noteq> cs_none \<and> 0 \<notin> set (snd e)" "distinct (map fst ?es)"
    using tab by (rule is_ttableE)
  have "length x < 2 ^ 30" using m(2) unfolding m(1) by (simp add: tenc_def pad4_def)
  then have p: "pad4 (x @ [0]) = x @ le32 0"
  proof -
    obtain k where k: "length x = 4 * k" using x by (auto elim: dvdE)
    have "round4 (length (x @ [0])) - length (x @ [0]) = 3"
      using \<open>length x < 2 ^ 30\<close> k by (simp add: round4_eq)
    then show ?thesis by (simp add: pad4_def le32_def numeral_eq_Suc)
  qed
  have last: "drop (length (tenc (ty, x)) - 4) (tenc (ty, x)) = le32 0"
    by (simp add: tenc_def p)
  have t: "t \<noteq> cs_none" "t \<notin> fst ` set a" "map_of ?es t = Some y"
  proof -
    have "(t, y) \<in> set ?es" using y by simp
    then show "t \<noteq> cs_none" using m(3) by fastforce
    show "t \<notin> fst ` set a" using m(4) y by (auto simp: rev_image_eqI)
    show "map_of ?es t = Some y" using m(4) y by (subst map_of_eq_Some_iff) auto
  qed
  have "find_typed_string t s' = Inr (- 1)"
    using find_typed_ttable [of "sec_data s' ?S" "[]" a "ttable b @ replicate n 0" t] d last t m(2,3) len
    by (auto simp: find_typed_string_def simp flip: length_sec_data)
  then have "typed_lookup s' t = None" by (simp add: typed_lookup_def)
  then show ?thesis using typed_lookup_ttable [OF tab, of t] t(3) by auto
qed

text \<open>
  C18: deleting a typed string takes all of its entry out of the table but the last word, which stays
  where the entry began; the entries behind move up to it. When the length of the string is a multiple of four,
  that word is zero, \<open>_CS_NONE\<close>, the end of the table: every entry behind it is lost.
\<close>

theorem del_typed_string_loses:
  assumes "sp_inv s" and "is_ttable (sec_data s S_typed_strings) (a @ (ty, x) # b)"
  shows "\<exists>s' n. del_typed_string ty s = Inr (1, s') \<and> 4 \<le> n \<and> s_size s' S_typed_strings = s_size s S_typed_strings \<and>
    sec_data s' S_typed_strings = ttable a @ drop (length (tenc (ty, x)) - 4) (tenc (ty, x)) @ ttable b @ replicate n 0 \<and>
    (4 dvd length x \<longrightarrow> (\<forall>(t, y) \<in> set b. typed_lookup s t = Some y \<and> typed_lookup s' t = None))"
  using del_typed_string_leftover_aux [OF assms] del_typed_string_lost [OF assms(2)] by blast

section \<open>Instances\<close>

lemma page_strings_ok:
  assumes "length ts + length ss \<le> 2 ^ 20" "is_table ss names"
  shows "strings_ok (page_of ts ss)"
  using page_of_inv [OF assms(1)] assms(2) by (auto simp: strings_ok_def)

theorem add_string_readback_witness:
  "\<exists>o1 s1 o2 s2. add_string [109, 101] (page_of [] [0]) = Inr (o1, s1) \<and> add_string [105, 111] s1 = Inr (o2, s2) \<and>
    hwi_find_string s2 o1 = [109, 101] \<and> hwi_find_string s2 o2 = [105, 111]"
proof -
  have "is_table [0] []" by (auto simp: is_table_def)
  then have s: "strings_ok (page_of [] [0])" by (rule page_strings_ok [rotated]) simp
  have n: "name_ok [109, 101]" "name_ok [105, 111]" by (simp_all add: name_ok_def str_ok_def)
  have "sp_total_size (page_of [] [0]) + round8 (length [109 :: u8, 101] + 2) + round8 (length [105 :: u8, 111] + 2)
      \<le> sp_size (page_of [] [0])"
    by (simp add: round8_eq)
  from add_string_readback [OF s n this] show ?thesis by blast
qed

lemma is_ttable_zero: "is_ttable (replicate 8 0) []"
  unfolding is_ttable_def by (auto intro!: exI [of _ 8])

theorem add_typed_string_fresh_witness:
  "\<exists>i s'. add_typed_string 3 [97, 98] (page_of (replicate 8 0) []) = Inr (i, s') \<and> typed_lookup s' 3 = Some [97, 98]"
proof -
  let ?p = "page_of (replicate 8 0) []"
  have p: "sp_inv ?p" "floating ?p S_typed_strings" "is_ttable (sec_data ?p S_typed_strings) []"
    using page_of_inv [of "replicate 8 0" "[]"] is_ttable_zero by simp_all
  have r: "sp_total_size ?p + round8 (round4 (length [97 :: u8, 98] + 1) + 8) \<le> sp_size ?p"
    by (simp add: round4_eq round8_eq)
  have "\<exists>i s'. add_typed_string 3 [97, 98] ?p = Inr (i, s') \<and> sp_inv s' \<and>
    is_ttable (sec_data s' S_typed_strings) ([] @ [(3, [97, 98])]) \<and>
    typed_lookup s' = (typed_lookup ?p)(3 \<mapsto> [97, 98]) \<and>
    (\<forall>k. k \<noteq> S_typed_strings \<longrightarrow> sec_data s' k = sec_data ?p k)"
    by (rule add_typed_string_fresh [OF p _ _ _ _ r]) simp_all
  then show ?thesis by (metis fun_upd_same)
qed

lemma tenc_example:
  "tenc (1, [97, 98, 99, 100]) = [1, 0, 0, 0, 97, 98, 99, 100, 0, 0, 0, 0]" "tenc (2, [101]) = [2, 0, 0, 0, 101, 0, 0, 0]"
proof -
  have r: "round4 (Suc (Suc (Suc (Suc (Suc 0))))) = 8" "round4 (Suc (Suc 0)) = 4" by (simp_all add: round4_eq)
  have z: "replicate 3 (0 :: u8) = [0, 0, 0]" "replicate 2 (0 :: u8) = [0, 0]" by (simp_all add: numeral_eq_Suc)
  show "tenc (1, [97, 98, 99, 100]) = [1, 0, 0, 0, 97, 98, 99, 100, 0, 0, 0, 0]" "tenc (2, [101]) = [2, 0, 0, 0, 101, 0, 0, 0]"
    using z by (simp_all add: tenc_def pad4_def le32_def r)
qed

theorem del_typed_string_loses_witness:
  "\<exists>s' n. del_typed_string 1 (page_of ([1, 0, 0, 0, 97, 98, 99, 100, 0, 0, 0, 0, 2, 0, 0, 0, 101, 0, 0, 0] @ replicate 4 0) []) = Inr (1, s') \<and>
    sec_data s' S_typed_strings = [0, 0, 0, 0, 2, 0, 0, 0, 101, 0, 0, 0] @ replicate n 0 \<and> typed_lookup s' 2 = None"
proof -
  let ?es = "[] @ (1, [97, 98, 99, 100]) # [(2, [101])] :: (u32 \<times> u8 list) list"
  let ?b = "[1, 0, 0, 0, 97, 98, 99, 100, 0, 0, 0, 0, 2, 0, 0, 0, 101, 0, 0, 0] @ replicate 4 0 :: u8 list"
  have t: "ttable ?es @ replicate 4 0 = ?b" by (simp add: tenc_example)
  have p: "sp_inv (page_of ?b [])" "sec_data (page_of ?b []) S_typed_strings = ?b"
    using page_of_inv [of ?b "[]"] by simp_all
  have "is_ttable ?b ?es" unfolding is_ttable_def t [symmetric]
    by (intro conjI exI [of _ 4]) (simp_all add: tenc_example)
  then have "is_ttable (sec_data (page_of ?b []) S_typed_strings) ?es" unfolding p(2) .
  from del_typed_string_loses [OF p(1) this] obtain s' n where s': "del_typed_string 1 (page_of ?b []) = Inr (1, s')"
    "sec_data s' S_typed_strings = ttable [] @ drop (length (tenc (1, [97, 98, 99, 100])) - 4) (tenc (1, [97, 98, 99, 100])) @
       ttable [(2, [101])] @ replicate n 0"
    "4 dvd length [97 :: u8, 98, 99, 100] \<longrightarrow> typed_lookup s' 2 = None"
    by fastforce
  have "sec_data s' S_typed_strings = [0, 0, 0, 0, 2, 0, 0, 0, 101, 0, 0, 0] @ replicate n 0"
    using s'(2) by (simp add: tenc_example)
  moreover have "typed_lookup s' 2 = None" using s'(3) by (simp add: numeral_eq_Suc)
  ultimately show ?thesis using s'(1) by blast
qed

end
