(* ===== verification/Startup_As.thy ===== *)
theory Startup_As
  imports Startup_Strings
begin

text \<open>
  The address space table of the system page: \<open>as_add.c\<close>, \<open>as_add64.c\<close>,
  \<open>as_add_containing.c\<close>, \<open>as_find.c\<close>, \<open>as_find_containing.c\<close>, \<open>as_set_priority.c\<close>,
  \<open>as_set_checker.c\<close>, \<open>as_off2info.c\<close> and \<open>hwi_find_as.c\<close> of \<open>src/hardware/startup/lib\<close>.

  The entries of the \<open>asinfo\<close> section are a list; an offset into the section is the index of
  an entry, and \<open>AS_NULL_OFF\<close> is \<^term>\<open>None\<close>. The space of the section is accounted for in
  the system page: every added entry grows it. \<open>paddr_t\<close> is a 32-bit word, the fields of an
  entry are 64-bit words. The attribute bits and the default priority are constants of the
  system headers and are fields of \<open>as_abi\<close>.

  Owner chains: an entry is owned by an entry before it, so the walk of \<open>match_name\<close> from
  entry \<open>i\<close> visits at most \<open>i + 1\<close> entries, which is the fuel it is given.
\<close>

section \<open>State\<close>

record asinfo_entry =
  as_start :: u64
  as_end :: u64
  as_owner :: "nat option"
  as_name :: nat
  as_attr :: u32
  as_priority :: u32
  as_checker :: "nat option"

record as_abi =
  AS_ATTR_NONE :: u32
  AS_ATTR_KIDS :: u32
  AS_ATTR_CONTINUED :: u32
  AS_ATTR_RAM :: u32
  AS_OVERLAY_IO :: u32
  AS_PRIORITY_DEFAULT :: u32

record sst =
  st_lsp :: lsp
  st_as :: "asinfo_entry list"
  st_abi :: as_abi
  st_as_hooked :: bool

definition cs :: "string \<Rightarrow> u8 list" where
  "cs x = map of_char x"

section \<open>Adding an entry\<close>

definition as_off2info :: "sst \<Rightarrow> nat \<Rightarrow> asinfo_entry" where
  "as_off2info st off = st_as st ! off"

definition as_add_one :: "u64 \<Rightarrow> u64 \<Rightarrow> u32 \<Rightarrow> u8 list \<Rightarrow> nat option \<Rightarrow> sst \<Rightarrow> (nat \<times> sst) res" where
  "as_add_one start fin attr name owner st =
     rbind (add_string name (st_lsp st)) (\<lambda>(name_off, l).
     rbind (grow_syspage_section S_asinfo (sz_asinfo (lsp_abi l)) l) (\<lambda>l.
       let as = \<lparr>as_start = start, as_end = fin, as_owner = owner, as_name = name_off,
                  as_attr = attr AND 0xffff, as_priority = AS_PRIORITY_DEFAULT (st_abi st),
                  as_checker = None\<rparr>;
           off = length (st_as st);
           es = st_as st @ [as];
           es = (case owner of None \<Rightarrow> es
                 | Some w \<Rightarrow> es[w := (es ! w)\<lparr>as_attr := as_attr (es ! w) OR AS_ATTR_KIDS (st_abi st)\<rparr>])
       in Inr (off, st\<lparr>st_lsp := l, st_as := es\<rparr>)))"

text \<open>
  \<open>as_add64\<close> calls \<open>as_add\<close>, and so itself, for an overlay, with the overlay bit cleared: the
  second call never recurses. \<open>as_add\<close> truncates its bounds to \<open>paddr_t\<close>.
\<close>

definition as_add64 :: "u64 \<Rightarrow> u64 \<Rightarrow> u32 \<Rightarrow> u8 list \<Rightarrow> nat option \<Rightarrow> sst \<Rightarrow> (nat \<times> sst) res" where
  "as_add64 start fin attr name owner st =
     rbind (as_add_one start fin attr name owner st) (\<lambda>(off, st).
       if attr AND AS_OVERLAY_IO (st_abi st) \<noteq> 0
       then rbind (as_add_one (ucast (ucast start :: u32)) (ucast (ucast fin :: u32))
                     (attr AND NOT (AS_OVERLAY_IO (st_abi st))) (cs ''io'') (Some off) st)
              (\<lambda>(_, st). Inr (off, st))
       else Inr (off, st))"

definition as_add :: "u32 \<Rightarrow> u32 \<Rightarrow> u32 \<Rightarrow> u8 list \<Rightarrow> nat option \<Rightarrow> sst \<Rightarrow> (nat \<times> sst) res" where
  "as_add start fin attr name owner st = as_add64 (ucast start) (ucast fin) attr name owner st"

section \<open>Finding entries\<close>

abbreviation name_of :: "sst \<Rightarrow> nat \<Rightarrow> u8 list" where
  "name_of st i \<equiv> hwi_find_string (st_lsp st) (as_name (st_as st ! i))"

fun match_item :: "sst \<Rightarrow> nat \<Rightarrow> u8 list list \<Rightarrow> bool" where
  "match_item st i [] = False"
| "match_item st i (nm # prev) =
     (if nm \<noteq> name_of st i then False
      else if prev = [] then True
      else (case as_owner (st_as st ! i) of None \<Rightarrow> False | Some w \<Rightarrow> match_item st w prev))"

text \<open>The variable arguments are the path, outermost name first; \<open>list\<close> holds them reversed.\<close>

definition as_find :: "nat option \<Rightarrow> u8 list list \<Rightarrow> sst \<Rightarrow> nat option res" where
  "as_find start names st =
     (if names = [] then Inl NoName
      else (let i0 = (case start of None \<Rightarrow> 0 | Some i \<Rightarrow> i + 1)
            in Inr (List.find (\<lambda>i. match_item st i (rev names)) [i0..<length (st_as st)])))"

fun match_name :: "nat \<Rightarrow> sst \<Rightarrow> nat \<Rightarrow> u8 list \<Rightarrow> bool" where
  "match_name 0 st i name = False"
| "match_name (Suc fuel) st i name =
     (if name_of st i = name then True
      else (case as_owner (st_as st ! i) of None \<Rightarrow> False | Some w \<Rightarrow> match_name fuel st w name))"

definition overlaps :: "u32 \<Rightarrow> u32 \<Rightarrow> asinfo_entry \<Rightarrow> bool" where
  "overlaps start fin as \<longleftrightarrow>
     (ucast start \<ge> as_start as \<and> ucast start \<le> as_end as) \<or>
     (ucast fin \<ge> as_start as \<and> ucast fin \<le> as_end as) \<or>
     (ucast start \<le> as_start as \<and> ucast fin \<ge> as_end as)"

definition as_find_containing :: "nat option \<Rightarrow> u32 \<Rightarrow> u32 \<Rightarrow> u8 list \<Rightarrow> sst \<Rightarrow> nat option" where
  "as_find_containing off start fin container st =
     (let i0 = (case off of None \<Rightarrow> 0 | Some i \<Rightarrow> i + 1)
      in List.find (\<lambda>i. match_name (Suc i) st i container \<and> overlaps start fin (st_as st ! i))
           [i0..<length (st_as st)])"

definition hwi_find_as :: "u32 \<Rightarrow> bool \<Rightarrow> sst \<Rightarrow> nat option" where
  "hwi_find_as base mmap st =
     as_find_containing None base (base + 1) (if mmap then cs ''memory'' else cs ''io'') st"

section \<open>Adding inside containers\<close>

record as_range =
  rg_start :: u32
  rg_end :: u32
  rg_owner :: nat

text \<open>The inner loop of \<open>as_add_containing\<close>: one piece is entered into the list.\<close>

fun insert_piece :: "u32 \<Rightarrow> u32 \<Rightarrow> nat \<Rightarrow> as_range list \<Rightarrow> as_range list" where
  "insert_piece ps pe owner [] = [\<lparr>rg_start = ps, rg_end = pe, rg_owner = owner\<rparr>]"
| "insert_piece ps pe owner (cur # rest) =
     (if rg_start cur \<le> ps \<and> rg_end cur \<ge> ps then
        (if rg_start cur = ps \<and> rg_end cur = pe then cur\<lparr>rg_owner := owner\<rparr> # rest
         else
           (let new = \<lparr>rg_start = ps, rg_end = pe, rg_owner = owner\<rparr>
            in if rg_start cur = ps then new # cur\<lparr>rg_start := pe + 1\<rparr> # rest
               else cur\<lparr>rg_end := ps - 1\<rparr> # new #
                 (if rg_end cur \<noteq> pe
                  then \<lparr>rg_start = pe + 1, rg_end = rg_end cur, rg_owner = rg_owner cur\<rparr> # rest
                  else rest)))
      else cur # insert_piece ps pe owner rest)"

lemma as_find_containing_bounds:
  "as_find_containing off start fin container st = Some i \<Longrightarrow>
     i < length (st_as st) \<and> (\<forall>j. off = Some j \<longrightarrow> j < i)"
  by (auto simp: as_find_containing_def Let_def find_Some_iff split: option.splits)

function collect_pieces :: "nat option \<Rightarrow> u32 \<Rightarrow> u32 \<Rightarrow> u8 list \<Rightarrow> sst \<Rightarrow> as_range list \<Rightarrow> as_range list" where
  "collect_pieces owner start fin container st list =
     (case as_find_containing owner start fin container st of
        None \<Rightarrow> list
      | Some w \<Rightarrow>
          (let as = as_off2info st w;
               piece_start = (if as_start as > ucast start then ucast (as_start as) else start);
               piece_end = (if as_end as < ucast fin then ucast (as_end as) else fin)
           in collect_pieces (Some w) start fin container st (insert_piece piece_start piece_end w list)))"
  by pat_completeness auto
termination
  by (relation "measure (\<lambda>(owner, start, fin, container, st, list).
        Suc (length (st_as st)) - (case owner of None \<Rightarrow> 0 | Some i \<Rightarrow> Suc i))")
    (auto dest!: as_find_containing_bounds split: option.splits)

declare collect_pieces.simps [simp del]

fun add_pieces :: "as_range list \<Rightarrow> u32 \<Rightarrow> u8 list \<Rightarrow> nat option \<Rightarrow> nat \<Rightarrow> sst \<Rightarrow> (nat option \<times> nat \<times> sst) res" where
  "add_pieces [] piece_attr name start_off off st = Inr (start_off, off, st)"
| "add_pieces (r # list) piece_attr name start_off off st =
     (if rg_start r \<le> rg_end r
      then rbind (as_add (rg_start r) (rg_end r) piece_attr name (Some (rg_owner r)) st) (\<lambda>(off, st).
             add_pieces list piece_attr name (if start_off = None then Some off else start_off) off st)
      else add_pieces list piece_attr name start_off off st)"

text \<open>
  The overlay loop walks the entries just added, which end in the one whose \<open>CONTINUED\<close> bit
  was cleared; its fuel is their number.
\<close>

fun overlay_loop :: "nat \<Rightarrow> nat \<Rightarrow> u32 \<Rightarrow> u8 list \<Rightarrow> sst \<Rightarrow> sst res" where
  "overlay_loop 0 off attr name st = Inr st"
| "overlay_loop (Suc n) off attr name st =
     (let as = as_off2info st off
      in rbind (as_add (ucast (as_start as)) (ucast (as_end as)) (attr AND NOT (AS_OVERLAY_IO (st_abi st))) name (Some off) st)
           (\<lambda>(_, st).
             if as_attr (as_off2info st off) AND AS_ATTR_CONTINUED (st_abi st) = 0 then Inr st
             else overlay_loop n (off + 1) attr name st))"

definition as_add_containing :: "u32 \<Rightarrow> u32 \<Rightarrow> u32 \<Rightarrow> u8 list \<Rightarrow> u8 list \<Rightarrow> sst \<Rightarrow> (nat option \<times> sst) res" where
  "as_add_containing start fin attr name container st =
     (let list = collect_pieces None start fin container st [];
          piece_attr = (attr AND NOT (AS_OVERLAY_IO (st_abi st))) OR AS_ATTR_CONTINUED (st_abi st)
      in rbind (add_pieces list piece_attr name None 0 st) (\<lambda>(start_off, off, st).
         case start_off of
           None \<Rightarrow> Inr (None, st)
         | Some s0 \<Rightarrow>
             (let as = as_off2info st off;
                  st = st\<lparr>st_as := (st_as st)[off := as\<lparr>as_attr := as_attr as AND NOT (AS_ATTR_CONTINUED (st_abi st))\<rparr>]\<rparr>
              in if attr AND AS_OVERLAY_IO (st_abi st) \<noteq> 0
                 then rbind (overlay_loop (Suc off - s0) s0 attr name st) (\<lambda>st. Inr (Some s0, st))
                 else Inr (Some s0, st))))"

section \<open>Setting priority and checker\<close>

text \<open>\<^term>\<open>None\<close> is a chain of continued entries that runs off the table.\<close>

function as_set_priority :: "nat \<Rightarrow> u32 \<Rightarrow> sst \<Rightarrow> sst option" where
  "as_set_priority off priority st =
     (if length (st_as st) \<le> off then None
      else
        (let as = as_off2info st off;
             st' = st\<lparr>st_as := (st_as st)[off := as\<lparr>as_priority := priority\<rparr>]\<rparr>
         in if as_attr as AND AS_ATTR_CONTINUED (st_abi st) = 0 then Some st'
            else as_set_priority (off + 1) priority st'))"
  by pat_completeness auto
termination
  by (relation "measure (\<lambda>(off, priority, st). length (st_as st) - off)") auto

declare as_set_priority.simps [simp del]

definition as_set_checker :: "nat \<Rightarrow> nat \<Rightarrow> sst \<Rightarrow> sst" where
  "as_set_checker off rtn st =
     (let st = (if \<not> st_as_hooked st then st\<lparr>st_as_hooked := True\<rparr> else st)
      in st\<lparr>st_as := (st_as st)[off := (as_off2info st off)\<lparr>as_checker := Some rtn\<rparr>]\<rparr>)"

section \<open>The table invariant\<close>

definition as_ok :: "sst \<Rightarrow> bool" where
  "as_ok st \<longleftrightarrow> strings_ok (st_lsp st) \<and> floating (st_lsp st) S_asinfo \<and>
     0 < sz_asinfo (lsp_abi (st_lsp st)) \<and> sz_asinfo (lsp_abi (st_lsp st)) \<le> 2 ^ 20 \<and>
     (\<forall>i < length (st_as st). live_string (st_lsp st) (as_name (st_as st ! i)) \<and>
        (\<forall>w. as_owner (st_as st ! i) = Some w \<longrightarrow> w < i))"

text \<open>Two entries that agree but for their attribute bits.\<close>

definition same_entry :: "asinfo_entry \<Rightarrow> asinfo_entry \<Rightarrow> bool" where
  "same_entry a b \<longleftrightarrow> as_start a = as_start b \<and> as_end a = as_end b \<and> as_owner a = as_owner b \<and>
     as_name a = as_name b \<and> as_priority a = as_priority b \<and> as_checker a = as_checker b"

lemma same_entry_refl [simp]: "same_entry a a"
  by (simp add: same_entry_def)

lemma same_entry_trans: "same_entry a b \<Longrightarrow> same_entry b c \<Longrightarrow> same_entry a c"
  by (simp add: same_entry_def)

lemma add_string_abi: "add_string x s = Inr (off, s') \<Longrightarrow> lsp_abi s' = lsp_abi s"
proof -
  have g: "grow_syspage_section k n s = Inr s' \<Longrightarrow> lsp_abi s' = lsp_abi s" for k n s s'
    by (auto simp: grow_syspage_section_def Let_def split: if_splits)
  show "add_string x s = Inr (off, s') \<Longrightarrow> ?thesis"
    by (auto simp: add_string_def Let_def rbind_Inr_iff split: option.splits bool.splits if_splits)
      (erule g)
qed

lemma grow_asinfo_strings:
  assumes "strings_ok s" "floating s S_asinfo" "0 < n" "n \<le> 2 ^ 30" "grow_syspage_section S_asinfo n s = Inr s'"
  shows "strings_ok s'" "floating s' S_asinfo" "hwi_find_string s' = hwi_find_string s" "lsp_abi s' = lsp_abi s"
    "live_string s' = live_string s"
proof -
  have inv: "sp_inv s" and lok: "lsp_ok s" using assms(1) by (simp_all add: strings_ok_def sp_inv_def)
  note g = grow_inv [OF inv assms(2-5)]
  have d: "sec_data s' S_strings = sec_data s S_strings" using g(3) by simp
  show "strings_ok s'" using assms(1) g(1,2) d by (auto simp: strings_ok_def)
  show "floating s' S_asinfo" using g(2) assms(2) by simp
  show f: "hwi_find_string s' = hwi_find_string s" by (simp add: hwi_find_string_def d fun_eq_iff)
  show "lsp_abi s' = lsp_abi s" using grow_unfold(7) [OF lok assms(3-5)] .
  show "live_string s' = live_string s" by (simp add: live_string_def f fun_eq_iff)
qed

lemma as_add_one_step:
  assumes ok: "as_ok st" and nm: "name_ok name" and own: "\<And>w. owner = Some w \<Longrightarrow> w < length (st_as st)"
    and add: "as_add_one start fin attr name owner st = Inr (off, st')"
  shows "as_ok st'" "off = length (st_as st)" "length (st_as st') = Suc off" "st_abi st' = st_abi st"
    and "i < off \<Longrightarrow> same_entry (st_as st' ! i) (st_as st ! i) \<and> name_of st' i = name_of st i"
    and "as_start (st_as st' ! off) = start \<and> as_end (st_as st' ! off) = fin \<and> as_owner (st_as st' ! off) = owner \<and>
      as_attr (st_as st' ! off) = attr AND 0xffff \<and> name_of st' off = name"
proof -
  let ?n = "length (st_as st)"
  obtain o1 l1 l2 where l1: "add_string name (st_lsp st) = Inr (o1, l1)"
    and l2: "grow_syspage_section S_asinfo (sz_asinfo (lsp_abi l1)) l1 = Inr l2"
    and st': "st_lsp st' = l2" "st_abi st' = st_abi st" "off = ?n"
      "st_as st' = (let new = \<lparr>as_start = start, as_end = fin, as_owner = owner, as_name = o1,
                  as_attr = attr AND 0xffff, as_priority = AS_PRIORITY_DEFAULT (st_abi st), as_checker = None\<rparr>;
           es = st_as st @ [new]
           in (case owner of None \<Rightarrow> es
                 | Some w \<Rightarrow> es[w := (es ! w)\<lparr>as_attr := as_attr (es ! w) OR AS_ATTR_KIDS (st_abi st)\<rparr>]))"
    using add by (auto simp: as_add_one_def rbind_Inr_iff Let_def)
  have sok: "strings_ok (st_lsp st)" "floating (st_lsp st) S_asinfo" using ok by (simp_all add: as_ok_def)
  note a = add_string_laws [OF sok(1) nm l1]
  have abi1: "lsp_abi l1 = lsp_abi (st_lsp st)" using add_string_abi [OF l1] .
  have sz: "0 < sz_asinfo (lsp_abi l1)" "sz_asinfo (lsp_abi l1) \<le> 2 ^ 30"
    using ok by (simp_all add: as_ok_def abi1)
  note g = grow_asinfo_strings [OF a(1) a(5) [OF sok(2)] sz l2]
  show "off = ?n" "st_abi st' = st_abi st" by (fact st')+
  show len: "length (st_as st') = Suc off" by (simp add: st' Let_def split: option.splits)
  have old: "i < ?n \<Longrightarrow> same_entry (st_as st' ! i) (st_as st ! i)" for i
    using own by (auto simp: st' Let_def nth_append nth_list_update same_entry_def split: option.splits)
  have nmold: "i < ?n \<Longrightarrow> hwi_find_string l2 (as_name (st_as st ! i)) = name_of st i" for i
    using a(3) ok by (simp add: as_ok_def g(3))
  show "i < off \<Longrightarrow> same_entry (st_as st' ! i) (st_as st ! i) \<and> name_of st' i = name_of st i" for i
    using old [of i] nmold [of i] by (simp add: st'(1,3) same_entry_def)
  have new: "as_start (st_as st' ! off) = start" "as_end (st_as st' ! off) = fin" "as_owner (st_as st' ! off) = owner"
    "as_attr (st_as st' ! off) = attr AND 0xffff" "as_name (st_as st' ! off) = o1"
    using own by (auto simp: st' Let_def nth_append nth_list_update split: option.splits)
  then show "as_start (st_as st' ! off) = start \<and> as_end (st_as st' ! off) = fin \<and> as_owner (st_as st' ! off) = owner \<and>
      as_attr (st_as st' ! off) = attr AND 0xffff \<and> name_of st' off = name"
    using a(2) by (simp add: st'(1) g(3))
  have "live_string l2 (as_name (st_as st' ! i)) \<and> (\<forall>w. as_owner (st_as st' ! i) = Some w \<longrightarrow> w < i)" if "i < Suc ?n" for i
  proof (cases "i < ?n")
    case True
    then show ?thesis using old [OF True] nmold [OF True] ok by (auto simp: as_ok_def same_entry_def live_string_def)
  next
    case False
    then have "i = off" using that by (simp add: st'(3))
    then show ?thesis using new a(2) nm own by (auto simp: g(3) live_string_def st'(3) name_ok_def str_ok_def)
  qed
  then show "as_ok st'"
    using g len sz ok by (simp add: as_ok_def st'(1,3) abi1)
qed

lemma name_ok_literals [simp]:
  "name_ok (cs ''io'')" "name_ok (cs ''ram'')" "name_ok (cs ''sysram'')" "name_ok (cs ''memory'')"
  "name_ok (cs ''below4G'')" "name_ok (cs ''reserved'')"
  by (simp_all add: name_ok_def str_ok_def cs_def)

lemma as_add64_step:
  assumes ok: "as_ok st" and nm: "name_ok name" and own: "\<And>w. owner = Some w \<Longrightarrow> w < length (st_as st)"
    and add: "as_add64 start fin attr name owner st = Inr (off, st')"
  shows "as_ok st'" "off = length (st_as st)" "off < length (st_as st')" "st_abi st' = st_abi st"
    "length (st_as st') = Suc off + (if attr AND AS_OVERLAY_IO (st_abi st) \<noteq> 0 then 1 else 0)"
    and "i < off \<Longrightarrow> same_entry (st_as st' ! i) (st_as st ! i) \<and> name_of st' i = name_of st i"
    and "as_start (st_as st' ! off) = start \<and> as_end (st_as st' ! off) = fin \<and> as_owner (st_as st' ! off) = owner \<and>
      name_of st' off = name"
    and "attr AND AS_OVERLAY_IO (st_abi st) = 0 \<Longrightarrow> as_attr (st_as st' ! off) = attr AND 0xffff"
proof -
  obtain o1 st1 where s0: "as_add_one start fin attr name owner st = Inr (o1, st1)"
    and s2': "(if attr AND AS_OVERLAY_IO (st_abi st1) \<noteq> 0
       then rbind (as_add_one (ucast (ucast start :: u32)) (ucast (ucast fin :: u32))
                     (attr AND NOT (AS_OVERLAY_IO (st_abi st1))) (cs ''io'') (Some o1) st1)
              (\<lambda>(_, st). Inr (o1, st))
       else Inr (o1, st1)) = Inr (off, st')"
  proof -
    obtain p where p: "as_add_one start fin attr name owner st = Inr p"
      using add unfolding as_add64_def rbind_Inr_iff by blast
    show ?thesis using that [of "fst p" "snd p"] p add by (simp add: as_add64_def case_prod_beta)
  qed
  have "o1 = off" using s2' by (auto simp: rbind_Inr_iff split: if_splits)
  note s1 = s0 [unfolded this] and s2 = s2' [unfolded this]
  note a = as_add_one_step [OF ok nm own s1]
  have "as_ok st' \<and> st_abi st' = st_abi st \<and> length (st_as st') = Suc off + (if attr AND AS_OVERLAY_IO (st_abi st) \<noteq> 0 then 1 else 0) \<and>
    (\<forall>i < Suc off. same_entry (st_as st' ! i) (st_as st1 ! i) \<and> name_of st' i = name_of st1 i) \<and>
    (attr AND AS_OVERLAY_IO (st_abi st) = 0 \<longrightarrow> st' = st1)"
  proof (cases "attr AND AS_OVERLAY_IO (st_abi st) = 0")
    case True
    then show ?thesis using s2 a(1,3,4) by simp
  next
    case False
    then obtain o2 where s3: "as_add_one (ucast (ucast start :: u32)) (ucast (ucast fin :: u32))
        (attr AND NOT (AS_OVERLAY_IO (st_abi st1))) (cs ''io'') (Some off) st1 = Inr (o2, st')"
      using s2 a(4) by (auto simp: rbind_Inr_iff)
    note b = as_add_one_step [OF a(1) name_ok_literals(1) _ s3]
    show ?thesis using b a(3,4) False by auto
  qed
  note b = this
  show "as_ok st'" "off = length (st_as st)" "off < length (st_as st')" "st_abi st' = st_abi st"
    "length (st_as st') = Suc off + (if attr AND AS_OVERLAY_IO (st_abi st) \<noteq> 0 then 1 else 0)"
    using b a by auto
  show "same_entry (st_as st' ! i) (st_as st ! i) \<and> name_of st' i = name_of st i" if "i < off"
  proof -
    have "same_entry (st_as st' ! i) (st_as st1 ! i)" "name_of st' i = name_of st1 i"
      using b that by simp_all
    then show ?thesis using a(5) [OF _ that] by (auto intro: same_entry_trans)
  qed
  show "as_start (st_as st' ! off) = start \<and> as_end (st_as st' ! off) = fin \<and> as_owner (st_as st' ! off) = owner \<and>
      name_of st' off = name"
  proof -
    have "same_entry (st_as st' ! off) (st_as st1 ! off)" "name_of st' off = name_of st1 off"
      using b by simp_all
    then show ?thesis using a(6) by (simp only: same_entry_def)
  qed
  show "attr AND AS_OVERLAY_IO (st_abi st) = 0 \<Longrightarrow> as_attr (st_as st' ! off) = attr AND 0xffff"
    using b a(6) by simp
qed

text \<open>The space one entry may need: its name, when it is new, and the entry.\<close>

definition entry_room :: "u8 list \<Rightarrow> sst \<Rightarrow> nat" where
  "entry_room name st = round8 (length name + 2) + round8 (sz_asinfo (lsp_abi (st_lsp st)))"

lemma as_add_one_returns:
  assumes ok: "as_ok st" and nm: "name_ok name"
    and room: "sp_total_size (st_lsp st) + entry_room name st \<le> sp_size (st_lsp st)"
  shows "\<exists>off st'. as_add_one start fin attr name owner st = Inr (off, st') \<and> sp_size (st_lsp st') = sp_size (st_lsp st) \<and>
    sp_total_size (st_lsp st') \<le> sp_total_size (st_lsp st) + entry_room name st \<and> lsp_abi (st_lsp st') = lsp_abi (st_lsp st)"
proof -
  have sok: "strings_ok (st_lsp st)" "floating (st_lsp st) S_asinfo" using ok by (simp_all add: as_ok_def)
  obtain o1 l1 where l1: "add_string name (st_lsp st) = Inr (o1, l1)" "sp_size l1 = sp_size (st_lsp st)"
    "sp_total_size l1 \<le> sp_total_size (st_lsp st) + round8 (length name + 2)"
    using add_string_returns [OF sok(1) nm] room by (auto simp: entry_room_def)
  note a = add_string_laws [OF sok(1) nm l1(1)]
  have abi: "lsp_abi l1 = lsp_abi (st_lsp st)" using add_string_abi [OF l1(1)] .
  let ?n = "sz_asinfo (lsp_abi l1)"
  have n: "0 < ?n" "?n \<le> 2 ^ 30" using ok by (simp_all add: as_ok_def abi)
  have lok: "lsp_ok l1" using a(1) by (simp add: strings_ok_def sp_inv_def)
  obtain l2 where l2: "grow_syspage_section S_asinfo ?n l1 = Inr l2"
    using grow_returns [OF lok n] l1(2,3) room by (force simp: entry_room_def abi)
  note g = grow_unfold [OF lok n l2]
  show ?thesis using l1 l2 g by (simp add: as_add_one_def entry_room_def abi Let_def)
qed

lemma as_add_plain_returns:
  assumes "as_ok st" "name_ok name" "sp_total_size (st_lsp st) + entry_room name st \<le> sp_size (st_lsp st)"
    "attr AND AS_OVERLAY_IO (st_abi st) = 0" "\<And>w. owner = Some w \<Longrightarrow> w < length (st_as st)"
  shows "\<exists>off st'. as_add64 start fin attr name owner st = Inr (off, st') \<and> sp_size (st_lsp st') = sp_size (st_lsp st) \<and>
    sp_total_size (st_lsp st') \<le> sp_total_size (st_lsp st) + entry_room name st \<and> lsp_abi (st_lsp st') = lsp_abi (st_lsp st)"
proof -
  obtain off st' where a: "as_add_one start fin attr name owner st = Inr (off, st')" "sp_size (st_lsp st') = sp_size (st_lsp st)"
    "sp_total_size (st_lsp st') \<le> sp_total_size (st_lsp st) + entry_room name st" "lsp_abi (st_lsp st') = lsp_abi (st_lsp st)"
    using as_add_one_returns [OF assms(1-3)] by blast
  have "st_abi st' = st_abi st" using as_add_one_step(4) [OF assms(1,2) _ a(1)] assms(5) by blast
  then show ?thesis using a assms(4) by (simp add: as_add64_def)
qed

text \<open>
  C19: with room below the limit \<open>as_add64\<close> of a range without an overlay returns; it appends the
  entry at the offset it returns, with the bounds, owner and name it was given, keeps the table
  well formed, and changes nothing but attribute bits of the entries before it, whose names
  read as they did.
\<close>

theorem as_add64_spec:
  assumes "as_ok st" "name_ok name" "\<forall>w. owner = Some w \<longrightarrow> w < length (st_as st)"
    "attr AND AS_OVERLAY_IO (st_abi st) = 0" "sp_total_size (st_lsp st) + entry_room name st \<le> sp_size (st_lsp st)"
  shows "\<exists>off st'. as_add64 start fin attr name owner st = Inr (off, st') \<and> as_ok st' \<and> off = length (st_as st) \<and>
    as_start (as_off2info st' off) = start \<and> as_end (as_off2info st' off) = fin \<and>
    as_owner (as_off2info st' off) = owner \<and> hwi_find_string (st_lsp st') (as_name (as_off2info st' off)) = name \<and>
    (\<forall>i < off. same_entry (as_off2info st' i) (as_off2info st i) \<and>
       hwi_find_string (st_lsp st') (as_name (as_off2info st' i)) = hwi_find_string (st_lsp st) (as_name (as_off2info st i)))"
proof -
  obtain off st' where a: "as_add64 start fin attr name owner st = Inr (off, st')"
    using as_add_plain_returns [OF assms(1,2,5,4)] assms(3) by blast
  show ?thesis
    using as_add64_step [OF assms(1,2) _ a] assms(3) a by (simp add: as_off2info_def)
qed

section \<open>Finding what contains an address\<close>

text \<open>The owner chain of an entry, and the walk of \<open>match_name\<close> over it.\<close>

inductive owned_by :: "sst \<Rightarrow> nat \<Rightarrow> nat \<Rightarrow> bool" for st where
  self: "owned_by st i i"
| step: "as_owner (st_as st ! i) = Some w \<Longrightarrow> owned_by st w j \<Longrightarrow> owned_by st i j"

inductive_simps owned_by_unfold: "owned_by st i j"

lemma match_name_chain:
  assumes "\<forall>i < length (st_as st). \<forall>w. as_owner (st_as st ! i) = Some w \<longrightarrow> w < i" "i < length (st_as st)" "i < fuel"
  shows "match_name fuel st i nm \<longleftrightarrow> (\<exists>j. owned_by st i j \<and> name_of st j = nm)"
  using assms(2,3)
proof (induction fuel arbitrary: i)
  case (Suc fuel)
  show ?case
  proof (cases "as_owner (st_as st ! i)")
    case None
    then show ?thesis by (subst owned_by_unfold) auto
  next
    case (Some w)
    then have "w < i" using assms(1) Suc.prems(1) by blast
    then have "match_name fuel st w nm = (\<exists>j. owned_by st w j \<and> name_of st j = nm)"
      using Suc by simp
    then show ?thesis using Some by (subst owned_by_unfold) auto
  qed
qed simp

lemma overlaps_iff:
  assumes "start \<le> fin" "as_start as \<le> as_end as"
  shows "overlaps start fin as \<longleftrightarrow> as_start as \<le> ucast fin \<and> ucast start \<le> as_end as"
proof -
  have "(ucast start :: u64) \<le> ucast fin"
    using assms(1) by (simp add: word_le_nat_alt unat_ucast64)
  then show ?thesis using assms(2) unfolding overlaps_def by auto
qed

text \<open>
  C20: \<open>as_find_containing\<close> returns the first entry behind \<open>off\<close> that has the container's name
  in its owner chain and shares an address with the range, and \<open>AS_NULL_OFF\<close> when there is none.
\<close>

theorem as_find_containing_spec:
  fixes container :: "u8 list" and off :: "nat option"
  assumes ok: "as_ok st" and rng: "start \<le> fin" "\<forall>as \<in> set (st_as st). as_start as \<le> as_end as"
  defines "hit \<equiv> \<lambda>i. (\<exists>j. owned_by st i j \<and> hwi_find_string (st_lsp st) (as_name (as_off2info st j)) = container) \<and>
    as_start (as_off2info st i) \<le> ucast fin \<and> ucast start \<le> as_end (as_off2info st i)"
  defines "i0 \<equiv> (case off of None \<Rightarrow> 0 | Some i \<Rightarrow> i + 1)"
  shows "case as_find_containing off start fin container st of
      None \<Rightarrow> \<not> (\<exists>i. i0 \<le> i \<and> i < length (st_as st) \<and> hit i)
    | Some i \<Rightarrow> i0 \<le> i \<and> i < length (st_as st) \<and> hit i \<and> (\<forall>j. i0 \<le> j \<and> j < i \<longrightarrow> \<not> hit j)"
proof -
  have own: "\<forall>i < length (st_as st). \<forall>w. as_owner (st_as st ! i) = Some w \<longrightarrow> w < i"
    using ok by (simp add: as_ok_def)
  define P where "P i \<longleftrightarrow> match_name (Suc i) st i container \<and> overlaps start fin (st_as st ! i)" for i
  have h: "P i = hit i" if "i < length (st_as st)" for i
    using match_name_chain [OF own that, of "Suc i" container] overlaps_iff [OF rng(1), of "st_as st ! i"] rng(2) that
    by (simp add: P_def hit_def as_off2info_def del: match_name.simps)
  have f: "as_find_containing off start fin container st = List.find P [i0..<length (st_as st)]"
    by (simp add: as_find_containing_def i0_def P_def [abs_def])
  show ?thesis
  proof (cases "List.find P [i0..<length (st_as st)]")
    case None
    then have "\<not> (\<exists>i. i0 \<le> i \<and> i < length (st_as st) \<and> hit i)"
      using h by (auto simp: find_None_iff)
    then show ?thesis using None by (simp add: f)
  next
    case (Some i)
    then obtain k where k: "k < length (st_as st) - i0" "i = i0 + k" "P i" "\<forall>j < k. \<not> P (i0 + j)"
      unfolding find_Some_iff by auto
    have "\<not> hit j" if "i0 \<le> j" "j < i" for j
      using k(1,2) k(4) [rule_format, of "j - i0"] h [of j] that by auto
    moreover have "hit i" using k h by simp
    ultimately show ?thesis using Some k(1,2) by (simp add: f)
  qed
qed

section \<open>Pieces: each address goes to its innermost container\<close>

abbreviation rng :: "as_range \<Rightarrow> u32 set" where
  "rng r \<equiv> {rg_start r..rg_end r}"

definition piece_at :: "as_range list \<Rightarrow> u32 \<Rightarrow> nat option" where
  "piece_at list x = map_option rg_owner (List.find (\<lambda>r. x \<in> rng r) list)"

definition pieces_ok :: "as_range list \<Rightarrow> bool" where
  "pieces_ok list \<longleftrightarrow> sorted_wrt (\<lambda>a b. rng a \<inter> rng b = {}) list \<and> (\<forall>r \<in> set list. rg_start r \<le> rg_end r)"

text \<open>A range and a set of addresses nest: the set lies inside the range or apart from it.\<close>

definition nests :: "u32 set \<Rightarrow> u32 set \<Rightarrow> bool" where
  "nests q r \<longleftrightarrow> q \<subseteq> r \<or> q \<inter> r = {}"

lemma word_succ_le: "(p :: u32) < c \<Longrightarrow> (p + 1 \<le> x) = (p < x)"
proof -
  assume "p < c"
  then have "unat p + 1 < 2 ^ 32" using unat_lt32 [of c] by (simp add: word_less_nat_alt)
  then have "unat (p + 1) = unat p + 1" by (subst unat_add_no_wrap) simp_all
  then show ?thesis by (simp add: word_le_nat_alt word_less_nat_alt Suc_le_eq)
qed

lemma word_pred_le: "(c :: u32) < p \<Longrightarrow> (x \<le> p - 1) = (x < p)"
proof -
  assume "c < p"
  then have p: "1 \<le> unat p" by (simp add: word_less_nat_alt)
  then have "unat (p - 1) = unat p - 1" by (subst unat_sub) (simp_all add: word_le_nat_alt)
  then show ?thesis using p by (simp add: word_le_nat_alt word_less_nat_alt) linarith
qed

lemma piece_at_simps [simp]:
  "piece_at [] x = None"
  "piece_at (r # list) x = (if x \<in> rng r then Some (rg_owner r) else piece_at list x)"
  by (simp_all add: piece_at_def)

lemma piece_at_None: "(\<And>r. r \<in> set list \<Longrightarrow> x \<notin> rng r) \<Longrightarrow> piece_at list x = None"
  by (induction list) simp_all

lemma pieces_ok_Cons:
  "pieces_ok (r # list) \<longleftrightarrow> rg_start r \<le> rg_end r \<and> (\<forall>b \<in> set list. rng r \<inter> rng b = {}) \<and> pieces_ok list"
  by (auto simp: pieces_ok_def)

text \<open>An interval that nests with a range and with a part of it nests with what is left on each side.\<close>

lemma nests_sides:
  assumes "a \<le> b" "nests {a..b} {c..d}" "nests {a..b} {ps..pe}" "c \<le> ps" "ps \<le> pe" "pe \<le> d"
  shows "nests {a..b} {c..<ps}" "nests {a..b} {pe<..d}"
proof -
  consider "{a..b} \<inter> {c..d} = {}" | "{a..b} \<subseteq> {ps..pe}" | "{a..b} \<subseteq> {c..d}" "{a..b} \<inter> {ps..pe} = {}"
    using assms(2,3) by (auto simp: nests_def)
  then have "nests {a..b} {c..<ps} \<and> nests {a..b} {pe<..d}"
  proof cases
    case 1
    then show ?thesis using assms(4-6) by (force simp: nests_def disjoint_iff)
  next
    case 2
    then show ?thesis using assms(5) by (force simp: nests_def disjoint_iff)
  next
    case 3
    then have ab: "c \<le> a" "b \<le> d" using assms(1) by auto
    have "b < ps \<or> pe < a"
    proof (rule ccontr)
      assume "\<not> (b < ps \<or> pe < a)"
      then have "max a ps \<in> {a..b} \<inter> {ps..pe}" using assms(1,5) by (auto simp: max_def)
      then show False using 3(2) by blast
    qed
    then show ?thesis using ab assms(5) by (force simp: nests_def disjoint_iff)
  qed
  then show "nests {a..b} {c..<ps}" "nests {a..b} {pe<..d}" by simp_all
qed

definition piece_parts :: "as_range \<Rightarrow> as_range list \<Rightarrow> u32 \<Rightarrow> u32 \<Rightarrow> nat \<Rightarrow> bool" where
  "piece_parts cur parts ps pe owner \<longleftrightarrow> pieces_ok parts \<and> (\<forall>r \<in> set parts. rng r \<subseteq> rng cur) \<and>
    (\<forall>x. piece_at parts x = (if x \<in> {ps..pe} then Some owner else piece_at [cur] x)) \<and>
    (\<forall>a b. a \<le> b \<and> nests {a..b} (rng cur) \<and> nests {a..b} {ps..pe} \<longrightarrow> (\<forall>r \<in> set parts. nests {a..b} (rng r)))"

lemma insert_piece_in:
  fixes owner :: nat
  assumes "ps \<le> pe" "rg_start cur \<le> ps" "pe \<le> rg_end cur"
  shows "\<exists>parts. insert_piece ps pe owner (cur # rest) = parts @ rest \<and> piece_parts cur parts ps pe owner"
proof -
  define new where "new = \<lparr>rg_start = ps, rg_end = pe, rg_owner = owner\<rparr>"
  let ?l = "cur\<lparr>rg_end := ps - 1\<rparr>" and ?r = "\<lparr>rg_start = pe + 1, rg_end = rg_end cur, rg_owner = rg_owner cur\<rparr>"
  note sides = nests_sides [OF _ _ _ assms(2,1,3)]
  have l: "rng ?l = {rg_start cur..<ps}" "rg_start ?l \<le> rg_end ?l" if "rg_start cur < ps"
  proof -
    have p: "x \<le> ps - 1 \<longleftrightarrow> x < ps" for x by (rule word_pred_le [OF that])
    show "rng ?l = {rg_start cur..<ps}" by (rule set_eqI) (simp add: p)
    show "rg_start ?l \<le> rg_end ?l" using that by (simp add: p)
  qed
  have r: "rng ?r = {pe<..rg_end cur}" "rg_start ?r \<le> rg_end ?r" if "pe < rg_end cur"
  proof -
    have p: "pe + 1 \<le> x \<longleftrightarrow> pe < x" for x by (rule word_succ_le [OF that])
    show "rng ?r = {pe<..rg_end cur}" by (rule set_eqI) (simp add: p)
    show "rg_start ?r \<le> rg_end ?r" using that by (simp add: p)
  qed
  have n: "rng new = {ps..pe}" by (simp add: new_def)
  consider (eq) "rg_start cur = ps" "rg_end cur = pe" | (left) "rg_start cur = ps" "pe < rg_end cur"
    | (right) "rg_start cur < ps" "rg_end cur = pe" | (mid) "rg_start cur < ps" "pe < rg_end cur"
    using assms(2,3) by (metis order_le_less)
  then show ?thesis
  proof cases
    case eq
    then have "insert_piece ps pe owner (cur # rest) = [cur\<lparr>rg_owner := owner\<rparr>] @ rest"
      "piece_parts cur [cur\<lparr>rg_owner := owner\<rparr>] ps pe owner"
      using assms(1) by (auto simp: piece_parts_def pieces_ok_def)
    then show ?thesis by blast
  next
    case left
    have "insert_piece ps pe owner (cur # rest) = [new, cur\<lparr>rg_start := pe + 1\<rparr>] @ rest"
      using left assms(1) by (auto simp: new_def)
    moreover have "cur\<lparr>rg_start := pe + 1\<rparr> = ?r" by simp
    moreover have "piece_parts cur [new, ?r] ps pe owner"
      using left assms n r [OF left(2)] sides(2)
      unfolding piece_parts_def pieces_ok_Cons piece_at_simps by (auto simp: new_def pieces_ok_def)
    ultimately show ?thesis by metis
  next
    case right
    have "insert_piece ps pe owner (cur # rest) = [?l, new] @ rest"
      using right assms(1) by (auto simp: new_def)
    moreover have "piece_parts cur [?l, new] ps pe owner"
      using right assms n l [OF right(1)] sides(1)
      unfolding piece_parts_def pieces_ok_Cons piece_at_simps by (auto simp: new_def pieces_ok_def)
    ultimately show ?thesis by blast
  next
    case mid
    have "insert_piece ps pe owner (cur # rest) = [?l, new, ?r] @ rest"
      using mid assms(1) by (auto simp: new_def Let_def)
    moreover have "piece_parts cur [?l, new, ?r] ps pe owner"
      using mid assms n l [OF mid(1)] r [OF mid(2)] sides
      unfolding piece_parts_def pieces_ok_Cons piece_at_simps by (auto simp: new_def pieces_ok_def)
    ultimately show ?thesis by blast
  qed
qed

lemma piece_at_append: "piece_at (a @ b) x = (case piece_at a x of None \<Rightarrow> piece_at b x | Some w \<Rightarrow> Some w)"
  by (induction a) simp_all

lemma insert_piece_spec:
  assumes "pieces_ok list" "ps \<le> pe" "\<forall>r \<in> set list. nests {ps..pe} (rng r)"
  shows "pieces_ok (insert_piece ps pe owner list) \<and>
    (\<forall>x. piece_at (insert_piece ps pe owner list) x = (if x \<in> {ps..pe} then Some owner else piece_at list x)) \<and>
    (\<forall>r \<in> set (insert_piece ps pe owner list). rng r \<subseteq> {ps..pe} \<or> (\<exists>r' \<in> set list. rng r \<subseteq> rng r')) \<and>
    (\<forall>a b. a \<le> b \<and> nests {a..b} {ps..pe} \<and> (\<forall>r \<in> set list. nests {a..b} (rng r)) \<longrightarrow>
       (\<forall>r \<in> set (insert_piece ps pe owner list). nests {a..b} (rng r)))"
  using assms
proof (induction list)
  case Nil
  then show ?case by (auto simp: pieces_ok_def)
next
  case (Cons cur rest)
  have ok: "pieces_ok rest" "\<And>b. b \<in> set rest \<Longrightarrow> rng cur \<inter> rng b = {}" "rg_start cur \<le> rg_end cur"
    using Cons.prems(1) by (simp_all add: pieces_ok_Cons)
  show ?case
  proof (cases "ps \<in> rng cur")
    case True
    then have "{ps..pe} \<subseteq> rng cur" using Cons.prems(2,3) by (auto simp: nests_def)
    then have sub: "rg_start cur \<le> ps" "pe \<le> rg_end cur" using Cons.prems(2) by auto
    obtain parts where parts: "insert_piece ps pe owner (cur # rest) = parts @ rest" "piece_parts cur parts ps pe owner"
      using insert_piece_in [OF Cons.prems(2) sub, of owner rest] by blast
    have "pieces_ok (parts @ rest)"
      using parts(2) ok by (fastforce simp: piece_parts_def pieces_ok_def sorted_wrt_append)
    moreover have "piece_at (parts @ rest) x = (if x \<in> {ps..pe} then Some owner else piece_at (cur # rest) x)" for x
      using parts(2) by (simp add: piece_parts_def piece_at_append split: option.splits)
    ultimately show ?thesis
      using parts by (auto simp: piece_parts_def simp del: insert_piece.simps)
  next
    case False
    have ins: "insert_piece ps pe owner (cur # rest) = cur # insert_piece ps pe owner rest"
      using False by auto
    have dj: "{ps..pe} \<inter> rng cur = {}"
      using False Cons.prems(2,3) by (auto simp: nests_def)
    have IH: "pieces_ok (insert_piece ps pe owner rest)"
      "\<And>x. piece_at (insert_piece ps pe owner rest) x = (if x \<in> {ps..pe} then Some owner else piece_at rest x)"
      "\<And>r. r \<in> set (insert_piece ps pe owner rest) \<Longrightarrow> rng r \<subseteq> {ps..pe} \<or> (\<exists>r' \<in> set rest. rng r \<subseteq> rng r')"
      "\<And>a b. a \<le> b \<Longrightarrow> nests {a..b} {ps..pe} \<Longrightarrow> (\<forall>r \<in> set rest. nests {a..b} (rng r)) \<Longrightarrow>
       (\<forall>r \<in> set (insert_piece ps pe owner rest). nests {a..b} (rng r))"
    proof -
      have "\<forall>r \<in> set rest. nests {ps..pe} (rng r)" using Cons.prems(3) by simp
      note h = Cons.IH [OF ok(1) Cons.prems(2) this]
      show "pieces_ok (insert_piece ps pe owner rest)" using h by (elim conjE)
      show "piece_at (insert_piece ps pe owner rest) x = (if x \<in> {ps..pe} then Some owner else piece_at rest x)" for x
        using h by (elim conjE) (erule spec)
      show "rng r \<subseteq> {ps..pe} \<or> (\<exists>r' \<in> set rest. rng r \<subseteq> rng r')" if "r \<in> set (insert_piece ps pe owner rest)" for r
        using h that by (elim conjE) (drule (1) bspec)
      show "\<forall>r \<in> set (insert_piece ps pe owner rest). nests {a..b} (rng r)"
        if "a \<le> b" "nests {a..b} {ps..pe}" "\<forall>r \<in> set rest. nests {a..b} (rng r)" for a b
        using h that by (elim conjE) blast
    qed
    have "rng cur \<inter> rng b = {}" if "b \<in> set (insert_piece ps pe owner rest)" for b
      using IH(3) [OF that] dj ok(2) by blast
    then have 1: "pieces_ok (cur # insert_piece ps pe owner rest)"
      using IH(1) ok(3) by (simp only: pieces_ok_Cons) blast
    have 2: "piece_at (cur # insert_piece ps pe owner rest) x = (if x \<in> {ps..pe} then Some owner else piece_at (cur # rest) x)" for x
      unfolding piece_at_simps IH(2) using dj by auto
    have 3: "\<forall>r \<in> set (cur # insert_piece ps pe owner rest). rng r \<subseteq> {ps..pe} \<or> (\<exists>r' \<in> set (cur # rest). rng r \<subseteq> rng r')"
      using IH(3) by auto
    have 4: "\<forall>r \<in> set (cur # insert_piece ps pe owner rest). nests {a..b} (rng r)"
      if "a \<le> b \<and> nests {a..b} {ps..pe} \<and> (\<forall>r \<in> set (cur # rest). nests {a..b} (rng r))" for a b
      using IH(4) [of a b] that by simp
    show ?thesis
      unfolding ins using 1 2 3 4 by blast
  qed
qed

text \<open>The part of the range that lies in entry \<open>w\<close>, as the code clips it.\<close>

definition piece_of :: "sst \<Rightarrow> u32 \<Rightarrow> u32 \<Rightarrow> nat \<Rightarrow> u32 set" where
  "piece_of st start fin w =
     {(if as_start (st_as st ! w) > ucast start then ucast (as_start (st_as st ! w)) else start) ..
      (if as_end (st_as st ! w) < ucast fin then ucast (as_end (st_as st ! w)) else fin)}"

definition container_of :: "sst \<Rightarrow> u32 \<Rightarrow> u32 \<Rightarrow> u8 list \<Rightarrow> nat \<Rightarrow> bool" where
  "container_of st start fin nm i \<longleftrightarrow> match_name (Suc i) st i nm \<and> overlaps start fin (st_as st ! i)"

lemma piece_of_iff:
  assumes "start \<le> fin" "as_start (st_as st ! w) \<le> as_end (st_as st ! w)" "overlaps start fin (st_as st ! w)"
  shows "x \<in> piece_of st start fin w \<longleftrightarrow>
    start \<le> x \<and> x \<le> fin \<and> as_start (st_as st ! w) \<le> ucast x \<and> ucast x \<le> as_end (st_as st ! w)"
    and "piece_of st start fin w \<noteq> {}"
proof -
  let ?s = "as_start (st_as st ! w)" and ?e = "as_end (st_as st ! w)"
  have o: "?s \<le> ucast fin" "ucast start \<le> ?e" using assms(3) overlaps_iff [OF assms(1,2)] by auto
  have s: "ucast start < ?s \<Longrightarrow> unat (ucast ?s :: u32) = unat ?s"
    using o(1) unat_lt32 [of fin] by (intro unat_ucast32) (simp add: word_le_nat_alt unat_ucast64)
  have e: "?e < ucast fin \<Longrightarrow> unat (ucast ?e :: u32) = unat ?e"
    using unat_lt32 [of fin] by (intro unat_ucast32) (simp add: word_less_nat_alt unat_ucast64)
  show "x \<in> piece_of st start fin w \<longleftrightarrow> start \<le> x \<and> x \<le> fin \<and> ?s \<le> ucast x \<and> ucast x \<le> ?e" for x
    using s e by (auto simp: piece_of_def word_le_nat_alt word_less_nat_alt unat_ucast64 not_less)
  show "piece_of st start fin w \<noteq> {}"
    using s e o assms(1,2) by (auto simp: piece_of_def word_le_nat_alt word_less_nat_alt unat_ucast64 not_less)
qed

definition innermost :: "sst \<Rightarrow> u32 \<Rightarrow> u32 \<Rightarrow> u8 list \<Rightarrow> nat \<Rightarrow> u32 \<Rightarrow> nat option" where
  "innermost st start fin nm n x =
     List.find (\<lambda>i. container_of st start fin nm i \<and> x \<in> piece_of st start fin i) (rev [0..<n])"

lemma innermost_Suc:
  "innermost st start fin nm (Suc n) x =
     (if container_of st start fin nm n \<and> x \<in> piece_of st start fin n then Some n
      else innermost st start fin nm n x)"
  by (simp add: innermost_def)

lemma innermost_skip:
  assumes "n \<le> m" "\<And>i. n \<le> i \<Longrightarrow> i < m \<Longrightarrow> \<not> container_of st start fin nm i"
  shows "innermost st start fin nm m x = innermost st start fin nm n x"
  using assms
proof (induction m)
  case (Suc m)
  then show ?case by (cases "n = Suc m") (simp_all add: innermost_Suc)
qed simp

lemma as_find_containing_cases:
  fixes i0 :: nat
  assumes "i0 = (case owner of None \<Rightarrow> 0 | Some i \<Rightarrow> i + 1)"
  obtains (none) "as_find_containing owner start fin nm st = None"
      "\<And>i. i0 \<le> i \<Longrightarrow> i < length (st_as st) \<Longrightarrow> \<not> container_of st start fin nm i"
  | (some) w where "as_find_containing owner start fin nm st = Some w" "i0 \<le> w" "w < length (st_as st)"
      "container_of st start fin nm w" "\<And>i. i0 \<le> i \<Longrightarrow> i < w \<Longrightarrow> \<not> container_of st start fin nm i"
proof -
  have f: "as_find_containing owner start fin nm st = List.find (container_of st start fin nm) [i0..<length (st_as st)]"
    using assms by (simp add: as_find_containing_def container_of_def [abs_def])
  show ?thesis
  proof (cases "as_find_containing owner start fin nm st")
    case None
    then show ?thesis using none unfolding f by (auto simp: find_None_iff)
  next
    case (Some w)
    then obtain k where k: "k < length (st_as st) - i0" "w = i0 + k" "container_of st start fin nm w"
      "\<forall>j < k. \<not> container_of st start fin nm (i0 + j)"
      unfolding f find_Some_iff by auto
    have "\<not> container_of st start fin nm i" if "i0 \<le> i" "i < w" for i
      using k(2) k(4) [rule_format, of "i - i0"] that by auto
    then show ?thesis using some [OF Some] k by simp
  qed
qed

lemma collect_pieces_spec:
  assumes rg: "start \<le> fin" "\<forall>as \<in> set (st_as st). as_start as \<le> as_end as"
    and lam: "\<And>i j. i < j \<Longrightarrow> j < length (st_as st) \<Longrightarrow> container_of st start fin nm i \<Longrightarrow>
       container_of st start fin nm j \<Longrightarrow> nests (piece_of st start fin j) (piece_of st start fin i)"
    and lo: "lo = (case owner of None \<Rightarrow> 0 | Some i \<Rightarrow> i + 1)" "lo \<le> length (st_as st)"
    and ok: "pieces_ok list" "\<And>x. piece_at list x = innermost st start fin nm lo x"
    and nest: "\<And>j r. lo \<le> j \<Longrightarrow> j < length (st_as st) \<Longrightarrow> container_of st start fin nm j \<Longrightarrow> r \<in> set list \<Longrightarrow>
       nests (piece_of st start fin j) (rng r)"
  shows "pieces_ok (collect_pieces owner start fin nm st list) \<and>
    (\<forall>x. piece_at (collect_pieces owner start fin nm st list) x = innermost st start fin nm (length (st_as st)) x)"
  using lo ok nest
proof (induction "length (st_as st) - lo" arbitrary: lo owner list rule: less_induct)
  case less
  from less.prems(1) show ?case
  proof (cases rule: as_find_containing_cases [where start = start and fin = fin and nm = nm and st = st])
    case none
    then have "innermost st start fin nm (length (st_as st)) x = innermost st start fin nm lo x" for x
      using less.prems(2) by (intro innermost_skip) auto
    then show ?thesis using none(1) less.prems(3,4) by (subst (1 2) collect_pieces.simps) simp
  next
    case (some w)
    obtain ps pe where p: "piece_of st start fin w = {ps..pe}"
      "ps = (if as_start (st_as st ! w) > ucast start then ucast (as_start (st_as st ! w)) else start)"
      "pe = (if as_end (st_as st ! w) < ucast fin then ucast (as_end (st_as st ! w)) else fin)"
      by (simp add: piece_of_def)
    have ov: "overlaps start fin (st_as st ! w)" using some(4) by (simp add: container_of_def)
    have ne: "ps \<le> pe"
      using piece_of_iff(2) [OF rg(1) _ ov] rg(2) some(3) p(1) by auto
    let ?l = "insert_piece ps pe w list"
    have rec: "collect_pieces owner start fin nm st list = collect_pieces (Some w) start fin nm st ?l"
      using some(1) by (subst collect_pieces.simps) (simp add: as_off2info_def p(2,3) Let_def)
    have "\<forall>r \<in> set list. nests {ps..pe} (rng r)"
      using less.prems(5) [OF some(2,3,4)] p(1) by simp
    note ins = insert_piece_spec [OF less.prems(3) ne this, of w]
    have at: "piece_at ?l x = innermost st start fin nm (Suc w) x" for x
    proof -
      have "innermost st start fin nm w x = innermost st start fin nm lo x"
        using some(2,5) by (intro innermost_skip)
      then show ?thesis using ins some(4) less.prems(4) [of x] p(1) by (simp add: innermost_Suc)
    qed
    have nst: "nests (piece_of st start fin j) (rng r)"
      if j: "Suc w \<le> j" "j < length (st_as st)" "container_of st start fin nm j" and r: "r \<in> set ?l" for j r
    proof -
      have ov: "overlaps start fin (st_as st ! j)" using j(3) by (simp add: container_of_def)
      obtain a b where ab: "piece_of st start fin j = {a..b}" unfolding piece_of_def by blast
      have "a \<le> b" using piece_of_iff(2) [OF rg(1) _ ov] rg(2) j(2) ab by auto
      moreover have "nests {a..b} {ps..pe}" using lam [OF _ j(2) some(4) j(3)] j(1) ab p(1) by simp
      moreover have "\<forall>r \<in> set list. nests {a..b} (rng r)" using less.prems(5) [of j] j some(2) ab by simp
      ultimately show ?thesis using ins r unfolding ab by blast
    qed
    have "length (st_as st) - Suc w < length (st_as st) - lo" using some(2,3) by simp
    from less.hyps [OF this, of "Some w" ?l] show ?thesis
      unfolding rec using some(3) ins at nst by simp
  qed
qed

text \<open>
  C7: when the containers nest, the pieces that \<open>as_add_containing\<close> cuts a range into are
  disjoint, cover exactly the part of the range that lies in some container, and each address
  belongs to the piece of the last, innermost entry that contains it.
\<close>

theorem collect_pieces_innermost:
  assumes "start \<le> fin" "\<forall>as \<in> set (st_as st). as_start as \<le> as_end as"
    "\<forall>i j. i < j \<and> j < length (st_as st) \<and> container_of st start fin nm i \<and> container_of st start fin nm j \<longrightarrow>
       nests (piece_of st start fin j) (piece_of st start fin i)"
  shows "pieces_ok (collect_pieces None start fin nm st []) \<and>
    (\<forall>x. piece_at (collect_pieces None start fin nm st []) x = innermost st start fin nm (length (st_as st)) x)"
  by (rule collect_pieces_spec [where lo = 0]) (use assms in \<open>auto simp: pieces_ok_def innermost_def\<close>)

section \<open>The entries that \<open>as_add_containing\<close> makes\<close>

lemma add_pieces_spec:
  assumes "as_ok st" "name_ok nm" "pa AND AS_OVERLAY_IO (st_abi st) = 0"
    "\<forall>r \<in> set list. rg_start r \<le> rg_end r \<and> rg_owner r < length (st_as st)"
    "add_pieces list pa nm so off st = Inr (so', off', st')"
  shows "as_ok st' \<and> st_abi st' = st_abi st \<and> length (st_as st') = length (st_as st) + length list \<and>
    (\<forall>i < length (st_as st). same_entry (st_as st' ! i) (st_as st ! i) \<and> name_of st' i = name_of st i) \<and>
    (\<forall>k < length list. as_start (st_as st' ! (length (st_as st) + k)) = ucast (rg_start (list ! k)) \<and>
       as_end (st_as st' ! (length (st_as st) + k)) = ucast (rg_end (list ! k)) \<and>
       as_owner (st_as st' ! (length (st_as st) + k)) = Some (rg_owner (list ! k)) \<and>
       name_of st' (length (st_as st) + k) = nm) \<and>
    (if list = [] then so' = so \<and> off' = off
     else so' = (if so = None then Some (length (st_as st)) else so) \<and> off' = length (st_as st') - 1)"
  using assms
proof (induction list arbitrary: so off st)
  case Nil
  then show ?case by simp
next
  case (Cons r list)
  let ?n = "length (st_as st)"
  obtain o1 st1 where a: "as_add (rg_start r) (rg_end r) pa nm (Some (rg_owner r)) st = Inr (o1, st1)"
    and b: "add_pieces list pa nm (if so = None then Some o1 else so) o1 st1 = Inr (so', off', st')"
    using Cons.prems(4,5) by (cases "as_add (rg_start r) (rg_end r) pa nm (Some (rg_owner r)) st") auto
  have own: "\<And>w. Some (rg_owner r) = Some w \<Longrightarrow> w < ?n" using Cons.prems(4) by simp
  note s = as_add64_step [OF Cons.prems(1,2) own a [unfolded as_add_def]]
  have len1: "length (st_as st1) = Suc ?n" and o1: "o1 = ?n" and abi1: "st_abi st1 = st_abi st"
    using s(2,4,5) Cons.prems(3) by simp_all
  have IH: "as_ok st' \<and> st_abi st' = st_abi st1 \<and> length (st_as st') = length (st_as st1) + length list \<and>
    (\<forall>i < length (st_as st1). same_entry (st_as st' ! i) (st_as st1 ! i) \<and> name_of st' i = name_of st1 i) \<and>
    (\<forall>k < length list. as_start (st_as st' ! (length (st_as st1) + k)) = ucast (rg_start (list ! k)) \<and>
       as_end (st_as st' ! (length (st_as st1) + k)) = ucast (rg_end (list ! k)) \<and>
       as_owner (st_as st' ! (length (st_as st1) + k)) = Some (rg_owner (list ! k)) \<and>
       name_of st' (length (st_as st1) + k) = nm) \<and>
    (if list = [] then so' = (if so = None then Some o1 else so) \<and> off' = o1
     else so' = (if (if so = None then Some o1 else so) = None then Some (length (st_as st1)) else if so = None then Some o1 else so) \<and>
       off' = length (st_as st') - 1)"
    by (rule Cons.IH [OF s(1) Cons.prems(2) _ _ b]) (use Cons.prems(3,4) abi1 len1 in \<open>auto simp: less_SucI\<close>)
  have old: "same_entry (st_as st' ! i) (st_as st ! i) \<and> name_of st' i = name_of st i" if "i < ?n" for i
  proof -
    have "same_entry (st_as st' ! i) (st_as st1 ! i)" "name_of st' i = name_of st1 i"
      using IH that len1 by simp_all
    then show ?thesis using s(6) [of i] that o1 by (auto intro: same_entry_trans)
  qed
  have new: "as_start (st_as st' ! (?n + k)) = ucast (rg_start ((r # list) ! k)) \<and>
       as_end (st_as st' ! (?n + k)) = ucast (rg_end ((r # list) ! k)) \<and>
       as_owner (st_as st' ! (?n + k)) = Some (rg_owner ((r # list) ! k)) \<and> name_of st' (?n + k) = nm"
    if "k < length (r # list)" for k
  proof (cases k)
    case 0
    have "same_entry (st_as st' ! ?n) (st_as st1 ! ?n)" "name_of st' ?n = name_of st1 ?n"
      using IH len1 by simp_all
    then show ?thesis using s(7) o1 by (simp add: 0 same_entry_def)
  next
    case (Suc j)
    then have "j < length list" using that by simp
    then have "as_start (st_as st' ! (length (st_as st1) + j)) = ucast (rg_start (list ! j)) \<and>
       as_end (st_as st' ! (length (st_as st1) + j)) = ucast (rg_end (list ! j)) \<and>
       as_owner (st_as st' ! (length (st_as st1) + j)) = Some (rg_owner (list ! j)) \<and>
       name_of st' (length (st_as st1) + j) = nm"
      using IH by blast
    then show ?thesis using Suc by (simp add: len1)
  qed
  show ?case
    using IH old new len1 abi1 o1 by (auto split: if_splits)
qed

lemma piece_at_iff:
  assumes "pieces_ok list"
  shows "piece_at list x = Some w \<longleftrightarrow> (\<exists>k < length list. x \<in> rng (list ! k) \<and> rg_owner (list ! k) = w)"
  using assms
proof (induction list)
  case (Cons r list)
  have "x \<in> rng r \<Longrightarrow> k < length list \<Longrightarrow> x \<notin> rng (list ! k)" for k
    using Cons.prems nth_mem [of k list] unfolding pieces_ok_Cons by blast
  then show ?case using Cons by (auto simp: pieces_ok_Cons less_Suc_eq_0_disj)
qed simp

lemma same_entry_attr: "i < length es \<Longrightarrow> same_entry (es[off := (es ! off)\<lparr>as_attr := a\<rparr>] ! i) (es ! i)"
  by (cases "i = off") (simp_all add: same_entry_def)

lemma ucast_le_iff: "(ucast (a :: u32) :: u64) \<le> ucast b \<longleftrightarrow> a \<le> b"
  by (simp add: word_le_nat_alt unat_ucast64)

lemma add_pieces_returns:
  assumes "as_ok st" "name_ok nm" "pa AND AS_OVERLAY_IO (st_abi st) = 0"
    "\<forall>r \<in> set list. rg_start r \<le> rg_end r \<and> rg_owner r < length (st_as st)"
    "sp_total_size (st_lsp st) + length list * entry_room nm st \<le> sp_size (st_lsp st)"
  shows "\<exists>p. add_pieces list pa nm so off st = Inr p"
  using assms
proof (induction list arbitrary: so off st)
  case (Cons r list)
  have own: "\<And>w. Some (rg_owner r) = Some w \<Longrightarrow> w < length (st_as st)" using Cons.prems(4) by simp
  have "sp_total_size (st_lsp st) + entry_room nm st \<le> sp_size (st_lsp st)" using Cons.prems(5) by simp
  from as_add_plain_returns [OF Cons.prems(1,2) this Cons.prems(3) own] obtain o1 st1 where
    a: "as_add64 (ucast (rg_start r)) (ucast (rg_end r)) pa nm (Some (rg_owner r)) st = Inr (o1, st1)"
      "sp_size (st_lsp st1) = sp_size (st_lsp st)"
      "sp_total_size (st_lsp st1) \<le> sp_total_size (st_lsp st) + entry_room nm st" "lsp_abi (st_lsp st1) = lsp_abi (st_lsp st)"
    by blast
  note s = as_add64_step [OF Cons.prems(1,2) own a(1)]
  have "entry_room nm st1 = entry_room nm st" using a(4) by (simp add: entry_room_def)
  then have "\<exists>p. add_pieces list pa nm (if so = None then Some o1 else so) o1 st1 = Inr p"
    using Cons.prems a s(1,2,3,4,5) by (intro Cons.IH) (auto simp: less_SucI)
  then show ?case using Cons.prems(4) a(1) by (auto simp: as_add_def)
qed simp

text \<open>
  C21: with room below the limit \<open>as_add_containing\<close> of a range without an overlay returns. It adds
  entries of the given name that together hold exactly the addresses of the range that lie in a
  container, each owned by the innermost one; the table stays well formed and the entries that
  were there keep their bounds, owners and names.
\<close>

theorem as_add_containing_spec:
  assumes ok: "as_ok st" "name_ok nm" and rg: "start \<le> fin" "\<forall>as \<in> set (st_as st). as_start as \<le> as_end as"
    and lam: "\<forall>i j. i < j \<and> j < length (st_as st) \<and> container_of st start fin cont i \<and> container_of st start fin cont j \<longrightarrow>
       nests (piece_of st start fin j) (piece_of st start fin i)"
    and attr: "attr AND AS_OVERLAY_IO (st_abi st) = 0" "AS_ATTR_CONTINUED (st_abi st) AND AS_OVERLAY_IO (st_abi st) = 0"
    and room: "sp_total_size (st_lsp st) + length (collect_pieces None start fin cont st []) * entry_room nm st \<le> sp_size (st_lsp st)"
  defines "n \<equiv> length (st_as st)"
  shows "\<exists>r st'. as_add_containing start fin attr nm cont st = Inr (r, st') \<and> as_ok st' \<and> n \<le> length (st_as st') \<and>
    (\<forall>i < n. same_entry (st_as st' ! i) (st_as st ! i) \<and> name_of st' i = name_of st i) \<and>
    (\<forall>k. n \<le> k \<and> k < length (st_as st') \<longrightarrow> name_of st' k = nm) \<and>
    (\<forall>x w. innermost st start fin cont n x = Some w \<longleftrightarrow>
       (\<exists>k. n \<le> k \<and> k < length (st_as st') \<and> as_owner (st_as st' ! k) = Some w \<and>
          as_start (st_as st' ! k) \<le> ucast x \<and> ucast x \<le> as_end (st_as st' ! k)))"
proof -
  define list where "list = collect_pieces None start fin cont st []"
  have "pieces_ok list \<and> (\<forall>x. piece_at list x = innermost st start fin cont (length (st_as st)) x)"
    unfolding list_def by (rule collect_pieces_spec [where lo = 0]) (use rg lam in \<open>auto simp: pieces_ok_def innermost_def\<close>)
  then have pk: "pieces_ok list" and at: "piece_at list x = innermost st start fin cont n x" for x
    by (simp_all add: n_def)
  have own: "\<forall>r \<in> set list. rg_start r \<le> rg_end r \<and> rg_owner r < length (st_as st)"
  proof
    fix r assume r: "r \<in> set list"
    then obtain k where k: "k < length list" "list ! k = r" by (auto simp: in_set_conv_nth)
    have le: "rg_start r \<le> rg_end r" using pk r by (simp add: pieces_ok_def)
    then have "piece_at list (rg_start r) = Some (rg_owner r)" using k pk by (auto simp: piece_at_iff)
    then have "innermost st start fin cont n (rg_start r) = Some (rg_owner r)" by (simp add: at)
    then have "rg_owner r < n"
      unfolding innermost_def find_Some_iff by (auto simp: rev_nth)
    then show "rg_start r \<le> rg_end r \<and> rg_owner r < length (st_as st)" using le by (simp add: n_def)
  qed
  let ?pa = "(attr AND NOT (AS_OVERLAY_IO (st_abi st))) OR AS_ATTR_CONTINUED (st_abi st)"
  have pa: "?pa AND AS_OVERLAY_IO (st_abi st) = 0"
  proof (rule bit_word_eqI)
    fix b assume "b < LENGTH(32)"
    have "\<not> (bit (AS_ATTR_CONTINUED (st_abi st)) b \<and> bit (AS_OVERLAY_IO (st_abi st)) b)"
      using attr(2) by (metis bit_0_eq bit_and_iff bot_apply bot_bool_def)
    then show "bit (?pa AND AS_OVERLAY_IO (st_abi st)) b = bit (0 :: u32) b"
      by (auto simp: bit_and_iff bit_or_iff bit_not_iff)
  qed
  obtain so off st1 where p: "add_pieces list ?pa nm None 0 st = Inr (so, off, st1)"
    using add_pieces_returns [OF ok pa own, of None 0] room by (auto simp: list_def)
  note ap = add_pieces_spec [OF ok pa own p]
  define st' where "st' = (case so of None \<Rightarrow> st1
      | Some s0 \<Rightarrow> st1\<lparr>st_as := (st_as st1)[off := (st_as st1 ! off)\<lparr>as_attr := as_attr (st_as st1 ! off) AND NOT (AS_ATTR_CONTINUED (st_abi st1))\<rparr>]\<rparr>)"
  have run: "as_add_containing start fin attr nm cont st = Inr (so, st')"
    using p ap attr(1) by (auto simp: as_add_containing_def list_def Let_def as_off2info_def st'_def split: option.splits)
  have st': "st_lsp st' = st_lsp st1 \<and> st_abi st' = st_abi st1 \<and> length (st_as st') = length (st_as st1) \<and>
      (\<forall>i < length (st_as st1). same_entry (st_as st' ! i) (st_as st1 ! i))"
    using same_entry_attr by (auto simp: st'_def split: option.splits)
  have nm': "name_of st' i = name_of st1 i" if "i < length (st_as st1)" for i
    using st' that by (simp add: same_entry_def)
  have "as_ok st'"
    using ap st' unfolding as_ok_def by (auto simp: same_entry_def)
  moreover have "same_entry (st_as st' ! i) (st_as st ! i) \<and> name_of st' i = name_of st i" if "i < n" for i
  proof -
    have "same_entry (st_as st1 ! i) (st_as st ! i)" "name_of st1 i = name_of st i" "i < length (st_as st1)"
      using ap that by (simp_all add: n_def)
    moreover have "same_entry (st_as st' ! i) (st_as st1 ! i)" using st' \<open>i < length (st_as st1)\<close> by blast
    ultimately show ?thesis using nm' [of i] by (auto intro: same_entry_trans)
  qed
  moreover have new: "as_start (st_as st' ! (n + k)) = ucast (rg_start (list ! k)) \<and>
       as_end (st_as st' ! (n + k)) = ucast (rg_end (list ! k)) \<and>
       as_owner (st_as st' ! (n + k)) = Some (rg_owner (list ! k)) \<and> name_of st' (n + k) = nm"
    if "k < length list" for k
  proof -
    have "n + k < length (st_as st1)" using ap that by (simp add: n_def)
    then have "same_entry (st_as st' ! (n + k)) (st_as st1 ! (n + k))" "name_of st' (n + k) = name_of st1 (n + k)"
      using st' nm' by blast+
    then show ?thesis using ap that by (simp add: n_def same_entry_def)
  qed
  moreover have len: "length (st_as st') = n + length list" using ap st' by (simp add: n_def)
  moreover have "name_of st' k = nm" if "n \<le> k" "k < length (st_as st')" for k
    using new [of "k - n"] that len by simp
  moreover have "innermost st start fin cont n x = Some w \<longleftrightarrow>
       (\<exists>k. n \<le> k \<and> k < length (st_as st') \<and> as_owner (st_as st' ! k) = Some w \<and>
          as_start (st_as st' ! k) \<le> ucast x \<and> ucast x \<le> as_end (st_as st' ! k))" (is "_ = ?R") for x w
  proof -
    have "?R \<longleftrightarrow> (\<exists>k < length list. x \<in> rng (list ! k) \<and> rg_owner (list ! k) = w)"
    proof
      assume ?R
      then obtain k where k: "n \<le> k" "k < n + length list" "as_owner (st_as st' ! k) = Some w"
        "as_start (st_as st' ! k) \<le> ucast x" "ucast x \<le> as_end (st_as st' ! k)" unfolding len by blast
      then show "\<exists>k < length list. x \<in> rng (list ! k) \<and> rg_owner (list ! k) = w"
        using new [of "k - n"] by (intro exI [of _ "k - n"]) (auto simp: ucast_le_iff)
    next
      assume "\<exists>k < length list. x \<in> rng (list ! k) \<and> rg_owner (list ! k) = w"
      then obtain k where k: "k < length list" "x \<in> rng (list ! k)" "rg_owner (list ! k) = w" by blast
      then show ?R
        using new [OF k(1)] len by (intro exI [of _ "n + k"]) (simp add: ucast_le_iff)
    qed
    then show ?thesis using piece_at_iff [OF pk] by (simp add: at)
  qed
  ultimately show ?thesis using run by (intro exI [of _ so] exI [of _ st']) auto
qed

section \<open>Instances\<close>

text \<open>All memory, and a block of RAM inside it.\<close>

definition as_example :: sst where
  "as_example =
     \<lparr>st_lsp = page_of [] (cs ''memory'' @ [0] @ cs ''ram'' @ [0, 0]),
      st_as = [\<lparr>as_start = 0, as_end = 0xffffffff, as_owner = None, as_name = 0, as_attr = 0x10, as_priority = 100, as_checker = None\<rparr>,
               \<lparr>as_start = 0x10000000, as_end = 0x1fffffff, as_owner = Some 0, as_name = 7, as_attr = 0, as_priority = 100, as_checker = None\<rparr>],
      st_abi = \<lparr>AS_ATTR_NONE = 0, AS_ATTR_KIDS = 0x10, AS_ATTR_CONTINUED = 0x20, AS_ATTR_RAM = 7, AS_OVERLAY_IO = 0x10000, AS_PRIORITY_DEFAULT = 100\<rparr>,
      st_as_hooked = False\<rparr>"

lemma as_example_names: "hwi_find_string (st_lsp as_example) 0 = cs ''memory''" "hwi_find_string (st_lsp as_example) 7 = cs ''ram''"
  using page_of_inv(4) [of "[]" "cs ''memory'' @ [0] @ cs ''ram'' @ [0, 0]"]
  by (simp_all add: hwi_find_string_def as_example_def cstr_at_def cs_def)

lemma as_example_ok: "as_ok as_example"
proof -
  have "is_table (cs ''memory'' @ [0] @ cs ''ram'' @ [0, 0]) [cs ''memory'', cs ''ram'']"
    unfolding is_table_def by (intro conjI exI [of _ 1]) (auto simp: cs_def str_ok_def)
  then have "strings_ok (st_lsp as_example)"
    unfolding as_example_def by (simp only: sst.select_convs) (rule page_strings_ok, simp_all add: cs_def)
  moreover have "floating (st_lsp as_example) S_asinfo"
    using page_of_inv(2) [of "[]" "cs ''memory'' @ [0] @ cs ''ram'' @ [0, 0]" S_asinfo] by (simp add: as_example_def cs_def)
  moreover have "live_string (st_lsp as_example) 0" "live_string (st_lsp as_example) 7"
    unfolding live_string_def as_example_names by (simp_all add: cs_def)
  ultimately show ?thesis
    by (auto simp: as_ok_def) (auto simp: as_example_def less_Suc_eq)
qed

lemma as_example_bounds: "\<forall>as \<in> set (st_as as_example). as_start as \<le> as_end as"
  by (simp add: as_example_def)

lemma as_example_room: "sp_total_size (st_lsp as_example) + k * entry_room (cs ''sysram'') as_example \<le> sp_size (st_lsp as_example)"
  if "k \<le> 100"
  using that by (simp add: as_example_def entry_room_def round8_eq cs_def)

theorem as_add64_spec_witness:
  "\<exists>off st'. as_add64 0x10000000 0x100fffff 7 (cs ''sysram'') (Some 1) as_example = Inr (off, st') \<and> off = 2 \<and>
    hwi_find_string (st_lsp st') (as_name (as_off2info st' off)) = cs ''sysram''"
proof -
  have "sp_total_size (st_lsp as_example) + entry_room (cs ''sysram'') as_example \<le> sp_size (st_lsp as_example)"
    using as_example_room [of 1] by simp
  moreover have "(7 :: u32) AND AS_OVERLAY_IO (st_abi as_example) = 0" "length (st_as as_example) = 2"
    by (simp_all add: as_example_def)
  ultimately show ?thesis
    using as_add64_spec [OF as_example_ok name_ok_literals(3), of "Some 1" 7 "0x10000000" "0x100fffff"] by auto
qed

theorem as_find_containing_spec_witness:
  "\<exists>i. as_find_containing None 0x10000000 0x10000fff (cs ''ram'') as_example = Some i \<and> i < 2"
proof -
  let ?f = "as_find_containing None 0x10000000 0x10000fff (cs ''ram'') as_example"
  have le: "(0x10000000 :: u32) \<le> 0x10000fff" by simp
  note t = as_find_containing_spec [OF as_example_ok le as_example_bounds, where container = "cs ''ram''" and off = None]
  have len: "length (st_as as_example) = 2" by (simp add: as_example_def)
  have "owned_by as_example 1 1" by (rule owned_by.self)
  moreover have "hwi_find_string (st_lsp as_example) (as_name (as_off2info as_example 1)) = cs ''ram''"
    using as_example_names(2) by (simp add: as_off2info_def as_example_def)
  moreover have "as_start (as_off2info as_example 1) \<le> ucast (0x10000fff :: u32)" "ucast (0x10000000 :: u32) \<le> as_end (as_off2info as_example 1)"
    by (simp_all add: as_off2info_def as_example_def)
  moreover have "(1 :: nat) < length (st_as as_example)" by (simp add: len)
  ultimately have hit: "\<exists>i. 0 \<le> i \<and> i < length (st_as as_example) \<and>
      (\<exists>j. owned_by as_example i j \<and> hwi_find_string (st_lsp as_example) (as_name (as_off2info as_example j)) = cs ''ram'') \<and>
      as_start (as_off2info as_example i) \<le> ucast (0x10000fff :: u32) \<and> ucast (0x10000000 :: u32) \<le> as_end (as_off2info as_example i)"
    by (intro exI [of _ 1] conjI) blast+
  have "?f \<noteq> None"
  proof
    assume "?f = None"
    then show False using t hit by (simp only: option.case simp_thms)
  qed
  then obtain i where "?f = Some i" by blast
  then show ?thesis using t len by auto
qed

lemma as_example_nests:
  "\<forall>i j. i < j \<and> j < length (st_as as_example) \<and> container_of as_example 0x0ffff000 0x10000fff (cs ''memory'') i \<and>
     container_of as_example 0x0ffff000 0x10000fff (cs ''memory'') j \<longrightarrow>
     nests (piece_of as_example 0x0ffff000 0x10000fff j) (piece_of as_example 0x0ffff000 0x10000fff i)"
  by (auto simp: as_example_def less_Suc_eq piece_of_def nests_def)

theorem collect_pieces_innermost_witness:
  "pieces_ok (collect_pieces None 0x0ffff000 0x10000fff (cs ''memory'') as_example [])"
  using collect_pieces_innermost [OF _ as_example_bounds as_example_nests] by simp

lemma as_example_pieces: "length (collect_pieces None 0x0ffff000 0x10000fff (cs ''memory'') as_example []) = 2"
proof -
  let ?m = "cs ''memory''"
  have e: "st_as as_example = [\<lparr>as_start = 0, as_end = 0xffffffff, as_owner = None, as_name = 0, as_attr = 0x10, as_priority = 100, as_checker = None\<rparr>,
               \<lparr>as_start = 0x10000000, as_end = 0x1fffffff, as_owner = Some 0, as_name = 7, as_attr = 0, as_priority = 100, as_checker = None\<rparr>]"
    by (simp add: as_example_def)
  have f: "as_find_containing None 0x0ffff000 0x10000fff ?m as_example = Some 0"
    "as_find_containing (Some 0) 0x0ffff000 0x10000fff ?m as_example = Some (Suc 0)"
    "as_find_containing (Some (Suc 0)) 0x0ffff000 0x10000fff ?m as_example = None"
    by (simp_all add: as_find_containing_def e overlaps_def as_example_names upt_conv_Cons)
  show ?thesis
    by (subst collect_pieces.simps, simp add: f as_off2info_def e,
        subst collect_pieces.simps, simp add: f as_off2info_def e,
        subst collect_pieces.simps, simp add: f)
qed

theorem as_add_containing_spec_witness:
  "\<exists>r st'. as_add_containing 0x0ffff000 0x10000fff 7 (cs ''sysram'') (cs ''memory'') as_example = Inr (r, st') \<and> as_ok st' \<and>
    (\<forall>k. 2 \<le> k \<and> k < length (st_as st') \<longrightarrow> name_of st' k = cs ''sysram'')"
proof -
  have le: "(0x0ffff000 :: u32) \<le> 0x10000fff" by simp
  have a: "(7 :: u32) AND AS_OVERLAY_IO (st_abi as_example) = 0"
    "AS_ATTR_CONTINUED (st_abi as_example) AND AS_OVERLAY_IO (st_abi as_example) = 0" "length (st_as as_example) = 2"
    by (simp_all add: as_example_def)
  have "sp_total_size (st_lsp as_example) + length (collect_pieces None 0x0ffff000 0x10000fff (cs ''memory'') as_example []) *
      entry_room (cs ''sysram'') as_example \<le> sp_size (st_lsp as_example)"
    unfolding as_example_pieces by (rule as_example_room) simp
  from as_add_containing_spec [OF as_example_ok name_ok_literals(3) le as_example_bounds as_example_nests a(1,2) this]
  show ?thesis unfolding a(3) by blast
qed

end
