(* ===== verification/Startup_Ram.thy ===== *)
theory Startup_Ram
  imports Startup_As
begin

text \<open>
  The physical memory allocator of the startup library, \<open>src/hardware/startup/lib/ram.c\<close>, with
  \<open>as_default\<close> of the ARM library.

  \<open>ram_list\<close> is the array of free blocks without its terminating entry of size zero, so
  \<open>ram_list_size\<close> is \<open>16 * (length + 1)\<close>; \<open>avoid_list\<close> is the array of ranges to avoid without
  its terminator (an entry whose \<open>end\<close> is zero, at which every scan stops). Pointers into the
  arrays are list positions. \<open>paddr_t\<close> is 32 bits, the fields of a block are 64 bits, with the
  conversions that C inserts. The array of ranges to avoid has no bound in the code and none
  here: the model is that of its first 127 entries, which is what the array has room for.

  The removal loop of \<open>alloc_ram\<close> edits the array it walks and is a partial function;
  \<open>AllocDiverges\<close> is a walk that does not end. A watcher is a number; its calls are recorded.
\<close>

section \<open>State\<close>

record ram_entry =
  re_addr :: u64
  re_size :: u64

record avoid_entry =
  av_start :: u32
  av_end :: u32

record startup_header =
  ram_paddr :: u32
  ram_size :: u32
  startup_size :: u32

record ram_state =
  ram_list :: "ram_entry list"
  avoid_list :: "avoid_entry list option"
  ws_early_next :: u32
  temp_syspage :: u32
  sysram_added :: bool
  watch_list :: "nat list"
  watch_calls :: "(nat \<times> u32 \<times> u32) list"
  rs_pagesize :: u32
  rs_shdr :: startup_header
  rs_st :: sst

abbreviation NULL_PADDR :: u32 where "NULL_PADDR \<equiv> 0xffffffff"
abbreviation MAX_PADDR32 :: u32 where "MAX_PADDR32 \<equiv> 0xffffffff"
abbreviation MAX_RAM_LIST_SIZE :: nat where "MAX_RAM_LIST_SIZE \<equiv> 3072"
abbreviation MAX_AVOID_LIST_SIZE :: u32 where "MAX_AVOID_LIST_SIZE \<equiv> 1024"
abbreviation TEMP_SYSPAGE_SIZE :: u32 where "TEMP_SYSPAGE_SIZE \<equiv> 0x8000"

definition ram_list_size :: "ram_entry list \<Rightarrow> nat" where
  "ram_list_size ram = 16 * (length ram + 1)"

section \<open>Adding memory\<close>

fun merge_ram :: "ram_entry list \<Rightarrow> ram_entry list" where
  "merge_ram (p # r # rest) =
     (if re_size r = 0 then p # r # rest
      else
        (let e = re_addr p + re_size p;
             s = re_addr r
         in if s \<le> e
            then (let e = (if s + re_size r > e then s + re_size r else e)
                  in merge_ram (p\<lparr>re_size := e - re_addr p\<rparr> # rest))
            else p # merge_ram (r # rest)))"
| "merge_ram ram = ram"

definition add_mem :: "u32 \<Rightarrow> u32 \<Rightarrow> ram_entry list \<Rightarrow> ram_entry list res" where
  "add_mem start sz ram =
     (if sz > 0 then
        (let before = takeWhile (\<lambda>r. re_size r \<noteq> 0 \<and> \<not> re_addr r > ucast start) ram;
             after = drop (length before) ram
         in if ram_list_size ram > MAX_RAM_LIST_SIZE - 16 then Inl RamArrayOverflow
            else Inr (merge_ram (before @ [\<lparr>re_addr = ucast start, re_size = ucast sz\<rparr>] @ after)))
      else Inr ram)"

section \<open>Finding memory\<close>

definition fix_size :: "u64 \<Rightarrow> u64 \<Rightarrow> u32 \<Rightarrow> u32 \<Rightarrow> (u64 \<times> u64) option" where
  "fix_size s e as ae =
     (let as = (ucast as :: u64); ae = (ucast ae :: u64)
      in if s \<ge> ae \<or> e \<le> as then Some (s, e)
         else if s \<ge> as then (if e \<le> ae then None else Some (ae, e))
         else if e < ae then Some (s, as)
         else if as - s > e - ae then Some (s, as)
         else Some (ae, e))"

fun avoid_all :: "u64 \<Rightarrow> u64 \<Rightarrow> avoid_entry list \<Rightarrow> (u64 \<times> u64) option" where
  "avoid_all s e [] = Some (s, e)"
| "avoid_all s e (a # as) =
     (if av_end a = 0 then Some (s, e)
      else (case fix_size s e (av_start a) (av_end a) of
              None \<Rightarrow> None
            | Some (s, e) \<Rightarrow> avoid_all s e as))"

fun find_top_loop :: "u32 \<Rightarrow> u32 \<Rightarrow> avoid_entry list \<Rightarrow> u32 \<Rightarrow> ram_entry list \<Rightarrow> u32" where
  "find_top_loop sz align avoid tp [] = tp"
| "find_top_loop sz align avoid tp (r # ram) =
     (if re_size r = 0 then tp
      else
        (case avoid_all (re_addr r) (re_addr r + re_size r) avoid of
           None \<Rightarrow> find_top_loop sz align avoid tp ram
         | Some (s, e) \<Rightarrow>
             (if e - s \<ge> ucast sz
              then (let chk = (if align \<noteq> 0 then TRUNC (ucast (e - ucast sz)) align else ucast (e - ucast sz))
                    in find_top_loop sz align avoid (if ucast chk \<ge> s \<and> chk > tp then chk else tp) ram)
              else find_top_loop sz align avoid tp ram)))"

definition find_top_ram_aligned :: "u32 \<Rightarrow> u32 \<Rightarrow> u32 \<Rightarrow> ram_state \<Rightarrow> u32" where
  "find_top_ram_aligned sz align pagesize rs =
     (let sz = ROUND sz pagesize;
          tp = find_top_loop sz align (case avoid_list rs of None \<Rightarrow> [] | Some a \<Rightarrow> a) 0 (ram_list rs)
      in if tp = 0 then NULL_PADDR else tp)"

definition find_top_ram :: "u32 \<Rightarrow> ram_state \<Rightarrow> u32" where
  "find_top_ram sz rs = find_top_ram_aligned sz 0 (rs_pagesize rs) rs"

fun find_range_loop :: "u32 \<Rightarrow> u32 \<Rightarrow> u32 \<Rightarrow> u32 \<Rightarrow> u32 \<Rightarrow> u32 \<Rightarrow> avoid_entry list \<Rightarrow> ram_entry list \<Rightarrow> u32" where
  "find_range_loop range_start range_end sz align colour msk avoid [] = NULL_PADDR"
| "find_range_loop range_start range_end sz align colour msk avoid (r # ram) =
     (if re_size r = 0 then NULL_PADDR
      else
        (case avoid_all (re_addr r) (re_addr r + re_size r) avoid of
           None \<Rightarrow> find_range_loop range_start range_end sz align colour msk avoid ram
         | Some (s, e) \<Rightarrow>
             (let addr = ROUND (ucast s) align;
                  addr = (if addr AND msk \<noteq> colour
                          then (let incr = ((msk - 1) OR msk) + 1 in ((addr + incr) AND NOT msk) OR colour)
                          else addr);
                  addr = (if range_start \<noteq> 0 \<and> addr < range_start then range_start else addr);
                  e = (if range_end \<noteq> 0 \<and> e > ucast range_end then ucast range_end else e)
              in if ucast addr \<ge> e then find_range_loop range_start range_end sz align colour msk avoid ram
                 else if ucast sz \<le> e - ucast addr then addr
                 else find_range_loop range_start range_end sz align colour msk avoid ram)))"

definition find_ram_in_range :: "u32 \<Rightarrow> u32 \<Rightarrow> u32 \<Rightarrow> u32 \<Rightarrow> u32 \<Rightarrow> u32 \<Rightarrow> ram_state \<Rightarrow> u32" where
  "find_ram_in_range range_start range_end sz align colour msk rs =
     find_range_loop range_start range_end sz align colour msk
       (case avoid_list rs of None \<Rightarrow> [] | Some a \<Rightarrow> a) (ram_list rs)"

definition find_ram :: "u32 \<Rightarrow> u32 \<Rightarrow> u32 \<Rightarrow> u32 \<Rightarrow> ram_state \<Rightarrow> u32" where
  "find_ram sz align colour msk rs =
     (let result = find_ram_in_range 0 MAX_PADDR32 sz align colour msk rs
      in if result = NULL_PADDR then NULL_PADDR else result)"

section \<open>Allocating memory\<close>

partial_function (option) alloc_loop :: "u32 \<Rightarrow> u64 \<Rightarrow> nat \<Rightarrow> ram_entry list \<Rightarrow> ram_entry list res option" where
  "alloc_loop addr fin i ram =
     (if length ram \<le> i \<or> re_size (ram ! i) = 0 then Some (Inr ram)
      else
        (let a = (ucast addr :: u64);
             s = re_addr (ram ! i);
             e = s + re_size (ram ! i)
         in if (a \<le> s \<and> fin > s) \<or> (a \<ge> s \<and> a < e) \<or> (fin \<ge> s \<and> fin < e)
            then
              (let e = (if fin > e then fin else e);
                   s = (if a < s then a else s)
               in if a = s \<and> fin = e then alloc_loop addr fin i (take i ram @ drop (Suc i) ram)
                  else if a = s
                  then alloc_loop addr fin (Suc i) (ram[i := \<lparr>re_addr = fin, re_size = e - fin\<rparr>])
                  else
                    (let ram = ram[i := (ram ! i)\<lparr>re_size := a - s\<rparr>]
                     in if e \<noteq> fin
                        then (case add_mem (ucast fin) (ucast (e - fin)) ram of
                                Inl c \<Rightarrow> Some (Inl c)
                              | Inr ram \<Rightarrow> alloc_loop addr fin (Suc i) ram)
                        else alloc_loop addr fin (Suc i) ram))
            else alloc_loop addr fin (Suc i) ram))"

partial_function (option) sysram_loop :: "u32 \<Rightarrow> u64 \<Rightarrow> nat option \<Rightarrow> sst \<Rightarrow> sst res option" where
  "sysram_loop addr fin off st =
     (case as_find_containing off addr (ucast fin) (cs ''sysram'') st of
        None \<Rightarrow> Some (Inr st)
      | Some off \<Rightarrow>
          (let as = as_off2info st off;
               a = (ucast addr :: u64);
               s = as_start as;
               e = as_end as;
               e = (if fin > e then fin else e);
               s = (if a < s then a else s)
           in if a = s \<and> fin = e then Some (Inl SysramWholeEntry)
              else if a = s
              then sysram_loop addr fin (Some off) (st\<lparr>st_as := (st_as st)[off := as\<lparr>as_start := fin + 1\<rparr>]\<rparr>)
              else
                (let as = as\<lparr>as_end := ucast (addr - 1)\<rparr>;
                     st = st\<lparr>st_as := (st_as st)[off := as]\<rparr>
                 in if e \<noteq> fin
                    then (case as_add (ucast (fin + 1)) (ucast e) (AS_ATTR_RAM (st_abi st)) (cs ''sysram'') (as_owner as) st of
                            Inl c \<Rightarrow> Some (Inl c)
                          | Inr (_, st) \<Rightarrow> sysram_loop addr fin (Some off) st)
                    else sysram_loop addr fin (Some off) st)))"

definition alloc_ram :: "u32 \<Rightarrow> u32 \<Rightarrow> u32 \<Rightarrow> ram_state \<Rightarrow> (u32 \<times> ram_state) res" where
  "alloc_ram addr sz align rs =
     (let addr = (if addr = NULL_PADDR then find_ram sz align 0 0 rs else addr)
      in if addr = NULL_PADDR then Inr (NULL_PADDR, rs)
         else
           (let fin = ucast (addr + sz) :: u64
            in case alloc_loop addr fin 0 (ram_list rs) of
                 None \<Rightarrow> Inl AllocDiverges
               | Some r \<Rightarrow> rbind r (\<lambda>ram.
                   let rs = rs\<lparr>ram_list := ram\<rparr>
                   in if sysram_added rs
                      then (case sysram_loop addr (fin - 1) None (rs_st rs) of
                              None \<Rightarrow> Inl AllocDiverges
                            | Some r \<Rightarrow> rbind r (\<lambda>st. Inr (addr, rs\<lparr>rs_st := st\<rparr>)))
                      else Inr (addr, rs))))"

definition calloc_ram :: "u32 \<Rightarrow> u32 \<Rightarrow> ram_state \<Rightarrow> (u32 \<times> ram_state) res" where
  "calloc_ram sz align rs =
     rbind (alloc_ram NULL_PADDR sz align rs) (\<lambda>(a, rs).
       if a \<noteq> NULL_PADDR
       then (let l = st_lsp (rs_st rs);
                 l = l\<lparr>lsp_mem := mem_zero (lsp_mem l) (unat a) (unat sz)\<rparr>
             in Inr (a, rs\<lparr>rs_st := (rs_st rs)\<lparr>st_lsp := l\<rparr>\<rparr>))
       else Inr (a, rs))"

section \<open>Avoiding memory and early work space\<close>

definition avoid_push :: "u32 \<Rightarrow> u32 \<Rightarrow> ram_state \<Rightarrow> ram_state" where
  "avoid_push start sz rs =
     rs\<lparr>avoid_list := Some ((case avoid_list rs of None \<Rightarrow> [] | Some a \<Rightarrow> a) @ [\<lparr>av_start = start, av_end = start + sz\<rparr>])\<rparr>"

definition ws_early :: "u32 \<Rightarrow> ram_state \<Rightarrow> u32 \<times> ram_state" where
  "ws_early sz rs =
     (let paddr = ws_early_next rs
      in (paddr, avoid_push paddr sz (rs\<lparr>ws_early_next := ws_early_next rs + sz\<rparr>)))"

text \<open>
  \<open>ws_init\<close>: its calls of \<open>ws_alloc\<close> and \<open>avoid_ram\<close> find \<open>avoid_list\<close> set and no memory added,
  so they are the early allocation and the plain push.
\<close>

definition ws_init :: "ram_state \<Rightarrow> ram_state" where
  "ws_init rs =
     (let h = rs_shdr rs;
          next0 = ROUND (ram_paddr h + ram_size h) 8;
          next1 = next0 + ROUND MAX_AVOID_LIST_SIZE 8;
          rs = rs\<lparr>ws_early_next := next1, avoid_list := Some [\<lparr>av_start = next0, av_end = next1\<rparr>]\<rparr>;
          (_, rs) = ws_early (ROUND (of_nat MAX_RAM_LIST_SIZE) 8) rs;
          rs = rs\<lparr>ram_list := []\<rparr>
      in avoid_push (ram_paddr h) (startup_size h) rs)"

definition avoid_ram :: "u32 \<Rightarrow> u32 \<Rightarrow> ram_state \<Rightarrow> ram_state" where
  "avoid_ram start sz rs =
     (let rs = (if avoid_list rs = None then ws_init rs else rs)
      in avoid_push start sz rs)"

definition ws_alloc :: "u32 \<Rightarrow> ram_state \<Rightarrow> u32 option \<times> ram_state" where
  "ws_alloc sz rs =
     (let rs = (if avoid_list rs = None then ws_init rs else rs);
          sz = ROUND sz 8
      in if ram_list_size (ram_list rs) \<le> 16
         then (let (paddr, rs) = ws_early sz rs in (Some paddr, rs))
         else (let paddr = find_ram sz 8 0 0 rs
               in if paddr = NULL_PADDR then (None, rs) else (Some paddr, avoid_ram paddr sz rs)))"

definition watch_add_ram :: "nat \<Rightarrow> ram_state \<Rightarrow> ram_state res" where
  "watch_add_ram func rs =
     (case ws_alloc 8 rs of
        (None, _) \<Rightarrow> Inl NoWatcher
      | (Some _, rs) \<Rightarrow> Inr (rs\<lparr>watch_list := func # watch_list rs\<rparr>))"

section \<open>The callers\<close>

definition as_default :: "sst \<Rightarrow> (nat \<times> sst) res" where
  "as_default st = as_add 0 0xffffffff (AS_ATTR_NONE (st_abi st)) (cs ''memory'') None st"

text \<open>\<open>init_asinfo\<close> of this board is empty.\<close>

definition add_ram :: "u32 \<Rightarrow> u32 \<Rightarrow> ram_state \<Rightarrow> ram_state res" where
  "add_ram start sz rs =
     rbind (if s_size (st_lsp (rs_st rs)) S_asinfo = 0
            then rbind (as_default (rs_st rs)) (\<lambda>(mem, st).
                 rbind (as_add 0 0xffffffff 0 (cs ''below4G'') (Some mem) st) (\<lambda>(_, st). Inr st))
            else Inr (rs_st rs)) (\<lambda>st.
     rbind (as_add_containing start (start + sz - 1) (AS_ATTR_RAM (st_abi st)) (cs ''ram'') (cs ''memory'') st) (\<lambda>(_, st).
     rbind (add_mem start sz (ram_list rs)) (\<lambda>ram.
     let rs = rs\<lparr>rs_st := st, ram_list := ram\<rparr>;
         h = rs_shdr rs
     in rbind (alloc_ram (ram_paddr h + startup_size h) (ram_size h - startup_size h) 1 rs) (\<lambda>(_, rs).
        let rs =
          (if temp_syspage rs = NULL_PADDR
           then (let t = find_ram TEMP_SYSPAGE_SIZE 4096 0 0 rs;
                     rs = rs\<lparr>temp_syspage := t\<rparr>
                 in if t \<noteq> NULL_PADDR
                    then (let rs = avoid_ram t TEMP_SYSPAGE_SIZE rs;
                              l = reloc_syspage_memory (unat t) (unat TEMP_SYSPAGE_SIZE) (st_lsp (rs_st rs))
                          in rs\<lparr>rs_st := (rs_st rs)\<lparr>st_lsp := l\<rparr>\<rparr>)
                    else rs)
           else rs)
        in Inr (rs\<lparr>watch_calls := watch_calls rs @ map (\<lambda>w. (w, start, sz)) (watch_list rs)\<rparr>)))))"

fun add_sysram_loop :: "ram_entry list \<Rightarrow> sst \<Rightarrow> sst res" where
  "add_sysram_loop [] st = Inr st"
| "add_sysram_loop (r # ram) st =
     (if re_size r = 0 then Inr st
      else rbind (as_add_containing (ucast (re_addr r)) (ucast (re_addr r + re_size r - 1)) (AS_ATTR_RAM (st_abi st))
                    (cs ''sysram'') (cs ''ram'') st) (\<lambda>(_, st). add_sysram_loop ram st))"

definition add_sysram :: "ram_state \<Rightarrow> ram_state res" where
  "add_sysram rs =
     rbind (add_sysram_loop (ram_list rs) (rs_st rs)) (\<lambda>st.
       Inr (rs\<lparr>watch_calls := watch_calls rs @ map (\<lambda>w. (w, 0, 0)) (watch_list rs), rs_st := st, sysram_added := True\<rparr>))"

definition reserve_ram :: "u32 \<Rightarrow> u32 \<Rightarrow> u32 \<Rightarrow> ram_state \<Rightarrow> ram_state res" where
  "reserve_ram sz align pagesize rs =
     (if sz = 0 then Inr rs
      else
        (let align = (if align \<noteq> 0 then align else pagesize);
             reserved = find_top_ram_aligned sz align pagesize rs
         in if reserved = NULL_PADDR then Inl NoReserve
            else rbind (alloc_ram reserved sz align rs) (\<lambda>(_, rs).
                 rbind (as_add_containing reserved (reserved + sz - 1) (AS_ATTR_RAM (st_abi (rs_st rs)))
                          (cs ''reserved'') (cs ''ram'') (rs_st rs)) (\<lambda>(_, st).
                 Inr (rs\<lparr>rs_st := st\<rparr>)))))"

section \<open>The free list as a set of addresses\<close>

abbreviation lo :: "ram_entry \<Rightarrow> nat" where "lo r \<equiv> unat (re_addr r)"
abbreviation hi :: "ram_entry \<Rightarrow> nat" where "hi r \<equiv> unat (re_addr r) + unat (re_size r)"

definition covers :: "ram_entry list \<Rightarrow> nat set" where
  "covers ram = (\<Union>r \<in> set ram. {lo r..<hi r})"

definition block_ok :: "ram_entry \<Rightarrow> bool" where
  "block_ok r \<longleftrightarrow> re_size r \<noteq> 0 \<and> hi r \<le> 2 ^ 32"

text \<open>Blocks are in order, and between two blocks there is a gap.\<close>

definition ram_ok :: "ram_entry list \<Rightarrow> bool" where
  "ram_ok ram \<longleftrightarrow> sorted_wrt (\<lambda>a b. hi a < lo b) ram \<and> (\<forall>r \<in> set ram. block_ok r)"

lemma covers_simps [simp]:
  "covers [] = {}" "covers (r # ram) = {lo r..<hi r} \<union> covers ram" "covers (a @ b) = covers a \<union> covers b"
  by (simp_all add: covers_def)

lemma ram_ok_Cons: "ram_ok (r # ram) \<longleftrightarrow> block_ok r \<and> (\<forall>b \<in> set ram. hi r < lo b) \<and> ram_ok ram"
  by (auto simp: ram_ok_def)

lemma ram_ok_append: "ram_ok (a @ b) \<longleftrightarrow> ram_ok a \<and> ram_ok b \<and> (\<forall>x \<in> set a. \<forall>y \<in> set b. hi x < lo y)"
  by (auto simp: ram_ok_def sorted_wrt_append)

lemma block_okD:
  assumes "block_ok r"
  shows "unat (re_addr r + re_size r) = hi r" "0 < unat (re_size r)" "lo r < hi r" "hi r \<le> 4294967296"
  using assms by (auto simp: block_ok_def unat_add_no_wrap unat_gt_0)

lemma merge_ram_id:
  "ram_ok ram \<Longrightarrow> merge_ram ram = ram"
proof (induction ram rule: merge_ram.induct)
  case (1 p r rest)
  then have "block_ok p" "block_ok r" "hi p < lo r" "ram_ok (r # rest)"
    by (simp_all add: ram_ok_Cons)
  then have "\<not> re_addr r \<le> re_addr p + re_size p" "re_size r \<noteq> 0"
    using block_okD(1) [of p] by (simp_all add: word_le_nat_alt block_ok_def)
  with 1 \<open>ram_ok (r # rest)\<close> show ?case by simp
qed simp_all

lemma merge_ram_spec:
  assumes "sorted_wrt (\<lambda>a b. lo a \<le> lo b) (p # ram)" "\<forall>r \<in> set (p # ram). block_ok r"
  shows "ram_ok (merge_ram (p # ram)) \<and> covers (merge_ram (p # ram)) = covers (p # ram) \<and>
    (\<forall>r \<in> set (merge_ram (p # ram)). lo p \<le> lo r) \<and> length (merge_ram (p # ram)) \<le> length (p # ram)"
  using assms
proof (induction ram arbitrary: p)
  case Nil
  then show ?case by (simp add: ram_ok_def)
next
  case (Cons r rest)
  have pk: "block_ok p" and rk: "block_ok r" and le: "lo p \<le> lo r" using Cons.prems by auto
  note p = block_okD [OF pk] and r = block_okD [OF rk]
  have nz: "re_size r \<noteq> 0" using rk by (simp add: block_ok_def)
  show ?case
  proof (cases "re_addr r \<le> re_addr p + re_size p")
    case True
    define e where "e = (if re_addr r + re_size r > re_addr p + re_size p then re_addr r + re_size r else re_addr p + re_size p)"
    define p' where "p' = p\<lparr>re_size := e - re_addr p\<rparr>"
    have e: "unat e = max (hi r) (hi p)" using p(1) r(1) by (auto simp: e_def word_less_nat_alt)
    have "unat (e - re_addr p) = unat e - lo p" using e by (intro unat_sub) (simp add: word_le_nat_alt)
    then have hi': "hi p' = max (hi r) (hi p)" "lo p' = lo p" using e by (simp_all add: p'_def)
    have pk': "block_ok p'"
    proof -
      have "unat (re_size p') \<noteq> 0" using hi' p(3) by simp
      then show ?thesis using hi' p(4) r(4) by (auto simp: block_ok_def unat_eq_0)
    qed
    have m: "merge_ram (p # r # rest) = merge_ram (p' # rest)"
      using True nz by (simp add: e_def p'_def Let_def)
    have "ram_ok (merge_ram (p' # rest)) \<and> covers (merge_ram (p' # rest)) = covers (p' # rest) \<and>
        (\<forall>x \<in> set (merge_ram (p' # rest)). lo p' \<le> lo x) \<and> length (merge_ram (p' # rest)) \<le> length (p' # rest)"
      using Cons.prems pk' hi' by (intro Cons.IH) auto
    moreover have "{lo p'..<hi p'} = {lo p..<hi p} \<union> {lo r..<hi r}"
      using hi' le True p(1,3) r(3) by (auto simp: word_le_nat_alt)
    ultimately show ?thesis unfolding m using hi' by (auto simp: Un_assoc)
  next
    case False
    then have gap: "hi p < lo r" using p(1) by (simp add: word_le_nat_alt)
    have m: "merge_ram (p # r # rest) = p # merge_ram (r # rest)"
      using False nz by simp
    have IH: "ram_ok (merge_ram (r # rest))" "covers (merge_ram (r # rest)) = covers (r # rest)"
        "\<And>x. x \<in> set (merge_ram (r # rest)) \<Longrightarrow> lo r \<le> lo x" "length (merge_ram (r # rest)) \<le> length (r # rest)"
      using Cons.IH [of r] Cons.prems by auto
    have "hi p < lo x" if "x \<in> set (merge_ram (r # rest))" for x
      using gap IH(3) [OF that] by linarith
    then show ?thesis unfolding m using IH pk le by (auto simp: ram_ok_Cons intro: order_trans)
  qed
qed

lemma ram_before:
  fixes start :: u32
  assumes "ram_ok ram"
  defines "before \<equiv> takeWhile (\<lambda>r. re_size r \<noteq> 0 \<and> \<not> re_addr r > ucast (start :: u32)) ram"
  shows "\<And>r. r \<in> set before \<Longrightarrow> lo r \<le> unat start"
    "\<And>r. r \<in> set (drop (length before) ram) \<Longrightarrow> unat start < lo r"
proof -
  show "r \<in> set before \<Longrightarrow> lo r \<le> unat start" for r
    by (auto simp: before_def word_less_nat_alt unat_ucast64 dest!: set_takeWhileD)
  fix r
  assume r: "r \<in> set (drop (length before) ram)"
  have d: "drop (length before) ram = dropWhile (\<lambda>r. re_size r \<noteq> 0 \<and> \<not> re_addr r > ucast start) ram"
    unfolding before_def by (rule dropWhile_eq_drop [symmetric])
  define D where "D = dropWhile (\<lambda>r. re_size r \<noteq> 0 \<and> \<not> re_addr r > ucast start) ram"
  have rD: "r \<in> set D" using r by (simp add: d D_def)
  then have "D \<noteq> []" by auto
  then have "\<not> (re_size (hd D) \<noteq> 0 \<and> \<not> re_addr (hd D) > ucast start)"
    unfolding D_def by (rule hd_dropWhile)
  moreover have hD: "hd D \<in> set ram" using \<open>D \<noteq> []\<close> unfolding D_def by (meson hd_in_set set_dropWhileD)
  ultimately have "unat start < lo (hd D)"
    using assms(1) by (auto simp: ram_ok_def block_ok_def word_less_nat_alt unat_ucast64)
  moreover have "ram_ok D"
  proof -
    have "ram_ok (takeWhile (\<lambda>r. re_size r \<noteq> 0 \<and> \<not> re_addr r > ucast start) ram @ D)"
      unfolding D_def takeWhile_dropWhile_id by (rule assms(1))
    then show ?thesis by (simp only: ram_ok_append)
  qed
  then have "r = hd D \<or> hi (hd D) < lo r" using rD by (cases D) (auto simp: ram_ok_Cons)
  ultimately show "unat start < lo r" by auto
qed

lemma add_mem_spec:
  assumes ok: "ram_ok ram" and sz: "sz \<noteq> 0" "unat start + unat sz \<le> 2 ^ 32" and len: "length ram < 191"
  shows "\<exists>ram'. add_mem start sz ram = Inr ram' \<and> ram_ok ram' \<and>
    covers ram' = covers ram \<union> {unat start..<unat start + unat sz} \<and> length ram' \<le> Suc (length ram)"
proof -
  define before where "before = takeWhile (\<lambda>r. re_size r \<noteq> 0 \<and> \<not> re_addr r > ucast start) ram"
  define after where "after = drop (length before) ram"
  define new where "new = \<lparr>re_addr = ucast start, re_size = ucast sz\<rparr>"
  have b: "\<And>r. r \<in> set before \<Longrightarrow> lo r \<le> unat start" and a: "\<And>r. r \<in> set after \<Longrightarrow> unat start < lo r"
    using ram_before [OF ok, where start = start] by (auto simp: before_def after_def)
  have ram: "ram = before @ after"
    unfolding after_def before_def by (metis takeWhile_dropWhile_id dropWhile_eq_drop)
  have nb: "lo new = unat start" "unat (re_size new) = unat sz" by (simp_all add: new_def unat_ucast64)
  have nk: "block_ok new"
    using sz nb by (auto simp: block_ok_def simp flip: unat_eq_0)
  have srt: "sorted_wrt (\<lambda>a b. lo a \<le> lo b) (before @ new # after)"
  proof -
    have s: "sorted_wrt (\<lambda>a b. lo a \<le> lo b) ram"
      using ok unfolding ram_ok_def by (auto elim!: sorted_wrt_mono_rel [rotated])
    then show ?thesis using a b nb unfolding ram by (auto simp: sorted_wrt_append less_imp_le)
  qed
  have add: "add_mem start sz ram = Inr (merge_ram (before @ new # after))"
    using sz(1) len by (simp add: add_mem_def before_def after_def new_def ram_list_size_def word_neq_0_conv Let_def)
  obtain p rest where pr: "before @ new # after = p # rest" by (cases "before @ new # after") auto
  have bk: "\<forall>r \<in> set (p # rest). block_ok r"
    using ok nk unfolding pr [symmetric] ram by (auto simp: ram_ok_def)
  have "length (p # rest) = Suc (length ram)" unfolding pr [symmetric] ram by simp
  moreover have "covers (p # rest) = covers ram \<union> {unat start..<unat start + unat sz}"
    unfolding pr [symmetric] ram using nb by auto
  ultimately show ?thesis
    using merge_ram_spec [OF srt [unfolded pr] bk] unfolding add pr by auto
qed

text \<open>A block that touches none of the others is inserted at its place.\<close>

lemma add_mem_gap:
  assumes ok: "ram_ok (pre @ post)" and sz: "sz \<noteq> 0" "unat start + unat sz \<le> 2 ^ 32" and len: "length (pre @ post) < 191"
    and gap: "\<And>r. r \<in> set pre \<Longrightarrow> hi r < unat start" "\<And>r. r \<in> set post \<Longrightarrow> unat start + unat sz < lo r"
  defines "new \<equiv> \<lparr>re_addr = ucast start, re_size = ucast sz\<rparr>"
  shows "add_mem start sz (pre @ post) = Inr (pre @ new # post)" "ram_ok (pre @ new # post)"
proof -
  have nb: "lo new = unat start" "unat (re_size new) = unat sz" by (simp_all add: new_def unat_ucast64)
  have nk: "block_ok new" using sz nb by (auto simp: block_ok_def simp flip: unat_eq_0)
  show ok': "ram_ok (pre @ new # post)"
    using ok nk gap nb by (simp add: ram_ok_append ram_ok_Cons)
  have pre: "re_size r \<noteq> 0 \<and> \<not> ucast start < re_addr r" if "r \<in> set pre" for r
  proof -
    have "block_ok r" using ok that by (simp add: ram_ok_def)
    then show ?thesis using gap(1) [OF that] by (simp add: block_ok_def word_less_nat_alt unat_ucast64)
  qed
  have post: "ucast start < re_addr r" if "r \<in> set post" for r
    using gap(2) [OF that] by (simp add: word_less_nat_alt unat_ucast64)
  have tw: "takeWhile (\<lambda>r. re_size r \<noteq> 0 \<and> \<not> re_addr r > ucast start) (pre @ post) = pre"
  proof -
    have "takeWhile (\<lambda>r. re_size r \<noteq> 0 \<and> \<not> re_addr r > ucast start) post = []"
      using post by (cases post) auto
    then show ?thesis using pre by (subst takeWhile_append2) auto
  qed
  show "add_mem start sz (pre @ post) = Inr (pre @ new # post)"
    unfolding add_mem_def tw using sz(1) len merge_ram_id [OF ok']
    by (simp add: ram_list_size_def word_neq_0_conv Let_def new_def)
qed

text \<open>What is left of a block when \<open>[a, f)\<close> is taken out of it.\<close>

definition cut_block :: "nat \<Rightarrow> nat \<Rightarrow> ram_entry \<Rightarrow> ram_entry list" where
  "cut_block a f r =
     (if hi r \<le> a \<or> f \<le> lo r then [r]
      else (if lo r < a then [r\<lparr>re_size := of_nat (a - lo r)\<rparr>] else []) @
           (if f < hi r then [\<lparr>re_addr = of_nat f, re_size = of_nat (hi r - f)\<rparr>] else []))"

lemma unat_of_nat64: "n \<le> 2 ^ 33 \<Longrightarrow> unat (of_nat n :: u64) = n"
  by (simp add: unsigned_of_nat take_bit_nat_eq_self)

lemma cut_spec:
  assumes "block_ok r" "a < f" "f \<le> 2 ^ 32"
  shows "covers (cut_block a f r) = {lo r..<hi r} - {a..<f}" "ram_ok (cut_block a f r)"
    "\<And>x. x \<in> set (cut_block a f r) \<Longrightarrow> lo r \<le> lo x \<and> hi x \<le> hi r"
proof -
  note r = block_okD [OF assms(1)]
  have u: "unat (of_nat (a - lo r) :: u64) = a - lo r" "unat (of_nat (hi r - f) :: u64) = hi r - f"
    "unat (of_nat f :: u64) = f" if "a < hi r"
    using r(4) assms(3) that by (simp_all add: unat_of_nat64)
  show "covers (cut_block a f r) = {lo r..<hi r} - {a..<f}"
    using u assms(2) r(3) by (auto simp: cut_block_def)
  show "ram_ok (cut_block a f r)"
    using u assms r(3,4) by (auto simp: cut_block_def ram_ok_def block_ok_def simp flip: unat_eq_0)
  show "\<And>x. x \<in> set (cut_block a f r) \<Longrightarrow> lo r \<le> lo x \<and> hi x \<le> hi r"
    using u assms(2) r(3) by (auto simp: cut_block_def split: if_splits)
qed

lemma cut_all_spec:
  assumes "ram_ok ram" "a < f" "f \<le> 2 ^ 32"
  shows "ram_ok (concat (map (cut_block a f) ram)) \<and> covers (concat (map (cut_block a f) ram)) = covers ram - {a..<f} \<and>
    (\<forall>x \<in> set (concat (map (cut_block a f) ram)). \<exists>r \<in> set ram. lo r \<le> lo x \<and> hi x \<le> hi r)"
  using assms(1)
proof (induction ram)
  case (Cons r ram)
  have rk: "block_ok r" "ram_ok ram" "\<And>b. b \<in> set ram \<Longrightarrow> hi r < lo b" using Cons.prems by (simp_all add: ram_ok_Cons)
  note c = cut_spec [OF rk(1) assms(2,3)] and IH = Cons.IH [OF rk(2)]
  have "hi x < lo y" if "x \<in> set (cut_block a f r)" "y \<in> set (concat (map (cut_block a f) ram))" for x y
  proof -
    obtain b where "b \<in> set ram" "lo b \<le> lo y" using IH \<open>y \<in> _\<close> by blast
    then show ?thesis using c(3) [OF that(1)] rk(3) [of b] by linarith
  qed
  then have "ram_ok (concat (map (cut_block a f) (r # ram)))"
    using c(2) IH by (simp add: ram_ok_append)
  then show ?case using c(1,3) IH by auto
qed (simp add: ram_ok_def)

lemma nth_length_append [simp]: "(pre @ r # post) ! length pre = r"
  by (simp add: nth_append)

lemma word_of_unat: "unat x = n \<Longrightarrow> x = of_nat n"
  by auto

lemma alloc_step:
  fixes addr :: u32 and fin :: u64
  defines "a \<equiv> unat addr" and "f \<equiv> unat fin"
  assumes i: "i < length ram" "ram ! i = r" and rk: "block_ok r"
  shows "alloc_loop addr fin i ram =
    (if (a \<le> lo r \<and> lo r < f) \<or> (lo r \<le> a \<and> a < hi r) \<or> (lo r \<le> f \<and> f < hi r) then
       (if a \<le> lo r \<and> hi r \<le> f then alloc_loop addr fin i (take i ram @ drop (Suc i) ram)
        else if a \<le> lo r
        then alloc_loop addr fin (Suc i) (ram[i := \<lparr>re_addr = fin, re_size = of_nat (hi r - f)\<rparr>])
        else if f < hi r
        then (case add_mem (ucast fin) (ucast (of_nat (hi r - f) :: u64)) (ram[i := r\<lparr>re_size := of_nat (a - lo r)\<rparr>]) of
                Inl c \<Rightarrow> Some (Inl c) | Inr ram' \<Rightarrow> alloc_loop addr fin (Suc i) ram')
        else alloc_loop addr fin (Suc i) (ram[i := r\<lparr>re_size := of_nat (a - lo r)\<rparr>]))
     else alloc_loop addr fin (Suc i) ram)"
proof -
  note r = block_okD [OF rk]
  let ?a = "ucast addr :: u64" and ?e = "re_addr r + re_size r"
  have nz: "re_size r \<noteq> 0" using rk by (simp add: block_ok_def)
  have w: "(?a \<le> re_addr r) = (a \<le> lo r)" "(re_addr r < fin) = (lo r < f)" "(re_addr r \<le> ?a) = (lo r \<le> a)"
    "(?a < ?e) = (a < hi r)" "(re_addr r \<le> fin) = (lo r \<le> f)" "(fin < ?e) = (f < hi r)"
    "(?e < fin) = (hi r < f)" "(?a < re_addr r) = (a < lo r)"
    using r(1) by (simp_all add: word_le_nat_alt word_less_nat_alt unat_ucast64 a_def f_def)
  have s: "(?a = (if a < lo r then ?a else re_addr r)) = (a \<le> lo r)"
    by (auto simp: word_unat_eq_iff unat_ucast64 a_def)
  have e: "(fin = (if hi r < f then fin else ?e)) = (hi r \<le> f)"
    using r(1) by (auto simp: word_unat_eq_iff f_def)
  have d: "?e - fin = of_nat (hi r - f)" if "f \<le> hi r"
  proof -
    have "unat (?e - fin) = hi r - f" using that r(1) by (subst unat_sub) (simp_all add: word_le_nat_alt f_def)
    then show ?thesis by (rule word_of_unat)
  qed
  have d2: "?a - re_addr r = of_nat (a - lo r)" if "lo r \<le> a"
  proof -
    have "unat (?a - re_addr r) = a - lo r"
      using that by (subst unat_sub) (simp_all add: word_le_nat_alt unat_ucast64 a_def)
    then show ?thesis by (rule word_of_unat)
  qed
  show ?thesis
  proof (cases "(a \<le> lo r \<and> lo r < f) \<or> (lo r \<le> a \<and> a < hi r) \<or> (lo r \<le> f \<and> f < hi r)")
    case False
    then show ?thesis using i nz by (subst alloc_loop.simps) (simp only: Let_def w, simp)
  next
    case True
    have D: "alloc_loop addr fin i ram =
      (if a \<le> lo r \<and> hi r \<le> f then alloc_loop addr fin i (take i ram @ drop (Suc i) ram)
       else if a \<le> lo r
       then alloc_loop addr fin (Suc i) (ram[i := \<lparr>re_addr = fin, re_size = (if hi r < f then fin else ?e) - fin\<rparr>])
       else if \<not> hi r \<le> f
       then (case add_mem (ucast fin) (ucast ((if hi r < f then fin else ?e) - fin)) (ram[i := r\<lparr>re_size := ?a - (if a < lo r then ?a else re_addr r)\<rparr>]) of
               Inl c \<Rightarrow> Some (Inl c) | Inr ram' \<Rightarrow> alloc_loop addr fin (Suc i) ram')
       else alloc_loop addr fin (Suc i) (ram[i := r\<lparr>re_size := ?a - (if a < lo r then ?a else re_addr r)\<rparr>]))"
      using i nz True e [symmetric] s
      by (subst alloc_loop.simps) (simp only: Let_def w i(2) not_le if_False if_True simp_thms nz, auto)
    have c: "\<not> hi r \<le> f \<Longrightarrow> (if hi r < f then fin else ?e) - fin = of_nat (hi r - f)"
      "\<not> a \<le> lo r \<Longrightarrow> ?a - (if a < lo r then ?a else re_addr r) = of_nat (a - lo r)"
      using d d2 by simp_all
    show ?thesis
      unfolding if_P [OF True] unfolding D
    proof (rule if_cong [OF refl refl], rule if_cong [OF refl], goal_cases)
      case 1
      then show ?case using c(1) by simp
    next
      case 2
      then show ?case unfolding not_le [symmetric] using c by simp
    qed
  qed
qed

text \<open>The block that begins where the allocation ends is rewritten to itself.\<close>

lemma alloc_noop:
  assumes hk: "block_ok h" and h: "lo h = unat fin" and a: "unat addr < unat fin"
  shows "alloc_loop addr fin (length pre) (pre @ h # post) = alloc_loop addr fin (Suc (length pre)) (pre @ h # post)"
proof -
  have i: "length pre < length (pre @ h # post)" by simp
  have s: "\<lparr>re_addr = fin, re_size = of_nat (hi h - unat fin)\<rparr> = h" using h by (simp add: word_unat_eq_iff)
  show ?thesis
    using alloc_step [OF i nth_length_append hk, of addr fin] block_okD(3) [OF hk] a
    unfolding list_update_length s by (simp add: h)
qed

lemma alloc_loop_spec:
  fixes addr :: u32 and fin :: u64
  defines "a \<equiv> unat addr" and "f \<equiv> unat fin"
  assumes af: "a < f" "f < 2 ^ 32"
    and ok: "ram_ok (pre @ post)" and len: "(\<exists>r \<in> set post. lo r < a \<and> f < hi r) \<longrightarrow> length (pre @ post) < 191"
  shows "alloc_loop addr fin (length pre) (pre @ post) = Some (Inr (pre @ concat (map (cut_block a f) post)))"
  using ok len
proof (induction post arbitrary: pre)
  case Nil
  then show ?case by (subst alloc_loop.simps) simp
next
  case (Cons r post)
  have rk: "block_ok r" and pk: "ram_ok pre" "ram_ok post"
    and pr: "\<And>x. x \<in> set pre \<Longrightarrow> hi x < lo r" and rp: "\<And>y. y \<in> set post \<Longrightarrow> hi r < lo y"
    and pp: "\<And>x y. x \<in> set pre \<Longrightarrow> y \<in> set post \<Longrightarrow> hi x < lo y"
    using Cons.prems(1) by (simp_all add: ram_ok_append ram_ok_Cons)
  note r = block_okD [OF rk] and c = cut_spec [OF rk af(1) less_imp_le [OF af(2)]]
  have step: "alloc_loop addr fin (length pre) (pre @ r # post) =
    (if (a \<le> lo r \<and> lo r < f) \<or> (lo r \<le> a \<and> a < hi r) \<or> (lo r \<le> f \<and> f < hi r) then
       (if a \<le> lo r \<and> hi r \<le> f then alloc_loop addr fin (length pre) (pre @ post)
        else if a \<le> lo r
        then alloc_loop addr fin (Suc (length pre)) (pre @ \<lparr>re_addr = fin, re_size = of_nat (hi r - f)\<rparr> # post)
        else if f < hi r
        then (case add_mem (ucast fin) (ucast (of_nat (hi r - f) :: u64)) (pre @ r\<lparr>re_size := of_nat (a - lo r)\<rparr> # post) of
                Inl c \<Rightarrow> Some (Inl c) | Inr ram' \<Rightarrow> alloc_loop addr fin (Suc (length pre)) ram')
        else alloc_loop addr fin (Suc (length pre)) (pre @ r\<lparr>re_size := of_nat (a - lo r)\<rparr> # post))
     else alloc_loop addr fin (Suc (length pre)) (pre @ r # post))"
  proof -
    have i: "length pre < length (pre @ r # post)" by simp
    have t: "take (length pre) (pre @ r # post) @ drop (Suc (length pre)) (pre @ r # post) = pre @ post" by simp
    show ?thesis
      using alloc_step [OF i nth_length_append rk, of addr fin] unfolding t list_update_length a_def f_def .
  qed
  have go: "alloc_loop addr fin (length (pre @ xs)) ((pre @ xs) @ post) = Some (Inr ((pre @ xs) @ concat (map (cut_block a f) post)))"
    if xs: "xs = cut_block a f r" and l: "length xs \<le> 1 \<or> (lo r < a \<and> f < hi r)" for xs
  proof (rule Cons.IH)
    have "hi x < lo y" if "x \<in> set pre" "y \<in> set xs" for x y
      using pr [OF that(1)] c(3) [of y] that(2) xs by force
    moreover have "hi x < lo y" if "x \<in> set xs" "y \<in> set post" for x y
      using rp [OF that(2)] c(3) [of x] that(1) xs by force
    ultimately show "ram_ok ((pre @ xs) @ post)"
      using pk pp c(2) xs by (auto simp: ram_ok_append)
    show "(\<exists>r \<in> set post. lo r < a \<and> f < hi r) \<longrightarrow> length ((pre @ xs) @ post) < 191"
    proof
      assume ex: "\<exists>r \<in> set post. lo r < a \<and> f < hi r"
      then have "\<not> (lo r < a \<and> f < hi r)" using rp af(1) by fastforce
      then show "length ((pre @ xs) @ post) < 191" using l ex Cons.prems(2) by auto
    qed
  qed
  have fin: "fin = of_nat f" by (simp add: f_def)
  consider (before) "hi r \<le> a" | (after) "hi r > a" "f \<le> lo r" | (all) "a \<le> lo r" "hi r \<le> f" "lo r < f"
    | (front) "a \<le> lo r" "f < hi r" "lo r < f" | (rear) "lo r < a" "a < hi r" "hi r \<le> f" | (mid) "lo r < a" "a < hi r" "f < hi r"
    by (cases "hi r \<le> a"; cases "f \<le> lo r"; cases "a \<le> lo r"; cases "hi r \<le> f") (simp_all only: not_le)
  then show ?case
  proof cases
    case before
    then have ct: "cut_block a f r = [r]" by (simp add: cut_block_def)
    show ?thesis using step go [of "[r]"] before af(1) r(3) by (simp add: ct)
  next
    case after
    have "f = lo r \<Longrightarrow> \<lparr>re_addr = fin, re_size = of_nat (hi r - f)\<rparr> = r"
      using fin by simp
    moreover have ct: "cut_block a f r = [r]" using after by (simp add: cut_block_def)
    ultimately show ?thesis using step go [of "[r]"] after af(1) r(3) by (cases "f = lo r") (simp_all add: ct)
  next
    case all
    then have ct: "cut_block a f r = []" using r(3) by (simp add: cut_block_def)
    show ?thesis using step go [of "[]"] all by (simp add: ct)
  next
    case front
    then have ct: "cut_block a f r = [\<lparr>re_addr = fin, re_size = of_nat (hi r - f)\<rparr>]"
      using af(1) by (simp add: cut_block_def fin)
    show ?thesis
      using step go [of "[\<lparr>re_addr = fin, re_size = of_nat (hi r - f)\<rparr>]"] front by (simp add: ct)
  next
    case rear
    then have ct: "cut_block a f r = [r\<lparr>re_size := of_nat (a - lo r)\<rparr>]"
      using af(1) by (simp add: cut_block_def)
    show ?thesis
      using step go [of "[r\<lparr>re_size := of_nat (a - lo r)\<rparr>]"] rear af(1) by (simp add: ct)
  next
    case mid
    let ?l = "r\<lparr>re_size := of_nat (a - lo r)\<rparr>" and ?h = "\<lparr>re_addr = fin, re_size = of_nat (hi r - f)\<rparr>"
    have ct: "cut_block a f r = [?l, ?h]" using mid af(1) by (simp add: cut_block_def fin)
    have uh: "unat (of_nat (hi r - f) :: u64) = hi r - f" using r(4) by (intro unat_of_nat64) simp
    have us: "unat (ucast (of_nat (hi r - f) :: u64) :: u32) = hi r - f"
      using uh r(4) af(1) mid by (subst unat_ucast32) simp_all
    have uf: "unat (ucast fin :: u32) = f" using af(2) by (subst unat_ucast32) (simp_all add: f_def)
    have hl: "hi ?l = a"
    proof -
      have "unat (of_nat (a - lo r) :: u64) = a - lo r" using mid(2) r(4) by (intro unat_of_nat64) simp
      then have "hi ?l = lo r + (a - lo r)" by (simp del: of_nat_diff)
      then show ?thesis using mid(1) by linarith
    qed
    have ay: "a < lo y" if "y \<in> set post" for y using rp [OF that] mid(2) by linarith
    have ok1: "ram_ok ((pre @ [?l]) @ post)"
      using Cons.prems(1) c(2) hl mid pr rp ay by (auto simp: ram_ok_append ram_ok_Cons ct)
    have add: "add_mem (ucast fin) (ucast (of_nat (hi r - f) :: u64)) ((pre @ [?l]) @ post) =
        Inr ((pre @ [?l]) @ \<lparr>re_addr = ucast (ucast fin :: u32), re_size = ucast (ucast (of_nat (hi r - f) :: u64) :: u32)\<rparr> # post)"
    proof (rule add_mem_gap(1) [OF ok1])
      show "ucast (of_nat (hi r - f) :: u64) \<noteq> (0 :: u32)" using us mid(3) by (metis unat_0 zero_less_diff less_numeral_extra(3))
      show "unat (ucast fin :: u32) + unat (ucast (of_nat (hi r - f) :: u64) :: u32) \<le> 2 ^ 32" using us uf r(4) mid(3) by simp
      show "length ((pre @ [?l]) @ post) < 191" using Cons.prems(2) mid by auto
      show "hi x < unat (ucast fin :: u32)" if "x \<in> set (pre @ [?l])" for x
        using that pr [of x] hl af(1) mid(1) uf by auto
      show "unat (ucast fin :: u32) + unat (ucast (of_nat (hi r - f) :: u64) :: u32) < lo y" if "y \<in> set post" for y
        using rp [OF that] us uf mid(3) by simp
    qed
    have h: "\<lparr>re_addr = ucast (ucast fin :: u32), re_size = ucast (ucast (of_nat (hi r - f) :: u64) :: u32)\<rparr> = ?h"
      using uf us uh by (simp add: word_unat_eq_iff unat_ucast64 f_def)
    have "alloc_loop addr fin (length pre) (pre @ r # post) = alloc_loop addr fin (Suc (length pre)) (pre @ ?l # ?h # post)"
      using step add mid unfolding h by simp
    also have "\<dots> = alloc_loop addr fin (length (pre @ [?l, ?h])) ((pre @ [?l, ?h]) @ post)"
    proof -
      have hk: "block_ok ?h" using c(2) ct by (simp add: ram_ok_Cons)
      have "lo ?h = f" "hi ?h = hi r" using uh mid(3) by (simp_all add: f_def)
      then show ?thesis
        using alloc_noop [OF hk, of fin addr "pre @ [?l]" post] af(1) by (simp add: a_def f_def)
    qed
    also have "\<dots> = Some (Inr (pre @ concat (map (cut_block a f) (r # post))))"
      using go [of "[?l, ?h]"] ct mid by simp
    finally show ?thesis .
  qed
qed

section \<open>What is found is free and not to be avoided\<close>

abbreviation av_set :: "avoid_entry \<Rightarrow> nat set" where
  "av_set a \<equiv> {unat (av_start a)..<unat (av_end a)}"

lemma fix_size_spec:
  assumes "fix_size s e as ae = Some (s', e')" "unat s < unat e"
  shows "unat s \<le> unat s' \<and> unat s' < unat e' \<and> unat e' \<le> unat e \<and>
    {unat s'..<unat e'} \<inter> {unat as..<unat ae} = {}"
proof -
  let ?as = "ucast as :: u64" and ?ae = "ucast ae :: u64"
  have u: "unat ?as = unat as" "unat ?ae = unat ae" by (simp_all add: unat_ucast64)
  have d: "(e - ?ae < ?as - s) = (unat e - unat ae < unat as - unat s)" if "unat s \<le> unat as" "unat ae \<le> unat e"
  proof -
    have "unat (e - ?ae) = unat e - unat ae" "unat (?as - s) = unat as - unat s"
      using that u by (simp_all add: unat_sub word_le_nat_alt)
    then show ?thesis by (simp add: word_less_nat_alt)
  qed
  consider (no) "unat ae \<le> unat s \<or> unat e \<le> unat as" | (lo) "unat s < unat ae" "unat as < unat e" "unat as \<le> unat s"
    | (hi) "unat s < unat ae" "unat as < unat e" "unat s < unat as" "unat e < unat ae"
    | (mid) "unat s < unat ae" "unat as < unat e" "unat s < unat as" "unat ae \<le> unat e"
    by linarith
  then show ?thesis
  proof cases
    case no
    then show ?thesis using assms by (auto simp: fix_size_def Let_def word_le_nat_alt u)
  next
    case lo
    then show ?thesis using assms by (auto simp: fix_size_def Let_def word_le_nat_alt word_less_nat_alt u split: if_splits)
  next
    case hi
    then show ?thesis using assms by (auto simp: fix_size_def Let_def word_le_nat_alt word_less_nat_alt u split: if_splits)
  next
    case mid
    then have f: "fix_size s e as ae = (if unat e - unat ae < unat as - unat s then Some (s, ?as) else Some (?ae, e))"
      using d by (simp add: fix_size_def Let_def word_le_nat_alt u) (simp add: word_less_nat_alt u)
    show ?thesis using assms mid u unfolding f by (auto split: if_splits)
  qed
qed

text \<open>The avoided ranges that a scan sees: those before an entry whose \<open>end\<close> is zero.\<close>

definition avoided :: "avoid_entry list \<Rightarrow> nat set" where
  "avoided as = (\<Union>a \<in> set (takeWhile (\<lambda>a. av_end a \<noteq> 0) as). av_set a)"

lemma avoid_all_spec:
  "avoid_all s e as = Some (s', e') \<Longrightarrow> unat s < unat e \<Longrightarrow>
     unat s \<le> unat s' \<and> unat s' < unat e' \<and> unat e' \<le> unat e \<and> {unat s'..<unat e'} \<inter> avoided as = {}"
proof (induction as arbitrary: s e)
  case Nil
  then show ?case by (simp add: avoided_def)
next
  case (Cons a as)
  show ?case
  proof (cases "av_end a = 0")
    case True
    then show ?thesis using Cons.prems by (simp add: avoided_def)
  next
    case False
    then obtain s1 e1 where f: "fix_size s e (av_start a) (av_end a) = Some (s1, e1)" and r: "avoid_all s1 e1 as = Some (s', e')"
      using Cons.prems(1) by (auto split: option.splits)
    note 1 = fix_size_spec [OF f Cons.prems(2)]
    note 2 = Cons.IH [OF r] 
    have "unat s1 < unat e1" using 1 by simp
    note 2 = 2 [OF this]
    have "{unat s'..<unat e'} \<inter> av_set a = {}" using 1 2 by fastforce
    then show ?thesis using 1 2 False by (auto simp: avoided_def)
  qed
qed

lemma find_range_spec:
  assumes "ram_ok ram" "\<forall>r \<in> set ram. hi r + 2 ^ n \<le> 2 ^ 32" "n < 32"
    "find_range_loop 0 MAX_PADDR32 sz (2 ^ n) 0 0 avoid ram = x" "x \<noteq> NULL_PADDR"
  shows "{unat x..<unat x + unat sz} \<subseteq> covers ram - avoided avoid \<and> 2 ^ n dvd unat x \<and> unat x + unat sz < 2 ^ 32 \<and>
    (\<exists>r \<in> set ram. lo r \<le> unat x \<and> unat x < hi r \<and> unat x + unat sz \<le> hi r)"
  using assms
proof (induction ram)
  case Nil
  then show ?case by simp
next
  case (Cons r ram)
  have rk: "block_ok r" "ram_ok ram" using Cons.prems(1) by (simp_all add: ram_ok_Cons)
  note r = block_okD [OF rk(1)]
  have nz: "re_size r \<noteq> 0" using rk by (simp add: block_ok_def)
  have rest: ?case if "find_range_loop 0 MAX_PADDR32 sz (2 ^ n) 0 0 avoid ram = x"
    using Cons.IH [OF rk(2) _ Cons.prems(3) that Cons.prems(5)] Cons.prems(2) by auto
  show ?case
  proof (cases "avoid_all (re_addr r) (re_addr r + re_size r) avoid")
    case None
    then show ?thesis using rest Cons.prems(4) nz by simp
  next
    case (Some p)
    obtain s e where p: "p = (s, e)" by (cases p)
    have av: "lo r \<le> unat s \<and> unat s < unat e \<and> unat e \<le> hi r \<and> {unat s..<unat e} \<inter> avoided avoid = {}"
      using avoid_all_spec [OF Some [unfolded p]] r by simp
    have hn: "hi r + 2 ^ n \<le> 2 ^ 32" using Cons.prems(2) by simp
    have us: "unat (ucast s :: u32) = unat s" using av hn by (intro unat_ucast32) simp
    define x' where "x' = ROUND (ucast s) (2 ^ n)"
    have x': "unat x' = (unat s + 2 ^ n - 1) div 2 ^ n * 2 ^ n"
      unfolding x'_def using unat_ROUND [OF Cons.prems(3), of "ucast s"] us av hn by simp
    have xs: "unat s \<le> unat x'"
    proof -
      have "(unat s + 2 ^ n - 1) mod 2 ^ n < 2 ^ n" by simp
      moreover have "unat x' + (unat s + 2 ^ n - 1) mod 2 ^ n = unat s + 2 ^ n - 1" unfolding x' by (rule div_mult_mod_eq)
      ultimately show ?thesis by linarith
    qed
    define e' where "e' = (if e > ucast MAX_PADDR32 then ucast MAX_PADDR32 else e)"
    have e': "unat e' \<le> unat e" "unat e' < 2 ^ 32"
      by (auto simp: e'_def word_less_nat_alt unat_ucast64)
    have step: "find_range_loop 0 MAX_PADDR32 sz (2 ^ n) 0 0 avoid (r # ram) =
      (if ucast x' \<ge> e' then find_range_loop 0 MAX_PADDR32 sz (2 ^ n) 0 0 avoid ram
       else if ucast sz \<le> e' - ucast x' then x' else find_range_loop 0 MAX_PADDR32 sz (2 ^ n) 0 0 avoid ram)"
      using Some p nz by (simp add: x'_def e'_def Let_def)
    show ?thesis
    proof (cases "ucast x' < e' \<and> ucast sz \<le> e' - ucast x'")
      case False
      then show ?thesis using rest Cons.prems(4) step by (simp only: step) (auto split: if_splits)
    next
      case True
      then have lt: "unat x' < unat e'" by (simp add: word_less_nat_alt unat_ucast64)
      then have "unat (e' - ucast x') = unat e' - unat x'"
        by (subst unat_sub) (simp_all add: word_le_nat_alt unat_ucast64)
      then have sz: "unat x' + unat sz \<le> unat e'" using True lt by (simp add: word_le_nat_alt unat_ucast64) linarith
      have "\<not> e' \<le> ucast x'" using True by (metis not_le)
      then have x: "x = x'" using Cons.prems(4) step True by simp
      have "{unat x..<unat x + unat sz} \<subseteq> {unat s..<unat e}" using xs sz e'(1) x by auto
      moreover have "{unat s..<unat e} \<subseteq> {lo r..<hi r}" using av by auto
      ultimately have "{unat x..<unat x + unat sz} \<subseteq> covers (r # ram) - avoided avoid"
        using av unfolding covers_simps by blast
      moreover have "2 ^ n dvd unat x" unfolding x x' by simp
      moreover have "lo r \<le> unat x \<and> unat x < hi r \<and> unat x + unat sz \<le> hi r" "unat x + unat sz < 2 ^ 32"
        using av sz e' lt xs x by simp_all
      ultimately show ?thesis by auto
    qed
  qed
qed

section \<open>The allocator\<close>

text \<open>The set of ranges the allocator avoids, whether or not the list has been set up.\<close>

definition rs_avoided :: "ram_state \<Rightarrow> nat set" where
  "rs_avoided rs = avoided (case avoid_list rs of None \<Rightarrow> [] | Some a \<Rightarrow> a)"

text \<open>
  C5: adding a block of memory to a free list in order keeps it in order with gaps between its
  blocks, and the addresses it covers are those it covered and those of the block. The list has
  room for 191 blocks.
\<close>

theorem add_mem_covers:
  assumes "ram_ok ram" "sz \<noteq> 0" "unat start + unat sz \<le> 2 ^ 32" "length ram < 191"
  shows "\<exists>ram'. add_mem start sz ram = Inr ram' \<and> ram_ok ram' \<and>
    covers ram' = covers ram \<union> {unat start..<unat start + unat sz}"
  using add_mem_spec [OF assms] by blast

theorem add_mem_covers_witness:
  "\<exists>ram'. add_mem 0x10000000 0x1000 [] = Inr ram' \<and> covers ram' = {0x10000000..<0x10001000}"
  using add_mem_covers [of "[]" "0x1000" "0x10000000"] by (auto simp: ram_ok_def)

text \<open>a full list is reported, not overrun.\<close>

lemma add_mem_overflow:
  "add_mem start sz ram = Inl RamArrayOverflow \<longleftrightarrow> sz \<noteq> 0 \<and> 191 \<le> length ram"
  by (auto simp: add_mem_def ram_list_size_def Let_def word_neq_0_conv split: if_splits)

lemma alloc_ram_at:
  assumes ok: "ram_ok (ram_list rs)" and ns: "\<not> sysram_added rs" and len: "length (ram_list rs) < 191"
    and rng: "sz \<noteq> 0" "unat addr + unat sz < 2 ^ 32" and addr: "addr \<noteq> NULL_PADDR"
  shows "\<exists>rs'. alloc_ram addr sz align rs = Inr (addr, rs') \<and> ram_ok (ram_list rs') \<and>
    covers (ram_list rs') = covers (ram_list rs) - {unat addr..<unat addr + unat sz} \<and>
    rs' = rs\<lparr>ram_list := concat (map (cut_block (unat addr) (unat addr + unat sz)) (ram_list rs))\<rparr>"
proof -
  have "unat (addr + sz) = unat addr + unat sz" using rng(2) by (simp add: unat_add_no_wrap)
  then have uf: "unat (ucast (addr + sz) :: u64) = unat addr + unat sz" by (simp add: unat_ucast64)
  have "unat sz \<noteq> 0" using rng(1) by (simp add: unat_eq_0)
  then have "alloc_loop addr (ucast (addr + sz)) 0 (ram_list rs) =
      Some (Inr (concat (map (cut_block (unat addr) (unat addr + unat sz)) (ram_list rs))))"
    using alloc_loop_spec [of addr "ucast (addr + sz)" "[]" "ram_list rs"] ok len rng(2) uf by simp
  then have "alloc_ram addr sz align rs =
      Inr (addr, rs\<lparr>ram_list := concat (map (cut_block (unat addr) (unat addr + unat sz)) (ram_list rs))\<rparr>)"
    using ns addr by (simp add: alloc_ram_def Let_def)
  moreover have "ram_ok (concat (map (cut_block (unat addr) (unat addr + unat sz)) (ram_list rs))) \<and>
      covers (concat (map (cut_block (unat addr) (unat addr + unat sz)) (ram_list rs))) =
      covers (ram_list rs) - {unat addr..<unat addr + unat sz}"
    using cut_all_spec [OF ok, of "unat addr" "unat addr + unat sz"] rng(2) \<open>unat sz \<noteq> 0\<close> by simp
  ultimately show ?thesis by simp
qed

lemma alloc_ram_any:
  assumes ok: "ram_ok (ram_list rs)" and ns: "\<not> sysram_added rs" and len: "length (ram_list rs) < 191"
    and al: "n < 32" "\<forall>r \<in> set (ram_list rs). hi r + 2 ^ n \<le> 2 ^ 32" and sz: "sz \<noteq> 0"
  shows "\<exists>x rs'. alloc_ram NULL_PADDR sz (2 ^ n) rs = Inr (x, rs') \<and>
    (if x = NULL_PADDR then rs' = rs
     else {unat x..<unat x + unat sz} \<subseteq> covers (ram_list rs) - rs_avoided rs \<and> 2 ^ n dvd unat x \<and>
       ram_ok (ram_list rs') \<and> covers (ram_list rs') = covers (ram_list rs) - {unat x..<unat x + unat sz} \<and>
       rs' = rs\<lparr>ram_list := ram_list rs'\<rparr>)"
proof -
  define x where "x = find_ram sz (2 ^ n) 0 0 rs"
  have x: "x = find_range_loop 0 MAX_PADDR32 sz (2 ^ n) 0 0 (case avoid_list rs of None \<Rightarrow> [] | Some a \<Rightarrow> a) (ram_list rs)"
    by (simp add: x_def find_ram_def find_ram_in_range_def Let_def)
  have eq: "alloc_ram NULL_PADDR sz (2 ^ n) rs = (if x = NULL_PADDR then Inr (NULL_PADDR, rs) else alloc_ram x sz (2 ^ n) rs)"
    by (simp add: alloc_ram_def x_def [symmetric] Let_def)
  show ?thesis
  proof (cases "x = NULL_PADDR")
    case True
    then show ?thesis using eq by auto
  next
    case False
    note f = find_range_spec [OF ok al(2,1) x [symmetric] False, folded rs_avoided_def]
    have "unat x + unat sz < 2 ^ 32" using f by blast
    then obtain rs' where rs': "alloc_ram x sz (2 ^ n) rs = Inr (x, rs')" "ram_ok (ram_list rs')"
      "covers (ram_list rs') = covers (ram_list rs) - {unat x..<unat x + unat sz}" "rs' = rs\<lparr>ram_list := ram_list rs'\<rparr>"
      using alloc_ram_at [OF ok ns len sz _ False, of "2 ^ n"] by auto
    then show ?thesis using eq f False by (intro exI [of _ x] exI [of _ rs']) simp
  qed
qed

lemma alloc_ram_returns:
  "alloc_ram NULL_PADDR sz align rs = Inr (x, rs') \<Longrightarrow> x = find_ram sz align 0 0 rs"
  by (auto simp: alloc_ram_def Let_def rbind_def split: if_splits option.splits sum.splits)

lemma roundup_least: "(2 ^ n :: nat) dvd a \<Longrightarrow> s \<le> a \<Longrightarrow> (s + 2 ^ n - 1) div 2 ^ n * 2 ^ n \<le> a"
proof -
  assume "(2 ^ n :: nat) dvd a" "s \<le> a"
  then obtain k where k: "a = 2 ^ n * k" by auto
  have "(1 :: nat) \<le> 2 ^ n" by simp
  then have "s + 2 ^ n - 1 < 2 ^ n * k + 2 ^ n" using \<open>s \<le> a\<close> k by linarith
  then have "s + 2 ^ n - 1 < 2 ^ n * (k + 1)" by simp
  then have "(s + 2 ^ n - 1) div 2 ^ n < k + 1" by (simp add: div_less_iff_less_mult mult.commute)
  then have "(s + 2 ^ n - 1) div 2 ^ n * 2 ^ n \<le> k * 2 ^ n" by (intro mult_le_mono1) simp
  then show ?thesis using k by (simp add: mult.commute)
qed

text \<open>A block that no range of the avoid list reaches into.\<close>

definition untouched :: "avoid_entry list \<Rightarrow> ram_entry \<Rightarrow> bool" where
  "untouched avoid r \<longleftrightarrow> (\<forall>a \<in> set avoid. hi r \<le> unat (av_start a) \<or> unat (av_end a) \<le> lo r)"

lemma avoid_all_untouched:
  assumes "untouched avoid r" "block_ok r"
  shows "avoid_all (re_addr r) (re_addr r + re_size r) avoid = Some (re_addr r, re_addr r + re_size r)"
  using assms block_okD [OF assms(2)]
  by (induction avoid) (auto simp: untouched_def fix_size_def Let_def word_le_nat_alt unat_ucast64)

lemma find_range_complete:
  assumes "ram_ok ram" "\<forall>r \<in> set ram. hi r + 2 ^ n \<le> 2 ^ 32" "n < 32" "sz \<noteq> 0"
    "find_range_loop 0 MAX_PADDR32 sz (2 ^ n) 0 0 avoid ram = NULL_PADDR"
    "r \<in> set ram" "untouched avoid r" "2 ^ n dvd a" "lo r \<le> a"
  shows "hi r < a + unat sz"
  using assms
proof (induction ram)
  case Nil
  then show ?case by simp
next
  case (Cons q ram)
  have rk: "block_ok q" "ram_ok ram" using Cons.prems(1) by (simp_all add: ram_ok_Cons)
  have nz: "re_size q \<noteq> 0" using rk by (simp add: block_ok_def)
  show ?case
  proof (cases "r = q")
    case False
    have "find_range_loop 0 MAX_PADDR32 sz (2 ^ n) 0 0 avoid ram = NULL_PADDR"
    proof (cases "avoid_all (re_addr q) (re_addr q + re_size q) avoid")
      case None
      then show ?thesis using Cons.prems(5) nz by simp
    next
      case (Some p)
      then obtain s e where "avoid_all (re_addr q) (re_addr q + re_size q) avoid = Some (s, e)" by (cases p) simp
      moreover define x where "x = ROUND (ucast s) (2 ^ n)"
      moreover define e' where "e' = (if e > ucast MAX_PADDR32 then ucast MAX_PADDR32 else e)"
      ultimately have st: "find_range_loop 0 MAX_PADDR32 sz (2 ^ n) 0 0 avoid (q # ram) =
        (if ucast x \<ge> e' then find_range_loop 0 MAX_PADDR32 sz (2 ^ n) 0 0 avoid ram
         else if ucast sz \<le> e' - ucast x then x else find_range_loop 0 MAX_PADDR32 sz (2 ^ n) 0 0 avoid ram)"
        using nz by (simp add: Let_def)
      have "e' \<le> ucast MAX_PADDR32" by (simp add: e'_def not_less)
      then have "ucast x \<ge> e'" if "x = NULL_PADDR" using that by simp
      then show ?thesis using Cons.prems(5) st by metis
    qed
    then show ?thesis using Cons rk False by auto
  next
    case True
    note r = block_okD [OF rk(1)]
    have hn: "hi q + 2 ^ n \<le> 2 ^ 32" using Cons.prems(2) by simp
    have p: "(1 :: nat) \<le> 2 ^ n" by simp
    have l4: "lo q < 2 ^ 32" using hn p by linarith
    have h5: "hi q \<le> 4294967295"
    proof -
      have "hi q < 2 ^ 32" using hn p by linarith
      then show ?thesis by simp
    qed
    have us: "unat (ucast (re_addr q) :: u32) = lo q" using l4 by (intro unat_ucast32) simp
    define x where "x = ROUND (ucast (re_addr q)) (2 ^ n)"
    have x: "unat x = (lo q + 2 ^ n - 1) div 2 ^ n * 2 ^ n"
      unfolding x_def using unat_ROUND [OF Cons.prems(3), of "ucast (re_addr q)"] us hn by simp
    have xa: "unat x \<le> a" unfolding x using Cons.prems(8,9) True by (intro roundup_least) simp_all
    have e: "unat (re_addr q + re_size q) = hi q" using r by simp
    have ne: "\<not> ucast MAX_PADDR32 < re_addr q + re_size q" using e h5 by (simp add: word_less_nat_alt unat_ucast64)
    have "hi q < unat x + unat sz"
    proof (rule ccontr)
      assume le: "\<not> ?thesis"
      have "unat sz \<noteq> 0" using Cons.prems(4) by (simp add: unat_eq_0)
      then have lt: "unat x < hi q" using le by simp
      have "\<not> re_addr q + re_size q \<le> ucast x" using lt e by (simp add: word_le_nat_alt unat_ucast64)
      moreover have "unat (re_addr q + re_size q - ucast x) = hi q - unat x"
        using lt e by (subst unat_sub) (simp_all add: word_le_nat_alt unat_ucast64)
      then have "ucast sz \<le> re_addr q + re_size q - ucast x" using le by (simp add: word_le_nat_alt unat_ucast64)
      ultimately have "x = NULL_PADDR"
        using Cons.prems(5) nz avoid_all_untouched [OF Cons.prems(7) [unfolded True] rk(1)] ne by (simp add: x_def Let_def)
      then show False using lt h5 by simp
    qed
    then show ?thesis using xa True by simp
  qed
qed

text \<open>
  C8: an allocation returns: the block asked for by address, or, when no address is given, a free block that avoids what has to be
  avoided and has the alignment, and exactly that block leaves the free memory. It fails only without an address, changes
  nothing then, and every free block clear of the avoid list is too small for an aligned block of the size. This is the
  allocator before \<open>add_sysram\<close>, with room in its list; the alignment is a power of two and memory ends that far below 4G.
\<close>

theorem alloc_ram_removes:
  assumes "ram_ok (ram_list rs)" "\<not> sysram_added rs" "length (ram_list rs) < 191" "sz \<noteq> 0"
    "addr \<noteq> NULL_PADDR \<Longrightarrow> unat addr + unat sz < 2 ^ 32"
    "addr = NULL_PADDR \<Longrightarrow> align = 2 ^ n \<and> n < 32 \<and> (\<forall>r \<in> set (ram_list rs). hi r + 2 ^ n \<le> 2 ^ 32)"
  shows "\<exists>x rs'. alloc_ram addr sz align rs = Inr (x, rs') \<and>
    (if x = NULL_PADDR
     then addr = NULL_PADDR \<and> rs' = rs \<and>
       (\<forall>r \<in> set (ram_list rs). untouched (case avoid_list rs of None \<Rightarrow> [] | Some as \<Rightarrow> as) r \<longrightarrow>
         (\<forall>a. 2 ^ n dvd a \<and> lo r \<le> a \<longrightarrow> hi r < a + unat sz))
     else (if addr = NULL_PADDR then {unat x..<unat x + unat sz} \<subseteq> covers (ram_list rs) - rs_avoided rs \<and> 2 ^ n dvd unat x else x = addr) \<and>
       ram_ok (ram_list rs') \<and> covers (ram_list rs') = covers (ram_list rs) - {unat x..<unat x + unat sz} \<and>
       rs' = rs\<lparr>ram_list := ram_list rs'\<rparr>)"
proof (cases "addr = NULL_PADDR")
  case False
  obtain rs' where "alloc_ram addr sz align rs = Inr (addr, rs')" "ram_ok (ram_list rs')"
    "covers (ram_list rs') = covers (ram_list rs) - {unat addr..<unat addr + unat sz}" "rs' = rs\<lparr>ram_list := ram_list rs'\<rparr>"
    using alloc_ram_at [OF assms(1-4) assms(5) [OF False] False, of align] by auto
  then show ?thesis using False by (intro exI [of _ addr] exI [of _ rs']) simp
next
  case True
  note al = assms(6) [OF True]
  obtain x rs' where x: "alloc_ram NULL_PADDR sz (2 ^ n) rs = Inr (x, rs')"
    "if x = NULL_PADDR then rs' = rs
     else {unat x..<unat x + unat sz} \<subseteq> covers (ram_list rs) - rs_avoided rs \<and> 2 ^ n dvd unat x \<and>
       ram_ok (ram_list rs') \<and> covers (ram_list rs') = covers (ram_list rs) - {unat x..<unat x + unat sz} \<and>
       rs' = rs\<lparr>ram_list := ram_list rs'\<rparr>"
    using alloc_ram_any [OF assms(1-3), of n sz] al assms(4) by blast
  have "find_range_loop 0 MAX_PADDR32 sz (2 ^ n) 0 0 (case avoid_list rs of None \<Rightarrow> [] | Some as \<Rightarrow> as) (ram_list rs) = NULL_PADDR"
    if "x = NULL_PADDR"
    using x(1) that alloc_ram_returns [OF x(1)] by (simp add: find_ram_def find_ram_in_range_def Let_def split: if_splits)
  then show ?thesis
    using x True al find_range_complete [OF assms(1) _ _ assms(4)] by (intro exI [of _ x] exI [of _ rs']) auto
qed

text \<open>The interface of an allocator: what it hands out was free, and is free no more.\<close>

locale block_allocator =
  fixes ok :: "'s \<Rightarrow> bool" and free :: "'s \<Rightarrow> nat set" and alloc :: "'r \<Rightarrow> 's \<Rightarrow> (nat set \<times> 's) option"
  assumes alloc_free: "ok s \<Longrightarrow> alloc r s = Some (b, s') \<Longrightarrow> b \<subseteq> free s"
    and alloc_taken: "ok s \<Longrightarrow> alloc r s = Some (b, s') \<Longrightarrow> free s' = free s - b"
    and alloc_ok: "ok s \<Longrightarrow> alloc r s = Some (b, s') \<Longrightarrow> ok s'"
begin

lemma alloc_twice_disjoint:
  "ok s \<Longrightarrow> alloc r s = Some (b, s') \<Longrightarrow> alloc r' s' = Some (b', s'') \<Longrightarrow> b \<inter> b' = {} \<and> b' \<subseteq> free s"
  using alloc_ok alloc_taken alloc_free by blast

end

text \<open>
  The allocator as the boot code uses it before \<open>add_sysram\<close>: any address, a size, an
  alignment that is a power of two. The free memory is what the list covers and what is not to
  be avoided. Memory ends a page and more below 4G.
\<close>

definition ram_alloc_ok :: "ram_state \<Rightarrow> bool" where
  "ram_alloc_ok rs \<longleftrightarrow> ram_ok (ram_list rs) \<and> \<not> sysram_added rs \<and> length (ram_list rs) < 191 \<and>
     (\<forall>r \<in> set (ram_list rs). hi r \<le> 2 ^ 32 - 2 ^ 16)"

definition ram_alloc_any :: "u32 \<times> nat \<Rightarrow> ram_state \<Rightarrow> (nat set \<times> ram_state) option" where
  "ram_alloc_any r rs =
     (case r of (sz, n) \<Rightarrow>
        (if sz = 0 \<or> 16 < n then None
         else (case alloc_ram NULL_PADDR sz (2 ^ n) rs of
                 Inl _ \<Rightarrow> None
               | Inr (x, rs') \<Rightarrow>
                   (if x = NULL_PADDR \<or> 191 \<le> length (ram_list rs') then None
                    else Some ({unat x..<unat x + unat sz}, rs')))))"

lemma ram_alloc_any_laws:
  assumes ok: "ram_alloc_ok rs" and a: "ram_alloc_any (sz, n) rs = Some (b, rs')"
  shows "b \<subseteq> covers (ram_list rs) - rs_avoided rs" "covers (ram_list rs') - rs_avoided rs' = (covers (ram_list rs) - rs_avoided rs) - b"
    "ram_alloc_ok rs'"
proof -
  have n: "sz \<noteq> 0" "n \<le> 16" using a by (auto simp: ram_alloc_any_def split: if_splits)
  have p: "(2 :: nat) ^ n \<le> 2 ^ 16" using n(2) by (intro power_increasing) simp_all
  have k: "ram_ok (ram_list rs)" "\<not> sysram_added rs" "length (ram_list rs) < 191"
    "\<forall>r \<in> set (ram_list rs). hi r + 2 ^ n \<le> 2 ^ 32"
    using ok p by (auto simp: ram_alloc_ok_def)
  obtain x rs1 where x: "alloc_ram NULL_PADDR sz (2 ^ n) rs = Inr (x, rs1)"
    "if x = NULL_PADDR then rs1 = rs
     else {unat x..<unat x + unat sz} \<subseteq> covers (ram_list rs) - rs_avoided rs \<and> 2 ^ n dvd unat x \<and>
       ram_ok (ram_list rs1) \<and> covers (ram_list rs1) = covers (ram_list rs) - {unat x..<unat x + unat sz} \<and>
       rs1 = rs\<lparr>ram_list := ram_list rs1\<rparr>"
    using alloc_ram_any [OF k(1,2,3) _ k(4) n(1)] n(2) by auto
  then have b: "b = {unat x..<unat x + unat sz}" "rs' = rs1" "x \<noteq> NULL_PADDR" "length (ram_list rs') < 191"
    using a n by (auto simp: ram_alloc_any_def split: if_splits)
  then have c: "b \<subseteq> covers (ram_list rs) - rs_avoided rs" "ram_ok (ram_list rs')" "covers (ram_list rs') = covers (ram_list rs) - b"
    "rs' = rs\<lparr>ram_list := ram_list rs'\<rparr>"
    using x(2) by auto
  show "b \<subseteq> covers (ram_list rs) - rs_avoided rs" by (fact c)
  have f: "avoid_list rs' = avoid_list rs" "sysram_added rs' = sysram_added rs"
    by (subst c(4), simp)+
  then have "rs_avoided rs' = rs_avoided rs" by (simp add: rs_avoided_def)
  then show "covers (ram_list rs') - rs_avoided rs' = (covers (ram_list rs) - rs_avoided rs) - b" using c(3) by auto
  have "hi r \<le> 2 ^ 32 - 2 ^ 16" if r: "r \<in> set (ram_list rs')" for r
  proof -
    have "block_ok r" using c(2) r by (simp add: ram_ok_def)
    then have "hi r - 1 \<in> {lo r..<hi r}" using block_okD(3) by fastforce
    then have "hi r - 1 \<in> covers (ram_list rs')" using r by (auto simp: covers_def)
    then have "hi r - 1 \<in> covers (ram_list rs)" using c(3) by auto
    then obtain q where "q \<in> set (ram_list rs)" "hi r - 1 < hi q" by (auto simp: covers_def)
    then show ?thesis using ok by (fastforce simp: ram_alloc_ok_def)
  qed
  then show "ram_alloc_ok rs'" using c(2) b(4) k(2) f by (simp add: ram_alloc_ok_def)
qed

interpretation ram: block_allocator ram_alloc_ok "\<lambda>rs. covers (ram_list rs) - rs_avoided rs" ram_alloc_any
  by unfold_locales (auto simp: split_paired_all dest: ram_alloc_any_laws)

text \<open>
  C9: two blocks that \<open>alloc_ram\<close> finds one after the other do not overlap; both were free
  memory before the first call, and neither meets a range to be avoided.
\<close>

theorem alloc_ram_twice_disjoint:
  assumes "ram_alloc_ok rs" "ram_alloc_any (sz, n) rs = Some (b, rs')" "ram_alloc_any (sz', n') rs' = Some (b', rs'')"
  shows "b \<inter> b' = {} \<and> b \<union> b' \<subseteq> covers (ram_list rs) \<and> (b \<union> b') \<inter> rs_avoided rs = {}"
  using ram.alloc_twice_disjoint [OF assms] ram.alloc_free [OF assms(1,2)] by blast

section \<open>Instances\<close>

definition ram_example :: ram_state where
  "ram_example =
     \<lparr>ram_list = [\<lparr>re_addr = 0x10000000, re_size = 0x10000000\<rparr>], avoid_list = Some [\<lparr>av_start = 0x10000000, av_end = 0x10100000\<rparr>],
      ws_early_next = 0, temp_syspage = NULL_PADDR, sysram_added = False, watch_list = [], watch_calls = [],
      rs_pagesize = 4096, rs_shdr = \<lparr>ram_paddr = 0x10000000, ram_size = 0x200000, startup_size = 0x20000\<rparr>, rs_st = as_example\<rparr>"

lemma ram_example_ok: "ram_alloc_ok ram_example"
  by (simp add: ram_example_def ram_alloc_ok_def ram_ok_def block_ok_def)

theorem alloc_ram_removes_witness:
  "(\<exists>rs'. alloc_ram NULL_PADDR 0x1000 0x1000 ram_example = Inr (0x10100000, rs') \<and>
     covers (ram_list rs') = {0x10000000..<0x20000000} - {0x10100000..<0x10101000}) \<and>
   (\<exists>rs'. alloc_ram 0x10800000 0x1000 1 ram_example = Inr (0x10800000, rs') \<and>
     covers (ram_list rs') = {0x10000000..<0x20000000} - {0x10800000..<0x10801000}) \<and>
   (\<exists>rs'. alloc_ram NULL_PADDR 0x20000000 0x1000 ram_example = Inr (NULL_PADDR, rs') \<and> rs' = ram_example)"
proof -
  have c: "covers (ram_list ram_example) = {0x10000000..<0x20000000}" by (simp add: ram_example_def)
  have ok: "ram_ok (ram_list ram_example)" "\<not> sysram_added ram_example" "length (ram_list ram_example) < 191"
    using ram_example_ok by (simp_all add: ram_alloc_ok_def)
  have al: "\<forall>r \<in> set (ram_list ram_example). hi r + 2 ^ 12 \<le> 2 ^ 32" by (simp add: ram_example_def)
  have f: "find_ram 0x1000 0x1000 0 0 ram_example = 0x10100000" "find_ram 0x20000000 0x1000 0 0 ram_example = NULL_PADDR"
    by (simp_all add: find_ram_def find_ram_in_range_def ram_example_def fix_size_def ROUND_def TRUNC_def)
  have "(0x1000 :: u32) \<noteq> 0" "(0x20000000 :: u32) \<noteq> 0" by simp_all
  note 1 = alloc_ram_removes [OF ok this(1), of NULL_PADDR "0x1000" 12]
    and 2 = alloc_ram_removes [OF ok this(1), of "0x10800000" 1 0]
    and 3 = alloc_ram_removes [OF ok this(2), of NULL_PADDR "0x1000" 12]
  have n: "(0x1000 :: u32) = 2 ^ 12 \<and> 12 < (32 :: nat) \<and> (\<forall>r \<in> set (ram_list ram_example). hi r + 2 ^ 12 \<le> 2 ^ 32)"
    using al by simp
  from 1 [OF _ n] obtain x rs1 where 1: "alloc_ram NULL_PADDR 0x1000 0x1000 ram_example = Inr (x, rs1)"
    "x \<noteq> NULL_PADDR \<Longrightarrow> covers (ram_list rs1) = covers (ram_list ram_example) - {unat x..<unat x + unat (0x1000 :: u32)}"
    by metis
  have x: "x = 0x10100000" using alloc_ram_returns [OF 1(1)] f(1) by simp
  have "unat (0x10800000 :: u32) + unat (0x1000 :: u32) < 2 ^ 32" "(0x10800000 :: u32) \<noteq> NULL_PADDR" by simp_all
  with 2 obtain rs2 where 2: "alloc_ram 0x10800000 0x1000 1 ram_example = Inr (0x10800000, rs2)"
    "covers (ram_list rs2) = covers (ram_list ram_example) - {unat (0x10800000 :: u32)..<unat (0x10800000 :: u32) + unat (0x1000 :: u32)}"
    by metis
  from 3 [OF _ n] obtain y rs3 where 3: "alloc_ram NULL_PADDR 0x20000000 0x1000 ram_example = Inr (y, rs3)" "y = NULL_PADDR \<Longrightarrow> rs3 = ram_example"
    by metis
  have "y = NULL_PADDR" using alloc_ram_returns [OF 3(1)] f(2) by simp
  then have "alloc_ram NULL_PADDR 0x20000000 0x1000 ram_example = Inr (NULL_PADDR, ram_example)" using 3 by simp
  moreover have "alloc_ram NULL_PADDR 0x1000 0x1000 ram_example = Inr (0x10100000, rs1)"
    "covers (ram_list rs1) = {0x10000000..<0x20000000} - {0x10100000..<0x10101000}"
    using 1 x c by simp_all
  moreover have "covers (ram_list rs2) = {0x10000000..<0x20000000} - {0x10800000..<0x10801000}" using 2(2) c by simp
  ultimately show ?thesis using 2(1) by blast
qed

lemma ram_example_first:
  "ram_alloc_any (0x1000, 12) ram_example =
     Some ({0x10100000..<0x10101000}, ram_example\<lparr>ram_list :=
       [\<lparr>re_addr = 0x10000000, re_size = 0x100000\<rparr>, \<lparr>re_addr = 0x10101000, re_size = 0xfeff000\<rparr>]\<rparr>)"
proof -
  have f: "find_ram 0x1000 0x1000 0 0 ram_example = 0x10100000"
    by (simp add: find_ram_def find_ram_in_range_def ram_example_def fix_size_def ROUND_def TRUNC_def)
  have "alloc_ram 0x10100000 0x1000 0x1000 ram_example = Inr (0x10100000, ram_example\<lparr>ram_list :=
       [\<lparr>re_addr = 0x10000000, re_size = 0x100000\<rparr>, \<lparr>re_addr = 0x10101000, re_size = 0xfeff000\<rparr>]\<rparr>)"
    using alloc_ram_at [of ram_example "0x1000" "0x10100000" "0x1000"] ram_example_ok
    by (auto simp: ram_alloc_ok_def) (simp_all add: ram_example_def cut_block_def)
  then have "alloc_ram NULL_PADDR 0x1000 0x1000 ram_example = Inr (0x10100000, ram_example\<lparr>ram_list :=
       [\<lparr>re_addr = 0x10000000, re_size = 0x100000\<rparr>, \<lparr>re_addr = 0x10101000, re_size = 0xfeff000\<rparr>]\<rparr>)"
    using f by (simp add: alloc_ram_def Let_def)
  then show ?thesis by (simp add: ram_alloc_any_def)
qed

lemma ram_example_second:
  "\<exists>p. ram_alloc_any (0x2000, 12) (ram_example\<lparr>ram_list :=
       [\<lparr>re_addr = 0x10000000, re_size = 0x100000\<rparr>, \<lparr>re_addr = 0x10101000, re_size = 0xfeff000\<rparr>]\<rparr>) = Some p"
proof -
  let ?rs = "ram_example\<lparr>ram_list := [\<lparr>re_addr = 0x10000000, re_size = 0x100000\<rparr>, \<lparr>re_addr = 0x10101000, re_size = 0xfeff000\<rparr>]\<rparr>"
  have ok: "ram_alloc_ok ?rs" by (simp add: ram_example_def ram_alloc_ok_def ram_ok_def block_ok_def)
  have f: "find_ram 0x2000 0x1000 0 0 ?rs = 0x10101000"
    by (simp add: find_ram_def find_ram_in_range_def ram_example_def fix_size_def ROUND_def TRUNC_def)
  obtain rs' where "alloc_ram 0x10101000 0x2000 0x1000 ?rs = Inr (0x10101000, rs')" "length (ram_list rs') = 2"
    using alloc_ram_at [of ?rs "0x2000" "0x10101000" "0x1000"] ok by (auto simp: ram_alloc_ok_def cut_block_def)
  moreover from this have "alloc_ram NULL_PADDR 0x2000 0x1000 ?rs = Inr (0x10101000, rs')"
    using f by (simp add: alloc_ram_def Let_def)
  ultimately show ?thesis by (simp add: ram_alloc_any_def)
qed

theorem alloc_ram_twice_disjoint_witness:
  "\<exists>b rs' b' rs''. ram_alloc_any (0x1000, 12) ram_example = Some (b, rs') \<and> ram_alloc_any (0x2000, 12) rs' = Some (b', rs'') \<and>
    b \<inter> b' = {}"
proof -
  obtain b' rs'' where "ram_alloc_any (0x2000, 12) (ram_example\<lparr>ram_list :=
       [\<lparr>re_addr = 0x10000000, re_size = 0x100000\<rparr>, \<lparr>re_addr = 0x10101000, re_size = 0xfeff000\<rparr>]\<rparr>) = Some (b', rs'')"
    using ram_example_second by fast
  from alloc_ram_twice_disjoint [OF ram_example_ok ram_example_first this] this ram_example_first show ?thesis by blast
qed

end
