(* ===== verification/Ipl_Memtest.thy ===== *)
theory Ipl_Memtest
  imports Prelude
begin

text \<open>
  The memory tests of \<open>ipl/lib/mem_tests.c\<close>: the walking-ones data bus test, the address bus test
  and the device test, each at four access widths, and the driver \<open>_mem_test\<close>. The memory under
  test is a parameter: a store and a load of each width on a state of any type, so that a faulty
  memory is a possible memory. The macros are polymorphic in the width. A \<open>for\<close> loop over a list of
  values known in advance is a recursion over that list.
\<close>

type_synonym ('a, 'h) st_fn = "u32 \<Rightarrow> 'a word \<Rightarrow> 'h \<Rightarrow> 'h"
type_synonym ('a, 'h) ld_fn = "u32 \<Rightarrow> 'h \<Rightarrow> 'a word \<times> 'h"

record 'h dut =
  st8 :: "(8, 'h) st_fn"
  ld8 :: "(8, 'h) ld_fn"
  st16 :: "(16, 'h) st_fn"
  ld16 :: "(16, 'h) ld_fn"
  st32 :: "(32, 'h) st_fn"
  ld32 :: "(32, 'h) ld_fn"
  st64 :: "(64, 'h) st_fn"
  ld64 :: "(64, 'h) ld_fn"

section \<open>Data bus: \<open>_1s_WALK\<close>\<close>

definition walk_values :: "'a::len word list" where
  "walk_values = map (\<lambda>i. push_bit i 1) [0..<LENGTH('a)]"

fun ones_walk :: "('a::len, 'h) st_fn \<Rightarrow> ('a, 'h) ld_fn \<Rightarrow> u32 \<Rightarrow> 'a word list \<Rightarrow> 'h \<Rightarrow> 'a word \<times> 'h" where
  "ones_walk st ld p [] h = (0, h)"
| "ones_walk st ld p (v # vs) h =
     (let h = st p v h; (x, h) = ld p h in if x \<noteq> v then (v, h) else ones_walk st ld p vs h)"

definition walk_test :: "('a::len, 'h) st_fn \<Rightarrow> ('a, 'h) ld_fn \<Rightarrow> u32 \<Rightarrow> u32 \<Rightarrow> 'h \<Rightarrow> u32 \<times> 'h" where
  "walk_test st ld sz mem_loc h =
     (let (v, h) = ones_walk st ld mem_loc walk_values h in (if v = 0 then sz else 0, h))"

section \<open>Address bus: \<open>ADDR_TEST\<close>\<close>

text \<open>\<open>for (offset = 1; (offset & mask) != 0; offset <<= 1)\<close>; shifted out, \<open>offset\<close> is zero.\<close>

definition pow_offsets :: "u32 \<Rightarrow> u32 list" where
  "pow_offsets mk = takeWhile (\<lambda>off. off AND mk \<noteq> 0) (map (\<lambda>i. push_bit i 1) [0..<32])"

fun check_offsets :: "('a::len, 'h) ld_fn \<Rightarrow> (u32 \<Rightarrow> u32) \<Rightarrow> 'a word \<Rightarrow> u32 list \<Rightarrow> 'h \<Rightarrow> u32 option \<times> 'h" where
  "check_offsets ld at pat [] h = (None, h)"
| "check_offsets ld at pat (off # offs) h =
     (let (x, h) = ld (at off) h in if x \<noteq> pat then (Some (at off), h) else check_offsets ld at pat offs h)"

fun check_others :: "('a::len, 'h) ld_fn \<Rightarrow> (u32 \<Rightarrow> u32) \<Rightarrow> 'a word \<Rightarrow> u32 \<Rightarrow> u32 list \<Rightarrow> 'h \<Rightarrow> bool \<times> 'h" where
  "check_others ld at pat t [] h = (True, h)"
| "check_others ld at pat t (off # offs) h =
     (let (x, h) = ld (at off) h in if x \<noteq> pat \<and> off \<noteq> t then (False, h) else check_others ld at pat t offs h)"

fun low_loop :: "('a::len, 'h) st_fn \<Rightarrow> ('a, 'h) ld_fn \<Rightarrow> (u32 \<Rightarrow> u32) \<Rightarrow> 'a word \<Rightarrow> 'a word \<Rightarrow> u32 list \<Rightarrow> u32 list \<Rightarrow> 'h \<Rightarrow> u32 \<times> 'h" where
  "low_loop st ld at pat com offs [] h = (0, h)"
| "low_loop st ld at pat com offs (t # ts) h =
     (let h = st (at t) com h; (x, h) = ld (at 0) h
      in if x \<noteq> pat then (at t, h)
         else (let (ok, h) = check_others ld at pat t offs h
               in if \<not> ok then (at t, h) else low_loop st ld at pat com offs ts (st (at t) pat h)))"

definition addr_loops :: "('a::len, 'h) st_fn \<Rightarrow> ('a, 'h) ld_fn \<Rightarrow> (u32 \<Rightarrow> u32) \<Rightarrow> 'a word \<Rightarrow> 'a word \<Rightarrow> u32 list \<Rightarrow> 'h \<Rightarrow> u32 \<times> 'h" where
  "addr_loops st ld at pat com offs h =
     (let h = fold (\<lambda>off. st (at off) pat) offs h;
          h = st (at 0) com h
      in case check_offsets ld at pat offs h of
           (Some r, h) \<Rightarrow> (r, h)
         | (None, h) \<Rightarrow> low_loop st ld at pat com offs offs (st (at 0) pat h))"

definition addr_test :: "('a::len, 'h) st_fn \<Rightarrow> ('a, 'h) ld_fn \<Rightarrow> u32 \<Rightarrow> 'a word \<Rightarrow> 'a word \<Rightarrow> u32 \<Rightarrow> u64 \<Rightarrow> 'h \<Rightarrow> u32 \<times> 'h" where
  "addr_test st ld sz pat com mem_loc mem_size h =
     (let mk = ucast (mem_size div ucast sz - 1);
          (r, h) = addr_loops st ld (\<lambda>off. mem_loc + off * sz) pat com (pow_offsets mk) h
      in (if r = 0 then ucast mem_size else 0, h))"

section \<open>Device: \<open>DEVICE_TEST\<close>\<close>

fun dev_fill :: "('a::len, 'h) st_fn \<Rightarrow> (nat \<Rightarrow> u32) \<Rightarrow> nat list \<Rightarrow> 'a word \<Rightarrow> 'h \<Rightarrow> 'h" where
  "dev_fill st at [] pat h = h"
| "dev_fill st at (i # is) pat h = dev_fill st at is (pat + 1) (st (at i) pat h)"

fun dev_invert :: "('a::len, 'h) st_fn \<Rightarrow> ('a, 'h) ld_fn \<Rightarrow> (nat \<Rightarrow> u32) \<Rightarrow> nat list \<Rightarrow> 'a word \<Rightarrow> 'h \<Rightarrow> u32 option \<times> 'h" where
  "dev_invert st ld at [] pat h = (None, h)"
| "dev_invert st ld at (i # is) pat h =
     (let (x, h) = ld (at i) h
      in if x \<noteq> pat then (Some (at i), h) else dev_invert st ld at is (pat + 1) (st (at i) (NOT pat) h))"

fun dev_check :: "('a::len, 'h) ld_fn \<Rightarrow> (nat \<Rightarrow> u32) \<Rightarrow> nat list \<Rightarrow> 'a word \<Rightarrow> 'h \<Rightarrow> u32 option \<times> 'h" where
  "dev_check ld at [] pat h = (None, h)"
| "dev_check ld at (i # is) pat h =
     (let (x, h) = ld (at i) h in if x \<noteq> NOT pat then (Some (at i), h) else dev_check ld at is (pat + 1) h)"

definition dev_loops :: "('a::len, 'h) st_fn \<Rightarrow> ('a, 'h) ld_fn \<Rightarrow> (nat \<Rightarrow> u32) \<Rightarrow> nat \<Rightarrow> 'h \<Rightarrow> u32 \<times> 'h" where
  "dev_loops st ld at n h =
     (let h = dev_fill st at [0..<n] 1 h
      in case dev_invert st ld at [0..<n] 1 h of
           (Some r, h) \<Rightarrow> (r, h)
         | (None, h) \<Rightarrow>
             (case dev_check ld at [0..<n] 1 h of (Some r, h) \<Rightarrow> (r, h) | (None, h) \<Rightarrow> (0, h)))"

definition dev_test :: "('a::len, 'h) st_fn \<Rightarrow> ('a, 'h) ld_fn \<Rightarrow> u32 \<Rightarrow> u32 \<Rightarrow> u64 \<Rightarrow> 'h \<Rightarrow> u32 \<times> 'h" where
  "dev_test st ld sz mem_loc mem_size h =
     (let n = unat (ucast (mem_size div ucast sz) :: u32);
          (r, h) = dev_loops st ld (\<lambda>i. mem_loc + of_nat i * sz) n h
      in (if r = 0 then ucast mem_size else 0, h))"

section \<open>The twelve tests and \<open>_mem_test\<close>\<close>

definition walk_8bit :: "'h dut \<Rightarrow> u32 \<Rightarrow> u64 \<Rightarrow> 'h \<Rightarrow> u32 \<times> 'h" where
  "walk_8bit d mem_loc mem_size h = walk_test (st8 d) (ld8 d) 1 mem_loc h"

definition walk_16bit :: "'h dut \<Rightarrow> u32 \<Rightarrow> u64 \<Rightarrow> 'h \<Rightarrow> u32 \<times> 'h" where
  "walk_16bit d mem_loc mem_size h = walk_test (st16 d) (ld16 d) 2 mem_loc h"

definition walk_32bit :: "'h dut \<Rightarrow> u32 \<Rightarrow> u64 \<Rightarrow> 'h \<Rightarrow> u32 \<times> 'h" where
  "walk_32bit d mem_loc mem_size h = walk_test (st32 d) (ld32 d) 4 mem_loc h"

definition walk_64bit :: "'h dut \<Rightarrow> u32 \<Rightarrow> u64 \<Rightarrow> 'h \<Rightarrow> u32 \<times> 'h" where
  "walk_64bit d mem_loc mem_size h = walk_test (st64 d) (ld64 d) 8 mem_loc h"

definition addr_8bit :: "'h dut \<Rightarrow> u32 \<Rightarrow> u64 \<Rightarrow> 'h \<Rightarrow> u32 \<times> 'h" where
  "addr_8bit d mem_loc mem_size h = addr_test (st8 d) (ld8 d) 1 0xAA 0x55 mem_loc mem_size h"

definition addr_16bit :: "'h dut \<Rightarrow> u32 \<Rightarrow> u64 \<Rightarrow> 'h \<Rightarrow> u32 \<times> 'h" where
  "addr_16bit d mem_loc mem_size h = addr_test (st16 d) (ld16 d) 2 0xAAAA 0x5555 mem_loc mem_size h"

definition addr_32bit :: "'h dut \<Rightarrow> u32 \<Rightarrow> u64 \<Rightarrow> 'h \<Rightarrow> u32 \<times> 'h" where
  "addr_32bit d mem_loc mem_size h = addr_test (st32 d) (ld32 d) 4 0xAAAAAAAA 0x55555555 mem_loc mem_size h"

definition addr_64bit :: "'h dut \<Rightarrow> u32 \<Rightarrow> u64 \<Rightarrow> 'h \<Rightarrow> u32 \<times> 'h" where
  "addr_64bit d mem_loc mem_size h =
     addr_test (st64 d) (ld64 d) 8 0xAAAAAAAAAAAAAAAA 0x5555555555555555 mem_loc mem_size h"

definition dev_8bit :: "'h dut \<Rightarrow> u32 \<Rightarrow> u64 \<Rightarrow> 'h \<Rightarrow> u32 \<times> 'h" where
  "dev_8bit d mem_loc mem_size h = dev_test (st8 d) (ld8 d) 1 mem_loc mem_size h"

definition dev_16bit :: "'h dut \<Rightarrow> u32 \<Rightarrow> u64 \<Rightarrow> 'h \<Rightarrow> u32 \<times> 'h" where
  "dev_16bit d mem_loc mem_size h = dev_test (st16 d) (ld16 d) 2 mem_loc mem_size h"

definition dev_32bit :: "'h dut \<Rightarrow> u32 \<Rightarrow> u64 \<Rightarrow> 'h \<Rightarrow> u32 \<times> 'h" where
  "dev_32bit d mem_loc mem_size h = dev_test (st32 d) (ld32 d) 4 mem_loc mem_size h"

definition dev_64bit :: "'h dut \<Rightarrow> u32 \<Rightarrow> u64 \<Rightarrow> 'h \<Rightarrow> u32 \<times> 'h" where
  "dev_64bit d mem_loc mem_size h = dev_test (st64 d) (ld64 d) 8 mem_loc mem_size h"

text \<open>The table, indexed from \<open>memtest_e_first = 1\<close>; its element zero is a null pointer.\<close>

definition mem_tests :: "'h dut \<Rightarrow> (u32 \<Rightarrow> u64 \<Rightarrow> 'h \<Rightarrow> u32 \<times> 'h) option list" where
  "mem_tests d = None # map Some
     [walk_8bit d, walk_16bit d, walk_32bit d, walk_64bit d, addr_8bit d, addr_16bit d, addr_32bit d, addr_64bit d,
      dev_8bit d, dev_16bit d, dev_32bit d, dev_64bit d]"

partial_function (option) region_loop ::
    "(u32 \<Rightarrow> u64 \<Rightarrow> 'h \<Rightarrow> u32 \<times> 'h) \<Rightarrow> u64 \<Rightarrow> u32 \<Rightarrow> u32 \<Rightarrow> u64 \<Rightarrow> 'h \<Rightarrow> (u64 \<times> 'h) option" where
  "region_loop test_fn mem_size cur last_mem_loc bytes_tested h =
     (if cur < last_mem_loc then
        (case test_fn cur mem_size h of (n, h) \<Rightarrow>
           if n = 0 then Some (bytes_tested, h)
           else region_loop test_fn mem_size (cur + n) last_mem_loc (bytes_tested + ucast n) h)
      else Some (bytes_tested, h))"

fun tests_loop :: "(u32 \<Rightarrow> u64 \<Rightarrow> 'h \<Rightarrow> u32 \<times> 'h) option list \<Rightarrow> u32 \<Rightarrow> u64 \<Rightarrow> nat list \<Rightarrow> u64 \<Rightarrow> 'h \<Rightarrow> (u64 \<times> 'h) option" where
  "tests_loop tests start mem_size [] bytes_tested h = Some (bytes_tested, h)"
| "tests_loop tests start mem_size (i # is) bytes_tested h =
     (case tests ! i of
        None \<Rightarrow> tests_loop tests start mem_size is bytes_tested h
      | Some test_fn \<Rightarrow>
          (case region_loop test_fn mem_size start (start + ucast mem_size) 0 h of
             None \<Rightarrow> None
           | Some (bytes_tested, h) \<Rightarrow> tests_loop tests start mem_size is bytes_tested h))"

definition mem_test :: "'h dut \<Rightarrow> u32 \<Rightarrow> u64 \<Rightarrow> int \<Rightarrow> 'h \<Rightarrow> (u64 \<times> 'h) option" where
  "mem_test d start mem_size test_num h =
     (let tests = mem_tests d;
          test_num_start = (if test_num = - 1 then 1 else unat (word_of_int test_num :: u32));
          test_num_end = (if test_num = - 1 then length tests - 1 else unat (word_of_int test_num :: u32))
      in if test_num_start < 1 \<or> length tests \<le> test_num_start then Some (0, h)
         else tests_loop tests start mem_size [test_num_start..<Suc test_num_end] 0 h)"

section \<open>The walk finds every stuck data line\<close>

definition stuck_ld :: "'a::len word \<Rightarrow> 'a word \<Rightarrow> ('a, u32 \<Rightarrow> 'a word) ld_fn" where
  "stuck_ld low high a h = ((h a AND NOT low) OR high, h)"

definition plain_st :: "('a::len, u32 \<Rightarrow> 'a word) st_fn" where
  "plain_st a v h = h(a := v)"

lemma ones_walk_fails:
  "fst (ones_walk plain_st (stuck_ld low high) p vs h) = 0 \<longleftrightarrow>
     (\<forall>v\<in>set vs. v = 0 \<or> (v AND NOT low) OR high = v)"
  if "0 \<notin> set vs"
  using that by (induction vs arbitrary: h) (auto simp: stuck_ld_def plain_st_def Let_def)

lemma stuck_free_iff:
  fixes low high :: "'a::len word"
  assumes "2 \<le> LENGTH('a)"
  shows "(\<forall>i<LENGTH('a). (push_bit i 1 AND NOT low) OR high = push_bit i 1) \<longleftrightarrow> low = 0 \<and> high = 0"
proof
  assume w: "\<forall>i<LENGTH('a). (push_bit i 1 AND NOT low) OR high = push_bit i 1"
  have bits: "(bit (push_bit i 1 :: 'a word) n \<and> \<not> bit low n) \<or> bit high n \<longleftrightarrow> bit (push_bit i 1 :: 'a word) n"
    if "i < LENGTH('a)" "n < LENGTH('a)" for i n
    using w that by (metis bit_and_iff bit_not_iff bit_or_iff impossible_bit)
  have h: "\<not> bit high n" if n: "n < LENGTH('a)" for n
  proof -
    have "\<exists>j<LENGTH('a). j \<noteq> n" using assms by (cases n) (auto intro: exI [of _ 0] exI [of _ 1])
    then obtain j where j: "j < LENGTH('a)" "j \<noteq> n" by blast
    then show ?thesis using bits [OF j(1) n] n by (auto simp: bit_exp_iff)
  qed
  have "\<not> bit low n" if "n < LENGTH('a)" for n
    using bits [OF that that] h [OF that] that by (auto simp: bit_exp_iff)
  with h show "low = 0 \<and> high = 0" by (auto intro: bit_word_eqI)
qed simp

text \<open>
  C31: on a memory whose data lines \<open>low\<close> are stuck at zero and \<open>high\<close> stuck at one, the walking-ones
  test of any width of at least two bits passes exactly when no line is stuck.
\<close>

theorem walk_test_finds_stuck_lines:
  fixes low high :: "'a::len word"
  assumes "2 \<le> LENGTH('a)" "sz \<noteq> 0"
  shows "fst (walk_test plain_st (stuck_ld low high) sz p h) = (if low = 0 \<and> high = 0 then sz else 0)"
proof -
  have nz: "0 \<notin> set (walk_values :: 'a word list)"
    by (auto simp: walk_values_def)
  have "(\<forall>v\<in>set (walk_values :: 'a word list). v = 0 \<or> (v AND NOT low) OR high = v) \<longleftrightarrow>
      (\<forall>i<LENGTH('a). (push_bit i 1 AND NOT low) OR high = (push_bit i 1 :: 'a word))"
    using nz by (auto simp: walk_values_def)
  then have "fst (ones_walk plain_st (stuck_ld low high) p walk_values h) = 0 \<longleftrightarrow> low = 0 \<and> high = 0"
    using ones_walk_fails [OF nz, of low high p h] stuck_free_iff [OF assms(1), of low high] by simp
  then show ?thesis by (simp add: walk_test_def case_prod_unfold Let_def)
qed

theorem walk_test_finds_stuck_lines_witness:
  "fst (walk_test plain_st (stuck_ld (8 :: u32) 0) 4 0x10000000 (\<lambda>_. 0)) = 0 \<and>
   fst (walk_test plain_st (stuck_ld (0 :: u32) 0) 4 0x10000000 (\<lambda>_. 0)) = 4"
  using walk_test_finds_stuck_lines [of 4 "8 :: u32" 0] walk_test_finds_stuck_lines [of 4 "0 :: u32" 0] by simp

section \<open>The address test finds every alias\<close>

text \<open>A memory whose address lines are faulty: address \<open>a\<close> reaches the cell \<open>line a\<close>.\<close>

definition alias_st :: "(u32 \<Rightarrow> 'c) \<Rightarrow> u32 \<Rightarrow> 'a::len word \<Rightarrow> ('c \<Rightarrow> 'a word) \<Rightarrow> 'c \<Rightarrow> 'a word" where
  "alias_st line a v h = h(line a := v)"

definition alias_ld :: "(u32 \<Rightarrow> 'c) \<Rightarrow> u32 \<Rightarrow> ('c \<Rightarrow> 'a::len word) \<Rightarrow> 'a word \<times> ('c \<Rightarrow> 'a word)" where
  "alias_ld line a h = (h (line a), h)"

lemma fill_cells:
  "fold (\<lambda>off. alias_st line (at off) pat) offs h = (\<lambda>c. if c \<in> line ` at ` set offs then pat else h c)"
  by (induction offs arbitrary: h) (auto simp: alias_st_def fun_eq_iff)

lemma check_offsets_pass:
  "check_offsets (alias_ld line) at pat offs h =
     (map_option at (find (\<lambda>off. h (line (at off)) \<noteq> pat) offs), h)"
  by (induction offs) (auto simp: alias_ld_def)

lemma check_others_pass:
  "check_others (alias_ld line) at pat t offs h = (\<forall>off\<in>set offs. h (line (at off)) = pat \<or> off = t, h)"
  by (induction offs) (auto simp: alias_ld_def)

lemma low_loop_pass:
  assumes "com \<noteq> pat" "\<forall>off\<in>set ts. at off \<noteq> 0" "set ts \<subseteq> set offs"
    and "\<forall>off\<in>set offs. h (line (at off)) = pat" "h (line (at 0)) = pat"
  shows "fst (low_loop (alias_st line) (alias_ld line) at pat com offs ts h) = 0 \<longleftrightarrow>
     (\<forall>t\<in>set ts. line (at t) \<noteq> line (at 0) \<and> (\<forall>off\<in>set offs. off \<noteq> t \<longrightarrow> line (at off) \<noteq> line (at t)))"
  using assms(2-)
proof (induction ts)
  case (Cons t ts)
  let ?h = "h(line (at t) := com)"
  have restore: "alias_st line (at t) pat ?h = h" using Cons.prems by (auto simp: alias_st_def)
  have stored: "alias_st line (at t) com h = ?h" by (simp add: alias_st_def)
  have first: "?h (line (at 0)) \<noteq> pat \<longleftrightarrow> line (at t) = line (at 0)" using Cons.prems(4) assms(1) by simp
  have rest: "(\<forall>off\<in>set offs. ?h (line (at off)) = pat \<or> off = t) \<longleftrightarrow>
      (\<forall>off\<in>set offs. off \<noteq> t \<longrightarrow> line (at off) \<noteq> line (at t))"
    using Cons.prems(3) assms(1) by auto
  have ih: "fst (low_loop (alias_st line) (alias_ld line) at pat com offs ts h) = 0 \<longleftrightarrow>
     (\<forall>t\<in>set ts. line (at t) \<noteq> line (at 0) \<and> (\<forall>off\<in>set offs. off \<noteq> t \<longrightarrow> line (at off) \<noteq> line (at t)))"
    using Cons by simp
  have step: "low_loop (alias_st line) (alias_ld line) at pat com offs (t # ts) h =
      (if ?h (line (at 0)) \<noteq> pat then (at t, ?h)
       else if \<not> (\<forall>off\<in>set offs. ?h (line (at off)) = pat \<or> off = t) then (at t, ?h)
       else low_loop (alias_st line) (alias_ld line) at pat com offs ts h)"
    by (simp only: low_loop.simps Let_def stored alias_ld_def prod.case check_others_pass restore)
  show ?case unfolding step first rest using ih Cons.prems(1) by auto
qed simp

text \<open>
  C32: the address test passes exactly when no two of the addresses it tries, the base and the
  power-of-two offsets, reach the same cell. None of the offsets may be at address zero, which the
  code cannot tell from success.
\<close>

theorem addr_loops_finds_aliases:
  assumes "com \<noteq> pat" "\<forall>off\<in>set offs. at off \<noteq> 0" "0 \<notin> set offs"
  shows "fst (addr_loops (alias_st line) (alias_ld line) at pat com offs h) = 0 \<longleftrightarrow>
     inj_on (\<lambda>off. line (at off)) (insert 0 (set offs))"
proof -
  let ?h1 = "(\<lambda>c. if c \<in> line ` at ` set offs then pat else h c)"
  let ?h2 = "?h1(line (at 0) := com)"
  have st0: "alias_st line (at 0) v g = g(line (at 0) := v)" for v g by (simp add: alias_st_def)
  show ?thesis
  proof (cases "\<exists>off\<in>set offs. line (at off) = line (at 0)")
    case True
    then have "find (\<lambda>off. ?h2 (line (at off)) \<noteq> pat) offs \<noteq> None"
      using assms(1) by (auto simp: find_None_iff)
    then obtain off where off: "find (\<lambda>off. ?h2 (line (at off)) \<noteq> pat) offs = Some off" by auto
    then have "off \<in> set offs" by (auto simp: find_Some_iff)
    then have "fst (addr_loops (alias_st line) (alias_ld line) at pat com offs h) \<noteq> 0"
      using off assms(2) by (simp add: addr_loops_def fill_cells check_offsets_pass st0)
    moreover have "\<not> inj_on (\<lambda>off. line (at off)) (insert 0 (set offs))"
      using True assms(3) by (auto simp: inj_on_def)
    ultimately show ?thesis by blast
  next
    case False
    then have "find (\<lambda>off. ?h2 (line (at off)) \<noteq> pat) offs = None"
      by (auto simp: find_None_iff)
    then have "fst (addr_loops (alias_st line) (alias_ld line) at pat com offs h) =
        fst (low_loop (alias_st line) (alias_ld line) at pat com offs offs (?h2(line (at 0) := pat)))"
      by (simp add: addr_loops_def fill_cells check_offsets_pass st0)
    also have "\<dots> = 0 \<longleftrightarrow> (\<forall>t\<in>set offs. line (at t) \<noteq> line (at 0) \<and>
        (\<forall>off\<in>set offs. off \<noteq> t \<longrightarrow> line (at off) \<noteq> line (at t)))"
      using assms(1,2) by (intro low_loop_pass) auto
    finally show ?thesis using False assms(3) by (auto simp: inj_on_def)
  qed
qed

theorem addr_loops_finds_aliases_witness:
  "fst (addr_loops (alias_st (\<lambda>a. a AND NOT 2)) (alias_ld (\<lambda>a. a AND NOT 2)) (\<lambda>off. 0x10000000 + off)
      (0xAA :: u8) 0x55 [1, 2, 4] (\<lambda>_. 0)) \<noteq> 0"
proof -
  have "\<not> inj_on (\<lambda>off. (0x10000000 + off) AND NOT 2) (insert 0 (set [1, 2, 4 :: u32]))"
    by (auto simp: inj_on_def)
  then show ?thesis
    using addr_loops_finds_aliases [of "0x55 :: u8" "0xAA" "[1, 2, 4]" "\<lambda>off. 0x10000000 + off" "\<lambda>a. a AND NOT 2" "\<lambda>_. 0"]
    by simp
qed

section \<open>The device test finds every alias\<close>

lemma dev_fill_keeps:
  assumes "\<forall>i\<in>{j..<n}. line (at i) \<noteq> c"
  shows "dev_fill (alias_st line) at [j..<n] pat h c = h c"
  using assms
proof (induction "n - j" arbitrary: j pat h)
  case (Suc d)
  then have "[j..<n] = j # [Suc j..<n]" by (simp add: upt_conv_Cons)
  then show ?case using Suc.hyps(1) [of "Suc j"] Suc.hyps(2) Suc.prems by (auto simp: alias_st_def)
qed simp

text \<open>A cell ends up with the pattern of the last offset that reaches it.\<close>

lemma dev_fill_last:
  assumes "i \<in> {j..<n}"
  shows "\<exists>k. i \<le> k \<and> k < n \<and> line (at k) = line (at i) \<and> (\<forall>k'. k < k' \<and> k' < n \<longrightarrow> line (at k') \<noteq> line (at i)) \<and>
     dev_fill (alias_st line) at [j..<n] pat h (line (at i)) = pat + of_nat (k - j)"
  using assms
proof (induction "n - j" arbitrary: i j pat h)
  case (Suc d)
  have dj: "d = n - Suc j" using Suc.hyps(2) by simp
  have up: "[j..<n] = j # [Suc j..<n]" using Suc.hyps(2) by (simp add: upt_conv_Cons)
  have later: "\<exists>k. i' \<le> k \<and> k < n \<and> line (at k) = line (at i') \<and> (\<forall>k'. k < k' \<and> k' < n \<longrightarrow> line (at k') \<noteq> line (at i')) \<and>
     dev_fill (alias_st line) at [j..<n] pat h (line (at i')) = pat + of_nat (k - j)" if i': "i' \<in> {Suc j..<n}" for i'
  proof -
    obtain k where k: "i' \<le> k" "k < n" "line (at k) = line (at i')" "\<forall>k'. k < k' \<and> k' < n \<longrightarrow> line (at k') \<noteq> line (at i')"
      "dev_fill (alias_st line) at [Suc j..<n] (pat + 1) (alias_st line (at j) pat h) (line (at i')) = pat + 1 + of_nat (k - Suc j)"
      using Suc.hyps(1) [OF dj i', of "pat + 1" "alias_st line (at j) pat h"] by blast
    have "k - j = Suc (k - Suc j)" using i' k(1) by auto
    then have "pat + 1 + of_nat (k - Suc j) = pat + of_nat (k - j)" by (simp only: of_nat_Suc add.assoc)
    then show ?thesis using k up by (intro exI [of _ k]) (simp del: of_nat_diff)
  qed
  consider "i \<in> {Suc j..<n}" | "i = j" "\<exists>i'\<in>{Suc j..<n}. line (at i') = line (at j)"
    | "i = j" "\<forall>i'\<in>{Suc j..<n}. line (at i') \<noteq> line (at j)"
    using Suc.prems by fastforce
  then show ?case
  proof cases
    case 1
    then show ?thesis by (rule later)
  next
    case 2
    then obtain i' where i': "i' \<in> {Suc j..<n}" "line (at i') = line (at j)" by blast
    obtain k where "i' \<le> k" "k < n" "line (at k) = line (at i')" "\<forall>k'. k < k' \<and> k' < n \<longrightarrow> line (at k') \<noteq> line (at i')"
      "dev_fill (alias_st line) at [j..<n] pat h (line (at i')) = pat + of_nat (k - j)"
      using later [OF i'(1)] by blast
    then show ?thesis using 2(1) i' by (intro exI [of _ k]) auto
  next
    case 3
    then have "dev_fill (alias_st line) at [Suc j..<n] (pat + 1) (alias_st line (at j) pat h) (line (at j)) = pat"
      by (subst dev_fill_keeps) (auto simp: alias_st_def)
    then show ?thesis using 3 up Suc.prems by (intro exI [of _ j]) auto
  qed
qed simp

lemma dev_invert_fails:
  assumes "i \<in> {j..<n}" "h (line (at i)) \<noteq> pat + of_nat (i - j)" "\<forall>i'\<in>{j..<i}. line (at i') \<noteq> line (at i)"
  shows "\<exists>k\<in>{j..<n}. fst (dev_invert (alias_st line) (alias_ld line) at [j..<n] pat h) = Some (at k)"
  using assms
proof (induction "n - j" arbitrary: j pat h)
  case (Suc d)
  have dj: "d = n - Suc j" using Suc.hyps(2) by simp
  have up: "[j..<n] = j # [Suc j..<n]" using Suc.hyps(2) by (simp add: upt_conv_Cons)
  show ?case
  proof (cases "h (line (at j)) = pat")
    case False
    then show ?thesis using Suc.hyps(2) by (auto simp: up alias_ld_def)
  next
    case True
    then have ij: "i \<noteq> j" using Suc.prems(2) by auto
    then have i: "i \<in> {Suc j..<n}" "i - j = Suc (i - Suc j)" using Suc.prems(1) by auto
    let ?h = "alias_st line (at j) (NOT pat) h"
    have "line (at j) \<noteq> line (at i)" using Suc.prems(1,3) ij by auto
    moreover have "pat + 1 + of_nat (i - Suc j) = pat + of_nat (i - j)" by (simp only: i(2) of_nat_Suc add.assoc)
    ultimately have ne: "?h (line (at i)) \<noteq> pat + 1 + of_nat (i - Suc j)"
      using Suc.prems(2) by (simp add: alias_st_def add.assoc del: of_nat_diff)
    have "\<forall>i'\<in>{Suc j..<i}. line (at i') \<noteq> line (at i)" using Suc.prems(3) by auto
    from Suc.hyps(1) [of "Suc j" ?h "pat + 1", OF dj i(1) ne this] obtain k where
      "k \<in> {Suc j..<n}" "fst (dev_invert (alias_st line) (alias_ld line) at [Suc j..<n] (pat + 1) ?h) = Some (at k)" by blast
    then show ?thesis using True by (intro bexI [of _ k]) (auto simp: up alias_ld_def)
  qed
qed simp

lemma dev_invert_pass:
  assumes "inj_on (\<lambda>i. line (at i)) {j..<n}" "\<forall>i\<in>{j..<n}. h (line (at i)) = pat + of_nat (i - j)"
  shows "\<exists>h'. dev_invert (alias_st line) (alias_ld line) at [j..<n] pat h = (None, h') \<and>
     (\<forall>c. c \<notin> (\<lambda>i. line (at i)) ` {j..<n} \<longrightarrow> h' c = h c) \<and>
     (\<forall>i\<in>{j..<n}. h' (line (at i)) = NOT (pat + of_nat (i - j)))"
  using assms
proof (induction "n - j" arbitrary: j pat h)
  case (Suc d)
  have dj: "d = n - Suc j" using Suc.hyps(2) by simp
  have up: "[j..<n] = j # [Suc j..<n]" and set: "{j..<n} = insert j {Suc j..<n}"
    using Suc.hyps(2) by (auto simp: upt_conv_Cons)
  let ?h = "alias_st line (at j) (NOT pat) h"
  have inj: "inj_on (\<lambda>i. line (at i)) {Suc j..<n}" and ne: "\<forall>i\<in>{Suc j..<n}. line (at i) \<noteq> line (at j)"
    using Suc.prems(1) by (auto simp: set inj_on_def)
  have sj: "pat + of_nat (i - j) = pat + 1 + of_nat (i - Suc j)" if "i \<in> {Suc j..<n}" for i
  proof -
    have "i - j = Suc (i - Suc j)" using that by auto
    then show ?thesis by (simp only: of_nat_Suc add.assoc)
  qed
  have "?h (line (at i)) = pat + 1 + of_nat (i - Suc j)" if i: "i \<in> {Suc j..<n}" for i
    using Suc.prems(2) ne i sj [OF i] by (auto simp: alias_st_def set simp del: of_nat_diff)
  then have "\<forall>i\<in>{Suc j..<n}. ?h (line (at i)) = pat + 1 + of_nat (i - Suc j)" by blast
  from Suc.hyps(1) [OF dj inj this] obtain h' where
    h': "dev_invert (alias_st line) (alias_ld line) at [Suc j..<n] (pat + 1) ?h = (None, h')"
      "\<forall>c. c \<notin> (\<lambda>i. line (at i)) ` {Suc j..<n} \<longrightarrow> h' c = ?h c"
      "\<forall>i\<in>{Suc j..<n}. h' (line (at i)) = NOT (pat + 1 + of_nat (i - Suc j))" by blast
  have "line (at j) \<notin> (\<lambda>i. line (at i)) ` {Suc j..<n}" using ne by force
  then have "h' (line (at j)) = NOT pat" using h'(2) by (simp add: alias_st_def)
  then have "\<forall>i\<in>{j..<n}. h' (line (at i)) = NOT (pat + of_nat (i - j))"
    using h'(3) sj by (simp add: set del: of_nat_diff)
  moreover have "\<forall>c. c \<notin> (\<lambda>i. line (at i)) ` {j..<n} \<longrightarrow> h' c = h c"
    using h'(2) by (auto simp: set alias_st_def)
  moreover have "h (line (at j)) = pat" using Suc.prems(2) by (simp add: set)
  ultimately show ?case using h'(1) by (auto simp: up alias_ld_def)
qed simp

lemma dev_check_pass:
  assumes "\<forall>i\<in>{j..<n}. h (line (at i)) = NOT (pat + of_nat (i - j))"
  shows "dev_check (alias_ld line) at [j..<n] pat h = (None, h)"
  using assms
proof (induction "n - j" arbitrary: j pat)
  case (Suc d)
  have dj: "d = n - Suc j" using Suc.hyps(2) by simp
  have up: "[j..<n] = j # [Suc j..<n]" using Suc.hyps(2) by (simp add: upt_conv_Cons)
  have "h (line (at i)) = NOT (pat + 1 + of_nat (i - Suc j))" if i: "i \<in> {Suc j..<n}" for i
  proof -
    have "i - j = Suc (i - Suc j)" "i \<in> {j..<n}" using i by auto
    then show ?thesis using Suc.prems by (simp only: of_nat_Suc add.assoc)
  qed
  then have "dev_check (alias_ld line) at [Suc j..<n] (pat + 1) h = (None, h)" using Suc.hyps(1) [OF dj] by blast
  moreover have "h (line (at j)) = NOT pat" using Suc.prems Suc.hyps(2) by auto
  ultimately show ?case by (simp add: up alias_ld_def)
qed simp

text \<open>
  C33: the device test over at most \<open>2 ^ w\<close> cells of width \<open>w\<close> passes exactly when no two of them are
  the same cell. As with the address test, none of the locations may be at address zero.
\<close>

theorem dev_loops_finds_aliases:
  fixes h :: "'c \<Rightarrow> 'a::len word"
  assumes "n \<le> 2 ^ LENGTH('a)" "\<forall>i<n. at i \<noteq> 0"
  shows "fst (dev_loops (alias_st line) (alias_ld line) at n h) = 0 \<longleftrightarrow> inj_on (\<lambda>i. line (at i)) {0..<n}"
proof
  let ?h = "dev_fill (alias_st line) at [0..<n] 1 h"
  assume inj: "inj_on (\<lambda>i. line (at i)) {0..<n}"
  have "?h (line (at i)) = 1 + of_nat i" if i: "i \<in> {0..<n}" for i
  proof -
    obtain k where k: "i \<le> k" "k < n" "line (at k) = line (at i)" "?h (line (at i)) = 1 + of_nat (k - 0)"
      using dev_fill_last [OF i] by blast
    then have "k = i" using inj i by (auto dest: inj_onD)
    then show ?thesis using k(4) by simp
  qed
  then obtain h' where "dev_invert (alias_st line) (alias_ld line) at [0..<n] 1 ?h = (None, h')"
      "\<forall>i\<in>{0..<n}. h' (line (at i)) = NOT (1 + of_nat (i - 0))"
    using dev_invert_pass [OF inj, of ?h 1] by auto
  then show "fst (dev_loops (alias_st line) (alias_ld line) at n h) = 0"
    using dev_check_pass [of 0 n h' line at 1] by (simp add: dev_loops_def)
next
  let ?h = "dev_fill (alias_st line) at [0..<n] 1 h"
  assume z: "fst (dev_loops (alias_st line) (alias_ld line) at n h) = 0"
  show "inj_on (\<lambda>i. line (at i)) {0..<n}"
  proof (rule ccontr)
    assume "\<not> inj_on (\<lambda>i. line (at i)) {0..<n}"
    then obtain a b where ab: "a < b" "b < n" "line (at a) = line (at b)"
      by (auto simp: inj_on_def) (metis linorder_neqE_nat)
    define i where "i = (LEAST i. line (at i) = line (at b))"
    have i: "line (at i) = line (at b)" "i \<le> a" "\<forall>i'\<in>{0..<i}. line (at i') \<noteq> line (at i)"
    proof -
      show "line (at i) = line (at b)" unfolding i_def using ab(3) by (rule LeastI)
      then show "\<forall>i'\<in>{0..<i}. line (at i') \<noteq> line (at i)" by (auto simp: i_def dest: not_less_Least)
      show "i \<le> a" unfolding i_def using ab(3) by (rule Least_le)
    qed
    then have "i \<in> {0..<n}" using ab by simp
    then obtain k where k: "k < n" "\<forall>k'. k < k' \<and> k' < n \<longrightarrow> line (at k') \<noteq> line (at i)"
      "?h (line (at i)) = 1 + of_nat (k - 0)" using dev_fill_last by blast
    have "b \<le> k" using k(2) ab i(1) by (metis not_less)
    then have "k \<noteq> i" using ab i(2) by simp
    then have "(of_nat k :: 'a word) \<noteq> of_nat i"
      using k(1) assms(1) i(2) ab by (auto simp: word_of_nat_eq_iff take_bit_nat_eq_self_iff take_bit_eq_mod)
    then have "?h (line (at i)) \<noteq> 1 + of_nat (i - 0)" using k(3) by simp
    from dev_invert_fails [of i 0 n ?h line at 1, OF \<open>i \<in> {0..<n}\<close> this i(3)] obtain m where
      "m \<in> {0..<n}" "fst (dev_invert (alias_st line) (alias_ld line) at [0..<n] 1 ?h) = Some (at m)" by blast
    then have "fst (dev_loops (alias_st line) (alias_ld line) at n h) = at m" "at m \<noteq> 0"
      using assms(2) by (auto simp: dev_loops_def split: prod.split)
    then show False using z by simp
  qed
qed

theorem dev_loops_finds_aliases_witness:
  "fst (dev_loops (alias_st id) (alias_ld id) (\<lambda>i. 0x10000000 + of_nat i) 200 (\<lambda>_. 0 :: u8)) = 0"
proof -
  have "i = j" if "i < 200" "j < 200" "(of_nat i :: u32) = of_nat j" for i j :: nat
    using that by (auto simp: word_of_nat_eq_iff take_bit_nat_eq_self)
  then have "inj_on (\<lambda>i. id ((0x10000000 :: u32) + of_nat i)) {0..<200}" by (auto simp: inj_on_def)
  moreover have "0x10000000 + of_nat i \<noteq> (0 :: u32)" if "i < 200" for i :: nat
  proof -
    have "unat (0x10000000 + of_nat i :: u32) = 0x10000000 + i"
      using that by (simp add: unat_word_ariths unat_of_nat)
    then show ?thesis by (metis add_is_0 unat_0 zero_neq_numeral)
  qed
  ultimately show ?thesis
    using dev_loops_finds_aliases [of 200 "\<lambda>i. 0x10000000 + of_nat i" id "\<lambda>_. 0 :: u8"] by simp
qed

section \<open>Running all the tests\<close>

lemma tests_loop_snoc:
  "tests_loop tests start mem_size (is @ [i]) n h =
     (case tests_loop tests start mem_size is n h of
        None \<Rightarrow> None | Some (n, h) \<Rightarrow> tests_loop tests start mem_size [i] n h)"
proof (induction "is" arbitrary: n h)
  case (Cons j "is")
  then show ?case by (auto split: option.splits)
qed simp

text \<open>
  asked for all tests, \<open>_mem_test\<close> returns what the last test, the 64-bit device test, gives on the
  memory the others left: how many bytes the eleven other tests passed, or that one of them failed,
  is lost.
\<close>

lemma mem_test_all_is_last:
  "mem_test d start mem_size (- 1) h =
     (case tests_loop (mem_tests d) start mem_size [1..<12] 0 h of
        None \<Rightarrow> None | Some (n, h') \<Rightarrow> mem_test d start mem_size 12 h')"
proof -
  have len: "length (mem_tests d) = 13" by (simp add: mem_tests_def)
  have last: "mem_tests d ! 12 = Some (dev_64bit d)" by (simp add: mem_tests_def)
  have split: "[Suc 0..<13] = [Suc 0..<12] @ [12]" by (simp add: upt_rec)
  have one: "[12..<13] = [12 :: nat]" by (simp add: upt_rec)
  have any: "tests_loop (mem_tests d) start mem_size [12] n g = tests_loop (mem_tests d) start mem_size [12] 0 g" for n g
    by (simp add: last)
  have "mem_test d start mem_size (- 1) h = tests_loop (mem_tests d) start mem_size ([1..<12] @ [12]) 0 h"
    using split by (simp add: mem_test_def len)
  moreover have "mem_test d start mem_size 12 g = tests_loop (mem_tests d) start mem_size [12] 0 g" for g
    by (simp add: mem_test_def len one Let_def)
  ultimately show ?thesis
    using any by (cases "tests_loop (mem_tests d) start mem_size [1..<12] 0 h")
      (auto simp only: tests_loop_snoc option.case split: prod.split)
qed

end
