(* ===== verification/Ipl_Mem.thy ===== *)
theory Ipl_Mem
  imports Prelude
begin

text \<open>
  The flat byte memory the initial program loader (\<open>src/hardware/ipl\<close>) works on, and its copy
  routine (\<open>ipl/lib/copy.c\<close>). Addresses are 32-bit and wrap. A C object at an address is the run
  of bytes \<open>bytes_at\<close> reads and \<open>store\<close> writes; a multi-byte integer is little-endian, as on the
  target. \<open>span a n\<close> is the set of the \<open>n\<close> addresses from \<open>a\<close> on.
\<close>

type_synonym mem = "u32 \<Rightarrow> u8"

named_theorems mem_rules "reading memory after writing it"

fun bytes_at :: "mem \<Rightarrow> u32 \<Rightarrow> nat \<Rightarrow> u8 list" where
  "bytes_at m a 0 = []"
| "bytes_at m a (Suc n) = m a # bytes_at m (a + 1) n"

fun store :: "u32 \<Rightarrow> u8 list \<Rightarrow> mem \<Rightarrow> mem" where
  "store a [] m = m"
| "store a (b # bs) m = store (a + 1) bs (m(a := b))"

fun le_nat :: "u8 list \<Rightarrow> nat" where
  "le_nat [] = 0"
| "le_nat (b # bs) = unat b + 256 * le_nat bs"

fun le_bytes :: "nat \<Rightarrow> nat \<Rightarrow> u8 list" where
  "le_bytes 0 v = []"
| "le_bytes (Suc n) v = word_of_nat v # le_bytes n (v div 256)"

definition u16_at :: "mem \<Rightarrow> u32 \<Rightarrow> u16" where
  "u16_at m a = word_of_nat (le_nat (bytes_at m a 2))"

definition u32_at :: "mem \<Rightarrow> u32 \<Rightarrow> u32" where
  "u32_at m a = word_of_nat (le_nat (bytes_at m a 4))"

definition store32 :: "u32 \<Rightarrow> u32 \<Rightarrow> mem \<Rightarrow> mem" where
  "store32 a v m = store a (le_bytes 4 (unat v)) m"

definition span :: "u32 \<Rightarrow> nat \<Rightarrow> u32 set" where
  "span a n = (\<lambda>i. a + of_nat i) ` {..<n}"

section \<open>Polling a device\<close>

text \<open>
  \<open>while (!test()) ;\<close> where the test reads device registers, so that it changes the state it is
  made in. A test that never succeeds is a loop that never ends.
\<close>

partial_function (option) spin_until :: "('s \<Rightarrow> bool \<times> 's) \<Rightarrow> 's \<Rightarrow> 's option" where
  "spin_until t s = (case t s of (ok, s) \<Rightarrow> if ok then Some s else spin_until t s)"

lemma spin_ready: "t s = (True, s') \<Longrightarrow> spin_until t s = Some s'"
  by (subst spin_until.simps) simp

section \<open>\<open>ipl/lib/copy.c\<close>\<close>

fun copy_words :: "nat \<Rightarrow> u32 \<Rightarrow> u32 \<Rightarrow> mem \<Rightarrow> u32 \<times> u32 \<times> mem" where
  "copy_words 0 dest src m = (dest, src, m)"
| "copy_words (Suc sz) dest src m = copy_words sz (dest + 4) (src + 4) (store dest (bytes_at m src 4) m)"

fun copy_bytes :: "nat \<Rightarrow> u32 \<Rightarrow> u32 \<Rightarrow> mem \<Rightarrow> u32 \<times> u32 \<times> mem" where
  "copy_bytes 0 dest src m = (dest, src, m)"
| "copy_bytes (Suc remainder) dest src m = copy_bytes remainder (dest + 1) (src + 1) (m(dest := m src))"

definition copy_memory :: "u32 \<Rightarrow> u32 \<Rightarrow> u32 \<Rightarrow> mem \<Rightarrow> mem" where
  "copy_memory dest src sz m =
     (let remainder = unat (sz AND 3);
          (dest, src, m) = copy_words (unat (drop_bit 2 sz)) dest src m;
          (dest, src, m) = copy_bytes remainder dest src m
      in m)"

definition copy :: "u32 \<Rightarrow> u32 \<Rightarrow> u32 \<Rightarrow> mem \<Rightarrow> mem" where
  "copy dst src sz m = copy_memory dst src sz m"

section \<open>Spans, reads and writes\<close>

lemma length_bytes_at [simp]: "length (bytes_at m a n) = n"
  by (induction n arbitrary: a) simp_all

lemma nth_bytes_at: "i < n \<Longrightarrow> bytes_at m a n ! i = m (a + of_nat i)"
  by (induction n arbitrary: a i) (auto simp: nth_Cons' algebra_simps of_nat_diff)

lemma bytes_at_cong: "(\<And>x. x \<in> span a n \<Longrightarrow> m x = m' x) \<Longrightarrow> bytes_at m a n = bytes_at m' a n"
  by (rule nth_equalityI) (auto simp: nth_bytes_at span_def)

lemma bytes_at_append: "bytes_at m a (i + j) = bytes_at m a i @ bytes_at m (a + of_nat i) j"
  by (induction i arbitrary: a) (simp_all add: algebra_simps)

lemma span_0 [simp]: "span a 0 = {}" by (simp add: span_def)

lemma span_Suc: "span a (Suc n) = insert a (span (a + 1) n)"
proof -
  have "span a (Suc n) = insert a ((\<lambda>i. a + of_nat (Suc i)) ` {..<n})"
    by (simp only: span_def lessThan_Suc_eq_insert_0 image_insert image_image) simp
  then show ?thesis by (simp add: span_def algebra_simps)
qed

lemma span_add: "span a (i + j) = span a i \<union> span (a + of_nat i) j"
  by (induction i arbitrary: a) (simp_all add: span_Suc algebra_simps)

lemma span_mono: "i \<le> j \<Longrightarrow> span a i \<subseteq> span a j"
  by (auto simp: span_def)

lemma span_offset: "i + j \<le> n \<Longrightarrow> span (a + of_nat i) j \<subseteq> span a n"
  using span_add [of a i j] span_mono [of "i + j" n a] by auto

lemma offset_notin_span:
  assumes "k < i \<or> i + l \<le> k" "k < 2 ^ 32" "i + l \<le> 2 ^ 32"
  shows "a + of_nat k \<notin> span (a + of_nat i) l"
proof
  assume "a + of_nat k \<in> span (a + of_nat i) l"
  then obtain j where j: "j < l" "(of_nat k :: u32) = of_nat (i + j)"
    by (auto simp: span_def add.assoc)
  then have "unat (of_nat k :: u32) = unat (of_nat (i + j) :: u32)" by simp
  then have "k mod 2 ^ 32 = (i + j) mod 2 ^ 32" by (simp only: unat_of_nat) simp
  then show False using j assms by simp
qed

lemma span_offsets_disjoint:
  assumes "i + l \<le> j" "j + k \<le> 2 ^ 32"
  shows "span (a + of_nat i) l \<inter> span (a + of_nat j) k = {}"
proof -
  have "a + of_nat (i + n) \<notin> span (a + of_nat j) k" if "n < l" for n
    using that assms by (intro offset_notin_span) auto
  moreover have "x \<in> span (a + of_nat i) l \<Longrightarrow> \<exists>n<l. x = a + of_nat (i + n)" for x
    by (auto simp: span_def add.assoc)
  ultimately show ?thesis by blast
qed

lemma store_notin [mem_rules]: "x \<notin> span a (length bs) \<Longrightarrow> store a bs m x = m x"
  by (induction a bs m rule: store.induct) (auto simp: span_Suc)

lemma span_fresh: "n < 2 ^ 32 \<Longrightarrow> a \<notin> span (a + 1) n"
proof
  assume n: "n < 2 ^ 32" and "a \<in> span (a + 1) n"
  then obtain i where i: "i < n" "a = a + 1 + of_nat i" by (auto simp: span_def)
  then have "(1 + of_nat i :: u32) = 0" by (metis add.assoc add_cancel_right_right)
  then have "unat (of_nat (Suc i) :: u32) = 0" by simp
  then have "Suc i mod 2 ^ 32 = 0" by (simp only: unat_of_nat) simp
  with i n show False by simp
qed

lemma nth_store:
  "i < length bs \<Longrightarrow> length bs \<le> 2 ^ 32 \<Longrightarrow> store a bs m (a + of_nat i) = bs ! i"
proof (induction bs arbitrary: a m i)
  case (Cons b bs)
  show ?case
  proof (cases i)
    case 0
    have "length bs < 2 ^ 32" using Cons.prems by simp
    then have "store (a + 1) bs (m(a := b)) a = b"
      using span_fresh [of "length bs" a] by (subst store_notin) simp_all
    then show ?thesis using 0 by simp
  next
    case (Suc j)
    then show ?thesis using Cons.IH [of j "a + 1" "m(a := b)"] Cons.prems by (simp add: algebra_simps del: fun_upd_apply)
  qed
qed simp

lemma bytes_at_store [mem_rules]:
  "length bs \<le> 2 ^ 32 \<Longrightarrow> n = length bs \<Longrightarrow> bytes_at (store a bs m) a n = bs"
  by (rule nth_equalityI) (simp_all add: nth_bytes_at nth_store)

lemma bytes_at_store_disjoint [mem_rules]:
  "span a n \<inter> span b (length bs) = {} \<Longrightarrow> bytes_at (store b bs m) a n = bytes_at m a n"
  by (rule bytes_at_cong) (simp add: store_notin disjoint_iff)

lemma store_append: "store a (xs @ ys) m = store (a + of_nat (length xs)) ys (store a xs m)"
  by (induction xs arbitrary: a m) (simp_all add: algebra_simps)

lemma le_nat_less: "le_nat bs < 256 ^ length bs"
proof (induction bs)
  case (Cons b bs)
  then show ?case using unsigned_less [of b, where ?'a = nat] by simp
qed simp

lemma le_nat_bytes: "le_nat (le_bytes n v) = v mod 256 ^ n"
proof (induction n arbitrary: v)
  case (Suc n)
  have "unat (word_of_nat v :: u8) = v mod 256" by (simp add: unat_of_nat)
  then show ?case using Suc by (simp add: mod_mult2_eq algebra_simps)
qed simp

lemma length_le_bytes [simp]: "length (le_bytes n v) = n"
  by (induction n arbitrary: v) simp_all

lemma u32_at_store32 [mem_rules]: "u32_at (store32 a v m) a = v"
  using unat_lt32 [of v]
  by (simp add: u32_at_def store32_def bytes_at_store le_nat_bytes)

lemma u32_at_cong: "bytes_at m a 4 = bytes_at m' a' 4 \<Longrightarrow> u32_at m a = u32_at m' a'"
  by (simp add: u32_at_def)

section \<open>The copy is \<open>memcpy\<close>\<close>

lemma copy_words_eq:
  assumes "span dest (4 * n) \<inter> span src (4 * n) = {}"
  shows "copy_words n dest src m =
     (dest + of_nat (4 * n), src + of_nat (4 * n), store dest (bytes_at m src (4 * n)) m)"
  using assms
proof (induction n arbitrary: dest src m)
  case (Suc n)
  have sp: "span x (4 * Suc n) = span x 4 \<union> span (x + 4) (4 * n)" for x
    using span_add [of x 4 "4 * n"] by simp
  have rd: "bytes_at m src (4 * Suc n) = bytes_at m src 4 @ bytes_at m (src + 4) (4 * n)"
    using bytes_at_append [of m src 4 "4 * n"] by simp
  let ?m = "store dest (bytes_at m src 4) m"
  have "bytes_at ?m (src + 4) (4 * n) = bytes_at m (src + 4) (4 * n)"
    using Suc.prems by (intro bytes_at_store_disjoint) (simp only: sp length_bytes_at, blast)
  moreover have "span (dest + 4) (4 * n) \<inter> span (src + 4) (4 * n) = {}"
    using Suc.prems by (simp only: sp) blast
  moreover have "store dest (bytes_at m src (4 * Suc n)) m = store (dest + 4) (bytes_at m (src + 4) (4 * n)) ?m"
    by (simp only: rd store_append) simp
  ultimately show ?case
    using Suc.IH [of "dest + 4" "src + 4" ?m] by (simp del: mult_Suc_right add: algebra_simps)
qed simp

lemma copy_bytes_eq:
  assumes "span dest n \<inter> span src n = {}"
  shows "copy_bytes n dest src m = (dest + of_nat n, src + of_nat n, store dest (bytes_at m src n) m)"
  using assms
proof (induction n arbitrary: dest src m)
  case (Suc n)
  have "bytes_at (m(dest := m src)) (src + 1) n = bytes_at m (src + 1) n"
    using Suc.prems by (intro bytes_at_cong) (auto simp: span_Suc)
  moreover have "span (dest + 1) n \<inter> span (src + 1) n = {}"
    using Suc.prems by (auto simp: span_Suc)
  ultimately show ?case
    using Suc.IH [of "dest + 1" "src + 1" "m(dest := m src)"]
    by (simp add: algebra_simps del: fun_upd_apply)
qed simp

lemma split4: "unat (sz :: u32) = 4 * unat (drop_bit 2 sz) + unat (sz AND 3)"
proof -
  have "sz AND 3 = take_bit 2 sz" by (simp add: take_bit_eq_mask mask_eq_exp_minus_1)
  then have "unat (sz AND 3) = unat sz mod 4"
    by (simp only: unsigned_take_bit_eq) (simp add: take_bit_eq_mod)
  then show ?thesis by (simp add: unat_drop_bit)
qed

lemma copy_eq:
  assumes "span dst (unat sz) \<inter> span src (unat sz) = {}"
  shows "copy dst src sz m = store dst (bytes_at m src (unat sz)) m"
proof -
  let ?n = "unat (drop_bit 2 sz)" and ?r = "unat (sz AND 3)"
  note sz = split4 [of sz]
  have sp: "span x (unat sz) = span x (4 * ?n) \<union> span (x + of_nat (4 * ?n)) ?r" for x
    by (simp only: sz span_add)
  have w: "copy_words ?n dst src m = (dst + of_nat (4 * ?n), src + of_nat (4 * ?n),
      store dst (bytes_at m src (4 * ?n)) m)"
    using assms by (intro copy_words_eq) (auto simp only: sp)
  let ?m = "store dst (bytes_at m src (4 * ?n)) m" and ?d = "dst + of_nat (4 * ?n)" and ?s = "src + of_nat (4 * ?n)"
  have b: "copy_bytes ?r ?d ?s ?m = (?d + of_nat ?r, ?s + of_nat ?r, store ?d (bytes_at ?m ?s ?r) ?m)"
    using assms by (intro copy_bytes_eq) (auto simp only: sp)
  have "bytes_at ?m ?s ?r = bytes_at m ?s ?r"
    using assms by (intro bytes_at_store_disjoint) (auto simp: sp)
  moreover have "bytes_at m src (unat sz) = bytes_at m src (4 * ?n) @ bytes_at m ?s ?r"
    by (simp only: sz bytes_at_append)
  ultimately show ?thesis
    by (simp only: copy_def copy_memory_def Let_def w b prod.case store_append length_bytes_at)
qed

lemma copy_frame: "span dst (unat sz) \<inter> span src (unat sz) = {} \<Longrightarrow> x \<notin> span dst (unat sz) \<Longrightarrow> copy dst src sz m x = m x"
  by (simp add: copy_eq store_notin)

lemma bytes_at_copy:
  "span dst (unat sz) \<inter> span src (unat sz) = {} \<Longrightarrow>
    bytes_at (copy dst src sz m) dst (unat sz) = bytes_at m src (unat sz)"
  using unat_lt32 [of sz] by (simp add: copy_eq bytes_at_store)

end
