(* ===== verification/Ipl_Sdmmc.thy ===== *)
theory Ipl_Sdmmc
  imports Ipl_Mem
begin

text \<open>
  The SD/MMC driver of the board's loader, \<open>ipl/boards/mx6q-sabresmart/sdmmc.c\<close>: the controller's
  clock, bus width and reset, one command with its response and its DMA, the parsing of a card's CSD
  and CID registers, the identification of a card and the reading of blocks. The controller is a
  parameter: reading or writing one of its registers changes a device state and, by DMA, memory.
  \<open>delay\<close> only takes time and is left out. A loop on a status bit that never comes is \<open>None\<close>.
\<close>

type_synonym 'h mach = "'h \<times> mem"

record 'h hbus =
  reg_rd :: "u32 \<Rightarrow> 'h mach \<Rightarrow> u32 \<times> 'h mach"
  reg_wr :: "u32 \<Rightarrow> u32 \<Rightarrow> 'h mach \<Rightarrow> 'h mach"

datatype card_type = NO_CARD | EMMC | ESDC | ESDC_V200 | ESDC_HC | EMMC_HC

record sdmmc_cmd =
  cmd_cmd :: int
  cmd_arg :: u32
  cmd_bsize :: u32
  cmd_bcnt :: u32
  cmd_dbuf :: u32
  cmd_erintsts :: u16

record card =
  card_state :: u32
  card_type :: card_type
  blk_size :: u32
  blk_num :: u32
  card_speed :: u32
  card_rca :: u16

datatype csd_union =
    Csd_ver1 (v1_c_size: u16) (vdd_r_curr_min: u8) (vdd_r_curr_max: u8) (vdd_w_curr_min: u8) (vdd_w_curr_max: u8)
      (c_size_mult: u8)
  | Csd_ver2 (v2_c_size: u32)

record sd_csd =
  csd_structure :: u8
  taac :: u8
  nsac :: u8
  tran_speed :: u8
  ccc :: u16
  read_bl_len :: u8
  read_bl_partial :: u8
  write_blk_misalign :: u8
  read_blk_misalign :: u8
  dsr_imp :: u8
  csd_size :: csd_union
  erase_blk_en :: u8
  sector_size :: u8
  wp_grp_size :: u8
  wp_grp_enable :: u8
  r2w_factor :: u8
  write_bl_len :: u8
  write_bl_partial :: u8
  file_format_grp :: u8
  csd_copy :: u8
  perm_write_protect :: u8
  tmp_write_protect :: u8
  file_format :: u8

record sd_cid =
  sd_mid :: u8
  sd_oid :: "u8 list"
  sd_pnm :: "u8 list"
  sd_prv :: u8
  sd_psn :: u32
  sd_mdt :: u16

record mmc_csd =
  mmc_csd_structure :: u8
  mmc_prot :: u8
  mmc_tran_speed :: u8
  mmc_read_bl_len :: u8
  mmc_c_size :: u16
  mmc_c_size_mult :: u8

record mmc_cid =
  mmc_mid :: u32
  mmc_oid :: u16
  mmc_ycd :: u16
  mmc_pnm :: "u8 list"
  mmc_hwr :: u8
  mmc_fwr :: u8
  mmc_mcd :: u8
  mmc_psn :: u32

record 'h sdmmc =
  mach :: "'h mach"
  sdmmc_pbase :: u32
  icr :: u32
  ocr :: u32
  sd_cmd :: sdmmc_cmd
  sd_card :: card
  csd_sd :: sd_csd
  cid_sd :: sd_cid
  csd_mmc :: mmc_csd
  cid_mmc :: mmc_cid

abbreviation SDMMC_OK :: int where "SDMMC_OK \<equiv> 0"
abbreviation SDMMC_ERROR :: int where "SDMMC_ERROR \<equiv> - 1"
abbreviation SDMMC_BLOCKSIZE :: u32 where "SDMMC_BLOCKSIZE \<equiv> 512"
abbreviation SDMMC_CLK_DEFAULT :: u32 where "SDMMC_CLK_DEFAULT \<equiv> 198000000"
abbreviation POWER_UP_WAIT :: nat where "POWER_UP_WAIT \<equiv> 40"
abbreviation MMC_TRAN :: u32 where "MMC_TRAN \<equiv> 0x800"
abbreviation MMCINTR_ERRI :: u32 where "MMCINTR_ERRI \<equiv> 0x017F0000"
abbreviation SD_SET_BUS_WIDTH :: int where "SD_SET_BUS_WIDTH \<equiv> 0x3706"
abbreviation SD_SEND_OP_COND :: int where "SD_SEND_OP_COND \<equiv> 0x3729"

section \<open>Register access\<close>

definition sd_in :: "'h hbus \<Rightarrow> u32 \<Rightarrow> 'h sdmmc \<Rightarrow> u32 \<times> 'h sdmmc" where
  "sd_in b off s = (let (v, m) = reg_rd b (sdmmc_pbase s + off) (mach s) in (v, s\<lparr>mach := m\<rparr>))"

definition sd_out :: "'h hbus \<Rightarrow> u32 \<Rightarrow> u32 \<Rightarrow> 'h sdmmc \<Rightarrow> 'h sdmmc" where
  "sd_out b off v s = s\<lparr>mach := reg_wr b (sdmmc_pbase s + off) v (mach s)\<rparr>"

definition sd_upd :: "'h hbus \<Rightarrow> u32 \<Rightarrow> (u32 \<Rightarrow> u32) \<Rightarrow> 'h sdmmc \<Rightarrow> 'h sdmmc" where
  "sd_upd b off f s = (let (v, s) = sd_in b off s in sd_out b off (f v) s)"

definition sd_wait_set :: "'h hbus \<Rightarrow> u32 \<Rightarrow> u32 \<Rightarrow> 'h sdmmc \<Rightarrow> 'h sdmmc option" where
  "sd_wait_set b off bits s = spin_until (\<lambda>s. let (v, s) = sd_in b off s in (v AND bits \<noteq> 0, s)) s"

definition sd_wait_clear :: "'h hbus \<Rightarrow> u32 \<Rightarrow> u32 \<Rightarrow> 'h sdmmc \<Rightarrow> 'h sdmmc option" where
  "sd_wait_clear b off bits s = spin_until (\<lambda>s. let (v, s) = sd_in b off s in (v AND bits = 0, s)) s"

section \<open>The command table\<close>

definition cmdtab :: "(int \<times> u32) list" where
  "cmdtab =
     (let cicen = 0x100000; cccen = 0x80000; l136 = 0x10000; l48 = 0x20000; l48b = 0x30000; dpsel = 0x200000
      in [(0, push_bit 24 0), (1, push_bit 24 1 OR l48), (2, push_bit 24 2 OR cccen OR l136),
          (3, push_bit 24 3 OR cicen OR cccen OR l48), (6, push_bit 24 6 OR cicen OR cccen OR l48b),
          (7, push_bit 24 7 OR cicen OR cccen OR l48b), (8, push_bit 24 8 OR cicen OR cccen OR l48),
          (9, push_bit 24 9 OR cccen OR l136), (13, push_bit 24 13 OR cicen OR cccen OR l48),
          (16, push_bit 24 16 OR cicen OR cccen OR l48), (17, push_bit 24 17 OR cicen OR cccen OR l48 OR dpsel),
          (18, push_bit 24 18 OR cicen OR cccen OR l48 OR dpsel), (55, push_bit 24 55 OR cicen OR cccen OR l48),
          (0x3706, push_bit 24 6 OR cicen OR cccen OR l48), (0x3729, push_bit 24 41 OR l48)])"

definition get_cmd :: "int \<Rightarrow> (int \<times> u32) option" where
  "get_cmd c = find (\<lambda>(n, w). n = c) cmdtab"

section \<open>Clock, bus width, reset\<close>

fun pre_div_loop :: "u32 \<Rightarrow> nat \<Rightarrow> u32 \<Rightarrow> u32" where
  "pre_div_loop frq 0 pre_div = pre_div"
| "pre_div_loop frq (Suc n) pre_div =
     (if SDMMC_CLK_DEFAULT div pre_div \<le> frq * 16 then pre_div else pre_div_loop frq n (pre_div * 2))"

fun div_search :: "u32 \<Rightarrow> u32 \<Rightarrow> nat \<Rightarrow> u32 \<Rightarrow> u32" where
  "div_search frq pre_div 0 dv = dv"
| "div_search frq pre_div (Suc n) dv =
     (if SDMMC_CLK_DEFAULT div (dv * pre_div) \<le> frq then dv else div_search frq pre_div n (dv + 1))"

text \<open>\<open>pre_div\<close> takes the values 2 to 128 in the loop, seven of them, and 256 after it; \<open>div\<close> 1 to 16, and 17 after it.\<close>

definition frq_divisors :: "u32 \<Rightarrow> u32 \<times> u32" where
  "frq_divisors frq =
     (let pre_div = (if frq < SDMMC_CLK_DEFAULT div 16 then pre_div_loop frq 7 2 else 2)
      in (pre_div, div_search frq pre_div 16 1))"

definition sdmmc_set_frq :: "'h hbus \<Rightarrow> u32 \<Rightarrow> 'h sdmmc \<Rightarrow> 'h sdmmc option" where
  "sdmmc_set_frq b frq s =
     (let (pre_div, dv) = frq_divisors frq;
          clk = push_bit 8 (drop_bit 1 pre_div) OR push_bit 4 (dv - 1);
          s = sd_upd b 0x2C (\<lambda>v. v AND NOT 8) s;
          s = sd_upd b 0x2C (\<lambda>v. v AND NOT (0xFF00 OR 0xF0)) s;
          s = sd_upd b 0x2C (\<lambda>v. v OR clk) s
      in do { s \<leftarrow> sd_wait_set b 0x24 8 s; Some (sd_upd b 0x2C (\<lambda>v. v OR 8) s) })"

definition sd_set_bus_width :: "'h hbus \<Rightarrow> int \<Rightarrow> 'h sdmmc \<Rightarrow> 'h sdmmc" where
  "sd_set_bus_width b width s =
     (let (tmp, s) = sd_in b 0x28 s;
          s = sd_out b 0x28 (tmp AND NOT 6) s;
          (tmp, s) = sd_in b 0x28 s
      in if width = 8 then sd_out b 0x28 (tmp OR 0x20 OR 4) s
         else if width = 4 then sd_out b 0x28 (tmp OR 0x20 OR 2) s
         else sd_out b 0x28 (tmp OR 0x20) s)"

definition sdmmc_init_ctrl :: "'h hbus \<Rightarrow> 'h sdmmc \<Rightarrow> (int \<times> 'h sdmmc) option" where
  "sdmmc_init_ctrl b s =
     do { let s = s\<lparr>icr := 0x000001aa, ocr := 0x00300000\<rparr>;
          let s = sd_out b 0x34 0 s;
          let s = sd_upd b 0x2C (\<lambda>v. v OR 0x1000000) s;
          s \<leftarrow> sd_wait_clear b 0x2C 0x1000000 s;
          s \<leftarrow> sdmmc_set_frq b 400000 s;
          let s = sd_out b 0x28 0x20 s;
          let s = sd_out b 0x38 0x017F0003 s;
          let s = sd_out b 0x34 0x017F0003 s;
          Some (SDMMC_OK, s) }"

definition sdmmc_fini :: "'h hbus \<Rightarrow> 'h sdmmc \<Rightarrow> int \<times> 'h sdmmc" where
  "sdmmc_fini b s =
     (let s = sd_out b 0x38 0 s;
          s = sd_out b 0x34 0 s;
          s = sd_out b 0x30 0x017F0003 s;
          s = sd_out b 0x2C 0 s
      in (0, s))"

section \<open>One command\<close>

definition CMD_CREATE :: "int \<Rightarrow> u32 \<Rightarrow> u32 \<Rightarrow> u32 \<Rightarrow> u32 \<Rightarrow> 'h sdmmc \<Rightarrow> 'h sdmmc" where
  "CMD_CREATE c arg bsize bcnt dbuf s =
     s\<lparr>sd_cmd := \<lparr>cmd_cmd = c, cmd_arg = arg, cmd_bsize = bsize, cmd_bcnt = bcnt, cmd_dbuf = dbuf, cmd_erintsts = 0\<rparr>\<rparr>"

definition mx6x_setup_dma_read :: "'h hbus \<Rightarrow> 'h sdmmc \<Rightarrow> 'h sdmmc" where
  "mx6x_setup_dma_read b s =
     (let s = sd_out b 0x04 (push_bit 16 (cmd_bcnt (sd_cmd s)) OR cmd_bsize (sd_cmd s)) s;
          s = sd_out b 0x00 (cmd_dbuf (sd_cmd s)) s;
          (sys_ctl, s) = sd_in b 0x2C s
      in sd_out b 0x2C ((sys_ctl AND NOT 0xF0000) OR push_bit 16 14) s)"

definition reset_cmd_line :: "'h hbus \<Rightarrow> 'h sdmmc \<Rightarrow> 'h sdmmc option" where
  "reset_cmd_line b s =
     (let s = sd_upd b 0x2C (\<lambda>v. v OR 0x2000000) s in sd_wait_clear b 0x2C 0x2000000 s)"

text \<open>
  The end of a data transfer: after a wait for transfer complete or an error, the status is read
  again, and once more, before the loop decides.
\<close>

partial_function (option) data_wait :: "'h hbus \<Rightarrow> 'h sdmmc \<Rightarrow> (int \<times> 'h sdmmc) option" where
  "data_wait b s =
     do { s \<leftarrow> sd_wait_set b 0x30 (2 OR MMCINTR_ERRI) s;
          let (v, s) = sd_in b 0x30 s;
          if v AND MMCINTR_ERRI \<noteq> 0 then do { s \<leftarrow> reset_cmd_line b s; Some (SDMMC_ERROR, s) }
          else do { let (v, s) = sd_in b 0x30 s;
                    if v AND 2 \<noteq> 0 then Some (SDMMC_OK, s) else data_wait b s } }"

text \<open>
  \<open>rsp\<close> is the response buffer the command points to, \<open>None\<close> for a null pointer. A short response
  fills its first word only.
\<close>

definition read_response :: "'h hbus \<Rightarrow> u32 \<Rightarrow> u32 list \<Rightarrow> 'h sdmmc \<Rightarrow> u32 list \<times> 'h sdmmc" where
  "read_response b w rsp s =
     (let (r0, s) = sd_in b 0x10 s
      in if w AND 0x30000 = 0x10000 then
           (let (r1, s) = sd_in b 0x14 s;
                (r2, s) = sd_in b 0x18 s;
                (r3, s) = sd_in b 0x1C s
            in ([push_bit 8 r0, push_bit 8 r1 OR drop_bit 24 r0, push_bit 8 r2 OR drop_bit 24 r1,
                 push_bit 8 r3 OR drop_bit 24 r2], s))
         else (rsp[0 := r0], s))"

definition sdmmc_send_cmd :: "'h hbus \<Rightarrow> u32 list option \<Rightarrow> 'h sdmmc \<Rightarrow> (int \<times> u32 list option \<times> 'h sdmmc) option" where
  "sdmmc_send_cmd b rsp s =
     (case get_cmd (cmd_cmd (sd_cmd s)) of
        None \<Rightarrow> Some (SDMMC_ERROR, rsp, s)
      | Some (n, w) \<Rightarrow>
          do {
            let data_txf = (w AND 0x200000 \<noteq> 0);
            s \<leftarrow> spin_until (\<lambda>s. let (v, s) = sd_in b 0x24 s
                                  in if v AND 2 \<noteq> 0 then (False, s)
                                     else (let (v, s) = sd_in b 0x24 s in (v AND 1 = 0, s))) s;
            s \<leftarrow> sd_wait_clear b 0x24 4 s;
            (mix_ctrl, s) \<leftarrow>
              (if n = 0 then
                 (let s = sd_upd b 0x2C (\<lambda>v. v OR 0x8000000 OR 0x20000) s
                  in do { s \<leftarrow> sd_wait_clear b 0x2C 0x8000000 s; Some (0, s) })
               else if n = 17 then Some (0x10 OR 1, s)
               else if n = 18 then Some (0x20 OR 2 OR 4 OR 0x10 OR 1, s)
               else Some (0, s));
            let s = (if data_txf then mx6x_setup_dma_read b s else s);
            let s = sd_out b 0x30 0xffffffff s;
            let s = sd_out b 0x44 0x80 s;
            let s = sd_out b 0x08 (cmd_arg (sd_cmd s)) s;
            let (v, s) = sd_in b 0x48 s;
            let s = sd_out b 0x48 (mix_ctrl OR (v AND 0x3C00000)) s;
            let s = sd_out b 0x0C w s;
            s \<leftarrow> sd_wait_set b 0x30 (1 OR MMCINTR_ERRI) s;
            let (temp, s) = sd_in b 0x30 s;
            if temp AND MMCINTR_ERRI \<noteq> 0 \<and> temp \<noteq> 2
            then do { let s = s\<lparr>sd_cmd := (sd_cmd s)\<lparr>cmd_erintsts := ucast temp\<rparr>\<rparr>;
                      s \<leftarrow> reset_cmd_line b s; Some (SDMMC_ERROR, rsp, s) }
            else do {
              let (rsp, s) = (case rsp of None \<Rightarrow> (None, s)
                              | Some r \<Rightarrow> (let (r, s) = read_response b w r s in (Some r, s)));
              (st, s) \<leftarrow> (if data_txf then data_wait b s else Some (SDMMC_OK, s));
              Some (st, rsp, s) } })"

text \<open>A command whose response the caller does not look at, and the status alone.\<close>

definition send_plain :: "'h hbus \<Rightarrow> int \<Rightarrow> u32 \<Rightarrow> 'h sdmmc \<Rightarrow> (int \<times> 'h sdmmc) option" where
  "send_plain b c arg s =
     do { (st, _, s) \<leftarrow> sdmmc_send_cmd b None (CMD_CREATE c arg 0 0 0 s); Some (st, s) }"

definition send_rsp :: "'h hbus \<Rightarrow> int \<Rightarrow> u32 \<Rightarrow> u32 list \<Rightarrow> 'h sdmmc \<Rightarrow> (int \<times> u32 list \<times> 'h sdmmc) option" where
  "send_rsp b c arg rsp s =
     do { (st, r, s) \<leftarrow> sdmmc_send_cmd b (Some rsp) (CMD_CREATE c arg 0 0 0 s);
          Some (st, (case r of None \<Rightarrow> rsp | Some r \<Rightarrow> r), s) }"

definition rca_arg :: "'h sdmmc \<Rightarrow> u32" where
  "rca_arg s = push_bit 16 (ucast (card_rca (sd_card s)))"

definition sdmmc_get_state :: "'h hbus \<Rightarrow> 'h sdmmc \<Rightarrow> (int \<times> 'h sdmmc) option" where
  "sdmmc_get_state b s =
     do { (st, rsp, s) \<leftarrow> send_rsp b 13 (rca_arg s) [0] s;
          if st \<noteq> SDMMC_OK then Some (SDMMC_ERROR, s)
          else Some (SDMMC_OK, s\<lparr>sd_card := (sd_card s)\<lparr>card_state := hd rsp AND 0x1e00\<rparr>\<rparr>) }"

definition sdmmc_check_ocr :: "'h hbus \<Rightarrow> u32 \<Rightarrow> 'h sdmmc \<Rightarrow> (int \<times> 'h sdmmc) option" where
  "sdmmc_check_ocr b v s =
     (if v AND ocr s \<noteq> 0 then Some (SDMMC_OK, s)
      else do { (_, s) \<leftarrow> send_plain b 0 0 s; Some (SDMMC_ERROR, s) })"

section \<open>Card registers\<close>

definition sdmmc_tran_speed :: "u8 \<Rightarrow> u32" where
  "sdmmc_tran_speed ts =
     ([100, 1000, 10000, 100000, 0, 0, 0, 0] ! unat (ts AND 7)) *
     ([0, 1000, 1200, 1300, 1500, 2000, 2500, 3000, 3500, 4000, 4500, 5000, 5500, 6000, 7000, 8000] !
        unat (drop_bit 3 (ts AND 0x78)))"

definition parse_sd_csd :: "u32 list \<Rightarrow> sd_csd" where
  "parse_sd_csd resp =
     (let r0 = resp ! 0; r1 = resp ! 1; r2 = resp ! 2; r3 = resp ! 3; structure = (ucast (drop_bit 30 r3) :: u8)
      in \<lparr>csd_structure = structure,
          taac = ucast (drop_bit 16 r3),
          nsac = ucast (drop_bit 8 r3),
          tran_speed = ucast r3,
          ccc = ucast (drop_bit 20 r2),
          read_bl_len = ucast (drop_bit 16 r2 AND 0x0F),
          read_bl_partial = ucast (drop_bit 15 r2 AND 1),
          write_blk_misalign = ucast (drop_bit 14 r2 AND 1),
          read_blk_misalign = ucast (drop_bit 13 r2 AND 1),
          dsr_imp = ucast (drop_bit 12 r2 AND 1),
          csd_size = (if structure = 0
                      then Csd_ver1 (ucast (push_bit 2 (r2 AND 0x3FF) OR drop_bit 30 r1)) (ucast (drop_bit 27 r1 AND 7))
                             (ucast (drop_bit 24 r1 AND 7)) (ucast (drop_bit 21 r1 AND 7)) (ucast (drop_bit 18 r1 AND 7))
                             (ucast (drop_bit 15 r1 AND 7))
                      else Csd_ver2 (push_bit 16 (r2 AND 0x3F) OR drop_bit 16 r1)),
          erase_blk_en = ucast (drop_bit 14 r1 AND 1),
          sector_size = ucast (drop_bit 7 r1 AND 0x7F),
          wp_grp_size = ucast (r1 AND 0x7F),
          wp_grp_enable = ucast (drop_bit 31 r0),
          r2w_factor = ucast (drop_bit 26 r0 AND 7),
          write_bl_len = ucast (drop_bit 22 r0 AND 0x0F),
          write_bl_partial = ucast (drop_bit 21 r0 AND 1),
          file_format_grp = ucast (drop_bit 15 r0 AND 1),
          csd_copy = ucast (drop_bit 14 r0 AND 1),
          perm_write_protect = ucast (drop_bit 13 r0 AND 1),
          tmp_write_protect = ucast (drop_bit 12 r0 AND 1),
          file_format = ucast (drop_bit 10 r0 AND 3)\<rparr>)"

text \<open>
  Block size and number of blocks, in \<open>int\<close> arithmetic: at most \<open>2 ^ 15\<close> and \<open>2 ^ 12 * 2 ^ 6 * 2 ^ 9\<close>
  for version 1, which fits; the product of version 2 wraps when the 22-bit size is all ones.
\<close>

definition sd_geometry :: "sd_csd \<Rightarrow> u32 \<times> u32" where
  "sd_geometry csd =
     (let (bsize, csize, csizem) =
            (case csd_size csd of
               Csd_ver1 cs _ _ _ _ cm \<Rightarrow>
                 (push_bit (unat (read_bl_len csd)) 1, ucast cs + 1, push_bit (unat cm + 2) 1)
             | Csd_ver2 cs \<Rightarrow> (SDMMC_BLOCKSIZE, cs + 1, 1024));
          (csize, bsize) =
            (if SDMMC_BLOCKSIZE < bsize \<and> bsize mod SDMMC_BLOCKSIZE = 0
             then (csize * (bsize div SDMMC_BLOCKSIZE), SDMMC_BLOCKSIZE) else (csize, bsize))
      in (bsize, csize * csizem))"

definition sd_parse_csd :: "'h hbus \<Rightarrow> u32 list \<Rightarrow> 'h sdmmc \<Rightarrow> (int \<times> 'h sdmmc) option" where
  "sd_parse_csd b resp s =
     (let csd = parse_sd_csd resp;
          (bsize, bnum) = sd_geometry csd;
          speed = sdmmc_tran_speed (tran_speed csd);
          s = s\<lparr>csd_sd := csd, sd_card := (sd_card s)\<lparr>blk_size := bsize, blk_num := bnum, card_speed := speed\<rparr>\<rparr>
      in do { s \<leftarrow> sdmmc_set_frq b speed s;
              (st, s) \<leftarrow> sdmmc_get_state b s;
              if st \<noteq> SDMMC_OK then Some (SDMMC_ERROR, s) else Some (SDMMC_OK, s) })"

definition sd_parse_cid :: "u32 list \<Rightarrow> 'h sdmmc \<Rightarrow> 'h sdmmc" where
  "sd_parse_cid resp s =
     (let r0 = resp ! 0; r1 = resp ! 1; r2 = resp ! 2; r3 = resp ! 3
      in s\<lparr>cid_sd := \<lparr>sd_mid = ucast (drop_bit 24 r3),
                      sd_oid = [ucast (drop_bit 8 r3 AND 0xFF), ucast (drop_bit 16 r3 AND 0xFFFF), 0],
                      sd_pnm = [ucast r3, ucast (drop_bit 24 r2), ucast (drop_bit 16 r2), ucast (drop_bit 8 r2), ucast r2, 0],
                      sd_prv = ucast (drop_bit 24 r1),
                      sd_psn = push_bit 8 r1 OR drop_bit 24 r0,
                      sd_mdt = ucast (drop_bit 8 r0 AND 0xFFFF)\<rparr>\<rparr>)"

definition mmc_parse_csd :: "u32 list \<Rightarrow> 'h sdmmc \<Rightarrow> 'h sdmmc" where
  "mmc_parse_csd resp s =
     (let r1 = resp ! 1; r2 = resp ! 2; r3 = resp ! 3;
          csd = \<lparr>mmc_csd_structure = ucast (drop_bit 30 r3), mmc_prot = ucast (drop_bit 26 r3 AND 0x0F),
                 mmc_tran_speed = ucast r3, mmc_read_bl_len = ucast (drop_bit 16 r2 AND 0x0F),
                 mmc_c_size = ucast (push_bit 2 (r2 AND 0x3FF) OR drop_bit 30 r1),
                 mmc_c_size_mult = ucast (drop_bit 15 r1 AND 7)\<rparr>;
          bsize = push_bit (unat (mmc_read_bl_len csd)) 1;
          csize = ucast (mmc_c_size csd) + 1;
          csizem = push_bit (unat (mmc_c_size_mult csd) + 2) 1
      in s\<lparr>csd_mmc := csd, sd_card := (sd_card s)\<lparr>blk_size := bsize, blk_num := csize * csizem\<rparr>\<rparr>)"

definition mmc_parse_cid :: "u32 list \<Rightarrow> 'h sdmmc \<Rightarrow> 'h sdmmc" where
  "mmc_parse_cid resp s =
     (let r0 = resp ! 0; r1 = resp ! 1; r2 = resp ! 2; r3 = resp ! 3;
          old = cid_mmc s;
          six = [ucast r3, ucast (drop_bit 24 r2), ucast (drop_bit 16 r2), ucast (drop_bit 8 r2), ucast r2, ucast (drop_bit 24 r1)];
          cid = (if mmc_prot (csd_mmc s) < 2
                 then old\<lparr>mmc_mid := drop_bit 8 r3, mmc_pnm := six @ [ucast (drop_bit 16 r1), 0],
                          mmc_hwr := ucast (drop_bit 12 r1 AND 0x0F), mmc_fwr := ucast (drop_bit 8 r1 AND 0x0F)\<rparr>
                 else old\<lparr>mmc_mid := drop_bit 24 r3, mmc_oid := ucast (drop_bit 8 r3 AND 0xFFFF),
                          mmc_pnm := six @ [0] @ drop 7 (mmc_pnm old)\<rparr>)
      in s\<lparr>cid_mmc := cid\<lparr>mmc_psn := push_bit 16 (r1 AND 0xFFFF) OR drop_bit 16 r0,
                           mmc_mcd := ucast (drop_bit 12 r0 AND 0x0F),
                           mmc_ycd := ucast (drop_bit 8 r0 AND 0x0F) + 1997\<rparr>\<rparr>)"

definition mmc_switch_mode :: "'h hbus \<Rightarrow> 'h sdmmc \<Rightarrow> (int \<times> 'h sdmmc) option" where
  "mmc_switch_mode b s =
     do { (st, s) \<leftarrow> send_plain b 6 (push_bit 24 3 OR push_bit 16 183 OR push_bit 8 2) s;
          if st \<noteq> SDMMC_OK then Some (- 1, s)
          else do {
            let s = sd_set_bus_width b 8 s;
            (st, s) \<leftarrow> send_plain b 6 (push_bit 24 3 OR push_bit 16 185 OR push_bit 8 1 OR 1) s;
            if st \<noteq> SDMMC_OK then Some (- 1, s)
            else do { s \<leftarrow> sdmmc_set_frq b 52000000 s; Some (SDMMC_OK, s) } } }"

section \<open>Identifying a card\<close>

definition set_type :: "card_type \<Rightarrow> 'h sdmmc \<Rightarrow> 'h sdmmc" where
  "set_type t s = s\<lparr>sd_card := (sd_card s)\<lparr>card_type := t\<rparr>\<rparr>"

definition set_state :: "u32 \<Rightarrow> 'h sdmmc \<Rightarrow> 'h sdmmc" where
  "set_state v s = s\<lparr>sd_card := (sd_card s)\<lparr>card_state := v\<rparr>\<rparr>"

definition set_rca :: "u16 \<Rightarrow> 'h sdmmc \<Rightarrow> 'h sdmmc" where
  "set_rca v s = s\<lparr>sd_card := (sd_card s)\<lparr>card_rca := v\<rparr>\<rparr>"

text \<open>
  Power-up. \<open>i\<close> counts the rounds; the result is the count at which the loop stopped, with the last
  response, or an error. A version 2 card gets CMD55 before every round, the others the same command
  again, without CMD55.
\<close>

fun power_up_v2 :: "'h hbus \<Rightarrow> nat \<Rightarrow> nat \<Rightarrow> u32 list \<Rightarrow> 'h sdmmc \<Rightarrow> (int \<times> nat \<times> u32 list \<times> 'h sdmmc) option" where
  "power_up_v2 b 0 i rsp s = Some (SDMMC_OK, i, rsp, s)"
| "power_up_v2 b (Suc n) i rsp s =
     do { (st, s) \<leftarrow> send_plain b 55 (rca_arg s) s;
          if st \<noteq> SDMMC_OK then Some (SDMMC_ERROR, i, rsp, s)
          else do {
            (st, rsp, s) \<leftarrow> send_rsp b SD_SEND_OP_COND (0xc0000000 OR ocr s) rsp s;
            if st \<noteq> SDMMC_OK then Some (SDMMC_ERROR, i, rsp, s)
            else do {
              (st, s) \<leftarrow> (if i = 0 then sdmmc_check_ocr b (hd rsp) s else Some (SDMMC_OK, s));
              if st \<noteq> SDMMC_OK then Some (SDMMC_ERROR, i, rsp, s)
              else if hd rsp AND 0x80000000 = 0x80000000 then Some (SDMMC_OK, i, rsp, s)
              else power_up_v2 b n (i + 1) rsp s } } }"

fun power_up_v1 :: "'h hbus \<Rightarrow> nat \<Rightarrow> nat \<Rightarrow> u32 list \<Rightarrow> 'h sdmmc \<Rightarrow> (int \<times> nat \<times> u32 list \<times> 'h sdmmc) option" where
  "power_up_v1 b 0 i rsp s = Some (SDMMC_OK, i, rsp, s)"
| "power_up_v1 b (Suc n) i rsp s =
     do { (st, r, s) \<leftarrow> sdmmc_send_cmd b (Some rsp) s;
          let rsp = (case r of None \<Rightarrow> rsp | Some r \<Rightarrow> r);
          if st \<noteq> SDMMC_OK then Some (SDMMC_ERROR, i, rsp, s)
          else do {
            (st, s) \<leftarrow> (if i = 0 then sdmmc_check_ocr b (hd rsp) s else Some (SDMMC_OK, s));
            if st \<noteq> SDMMC_OK then Some (SDMMC_ERROR, i, rsp, s)
            else if hd rsp AND 0x80000000 \<noteq> 0 then Some (SDMMC_OK, i, rsp, s)
            else power_up_v1 b n (i + 1) rsp s } }"

definition probe_card :: "'h hbus \<Rightarrow> 'h sdmmc \<Rightarrow> (int \<times> 'h sdmmc) option" where
  "probe_card b s =
     do { let s = set_rca 0 s;
          (st, s) \<leftarrow> send_plain b 0 0 s;
          if st \<noteq> SDMMC_OK then Some (SDMMC_ERROR, s)
          else do {
            let s = set_state 0 s;
            (st, s) \<leftarrow> send_plain b 8 (icr s) s;
            s \<leftarrow> (if st = SDMMC_OK then Some (set_type ESDC_V200 s)
                  else do { (st, s) \<leftarrow> send_plain b 55 0 s;
                            Some (set_type (if st = SDMMC_OK then ESDC else EMMC) s) });
            (st, s) \<leftarrow> send_plain b 0 0 s;
            if st \<noteq> SDMMC_OK then Some (SDMMC_ERROR, s) else Some (SDMMC_OK, s) } }"

definition power_up_card :: "'h hbus \<Rightarrow> u32 list \<Rightarrow> 'h sdmmc \<Rightarrow> (int \<times> u32 list \<times> 'h sdmmc) option" where
  "power_up_card b rsp s =
     do { (st, i, rsp, s) \<leftarrow>
            (case card_type (sd_card s) of
               ESDC_V200 \<Rightarrow>
                 do { (st, s) \<leftarrow> send_plain b 8 (icr s) s;
                      if st \<noteq> SDMMC_OK then Some (SDMMC_ERROR, 0, rsp, s)
                      else do {
                        (st, i, rsp, s) \<leftarrow> power_up_v2 b POWER_UP_WAIT 0 rsp s;
                        if st \<noteq> SDMMC_OK then Some (SDMMC_ERROR, i, rsp, s)
                        else Some (SDMMC_OK, i, rsp,
                               set_type (if hd rsp AND 0x40000000 = 0x40000000 then ESDC_HC else ESDC) s) } }
             | ESDC \<Rightarrow> power_up_v1 b POWER_UP_WAIT 0 rsp (CMD_CREATE SD_SEND_OP_COND (0x80000000 OR ocr s) 0 0 0 s)
             | EMMC \<Rightarrow>
                 do { (st, i, rsp, s) \<leftarrow> power_up_v1 b POWER_UP_WAIT 0 rsp (CMD_CREATE 1 (0xc0000000 OR ocr s) 0 0 0 s);
                      if st \<noteq> SDMMC_OK then Some (SDMMC_ERROR, i, rsp, s)
                      else Some (SDMMC_OK, i, rsp, if hd rsp AND 0x40000000 = 0x40000000 then set_type EMMC_HC s else s) }
             | _ \<Rightarrow> Some (SDMMC_ERROR, 0, rsp, s));
          if st \<noteq> SDMMC_OK \<or> POWER_UP_WAIT \<le> i then Some (SDMMC_ERROR, rsp, s) else Some (SDMMC_OK, rsp, s) }"

definition is_sd :: "card_type \<Rightarrow> bool" where "is_sd t \<longleftrightarrow> t = ESDC \<or> t = ESDC_HC"
definition is_mmc :: "card_type \<Rightarrow> bool" where "is_mmc t \<longleftrightarrow> t = EMMC \<or> t = EMMC_HC"

definition identify_card :: "'h hbus \<Rightarrow> u32 list \<Rightarrow> 'h sdmmc \<Rightarrow> (int \<times> 'h sdmmc) option" where
  "identify_card b rsp s =
     do { let s = set_state 0x200 s;
          (st, rsp, s) \<leftarrow> send_rsp b 2 0 rsp s;
          if st \<noteq> SDMMC_OK then Some (SDMMC_ERROR, s)
          else do {
            let s = set_state 0x400 s;
            let cid = rsp;
            let t = card_type (sd_card s);
            if \<not> (is_sd t \<or> is_mmc t) then Some (SDMMC_ERROR, s)
            else do {
              let s = set_rca 1 s;
              (st, rsp, s) \<leftarrow> send_rsp b 3 (rca_arg s) rsp s;
              if st \<noteq> SDMMC_OK then Some (SDMMC_ERROR, s)
              else do {
                let s = (if is_sd t then set_rca (ucast (drop_bit 16 (hd rsp))) s else s);
                (st, s) \<leftarrow> sdmmc_get_state b s;
                if st \<noteq> SDMMC_OK then Some (SDMMC_ERROR, s)
                else do {
                  (st, rsp, s) \<leftarrow> send_rsp b 9 (rca_arg s) rsp s;
                  if st \<noteq> SDMMC_OK then Some (SDMMC_ERROR, s)
                  else if is_sd t then
                    do { (st, s) \<leftarrow> sd_parse_csd b rsp s;
                         if st \<noteq> SDMMC_OK then Some (SDMMC_ERROR, s) else Some (SDMMC_OK, sd_parse_cid cid s) }
                  else Some (SDMMC_OK, mmc_parse_cid cid (mmc_parse_csd rsp s)) } } } } }"

definition select_card :: "'h hbus \<Rightarrow> 'h sdmmc \<Rightarrow> (int \<times> 'h sdmmc) option" where
  "select_card b s =
     do { (st, s) \<leftarrow> send_plain b 7 (rca_arg s) s;
          if st \<noteq> SDMMC_OK then Some (SDMMC_ERROR, s)
          else do {
            (st, s) \<leftarrow> sdmmc_get_state b s;
            if st \<noteq> SDMMC_OK then Some (SDMMC_ERROR, s)
            else do {
              let c = sd_card s;
              let s = s\<lparr>sd_card := c\<lparr>blk_num := blk_num c * (blk_size c div SDMMC_BLOCKSIZE), blk_size := SDMMC_BLOCKSIZE\<rparr>\<rparr>;
              (st, s) \<leftarrow> send_plain b 16 (blk_size (sd_card s)) s;
              if st \<noteq> SDMMC_OK then Some (SDMMC_ERROR, s)
              else do {
                (st, s) \<leftarrow> sdmmc_get_state b s;
                if st \<noteq> SDMMC_OK then Some (SDMMC_ERROR, s)
                else if is_sd (card_type (sd_card s)) then do {
                  (st, s) \<leftarrow> send_plain b 55 (rca_arg s) s;
                  if st \<noteq> SDMMC_OK then Some (SDMMC_ERROR, s)
                  else do {
                    (st, s) \<leftarrow> send_plain b SD_SET_BUS_WIDTH 2 s;
                    if st \<noteq> SDMMC_OK then Some (SDMMC_ERROR, s)
                    else Some (SDMMC_OK, sd_set_bus_width b 4 s) } }
                else if is_mmc (card_type (sd_card s)) then do {
                  (st, s) \<leftarrow> mmc_switch_mode b s;
                  if st \<noteq> SDMMC_OK then Some (SDMMC_ERROR, s) else Some (SDMMC_OK, s) }
                else Some (SDMMC_ERROR, s) } } } }"

definition sdmmc_init_card :: "'h hbus \<Rightarrow> 'h sdmmc \<Rightarrow> (int \<times> 'h sdmmc) option" where
  "sdmmc_init_card b s =
     do { (st, s) \<leftarrow> probe_card b s;
          if st \<noteq> SDMMC_OK then Some (SDMMC_ERROR, s)
          else do {
            (st, rsp, s) \<leftarrow> power_up_card b [0, 0, 0, 0] s;
            if st \<noteq> SDMMC_OK then Some (SDMMC_ERROR, s)
            else do {
              (st, s) \<leftarrow> identify_card b rsp s;
              if st \<noteq> SDMMC_OK then Some (SDMMC_ERROR, s) else select_card b s } } }"

section \<open>Reading blocks\<close>

partial_function (option) wait_tran :: "'h hbus \<Rightarrow> 'h sdmmc \<Rightarrow> (int \<times> 'h sdmmc) option" where
  "wait_tran b s =
     (if card_state (sd_card s) \<noteq> MMC_TRAN then
        do { (st, s) \<leftarrow> sdmmc_get_state b s;
             if st \<noteq> SDMMC_OK then Some (SDMMC_ERROR, s) else wait_tran b s }
      else Some (SDMMC_OK, s))"

definition sdmmc_read :: "'h hbus \<Rightarrow> u32 \<Rightarrow> u32 \<Rightarrow> u32 \<Rightarrow> 'h sdmmc \<Rightarrow> (int \<times> 'h sdmmc) option" where
  "sdmmc_read b buf blkno blkcnt s =
     (let c = sd_card s
      in if blk_num c \<le> blkno \<or> blk_num c < blkno + blkcnt \<or> blkno + blkcnt < blkno then Some (SDMMC_ERROR, s)
      else if blkcnt = 0 then Some (SDMMC_OK, s)
      else do {
        let cmd = (if blkcnt = 1 then 17 else 18);
        let arg = (if card_type c = EMMC \<or> card_type c = ESDC then blkno * SDMMC_BLOCKSIZE else blkno);
        (st, _, s) \<leftarrow> sdmmc_send_cmd b None (CMD_CREATE cmd arg SDMMC_BLOCKSIZE blkcnt buf s);
        if st \<noteq> SDMMC_OK then Some (SDMMC_ERROR, s) else wait_tran b s })"

section \<open>The clock divisors\<close>

lemma div_search_ok:
  assumes "\<exists>j<n. SDMMC_CLK_DEFAULT div ((dv + of_nat j) * p) \<le> frq" "unat dv + n \<le> 2 ^ 31"
  shows "SDMMC_CLK_DEFAULT div (div_search frq p n dv * p) \<le> frq \<and> unat dv \<le> unat (div_search frq p n dv) \<and>
     unat (div_search frq p n dv) < unat dv + n"
  using assms
proof (induction n arbitrary: dv)
  case (Suc n)
  show ?case
  proof (cases "SDMMC_CLK_DEFAULT div (dv * p) \<le> frq")
    case True
    then show ?thesis by simp
  next
    case False
    obtain j where j: "j < Suc n" "SDMMC_CLK_DEFAULT div ((dv + of_nat j) * p) \<le> frq" using Suc.prems(1) by blast
    then obtain i where "j = Suc i" using False by (cases j) auto
    then have "\<exists>j<n. SDMMC_CLK_DEFAULT div ((dv + 1 + of_nat j) * p) \<le> frq"
      using j by (intro exI [of _ i]) (simp add: algebra_simps)
    moreover have "unat (dv + 1) = unat dv + 1" using Suc.prems(2) by (subst unat_add_no_wrap) simp_all
    ultimately show ?thesis using Suc.IH [of "dv + 1"] Suc.prems(2) False by simp
  qed
qed simp

lemma pre_div_power:
  assumes "unat frq < 12375000" "unat p = 2 ^ k" "k + n = 8"
  shows "\<exists>j. k \<le> j \<and> j \<le> 8 \<and> unat (pre_div_loop frq n p) = 2 ^ j \<and> (j = 8 \<or> 198000000 div 2 ^ j \<le> unat frq * 16)"
  using assms(2,3)
proof (induction n arbitrary: p k)
  case (Suc n)
  have m: "unat (frq * 16) = unat frq * 16" using assms(1) by (simp add: unat_word_ariths)
  have t: "SDMMC_CLK_DEFAULT div p \<le> frq * 16 \<longleftrightarrow> 198000000 div 2 ^ k \<le> unat frq * 16"
    using Suc.prems(1) by (simp add: word_le_nat_alt m unat_div)
  show ?case
  proof (cases "198000000 div 2 ^ k \<le> unat frq * 16")
    case True
    then show ?thesis using Suc.prems t by (intro exI [of _ k]) simp
  next
    case False
    have "(2 :: nat) ^ k \<le> 2 ^ 8" using Suc.prems(2) by (intro power_increasing) simp_all
    then have "unat (p * 2) = 2 ^ Suc k" using Suc.prems(1) by (simp add: unat_word_ariths)
    then obtain j where "Suc k \<le> j" "j \<le> 8" "unat (pre_div_loop frq n (p * 2)) = 2 ^ j"
        "j = 8 \<or> 198000000 div 2 ^ j \<le> unat frq * 16"
      using Suc.IH [of "p * 2" "Suc k"] Suc.prems(2) by auto
    then show ?thesis using False t by (intro exI [of _ j]) simp
  qed
qed auto

text \<open>
  C30: for a frequency the controller can go down to, the divisors \<open>sdmmc_set_frq\<close> finds fit their
  register fields, a power of two up to 256 and a factor of one to sixteen, and the clock they give
  is not faster than asked.
\<close>

theorem frq_divisors_bound:
  assumes "48339 \<le> unat frq" "frq_divisors frq = (p, d)"
  shows "(\<exists>j. 1 \<le> j \<and> j \<le> 8 \<and> unat p = 2 ^ j) \<and> 1 \<le> unat d \<and> unat d \<le> 16 \<and>
     198000000 div (unat d * unat p) \<le> unat frq"
proof -
  have p: "p = (if frq < 12375000 then pre_div_loop frq 7 2 else 2)" and d: "d = div_search frq p 16 1"
    using assms(2) by (auto simp: frq_divisors_def Let_def)
  obtain j where j: "1 \<le> j" "j \<le> 8" "unat p = 2 ^ j" "198000000 div 2 ^ j div 16 \<le> unat frq"
  proof (cases "frq < 12375000")
    case True
    then obtain j where j: "1 \<le> j" "j \<le> 8" "unat p = 2 ^ j" "j = 8 \<or> 198000000 div 2 ^ j \<le> unat frq * 16"
      using pre_div_power [of frq 2 1 7] p by (auto simp: word_less_nat_alt)
    have "198000000 div 2 ^ j div 16 \<le> unat frq"
      using j(4)
    proof
      assume "198000000 div 2 ^ j \<le> unat frq * 16"
      then have "198000000 div 2 ^ j div 16 \<le> unat frq * 16 div 16" by (rule div_le_mono)
      then show ?thesis by simp
    qed (use assms(1) in simp)
    then show ?thesis by (rule that [OF j(1-3)])
  next
    case False
    then show ?thesis using p by (intro that [of 1]) (simp_all add: word_less_nat_alt)
  qed
  have le: "(2 :: nat) ^ j \<le> 2 ^ 8" using j(2) by (intro power_increasing) simp_all
  have "unat (16 * p) = 16 * 2 ^ j" using j(3) le by (simp add: unat_word_ariths)
  then have "SDMMC_CLK_DEFAULT div (16 * p) \<le> frq"
    using j(4) by (simp add: word_le_nat_alt unat_div div_mult2_eq mult.commute)
  then have "\<exists>i<16. SDMMC_CLK_DEFAULT div ((1 + of_nat i) * p) \<le> frq" by (intro exI [of _ 15]) simp
  from div_search_ok [OF this] have s: "SDMMC_CLK_DEFAULT div (d * p) \<le> frq" "1 \<le> unat d" "unat d \<le> 16"
    unfolding d by simp_all
  have "unat d * unat p \<le> 16 * 2 ^ 8" using s(3) j(3) le by (intro mult_le_mono) simp_all
  then have "unat (d * p) = unat d * unat p" by (simp add: unat_word_ariths)
  then show ?thesis using s j by (auto simp: word_le_nat_alt unat_div)
qed

theorem frq_divisors_bound_witness: "198000000 div (unat (snd (frq_divisors 400000)) * unat (fst (frq_divisors 400000))) \<le> 400000"
  using frq_divisors_bound [of 400000 "fst (frq_divisors 400000)" "snd (frq_divisors 400000)"] by simp

section \<open>The capacity of a card\<close>

lemma unat_and_mask: "unat ((x :: 'a::len word) AND mask n) = unat x mod 2 ^ n"
  unfolding take_bit_eq_mask [symmetric] unsigned_take_bit_eq by (rule take_bit_eq_mod)

lemma unat_mult_no_wrap: "unat a * unat b < 2 ^ LENGTH('a) \<Longrightarrow> unat (a * b :: 'a::len word) = unat a * unat b"
  by (simp add: unat_word_ariths)

lemma unat_ucast_le: "unat x < n \<Longrightarrow> unat (ucast (x :: 'b::len word) :: 'a::len word) < n"
  by (simp add: unsigned_ucast_eq take_bit_nat_def) (rule le_less_trans [OF mod_less_eq_dividend])

lemma csd_fields:
  "unat (read_bl_len (parse_sd_csd resp)) < 16"
  "csd_size (parse_sd_csd resp) = Csd_ver1 cs a b c d cm \<Longrightarrow> unat cs < 4096 \<and> unat cm < 8"
  "csd_size (parse_sd_csd resp) = Csd_ver2 n \<Longrightarrow> unat n < 2 ^ 22"
proof -
  let ?r1 = "resp ! 1" and ?r2 = "resp ! 2"
  have m: "unat (x AND 0x0F) < 16" "unat (x AND 7) < 8" "unat (x AND 0x3FF) < 2 ^ 10" "unat (x AND 0x3F) < 2 ^ 6" for x :: u32
    using unat_and_mask [of x 4] unat_and_mask [of x 3] unat_and_mask [of x 10] unat_and_mask [of x 6]
    by (simp_all add: mask_eq_exp_minus_1)
  have d: "unat (drop_bit 30 ?r1) < 2 ^ 2" "unat (drop_bit 16 ?r1) < 2 ^ 16"
    using unat_lt32 [of ?r1] by (simp_all add: unat_drop_bit less_mult_imp_div_less)
  have "unat (push_bit 2 (?r2 AND 0x3FF)) = unat (?r2 AND 0x3FF) * 2 ^ 2"
    using m(3) [of ?r2] by (subst unat_push_bit_no_wrap) simp_all
  then have c1: "unat (push_bit 2 (?r2 AND 0x3FF) OR drop_bit 30 ?r1) < 4096"
    using m(3) [of ?r2] d(1) by (subst unat_or_disjoint [of 2]) simp_all
  have "unat (push_bit 16 (?r2 AND 0x3F)) = unat (?r2 AND 0x3F) * 2 ^ 16"
    using m(4) [of ?r2] by (subst unat_push_bit_no_wrap) simp_all
  then have c2: "unat (push_bit 16 (?r2 AND 0x3F) OR drop_bit 16 ?r1) < 2 ^ 22"
    using m(4) [of ?r2] d(2) by (subst unat_or_disjoint [of 16]) simp_all
  show "unat (read_bl_len (parse_sd_csd resp)) < 16"
    by (simp add: parse_sd_csd_def Let_def unat_ucast_le [OF m(1)])
  show "csd_size (parse_sd_csd resp) = Csd_ver1 cs a b c d cm \<Longrightarrow> unat cs < 4096 \<and> unat cm < 8"
    using unat_ucast_le [OF c1, where 'a=16] unat_ucast_le [OF m(2), where 'a=8]
    by (auto simp: parse_sd_csd_def Let_def split: if_splits)
  show "csd_size (parse_sd_csd resp) = Csd_ver2 n \<Longrightarrow> unat n < 2 ^ 22"
    using c2 by (auto simp: parse_sd_csd_def Let_def split: if_splits)
qed

text \<open>The bits of the CSD register as its specification numbers them; the response is its four words, lowest first.\<close>

definition csd_word :: "u32 list \<Rightarrow> nat" where
  "csd_word resp = unat (resp ! 0) + 2 ^ 32 * unat (resp ! 1) + 2 ^ 64 * unat (resp ! 2) + 2 ^ 96 * unat (resp ! 3)"

definition csd_bits :: "nat \<Rightarrow> nat \<Rightarrow> u32 list \<Rightarrow> nat" where
  "csd_bits hi lo resp = csd_word resp div 2 ^ lo mod 2 ^ (hi + 1 - lo)"

lemma bit_field: "x < A \<Longrightarrow> y < B \<Longrightarrow> w = x + A * (y + B * z) \<Longrightarrow> w div A mod B = (y :: nat)"
  by simp

lemma csd_bits_words:
  "csd_bits 127 126 resp = unat (resp ! 3) div 2 ^ 30"
  "csd_bits 83 80 resp = unat (resp ! 2) div 2 ^ 16 mod 16"
  "csd_bits 73 62 resp = unat (resp ! 2) mod 2 ^ 10 * 4 + unat (resp ! 1) div 2 ^ 30"
  "csd_bits 49 47 resp = unat (resp ! 1) div 2 ^ 15 mod 8"
  "csd_bits 69 48 resp = unat (resp ! 2) mod 64 * 2 ^ 16 + unat (resp ! 1) div 2 ^ 16"
proof -
  define a b c d where "a = unat (resp ! 0)" "b = unat (resp ! 1)" "c = unat (resp ! 2)" "d = unat (resp ! 3)"
  have l: "a < 2 ^ 32" "b < 2 ^ 32" "c < 2 ^ 32" "d < 2 ^ 32" unfolding a_b_c_d_def using unat_lt32 by simp_all
  have w: "csd_word resp = a + 2 ^ 32 * b + 2 ^ 64 * c + 2 ^ 96 * d" by (simp only: csd_word_def a_b_c_d_def)
  have dm: "x = x div k * k + x mod k" for x k :: nat by simp
  have md: "x mod 2 ^ k < 2 ^ k" for x k :: nat by simp
  have dd: "x div 2 ^ k < 2 ^ j" if "x < 2 ^ (j + k)" for x k j :: nat using that by (simp add: power_add less_mult_imp_div_less)
  have sp: "k * x = k * (x mod m) + j * (x div m)" if "j = k * m" for k x m j :: nat
    unfolding that by (metis add.commute distrib_left mult.assoc mult_div_mod_eq)
  show "csd_bits 127 126 resp = unat (resp ! 3) div 2 ^ 30"
    unfolding csd_bits_def a_b_c_d_def(4) [symmetric]
    by (rule bit_field [where x = "a + 2 ^ 32 * b + 2 ^ 64 * c + 2 ^ 96 * (d mod 2 ^ 30)" and z = 0])
      (use l md [of d 30] dd [of d 2 30] w sp [of "2 ^ 126" "2 ^ 96" "2 ^ 30" d] in simp_all)
  have "x < 2 ^ 16 \<Longrightarrow> a + 2 ^ 32 * b + 2 ^ 64 * x < 2 ^ 80" for x using l by simp
  from this [OF md] have l16: "a + 2 ^ 32 * b + 2 ^ 64 * (c mod 2 ^ 16) < 2 ^ 80" .
  have "x < 2 ^ k \<Longrightarrow> a + 2 ^ 32 * x < 2 ^ (32 + k)" for x k
  proof -
    assume "x < 2 ^ k"
    then have "2 ^ 32 * Suc x \<le> 2 ^ 32 * 2 ^ k" by (intro mult_le_mono) simp_all
    then show ?thesis using l(1) by (simp add: power_add)
  qed
  note lb = this [OF md [of b]]
  show "csd_bits 83 80 resp = unat (resp ! 2) div 2 ^ 16 mod 16"
    unfolding csd_bits_def a_b_c_d_def(3) [symmetric]
    by (rule bit_field [where x = "a + 2 ^ 32 * b + 2 ^ 64 * (c mod 2 ^ 16)" and z = "c div 2 ^ 16 div 16 + 2 ^ 12 * d"])
      (use l l16 sp [of "2 ^ 80" "2 ^ 64" "2 ^ 16" c] sp [of "2 ^ 84" "2 ^ 80" 16 "c div 2 ^ 16"] w in simp_all)
  have "x < 2 ^ j \<Longrightarrow> y < 2 ^ i \<Longrightarrow> x * 2 ^ i + y < 2 ^ (j + i)" for x y i j :: nat
  proof -
    assume "x < 2 ^ j" "y < 2 ^ i"
    then have "Suc x * 2 ^ i \<le> 2 ^ j * 2 ^ i" by (intro mult_le_mono) simp_all
    then show ?thesis using \<open>y < 2 ^ i\<close> by (simp add: power_add)
  qed
  from this [OF md dd] have lc: "b < 2 ^ (i + k) \<Longrightarrow> c mod 2 ^ j * 2 ^ i + b div 2 ^ k < 2 ^ (j + i)" for i j k .
  show "csd_bits 73 62 resp = unat (resp ! 2) mod 2 ^ 10 * 4 + unat (resp ! 1) div 2 ^ 30"
    unfolding csd_bits_def a_b_c_d_def(2,3) [symmetric]
    by (rule bit_field [where x = "a + 2 ^ 32 * (b mod 2 ^ 30)" and z = "c div 2 ^ 10 + 2 ^ 22 * d"])
      (use l lb [of 30] lc [of 2 30 10] sp [of "2 ^ 62" "2 ^ 32" "2 ^ 30" b] sp [of "2 ^ 74" "2 ^ 64" "2 ^ 10" c] w in simp_all)
  show "csd_bits 49 47 resp = unat (resp ! 1) div 2 ^ 15 mod 8"
    unfolding csd_bits_def a_b_c_d_def(2) [symmetric]
    by (rule bit_field [where x = "a + 2 ^ 32 * (b mod 2 ^ 15)" and z = "b div 2 ^ 15 div 8 + 2 ^ 14 * c + 2 ^ 46 * d"])
      (use l lb [of 15] sp [of "2 ^ 47" "2 ^ 32" "2 ^ 15" b] sp [of "2 ^ 50" "2 ^ 47" 8 "b div 2 ^ 15"] w in simp_all)
  show "csd_bits 69 48 resp = unat (resp ! 2) mod 64 * 2 ^ 16 + unat (resp ! 1) div 2 ^ 16"
    unfolding csd_bits_def a_b_c_d_def(2,3) [symmetric]
    by (rule bit_field [where x = "a + 2 ^ 32 * (b mod 2 ^ 16)" and z = "c div 64 + 2 ^ 26 * d"])
      (use l lb [of 16] lc [of 16 16 6] sp [of "2 ^ 48" "2 ^ 32" "2 ^ 16" b] sp [of "2 ^ 70" "2 ^ 64" 64 c] w in simp_all)
qed

lemma csd_field_bits:
  "unat (read_bl_len (parse_sd_csd resp)) = csd_bits 83 80 resp"
  "csd_size (parse_sd_csd resp) = Csd_ver1 cs a b c d cm \<Longrightarrow>
    csd_bits 127 126 resp = 0 \<and> unat cs = csd_bits 73 62 resp \<and> unat cm = csd_bits 49 47 resp"
  "csd_size (parse_sd_csd resp) = Csd_ver2 n \<Longrightarrow> csd_bits 127 126 resp \<noteq> 0 \<and> unat n = csd_bits 69 48 resp"
proof -
  let ?r1 = "resp ! 1" and ?r2 = "resp ! 2" and ?r3 = "resp ! 3"
  have m: "unat (x AND 0x0F) = unat x mod 16" "unat (x AND 7) = unat x mod 8" "unat (x AND 0x3FF) = unat x mod 2 ^ 10" "unat (x AND 0x3F) = unat x mod 64" for x :: u32
    using unat_and_mask [of x 4] unat_and_mask [of x 3] unat_and_mask [of x 10] unat_and_mask [of x 6]
    by (simp_all add: mask_eq_exp_minus_1)
  have d: "unat (drop_bit 30 ?r1) < 2 ^ 2" "unat (drop_bit 16 ?r1) < 2 ^ 16" "unat (drop_bit 30 ?r3) < 2 ^ 2"
    using unat_lt32 [of ?r1] unat_lt32 [of ?r3] by (simp_all add: unat_drop_bit less_mult_imp_div_less)
  have u8: "unat (ucast x :: u8) = unat x" if "unat x < 2 ^ 8" for x :: u32
    using that by (simp add: unsigned_ucast_eq take_bit_nat_eq_self)
  have u16: "unat (ucast x :: u16) = unat x" if "unat x < 2 ^ 16" for x :: u32
    using that by (simp add: unsigned_ucast_eq take_bit_nat_eq_self)
  have st: "unat (ucast (drop_bit 30 ?r3) :: u8) = csd_bits 127 126 resp"
    using u8 [of "drop_bit 30 ?r3"] d(3) by (simp add: csd_bits_words unat_drop_bit)
  have z: "ucast (drop_bit 30 ?r3) = (0 :: u8) \<longleftrightarrow> csd_bits 127 126 resp = 0"
    unfolding st [symmetric] by (simp only: unat_eq_zero)
  show "unat (read_bl_len (parse_sd_csd resp)) = csd_bits 83 80 resp"
    using u8 [of "drop_bit 16 ?r2 AND 0x0F"] by (simp add: parse_sd_csd_def Let_def m csd_bits_words unat_drop_bit)
  have "unat (push_bit 2 (?r2 AND 0x3FF)) = unat (?r2 AND 0x3FF) * 2 ^ 2"
    by (subst unat_push_bit_no_wrap) (simp_all only: m, simp add: pos_mod_bound)
  then have c1: "unat (push_bit 2 (?r2 AND 0x3FF) OR drop_bit 30 ?r1) = csd_bits 73 62 resp"
    using d(1) by (subst unat_or_disjoint [of 2]) (simp_all add: m csd_bits_words unat_drop_bit)
  have "csd_bits 73 62 resp < 2 ^ 12" unfolding csd_bits_def by simp
  then have b1: "csd_bits 73 62 resp < 2 ^ 16" by simp
  have "unat (push_bit 16 (?r2 AND 0x3F)) = unat (?r2 AND 0x3F) * 2 ^ 16"
    by (subst unat_push_bit_no_wrap) (simp_all only: m, simp add: pos_mod_bound)
  then have c2: "unat (push_bit 16 (?r2 AND 0x3F) OR drop_bit 16 ?r1) = csd_bits 69 48 resp"
    using d(2) by (subst unat_or_disjoint [of 16]) (simp_all add: m csd_bits_words unat_drop_bit)
  have cm': "unat (ucast (drop_bit 15 ?r1 AND 7) :: u8) = csd_bits 49 47 resp"
    using u8 [of "drop_bit 15 ?r1 AND 7"] by (simp add: m csd_bits_words unat_drop_bit)
  show "csd_size (parse_sd_csd resp) = Csd_ver1 cs a b c d cm \<Longrightarrow>
    csd_bits 127 126 resp = 0 \<and> unat cs = csd_bits 73 62 resp \<and> unat cm = csd_bits 49 47 resp"
    using u16 [of "push_bit 2 (?r2 AND 0x3FF) OR drop_bit 30 ?r1"] c1 b1 cm'
    by (auto simp: parse_sd_csd_def Let_def z split: if_splits)
  show "csd_size (parse_sd_csd resp) = Csd_ver2 n \<Longrightarrow> csd_bits 127 126 resp \<noteq> 0 \<and> unat n = csd_bits 69 48 resp"
    using c2 by (auto simp: parse_sd_csd_def Let_def z split: if_splits)
qed

text \<open>The geometry in numbers.\<close>

lemma sd_geometry_ver1:
  assumes "csd_size csd = Csd_ver1 cs a b c d cm" "unat cs < 4096" "unat cm < 8" "unat (read_bl_len csd) < 16"
  shows "unat (fst (sd_geometry csd)) * unat (snd (sd_geometry csd)) = (unat cs + 1) * 2 ^ (unat cm + 2) * 2 ^ unat (read_bl_len csd) \<and>
    unat (fst (sd_geometry csd)) = min 512 (2 ^ unat (read_bl_len csd))"
proof -
  let ?r = "unat (read_bl_len csd)"
  note f = assms(2-4)
  have cs: "unat (ucast cs + 1 :: u32) = unat cs + 1" using f(1) by (simp add: unat_word_ariths unsigned_ucast_eq take_bit_nat_eq_self)
  have r: "unat (push_bit ?r 1 :: u32) = 2 ^ ?r" using f(3) power_strict_increasing [of ?r 32 "2 :: nat"]
    by (subst unat_push_bit_no_wrap) simp_all
  have cmb: "(2 :: nat) ^ (unat cm + 2) \<le> 2 ^ 9" using f(2) by (intro power_increasing) simp_all
  have cm: "unat (push_bit (unat cm + 2) 1 :: u32) = 2 ^ (unat cm + 2)" using cmb by (subst unat_push_bit_no_wrap) simp_all
  show ?thesis
  proof (cases "9 < ?r")
    case True
    have e: "(2 :: nat) ^ ?r = 2 ^ (?r - 9) * 512" using power_add [of "2 :: nat" "?r - 9" 9] True by simp
    have rb: "(2 :: nat) ^ (?r - 9) \<le> 2 ^ 6" using f(3) by (intro power_increasing) simp_all
    have d: "unat ((push_bit ?r 1 :: u32) div 512) = 2 ^ (?r - 9)" by (simp only: unat_div r) (simp add: e)
    have p: "(unat cs + 1) * 2 ^ (?r - 9) \<le> 4096 * 2 ^ 6" using f(1) rb by (intro mult_le_mono) simp_all
    then have q: "(unat cs + 1) * 2 ^ (?r - 9) * 2 ^ (unat cm + 2) \<le> 4096 * 2 ^ 6 * 2 ^ 9"
      using cmb by (rule mult_le_mono)
    have u: "unat ((ucast cs + 1) * ((push_bit ?r 1 :: u32) div 512)) = (unat cs + 1) * 2 ^ (?r - 9)"
      using p by (subst unat_mult_no_wrap) (simp_all only: cs d, simp)
    have "512 < (push_bit ?r 1 :: u32)"
      using power_strict_increasing [of 9 ?r "2 :: nat"] True by (simp_all del: push_bit_of_1 add: word_less_nat_alt r)
    moreover have "unat ((push_bit ?r 1 :: u32) mod 512) = 0" by (simp only: unat_mod r) (simp add: e)
    then have "(push_bit ?r 1 :: u32) mod 512 = 0" by (simp only: unat_eq_zero)
    ultimately have g: "sd_geometry csd = (512, (ucast cs + 1) * (push_bit ?r 1 div 512) * push_bit (unat cm + 2) 1)"
      by (simp add: sd_geometry_def assms(1) del: push_bit_of_1)
    have "unat (snd (sd_geometry csd)) = (unat cs + 1) * 2 ^ (?r - 9) * 2 ^ (unat cm + 2)"
      unfolding g snd_conv using q by (subst unat_mult_no_wrap) (simp_all only: u cm, simp)
    then have "512 * unat (snd (sd_geometry csd)) = (unat cs + 1) * 2 ^ (unat cm + 2) * 2 ^ ?r" unfolding e by (simp only: mult_ac)
    moreover have "(512 :: nat) \<le> 2 ^ ?r" unfolding e by simp
    moreover have "unat (512 :: u32) = 512" by simp
    ultimately show ?thesis unfolding g fst_conv by (simp only: min_absorb1 simp_thms)
  next
    case False
    then have b: "(2 :: nat) ^ ?r \<le> 2 ^ 9" by (intro power_increasing) simp_all
    then have "\<not> 512 < (push_bit ?r 1 :: u32)" by (simp del: push_bit_of_1 add: word_less_nat_alt r)
    then have g: "sd_geometry csd = (push_bit ?r 1, (ucast cs + 1) * push_bit (unat cm + 2) 1)"
      by (simp add: sd_geometry_def assms(1) del: push_bit_of_1)
    have "(unat cs + 1) * 2 ^ (unat cm + 2) \<le> 4096 * 2 ^ 9" using f(1) cmb by (intro mult_le_mono) simp_all
    then have "unat ((ucast cs + 1) * (push_bit (unat cm + 2) 1 :: u32)) = (unat cs + 1) * 2 ^ (unat cm + 2)"
      by (subst unat_mult_no_wrap) (simp_all only: cs cm, simp)
    then show ?thesis unfolding g using b by (simp del: push_bit_of_1 add: r min_def)
  qed
qed

text \<open>
  C29: the driver reads the capacity off the CSD as the card's specification defines it by bit numbers. Of
  version 1 (\<open>CSD_STRUCTURE\<close>, bits 127 to 126, zero) it is
  \<open>(C_SIZE + 1) * 2 ^ (C_SIZE_MULT + 2) * 2 ^ READ_BL_LEN\<close> bytes with \<open>C_SIZE\<close> in bits 73 to 62,
  \<open>C_SIZE_MULT\<close> in bits 49 to 47 and \<open>READ_BL_LEN\<close> in bits 83 to 80, in blocks of at most 512 bytes; of
  version 2, \<open>(C_SIZE + 1) * 1024\<close> blocks of 512 bytes with \<open>C_SIZE\<close> in bits 69 to 48, unless they are all ones.
\<close>

theorem sd_geometry_capacity:
  "let (bsize, bnum) = sd_geometry (parse_sd_csd resp) in
   (csd_bits 127 126 resp = 0 \<longrightarrow>
      unat bsize = min 512 (2 ^ csd_bits 83 80 resp) \<and>
      unat bsize * unat bnum = (csd_bits 73 62 resp + 1) * 2 ^ (csd_bits 49 47 resp + 2) * 2 ^ csd_bits 83 80 resp) \<and>
   (csd_bits 127 126 resp \<noteq> 0 \<longrightarrow>
      bsize = 512 \<and> (csd_bits 69 48 resp \<noteq> 2 ^ 22 - 1 \<longrightarrow> unat bnum = (csd_bits 69 48 resp + 1) * 1024))"
proof (cases "csd_size (parse_sd_csd resp)")
  case (Csd_ver1 cs a b c d cm)
  then show ?thesis
    using sd_geometry_ver1 [OF Csd_ver1] csd_fields(1,2) [of resp] csd_field_bits(1,2) [of resp] by (auto simp: case_prod_beta)
next
  case (Csd_ver2 n)
  then have n: "unat n < 2 ^ 22" using csd_fields(3) by blast
  have "unat ((n + 1) * 1024) = (unat n + 1) * 1024" if "unat n \<noteq> 2 ^ 22 - 1"
  proof -
    have "unat (n + 1) = unat n + 1" using n by (subst unat_add_no_wrap) simp_all
    then show ?thesis using n that by (simp add: unat_word_ariths)
  qed
  then show ?thesis using Csd_ver2 csd_field_bits(3) [OF Csd_ver2] by (simp add: sd_geometry_def)
qed

theorem sd_geometry_capacity_witness:
  "case sd_geometry (parse_sd_csd [0, 0xC0038000, 0x005903FF, 0x32]) of (bsize, bnum) \<Rightarrow> bsize = 512 \<and> unat bnum * 512 = 4096 * 2 ^ 9 * 2 ^ 9"
proof -
  let ?r = "[0, 0xC0038000, 0x005903FF, 0x32] :: u32 list"
  have "csd_bits 127 126 ?r = 0" "csd_bits 83 80 ?r = 9" "csd_bits 73 62 ?r = 4095" "csd_bits 49 47 ?r = 7"
    by (simp_all add: csd_bits_words)
  then have "case sd_geometry (parse_sd_csd ?r) of (bsize, bnum) \<Rightarrow> unat bsize = 512 \<and> 512 * unat bnum = 4096 * 2 ^ 9 * 2 ^ 9"
    using sd_geometry_capacity [of ?r] by (auto simp: case_prod_beta)
  then show ?thesis by (auto simp: case_prod_beta word_unat_eq_iff)
qed

section \<open>The driver on a card\<close>

text \<open>
  The controller and a card as their documentation describes what the driver uses of them: the lines
  are idle, a reset is over at once, writing the command register carries the command out, a read
  command copies blocks to the DMA address and completes, a status command answers that the card is in
  the transfer state.
\<close>

record sd_host =
  hbase :: u32
  hregs :: "u32 \<Rightarrow> u32"
  disk :: "nat \<Rightarrow> u8 list"
  high_cap :: bool

definition disk_bytes :: "sd_host \<Rightarrow> nat \<Rightarrow> nat \<Rightarrow> u8 list" where
  "disk_bytes h n k = concat (map (disk h) [n..<n + k])"

definition host_exec :: "u32 \<Rightarrow> sd_host mach \<Rightarrow> sd_host mach" where
  "host_exec idx hm =
     (let (h, m) = hm
      in if idx = 17 \<or> idx = 18 then
           (let n = unat (if high_cap h then hregs h 8 else hregs h 8 div 512)
            in (h\<lparr>hregs := (hregs h)(0x30 := 3)\<rparr>, store (hregs h 0) (disk_bytes h n (unat (drop_bit 16 (hregs h 4)))) m))
         else (h\<lparr>hregs := (hregs h)(0x30 := 1, 0x10 := (if idx = 13 then 0x900 else 0))\<rparr>, m))"

definition host_bus :: "sd_host hbus" where
  "host_bus = \<lparr>
     reg_rd = (\<lambda>a (h, m).
       let off = a - hbase h
       in (if off = 0x24 then 8 else if off = 0x2C then hregs h off AND NOT 0xF000000 else hregs h off, (h, m))),
     reg_wr = (\<lambda>a v (h, m).
       let off = a - hbase h
       in if off = 0x30 then (h\<lparr>hregs := (hregs h)(0x30 := hregs h 0x30 AND NOT v)\<rparr>, m)
          else if off = 0x0C then host_exec (drop_bit 24 v) (h\<lparr>hregs := (hregs h)(0x0C := v)\<rparr>, m)
          else (h\<lparr>hregs := (hregs h)(off := v)\<rparr>, m))\<rparr>"

definition host_ok :: "sd_host sdmmc \<Rightarrow> bool" where
  "host_ok s \<longleftrightarrow> (let h = fst (mach s) in hbase h = sdmmc_pbase s \<and> (\<forall>n. length (disk h n) = 512) \<and>
     (high_cap h \<longleftrightarrow> card_type (sd_card s) \<noteq> EMMC \<and> card_type (sd_card s) \<noteq> ESDC) \<and>
     (high_cap h \<or> unat (blk_num (sd_card s)) \<le> 2 ^ 23))"

lemma host_in: "mach s = (h, m) \<Longrightarrow> hbase h = sdmmc_pbase s \<Longrightarrow>
    sd_in host_bus off s = ((if off = 0x24 then 8 else if off = 0x2C then hregs h off AND NOT 0xF000000 else hregs h off), s)"
  by (simp add: sd_in_def host_bus_def Let_def)

lemma host_out: "mach s = (h, m) \<Longrightarrow> hbase h = sdmmc_pbase s \<Longrightarrow> off \<noteq> 0x30 \<Longrightarrow> off \<noteq> 0x0C \<Longrightarrow>
    sd_out host_bus off v s = s\<lparr>mach := (h\<lparr>hregs := (hregs h)(off := v)\<rparr>, m)\<rparr>"
  by (simp add: sd_out_def host_bus_def Let_def)

lemma host_clear: "mach s = (h, m) \<Longrightarrow> hbase h = sdmmc_pbase s \<Longrightarrow>
    sd_out host_bus 0x30 v s = s\<lparr>mach := (h\<lparr>hregs := (hregs h)(0x30 := hregs h 0x30 AND NOT v)\<rparr>, m)\<rparr>"
  by (simp add: sd_out_def host_bus_def Let_def)

lemma host_cmd: "mach s = (h, m) \<Longrightarrow> hbase h = sdmmc_pbase s \<Longrightarrow>
    sd_out host_bus 0x0C v s = s\<lparr>mach := host_exec (drop_bit 24 v) (h\<lparr>hregs := (hregs h)(0x0C := v)\<rparr>, m)\<rparr>"
  by (simp add: sd_out_def host_bus_def Let_def)

lemmas host_simps = host_in host_out host_clear host_cmd sd_upd_def sd_wait_set_def sd_wait_clear_def spin_ready

lemma host_data_wait:
  "mach s = (h, m) \<Longrightarrow> hbase h = sdmmc_pbase s \<Longrightarrow> hregs h 0x30 = 3 \<Longrightarrow> data_wait host_bus s = Some (SDMMC_OK, s)"
  by (subst data_wait.simps) (simp add: host_simps)

lemma disk_bytes_regs: "disk_bytes (h\<lparr>hregs := r\<rparr>) n k = disk_bytes h n k"
  by (simp add: disk_bytes_def)

lemma host_send_read:
  assumes "mach s = (h, m)" "hbase h = sdmmc_pbase s" "c = 17 \<or> c = 18"
  shows "\<exists>h'. sdmmc_send_cmd host_bus None (CMD_CREATE c arg 512 cnt buf s) =
      Some (SDMMC_OK, None, (CMD_CREATE c arg 512 cnt buf s)\<lparr>mach := (h', store buf
         (disk_bytes h (unat (if high_cap h then arg else arg div 512)) (unat (drop_bit 16 (push_bit 16 cnt OR 512)))) m)\<rparr>) \<and>
     hbase h' = hbase h \<and> disk h' = disk h \<and> high_cap h' = high_cap h"
proof -
  have g: "get_cmd 17 = Some (17, 0x113A0000)" "get_cmd 18 = Some (18, 0x123A0000)"
    by (simp_all add: get_cmd_def cmdtab_def)
  show ?thesis
    using assms(3)
  proof
    assume c: "c = 17"
    show ?thesis
      using assms(1,2)
      by (intro exI [of _ "h\<lparr>hregs := (hregs h)(4 := push_bit 16 cnt OR 512, 0 := buf,
          0x2C := (hregs h 0x2C AND NOT 0xF000000) AND NOT 0xF0000 OR push_bit 16 14, 0x30 := hregs h 0x30 AND NOT 0xffffffff,
          0x44 := 0x80, 8 := arg, 0x48 := 0x11 OR (hregs h 0x48 AND 0x3C00000), 0x0C := 0x113A0000, 0x30 := 3)\<rparr>"])
        (simp add: c sdmmc_send_cmd_def CMD_CREATE_def g host_simps mx6x_setup_dma_read_def host_exec_def
        host_data_wait disk_bytes_regs)
  next
    assume c: "c = 18"
    show ?thesis
      using assms(1,2)
      by (intro exI [of _ "h\<lparr>hregs := (hregs h)(4 := push_bit 16 cnt OR 512, 0 := buf,
          0x2C := (hregs h 0x2C AND NOT 0xF000000) AND NOT 0xF0000 OR push_bit 16 14, 0x30 := hregs h 0x30 AND NOT 0xffffffff,
          0x44 := 0x80, 8 := arg, 0x48 := 0x37 OR (hregs h 0x48 AND 0x3C00000), 0x0C := 0x123A0000, 0x30 := 3)\<rparr>"])
        (simp add: c sdmmc_send_cmd_def CMD_CREATE_def g host_simps mx6x_setup_dma_read_def host_exec_def
        host_data_wait disk_bytes_regs)
  qed
qed

lemma host_get_state:
  assumes "mach s = (h, m)" "hbase h = sdmmc_pbase s"
  shows "\<exists>h' c. sdmmc_get_state host_bus s =
      Some (SDMMC_OK, s\<lparr>mach := (h', m), sd_cmd := c, sd_card := (sd_card s)\<lparr>card_state := MMC_TRAN\<rparr>\<rparr>) \<and>
     hbase h' = hbase h \<and> disk h' = disk h \<and> high_cap h' = high_cap h"
proof -
  have g: "get_cmd 13 = Some (13, 0x0D1A0000)" by (simp add: get_cmd_def cmdtab_def)
  show ?thesis
    using assms
    by (intro exI [of _ "h\<lparr>hregs := (hregs h)(0x30 := hregs h 0x30 AND NOT 0xffffffff, 0x44 := 0x80, 8 := rca_arg s,
         0x48 := 0 OR (hregs h 0x48 AND 0x3C00000), 0x0C := 0x0D1A0000, 0x30 := 1, 0x10 := 0x900)\<rparr>"]
         exI [of _ "\<lparr>cmd_cmd = 13, cmd_arg = rca_arg s, cmd_bsize = 0, cmd_bcnt = 0, cmd_dbuf = 0, cmd_erintsts = 0\<rparr>"])
      (simp add: sdmmc_get_state_def send_rsp_def sdmmc_send_cmd_def CMD_CREATE_def g host_simps host_exec_def
        read_response_def)
qed

lemma host_wait_tran:
  assumes "mach s = (h, m)" "hbase h = sdmmc_pbase s"
  shows "\<exists>h' c. wait_tran host_bus s =
      Some (SDMMC_OK, s\<lparr>mach := (h', m), sd_cmd := c, sd_card := (sd_card s)\<lparr>card_state := MMC_TRAN\<rparr>\<rparr>) \<and>
     hbase h' = hbase h \<and> disk h' = disk h \<and> high_cap h' = high_cap h"
proof (cases "card_state (sd_card s) = MMC_TRAN")
  case True
  then have "wait_tran host_bus s = Some (SDMMC_OK, s)" by (subst wait_tran.simps) simp
  moreover have "s = s\<lparr>mach := (h, m), sd_cmd := sd_cmd s, sd_card := (sd_card s)\<lparr>card_state := MMC_TRAN\<rparr>\<rparr>"
    using True assms(1) by simp
  ultimately show ?thesis by (intro exI [of _ h] exI [of _ "sd_cmd s"]) simp
next
  case False
  obtain h' c where g: "sdmmc_get_state host_bus s =
      Some (SDMMC_OK, s\<lparr>mach := (h', m), sd_cmd := c, sd_card := (sd_card s)\<lparr>card_state := MMC_TRAN\<rparr>\<rparr>)"
      "hbase h' = hbase h" "disk h' = disk h" "high_cap h' = high_cap h"
    using host_get_state [OF assms] by blast
  have "wait_tran host_bus s =
      Some (SDMMC_OK, s\<lparr>mach := (h', m), sd_cmd := c, sd_card := (sd_card s)\<lparr>card_state := MMC_TRAN\<rparr>\<rparr>)"
    using False g(1) by (subst wait_tran.simps) (simp, subst wait_tran.simps, simp)
  then show ?thesis using g by blast
qed

definition card_memory :: "'h sdmmc \<Rightarrow> mem" where
  "card_memory s = snd (mach s)"

lemma blkcnt_field: "unat cnt < 2 ^ 16 \<Longrightarrow> unat (drop_bit 16 (push_bit 16 cnt OR 512 :: u32)) = unat cnt"
proof -
  assume c: "unat cnt < 2 ^ 16"
  then have "unat (push_bit 16 cnt) = unat cnt * 2 ^ 16" by (subst unat_push_bit_no_wrap) simp_all
  then have "unat (push_bit 16 cnt OR 512) = unat cnt * 2 ^ 16 + 512"
    by (subst unat_or_disjoint [of 16]) simp_all
  then show ?thesis by (simp only: unat_drop_bit) simp
qed

lemma sdmmc_read_range:
  fixes s :: "'h sdmmc"
  defines "n \<equiv> unat (blk_num (sd_card s))"
  shows "(blk_num (sd_card s) \<le> blkno \<or> blk_num (sd_card s) < blkno + blkcnt \<or> blkno + blkcnt < blkno) \<longleftrightarrow>
      \<not> (unat blkno < n \<and> unat blkno + unat blkcnt \<le> n)"
proof -
  have add: "unat (blkno + blkcnt) = (unat blkno + unat blkcnt) mod 2 ^ 32" by (simp add: unat_word_ariths)
  show ?thesis
    using unat_lt32 [of "blk_num (sd_card s)"] unat_lt32 [of blkno] unat_lt32 [of blkcnt]
    by (cases "unat blkno + unat blkcnt < 2 ^ 32")
      (auto simp: n_def word_le_nat_alt word_less_nat_alt add mod_if)
qed

lemma sdmmc_read_refused:
  "\<not> (unat blkno < unat (blk_num (sd_card s)) \<and> unat blkno + unat blkcnt \<le> unat (blk_num (sd_card s))) \<Longrightarrow>
     sdmmc_read b buf blkno blkcnt s = Some (SDMMC_ERROR, s)"
  using sdmmc_read_range [of s blkno blkcnt] by (simp add: sdmmc_read_def Let_def)

lemma sdmmc_read_host:
  assumes ok: "host_ok s" and cnt: "unat blkcnt < 2 ^ 16" "blkcnt \<noteq> 0"
    and range: "unat blkno + unat blkcnt \<le> unat (blk_num (sd_card s))"
  shows "\<exists>s'. sdmmc_read host_bus buf blkno blkcnt s = Some (SDMMC_OK, s') \<and> host_ok s' \<and>
        disk (fst (mach s')) = disk (fst (mach s)) \<and> blk_num (sd_card s') = blk_num (sd_card s) \<and>
        card_memory s' = store buf (disk_bytes (fst (mach s)) (unat blkno) (unat blkcnt)) (card_memory s)"
proof -
  have "0 < unat blkcnt" using cnt(2) by (simp add: unat_gt_0)
  then have r: "unat blkno < unat (blk_num (sd_card s))" using range by simp
  obtain h m where hm: "mach s = (h, m)" by (cases "mach s")
  have b: "hbase h = sdmmc_pbase s" and hc: "high_cap h \<longleftrightarrow> card_type (sd_card s) \<noteq> EMMC \<and> card_type (sd_card s) \<noteq> ESDC"
    using ok by (simp_all add: host_ok_def hm)
  define c where "c = (if blkcnt = 1 then 17 else 18 :: int)"
  define arg where "arg = (if high_cap h then blkno else blkno * 512)"
  have c: "c = 17 \<or> c = 18" by (simp add: c_def)
  have "unat (blkno * 512) = unat blkno * 512" if "\<not> high_cap h"
    using that r ok by (simp add: host_ok_def hm unat_word_ariths)
  then have a: "unat (if high_cap h then arg else arg div 512) = unat blkno" by (simp add: arg_def unat_div)
  have a2: "arg = (if card_type (sd_card s) = EMMC \<or> card_type (sd_card s) = ESDC then blkno * 512 else blkno)"
    by (auto simp: arg_def hc)
  let ?s = "CMD_CREATE c arg 512 blkcnt buf s"
  obtain h1 where h1: "sdmmc_send_cmd host_bus None ?s =
      Some (SDMMC_OK, None, ?s\<lparr>mach := (h1, store buf (disk_bytes h (unat blkno) (unat blkcnt)) m)\<rparr>)"
      "hbase h1 = hbase h" "disk h1 = disk h" "high_cap h1 = high_cap h"
    using host_send_read [OF hm b c, of arg blkcnt buf] unfolding a blkcnt_field [OF cnt(1)] by blast
  let ?s1 = "?s\<lparr>mach := (h1, store buf (disk_bytes h (unat blkno) (unat blkcnt)) m)\<rparr>"
  have m1: "mach ?s1 = (h1, store buf (disk_bytes h (unat blkno) (unat blkcnt)) m)" "hbase h1 = sdmmc_pbase ?s1"
    using h1(2) b by (simp_all add: CMD_CREATE_def)
  have "sdmmc_read host_bus buf blkno blkcnt s = wait_tran host_bus ?s1"
    using r range cnt(2) sdmmc_read_range [of s blkno blkcnt] h1(1) unfolding c_def a2 by (simp add: sdmmc_read_def Let_def)
  then show ?thesis
    using host_wait_tran [OF m1] h1 hm ok b
    by (auto simp: host_ok_def card_memory_def CMD_CREATE_def)
qed

text \<open>
  C11: on a card in range, a read of fewer than 65536 blocks succeeds and puts exactly those blocks at
  the buffer; a read that leaves the card, or that starts past its end, is refused and changes nothing.
\<close>

theorem sdmmc_read_blocks:
  assumes ok: "host_ok s" and cnt: "unat blkcnt < 2 ^ 16"
  defines "n \<equiv> unat (blk_num (sd_card s))"
  shows "if unat blkno < n \<and> unat blkno + unat blkcnt \<le> n
     then \<exists>s'. sdmmc_read host_bus buf blkno blkcnt s = Some (SDMMC_OK, s') \<and> host_ok s' \<and>
        disk (fst (mach s')) = disk (fst (mach s)) \<and> blk_num (sd_card s') = blk_num (sd_card s) \<and>
        card_memory s' = store buf (disk_bytes (fst (mach s)) (unat blkno) (unat blkcnt)) (card_memory s)
     else sdmmc_read host_bus buf blkno blkcnt s = Some (SDMMC_ERROR, s)"
proof (cases "unat blkno < n \<and> unat blkno + unat blkcnt \<le> n")
  case False
  then show ?thesis using sdmmc_read_refused [of blkno s blkcnt] by (simp add: n_def)
next
  case True
  show ?thesis
  proof (cases "blkcnt = 0")
    case z: True
    then show ?thesis
      using True ok sdmmc_read_range [of s blkno blkcnt] by (simp add: sdmmc_read_def Let_def disk_bytes_def card_memory_def n_def)
  next
    case False
    then show ?thesis using True sdmmc_read_host [OF ok cnt, of blkno buf] by (simp add: n_def)
  qed
qed

definition card_100 :: "'h mach \<Rightarrow> 'h sdmmc" where
  "card_100 hm =
     \<lparr>mach = hm,
      sdmmc_pbase = 0x2198000, icr = 0, ocr = 0,
      sd_cmd = \<lparr>cmd_cmd = 0, cmd_arg = 0, cmd_bsize = 0, cmd_bcnt = 0, cmd_dbuf = 0, cmd_erintsts = 0\<rparr>,
      sd_card = \<lparr>card_state = MMC_TRAN, card_type = ESDC_HC, blk_size = 512, blk_num = 100, card_speed = 0, card_rca = 0\<rparr>,
      csd_sd = parse_sd_csd [0, 0, 0, 0],
      cid_sd = \<lparr>sd_mid = 0, sd_oid = [], sd_pnm = [], sd_prv = 0, sd_psn = 0, sd_mdt = 0\<rparr>,
      csd_mmc = \<lparr>mmc_csd_structure = 0, mmc_prot = 0, mmc_tran_speed = 0, mmc_read_bl_len = 0, mmc_c_size = 0,
        mmc_c_size_mult = 0\<rparr>,
      cid_mmc = \<lparr>mmc_mid = 0, mmc_oid = 0, mmc_ycd = 0, mmc_pnm = [], mmc_hwr = 0, mmc_fwr = 0, mmc_mcd = 0, mmc_psn = 0\<rparr>\<rparr>"

definition sd_demo :: "sd_host sdmmc" where
  "sd_demo = card_100
     (\<lparr>hbase = 0x2198000, hregs = (\<lambda>_. 0), disk = (\<lambda>n. replicate 512 (of_nat n)), high_cap = True\<rparr>, \<lambda>_. 0)"

lemma sd_demo_ok: "host_ok sd_demo" "unat (blk_num (sd_card sd_demo)) = 100" "disk (fst (mach sd_demo)) n = replicate 512 (of_nat n)"
    "card_memory sd_demo = (\<lambda>_. 0)"
  by (simp_all add: sd_demo_def card_100_def host_ok_def card_memory_def)

theorem sdmmc_read_blocks_witness:
  "(\<exists>s'. sdmmc_read host_bus 0x1000 7 2 sd_demo = Some (SDMMC_OK, s') \<and>
      card_memory s' = store 0x1000 (replicate 512 7 @ replicate 512 8) (\<lambda>_. 0)) \<and>
   sdmmc_read host_bus 0x1000 99 2 sd_demo = Some (SDMMC_ERROR, sd_demo)"
  using sdmmc_read_blocks [OF sd_demo_ok(1), of 2 7 "0x1000"] sdmmc_read_blocks [OF sd_demo_ok(1), of 2 99 "0x1000"]
  by (auto simp: sd_demo_ok disk_bytes_def upt_rec)

end
