(* ===== verification/Ipl_Fat.thy ===== *)
theory Ipl_Fat
  imports Ipl_Sdmmc "HOL-Library.Signed_Division"
begin

text \<open>
  The read-only FAT32 file system of the boot loader (\<open>ipl/boards/mx6q-sabresmart/fat-fs.c\<close> and
  \<open>fat-fs.h\<close>). The code reads sectors through \<open>sdmmc_read\<close> into memory; here it works on a block
  device \<open>'s blkdev\<close> with that function and the memory of the machine, and the SD card of
  \<open>Ipl_Sdmmc\<close> is such a device. On-disk structures are the little-endian fields of the sector
  buffer at the offsets of their packed structs. The two sector buffer \<open>blk_buf\<close> is an object
  whose address the linker chooses. Messages to the console, and with them the \<open>verbose\<close> listing of
  \<open>fat_read_mbr\<close>, are left out. A loop that need not end is a partial function.
\<close>

section \<open>Data\<close>

record fs_info =
  fs_offset :: u32
  fat_type :: u32
  total_sectors :: u32
  root_dir_sectors :: u32
  reserved_sectors :: u32
  data_sectors :: u32
  fat_size :: u32
  number_of_fats :: u32
  cluster_size :: u32
  count_of_clusters :: u32
  fat1_start :: u32
  fat2_start :: u32
  root_dir_start :: u32
  root_entry_count :: u32
  cluster2_start :: u32

record 's blkdev =
  dev_read :: "u32 \<Rightarrow> u32 \<Rightarrow> u32 \<Rightarrow> 's \<Rightarrow> (int \<times> 's) option"
  dev_mem :: "'s \<Rightarrow> mem"
  dev_set_mem :: "mem \<Rightarrow> 's \<Rightarrow> 's"

text \<open>The file system's globals: \<open>fs_info\<close>, the address of \<open>blk_buf\<close> and the pointer \<open>blk\<close>.\<close>

record fat_vars =
  fsi :: fs_info
  blk_buf :: u32
  blk :: u32

abbreviation SECT_SIZE :: u32 where "SECT_SIZE \<equiv> 512"
abbreviation ENT_UNUSED :: u8 where "ENT_UNUSED \<equiv> 0xE5"
abbreviation ENT_END :: u8 where "ENT_END \<equiv> 0"

definition GET_WORD :: "mem \<Rightarrow> u32 \<Rightarrow> u32" where "GET_WORD m a = ucast (u16_at m a)"
definition GET_LONG :: "mem \<Rightarrow> u32 \<Rightarrow> u32" where "GET_LONG m a = u32_at m a"

definition GET_CLUSTER :: "mem \<Rightarrow> u32 \<Rightarrow> u32" where
  "GET_CLUSTER m e = ucast (u16_at m (e + 26)) OR push_bit 16 (ucast (u16_at m (e + 20)))"

definition dir_size :: "mem \<Rightarrow> u32 \<Rightarrow> u32" where "dir_size m e = u32_at m (e + 28)"

section \<open>Sectors\<close>

definition mem_cpy :: "u32 \<Rightarrow> u32 \<Rightarrow> int \<Rightarrow> mem \<Rightarrow> mem" where
  "mem_cpy dst src len m = snd (snd (copy_bytes (nat len) dst src m))"

definition read_sect :: "'s blkdev \<Rightarrow> u32 \<Rightarrow> u32 \<Rightarrow> u32 \<Rightarrow> 's \<Rightarrow> (int \<times> 's) option" where
  "read_sect d blkno buf blkcnt s = dev_read d buf blkno blkcnt s"

definition read_fsect :: "'s blkdev \<Rightarrow> fs_info \<Rightarrow> u32 \<Rightarrow> u32 \<Rightarrow> u32 \<Rightarrow> 's \<Rightarrow> (int \<times> 's) option" where
  "read_fsect d fs sector buf sect_cnt s = read_sect d (sector + fs_offset fs) buf sect_cnt s"

definition sdmmc_dev :: "'h hbus \<Rightarrow> 'h sdmmc blkdev" where
  "sdmmc_dev b = \<lparr>dev_read = sdmmc_read b, dev_mem = card_memory, dev_set_mem = (\<lambda>m s. s\<lparr>mach := (fst (mach s), m)\<rparr>)\<rparr>"

section \<open>The volume\<close>

text \<open>
  \<open>for (ns = 0; rc >= bs; ns++) rc -= bs;\<close> on \<open>int\<close>s: it does not end when \<open>bs\<close> is zero and \<open>rc\<close>
  is not negative.
\<close>

partial_function (option) count_loop :: "int \<Rightarrow> int \<Rightarrow> u32 \<Rightarrow> u32 option" where
  "count_loop rc bs ns = (if bs \<le> rc then count_loop (rc - bs) bs (ns + 1) else Some ns)"

definition fat_detect_type :: "mem \<Rightarrow> u32 \<Rightarrow> fs_info \<Rightarrow> (int \<times> fs_info) option" where
  "fat_detect_type m bpb fs =
     (if GET_WORD m (bpb + 510) \<noteq> 0xaa55 then Some (- 1, fs)
      else do {
        let bs = uint (GET_WORD m (bpb + 11));
        ns \<leftarrow> count_loop (uint (GET_WORD m (bpb + 17)) * 32 + bs - 1) bs 0;
        let fsz = (let f = GET_WORD m (bpb + 22) in if f = 0 then GET_LONG m (bpb + 36) else f);
        let total = (let t = GET_WORD m (bpb + 19) in if t = 0 then GET_LONG m (bpb + 32) else t);
        let nfats = ucast (m (bpb + 16));
        let rsvd = GET_WORD m (bpb + 14);
        let dsect = total - (rsvd + nfats * fsz + ns);
        let csize = ucast (m (bpb + 13));
        nc \<leftarrow> count_loop (sint dsect) (sint csize) 0;
        let ents = GET_WORD m (bpb + 17);
        let fat2 = rsvd + fsz;
        let root = fat2 + fsz;
        let fs = fs\<lparr>root_dir_sectors := ns, fat_size := fsz, total_sectors := total, number_of_fats := nfats,
                    reserved_sectors := rsvd, data_sectors := dsect, cluster_size := csize, count_of_clusters := nc,
                    root_entry_count := ents, fat1_start := rsvd, fat2_start := fat2, root_dir_start := root,
                    cluster2_start := root + (ents * 32 + 511) div 512\<rparr>;
        if nc < 4085 then Some (12, fs)
        else if nc < 65525 then Some (16, fs)
        else Some (32, fs\<lparr>root_dir_start := GET_LONG m (bpb + 44)\<rparr>) })"

definition fat_read_mbr :: "'s blkdev \<Rightarrow> fat_vars \<Rightarrow> 's \<Rightarrow> (int \<times> fat_vars \<times> 's) option" where
  "fat_read_mbr d v s =
     do { let v = v\<lparr>blk := blk_buf v\<rparr>;
          let mbr = blk v;
          let bpb = blk v + SECT_SIZE;
          let pe = mbr + 446;
          (st, s) \<leftarrow> read_sect d 0 mbr 1 s;
          if st \<noteq> SDMMC_OK then Some (SDMMC_ERROR, v, s)
          else if u16_at (dev_mem d s) (mbr + 510) \<noteq> 0xaa55 then Some (SDMMC_ERROR, v, s)
          else if GET_LONG (dev_mem d s) (pe + 12) = 0 then Some (SDMMC_ERROR, v, s)
          else do {
            let v = v\<lparr>fsi := (fsi v)\<lparr>fs_offset := GET_LONG (dev_mem d s) (pe + 8)\<rparr>\<rparr>;
            (st, s) \<leftarrow> read_fsect d (fsi v) 0 bpb 1 s;
            if st \<noteq> 0 then Some (SDMMC_ERROR, v, s)
            else do {
              (t, fs) \<leftarrow> fat_detect_type (dev_mem d s) bpb (fsi v);
              let v = v\<lparr>fsi := fs\<lparr>fat_type := word_of_int t\<rparr>\<rparr>;
              if t = - 1 then Some (SDMMC_ERROR, v, s) else Some (SDMMC_OK, v, s) } } }"

section \<open>Clusters\<close>

definition clust2fsect :: "fs_info \<Rightarrow> u32 \<Rightarrow> u32" where
  "clust2fsect fs clust = cluster2_start fs + (clust - 2) * cluster_size fs"

definition fat_get_fat_entry :: "'s blkdev \<Rightarrow> fat_vars \<Rightarrow> u32 \<Rightarrow> 's \<Rightarrow> (u32 \<times> 's) option" where
  "fat_get_fat_entry d v clust s =
     do { let fat_sec = fat1_start (fsi v) + clust * 4 div SECT_SIZE;
          let fat_offs = clust * 4 mod SECT_SIZE;
          (st, s) \<leftarrow> read_fsect d (fsi v) fat_sec (blk_buf v) 1 s;
          if st \<noteq> SDMMC_OK then Some (0, s)
          else Some (u32_at (dev_mem d s) (blk_buf v + fat_offs) AND 0x0fffffff, s) }"

definition end_of_file :: "u32 \<Rightarrow> bool" where
  "end_of_file clust \<longleftrightarrow> clust = 0x0ffffff8 \<or> clust = 0x0fffffff"

definition read_clust :: "'s blkdev \<Rightarrow> fat_vars \<Rightarrow> u32 \<Rightarrow> u32 \<Rightarrow> int \<Rightarrow> 's \<Rightarrow> (int \<times> 's) option" where
  "read_clust d v clust buf sz s =
     do { let n = (word_of_int (sz sdiv 512) :: u32);
          let sectors = (if cluster_size (fsi v) \<le> n then cluster_size (fsi v) else n);
          let rest = (if cluster_size (fsi v) \<le> n then 0 else word_of_int (sz smod 512) :: u32);
          (st, s) \<leftarrow> (if sectors \<noteq> 0 then read_fsect d (fsi v) (clust2fsect (fsi v) clust) buf sectors s
                     else Some (SDMMC_OK, s));
          if st \<noteq> SDMMC_OK then Some (SDMMC_ERROR, s)
          else if rest \<noteq> 0 then do {
            (st, s) \<leftarrow> read_fsect d (fsi v) (clust2fsect (fsi v) clust + sectors) (blk v) 1 s;
            if st \<noteq> SDMMC_OK then Some (SDMMC_ERROR, s)
            else Some (SDMMC_OK, dev_set_mem d (mem_cpy (buf + sectors * SECT_SIZE) (blk v) (sint rest) (dev_mem d s)) s) }
          else Some (SDMMC_OK, s) }"

partial_function (option) fat_copy_loop :: "'s blkdev \<Rightarrow> fat_vars \<Rightarrow> u32 \<Rightarrow> int \<Rightarrow> u32 \<Rightarrow> 's \<Rightarrow> (int \<times> 's) option" where
  "fat_copy_loop d v clust sz buf s =
     (if \<not> end_of_file clust \<and> 0 < sz then
        do { let lim = cluster_size (fsi v) * SECT_SIZE;
             let txf = sint (if word_of_int sz < lim then word_of_int sz else lim);
             (st, s) \<leftarrow> read_clust d v clust buf txf s;
             if st \<noteq> SDMMC_OK then Some (SDMMC_ERROR, s)
             else do {
               (next, s) \<leftarrow> fat_get_fat_entry d v clust s;
               fat_copy_loop d v next (sz - txf) (buf + word_of_int txf) s } }
      else Some (SDMMC_OK, s))"

definition fat_copy_file :: "'s blkdev \<Rightarrow> fat_vars \<Rightarrow> u32 \<Rightarrow> u32 \<Rightarrow> u32 \<Rightarrow> 's \<Rightarrow> (int \<times> 's) option" where
  "fat_copy_file d v clust sz buf s = fat_copy_loop d v clust (sint sz) buf s"

section \<open>Directories\<close>

text \<open>The comparison of the first \<open>min (strlen name) 11\<close> characters.\<close>

fun name_loop :: "u8 list \<Rightarrow> nat \<Rightarrow> mem \<Rightarrow> u32 \<Rightarrow> bool" where
  "name_loop (c # name) (Suc n) m e = (c = m e \<and> name_loop name n m (e + 1))"
| "name_loop _ _ m e = True"

text \<open>
  The entries of a sector from the \<open>ent\<close>-th on: the entry to copy, or the number at which the search
  of the sector stopped.
\<close>

fun dir_loop :: "u8 list \<Rightarrow> nat \<Rightarrow> u32 \<Rightarrow> mem \<Rightarrow> u32 + nat" where
  "dir_loop name 0 e m = Inr 0"
| "dir_loop name (Suc left) e m =
     (if m e = ENT_END then Inr (Suc left)
      else if m e = ENT_UNUSED then dir_loop name left (e + 32) m
      else if \<not> name_loop name 11 m e \<or> GET_CLUSTER m e = 0 then dir_loop name left (e + 32) m
      else Inl e)"

fun sub_loop :: "'s blkdev \<Rightarrow> fat_vars \<Rightarrow> u8 list \<Rightarrow> u32 \<Rightarrow> nat \<Rightarrow> 's \<Rightarrow> (int \<times> u32 option \<times> 's) option" where
  "sub_loop d v name sect 0 s = Some (SDMMC_OK, None, s)"
| "sub_loop d v name sect (Suc left) s =
     do { (st, s) \<leftarrow> read_fsect d (fsi v) sect (blk v) 1 s;
          if st \<noteq> SDMMC_OK then Some (SDMMC_ERROR, None, s)
          else case dir_loop name 16 (blk v) (dev_mem d s) of
                 Inl e \<Rightarrow> Some (SDMMC_OK, Some e, s)
               | Inr k \<Rightarrow> if 0 < k then Some (SDMMC_OK, None, s) else sub_loop d v name (sect + 1) left s }"

partial_function (option) fat_dir_loop :: "'s blkdev \<Rightarrow> fat_vars \<Rightarrow> u32 \<Rightarrow> u8 list \<Rightarrow> u32 \<Rightarrow> 's \<Rightarrow> (int \<times> 's) option" where
  "fat_dir_loop d v buf name dir_clust s =
     (if \<not> end_of_file dir_clust then
        do { (st, hit, s) \<leftarrow> sub_loop d v name (clust2fsect (fsi v) dir_clust) (unat (cluster_size (fsi v))) s;
             if st \<noteq> SDMMC_OK then Some (SDMMC_ERROR, s)
             else case hit of
                    Some e \<Rightarrow> fat_copy_file d v (GET_CLUSTER (dev_mem d s) e) (dir_size (dev_mem d s) e) buf s
                  | None \<Rightarrow> do { (next, s) \<leftarrow> fat_get_fat_entry d v dir_clust s; fat_dir_loop d v buf name next s } }
      else Some (SDMMC_ERROR, s))"

definition fat_copy_named_file :: "'s blkdev \<Rightarrow> fat_vars \<Rightarrow> u32 \<Rightarrow> u8 list \<Rightarrow> 's \<Rightarrow> (int \<times> 's) option" where
  "fat_copy_named_file d v buf name s = fat_dir_loop d v buf name (root_dir_start (fsi v)) s"

section \<open>What is on the volume\<close>

text \<open>
  The volume as a function \<open>block\<close> from block numbers to their 512 bytes: the bytes of a cluster, the
  successor of a cluster in the first FAT, and the chain of clusters of a file, which is finite
  only when it reaches an end mark.
\<close>

definition clust_block :: "fs_info \<Rightarrow> u32 \<Rightarrow> nat" where
  "clust_block fs c = unat (clust2fsect fs c + fs_offset fs)"

definition fat_block :: "fs_info \<Rightarrow> u32 \<Rightarrow> nat" where
  "fat_block fs c = unat (fat1_start fs + c * 4 div SECT_SIZE + fs_offset fs)"

definition cluster_bytes :: "(nat \<Rightarrow> u8 list) \<Rightarrow> fs_info \<Rightarrow> u32 \<Rightarrow> u8 list" where
  "cluster_bytes block fs c = concat (map block [clust_block fs c..<clust_block fs c + unat (cluster_size fs)])"

definition fat_next :: "(nat \<Rightarrow> u8 list) \<Rightarrow> fs_info \<Rightarrow> u32 \<Rightarrow> u32" where
  "fat_next block fs c =
     word_of_nat (le_nat (take 4 (drop (unat (c * 4 mod SECT_SIZE)) (block (fat_block fs c))))) AND 0x0fffffff"

inductive chain :: "(u32 \<Rightarrow> u32) \<Rightarrow> u32 \<Rightarrow> u32 list \<Rightarrow> bool" for nxt where
  chain_end: "end_of_file c \<Longrightarrow> chain nxt c []"
| chain_step: "\<not> end_of_file c \<Longrightarrow> chain nxt (nxt c) cs \<Longrightarrow> chain nxt c (c # cs)"

inductive_simps chain_simps: "chain nxt c []" "chain nxt c (x # cs)"

definition clust_in :: "nat \<Rightarrow> fs_info \<Rightarrow> u32 \<Rightarrow> bool" where
  "clust_in n fs c \<longleftrightarrow> clust_block fs c + unat (cluster_size fs) \<le> n \<and> fat_block fs c < n"

definition volume_ok :: "fat_vars \<Rightarrow> bool" where
  "volume_ok v \<longleftrightarrow> blk v = blk_buf v \<and> 0 < unat (cluster_size (fsi v)) \<and> unat (cluster_size (fsi v)) < 256"

definition same_outside :: "u32 set \<Rightarrow> mem \<Rightarrow> mem \<Rightarrow> bool" where
  "same_outside A m m' \<longleftrightarrow> (\<forall>x. x \<notin> A \<longrightarrow> m' x = m x)"

lemma same_outside_refl [simp]: "same_outside A m m"
  by (simp add: same_outside_def)

lemma same_outside_trans: "same_outside A m m' \<Longrightarrow> same_outside B m' m'' \<Longrightarrow> A \<union> B \<subseteq> C \<Longrightarrow> same_outside C m m''"
  unfolding same_outside_def by (metis UnCI subset_iff)

lemma same_outside_store: "span a (length bs) \<subseteq> A \<Longrightarrow> same_outside A m (store a bs m)"
  by (auto simp: same_outside_def intro!: store_notin)

lemma same_outside_bytes: "same_outside A m m' \<Longrightarrow> A \<inter> span a n = {} \<Longrightarrow> bytes_at m' a n = bytes_at m a n"
  by (rule bytes_at_cong) (auto simp: same_outside_def)

lemma length_blocks: "(\<And>n. length (block n) = 512) \<Longrightarrow> length (concat (map block [i..<j])) = (j - i) * 512"
  by (simp add: length_concat comp_def sum_list_triv)

lemma bytes_at_store_part:
  assumes "i + k \<le> length bs" "length bs \<le> 2 ^ 32"
  shows "bytes_at (store a bs m) (a + of_nat i) k = take k (drop i bs)"
proof (rule nth_equalityI)
  fix j assume "j < length (bytes_at (store a bs m) (a + of_nat i) k)"
  then have j: "j < k" by simp
  then have "store a bs m (a + of_nat (i + j)) = bs ! (i + j)" using assms by (intro nth_store) auto
  then show "bytes_at (store a bs m) (a + of_nat i) k ! j = take k (drop i bs) ! j"
    using j assms by (simp add: nth_bytes_at add.assoc)
qed (use assms in simp)

lemma mem_cpy_eq:
  "span dst n \<inter> span src n = {} \<Longrightarrow> mem_cpy dst src (int n) m = store dst (bytes_at m src n) m"
  by (simp add: mem_cpy_def copy_bytes_eq)

section \<open>Reading files from any block device\<close>

text \<open>
  The contract of the block device below the file system: a read inside the device puts its blocks
  at the buffer, any other read is refused, and writing memory leaves the device alone.
\<close>

locale block_device =
  fixes d :: "'s blkdev" and dev_ok :: "'s \<Rightarrow> bool" and blocks :: "'s \<Rightarrow> nat" and block :: "'s \<Rightarrow> nat \<Rightarrow> u8 list"
  assumes read_in: "dev_ok s \<Longrightarrow> unat cnt < 2 ^ 16 \<Longrightarrow> cnt \<noteq> 0 \<Longrightarrow> unat n + unat cnt \<le> blocks s \<Longrightarrow>
      \<exists>s'. dev_read d buf n cnt s = Some (SDMMC_OK, s') \<and> dev_ok s' \<and> blocks s' = blocks s \<and> block s' = block s \<and>
        dev_mem d s' = store buf (concat (map (block s) [unat n..<unat n + unat cnt])) (dev_mem d s)"
    and read_out: "dev_ok s \<Longrightarrow> blocks s < unat n + unat cnt \<Longrightarrow> dev_read d buf n cnt s = Some (SDMMC_ERROR, s)"
    and block_len: "dev_ok s \<Longrightarrow> length (block s k) = 512"
    and blocks_le: "dev_ok s \<Longrightarrow> blocks s \<le> 2 ^ 32"
    and set_mem: "dev_ok s \<Longrightarrow> dev_ok (dev_set_mem d m s)" "blocks (dev_set_mem d m s) = blocks s"
      "block (dev_set_mem d m s) = block s" "dev_mem d (dev_set_mem d m s) = m"
begin

definition same_dev :: "'s \<Rightarrow> 's \<Rightarrow> bool" where
  "same_dev s s' \<longleftrightarrow> dev_ok s' \<and> blocks s' = blocks s \<and> block s' = block s"

lemma same_dev_trans: "same_dev s s' \<Longrightarrow> same_dev s' s'' \<Longrightarrow> same_dev s s''"
  by (simp add: same_dev_def)

lemma read_fsect_in:
  assumes "dev_ok s" "unat (sector + fs_offset fs) = n" "cnt \<noteq> 0" "unat cnt < 2 ^ 16" "n + unat cnt \<le> blocks s"
  shows "\<exists>s'. read_fsect d fs sector buf cnt s = Some (SDMMC_OK, s') \<and> same_dev s s' \<and>
     dev_mem d s' = store buf (concat (map (block s) [n..<n + unat cnt])) (dev_mem d s)"
  using read_in [of s cnt "sector + fs_offset fs" buf] assms
  by (auto simp: read_fsect_def read_sect_def same_dev_def)

lemma fat_entry_in:
  assumes ok: "dev_ok s" and c: "fat_block (fsi v) c < blocks s"
  shows "\<exists>s'. fat_get_fat_entry d v c s = Some (fat_next (block s) (fsi v) c, s') \<and> same_dev s s' \<and>
     same_outside (span (blk_buf v) 512) (dev_mem d s) (dev_mem d s')"
proof -
  let ?n = "fat_block (fsi v) c" and ?o = "unat (c * 4 mod SECT_SIZE)"
  obtain s' where s': "read_fsect d (fsi v) (fat1_start (fsi v) + c * 4 div SECT_SIZE) (blk_buf v) 1 s = Some (SDMMC_OK, s')"
      "same_dev s s'" and m: "dev_mem d s' = store (blk_buf v) (block s ?n) (dev_mem d s)"
    using read_fsect_in [of s "fat1_start (fsi v) + c * 4 div SECT_SIZE" "fsi v" ?n 1 "blk_buf v"] ok c
    by (auto simp: fat_block_def)
  have "?o = 4 * (unat c mod 128)"
    by (simp add: unat_mod unat_word_ariths mod_mult_mult1 [symmetric] mod_mod_cancel mult.commute [of _ 4])
  then have "?o + 4 \<le> 512" by simp
  then have "bytes_at (dev_mem d s') (blk_buf v + of_nat ?o) 4 = take 4 (drop ?o (block s ?n))"
    unfolding m using block_len [OF ok] by (intro bytes_at_store_part) auto
  then have "u32_at (dev_mem d s') (blk_buf v + c * 4 mod SECT_SIZE) AND 0x0fffffff = fat_next (block s) (fsi v) c"
    by (simp add: u32_at_def fat_next_def)
  moreover have "same_outside (span (blk_buf v) 512) (dev_mem d s) (dev_mem d s')"
    unfolding m by (rule same_outside_store) (simp add: block_len [OF ok])
  ultimately show ?thesis using s' by (simp add: fat_get_fat_entry_def)
qed

end

lemma sint_of_nat32: "n < 2 ^ 31 \<Longrightarrow> sint (of_nat n :: u32) = int n"
  by (simp add: sint32 unsigned_of_nat take_bit_nat_eq_self)

lemma split_store:
  fixes m :: mem
  assumes "span buf (length A + length B) \<inter> span b (length C) = {}" "length A + length B \<le> 2 ^ 32"
  defines "m' \<equiv> store (buf + of_nat (length A)) B (store b C (store buf A m))"
  shows "bytes_at m' buf (length A + length B) = A @ B"
    and "same_outside (span buf (length A + length B) \<union> span b (length C)) m m'"
proof -
  let ?a = "buf + of_nat (length A)"
  have sp: "span buf (length A) \<subseteq> span buf (length A + length B)" "span ?a (length B) \<subseteq> span buf (length A + length B)"
    by (auto simp: span_add)
  have "span buf (length A) \<inter> span ?a (length B) = {}"
    using span_offsets_disjoint [of 0 "length A" "length A" "length B" buf] assms(2) by simp
  then have "bytes_at m' buf (length A) = A"
    using assms(1,2) sp unfolding m'_def by (subst bytes_at_store_disjoint, simp, subst bytes_at_store_disjoint) (auto simp: bytes_at_store)
  moreover have "bytes_at m' ?a (length B) = B" unfolding m'_def using assms(2) by (simp add: bytes_at_store)
  ultimately show "bytes_at m' buf (length A + length B) = A @ B" unfolding bytes_at_append by simp
  show "same_outside (span buf (length A + length B) \<union> span b (length C)) m m'"
    unfolding m'_def same_outside_def
  proof (intro allI impI)
    fix x assume "x \<notin> span buf (length A + length B) \<union> span b (length C)"
    then have "x \<notin> span buf (length A)" "x \<notin> span ?a (length B)" "x \<notin> span b (length C)" using sp by auto
    then show "store ?a B (store b C (store buf A m)) x = m x" by (simp add: store_notin)
  qed
qed

context block_device
begin

lemma cluster_prefix:
  assumes "dev_ok s" "k < unat (cluster_size fs) \<or> k = unat (cluster_size fs) \<and> r = 0" "r \<le> 512"
  shows "take (k * 512 + r) (cluster_bytes (block s) fs c) =
     concat (map (block s) [clust_block fs c..<clust_block fs c + k]) @ take r (block s (clust_block fs c + k))"
proof -
  let ?n = "clust_block fs c" and ?cs = "unat (cluster_size fs)"
  let ?A = "concat (map (block s) [?n..<?n + k])"
  have A: "length ?A = k * 512" using length_blocks [of "block s" ?n "?n + k"] block_len [OF assms(1)] by simp
  show ?thesis
  proof (cases "k < ?cs")
    case True
    then have "[?n..<?n + ?cs] = [?n..<?n + k] @ (?n + k) # [Suc (?n + k)..<?n + ?cs]"
      by (metis add_less_cancel_left le_add1 less_imp_add_positive upt_add_eq_append upt_conv_Cons add.assoc)
    then show ?thesis
      using A assms(3) block_len [OF assms(1)] by (simp add: cluster_bytes_def)
  next
    case False
    then show ?thesis using assms(2) A by (auto simp: cluster_bytes_def)
  qed
qed

text \<open>The whole sectors of a cluster go straight to the buffer, the rest of one through \<open>blk\<close>.\<close>

lemma read_whole:
  assumes ok: "dev_ok s" and k: "k < 256" "clust_block fs c + k \<le> blocks s"
  shows "\<exists>s'. (if (of_nat k :: u32) \<noteq> 0 then read_fsect d fs (clust2fsect fs c) buf (of_nat k) s else Some (SDMMC_OK, s)) = Some (SDMMC_OK, s') \<and>
     same_dev s s' \<and> dev_mem d s' = store buf (concat (map (block s) [clust_block fs c..<clust_block fs c + k])) (dev_mem d s)"
proof (cases "k = 0")
  case True
  then show ?thesis using ok by (simp add: same_dev_def)
next
  case False
  have u: "unat (of_nat k :: u32) = k" using k(1) by (simp add: unat_of_nat)
  then have "(of_nat k :: u32) \<noteq> 0" using False by auto
  then show ?thesis
    using read_fsect_in [of s "clust2fsect fs c" fs "clust_block fs c" "of_nat k" buf] ok k u
    by (auto simp: clust_block_def)
qed

lemma read_rest:
  assumes ok: "dev_ok s" and k: "k < 256" "clust_block fs c + k < blocks s" and r: "r < 512"
    and dis: "span dst r \<inter> span b 512 = {}"
  shows "\<exists>s1 s'. read_fsect d fs (clust2fsect fs c + of_nat k) b 1 s = Some (SDMMC_OK, s1) \<and>
     dev_set_mem d (mem_cpy dst b (int r) (dev_mem d s1)) s1 = s' \<and> same_dev s s' \<and>
     dev_mem d s' = store dst (take r (block s (clust_block fs c + k))) (store b (block s (clust_block fs c + k)) (dev_mem d s))"
proof -
  let ?n = "clust_block fs c + k"
  have "?n < 2 ^ 32" using k blocks_le [OF ok] by simp
  then have "unat ((clust2fsect fs c + fs_offset fs) + of_nat k) = ?n"
    using k(1) by (subst unat_add_no_wrap) (simp_all add: clust_block_def unat_of_nat)
  then have n: "unat (clust2fsect fs c + of_nat k + fs_offset fs) = ?n" by (simp add: algebra_simps)
  obtain s1 where s1: "read_fsect d fs (clust2fsect fs c + of_nat k) b 1 s = Some (SDMMC_OK, s1)"
      "same_dev s s1" "dev_mem d s1 = store b (block s ?n) (dev_mem d s)"
    using read_fsect_in [OF ok n, of 1 b] k by auto
  have "bytes_at (dev_mem d s1) b r = take r (block s ?n)"
    unfolding s1(3) using bytes_at_store_part [of 0 r "block s ?n" b] r block_len [OF ok] by simp
  moreover have "span dst r \<inter> span b r = {}" using dis span_mono [of r 512 b] r by auto
  ultimately have "mem_cpy dst b (int r) (dev_mem d s1) = store dst (take r (block s ?n)) (dev_mem d s1)"
    by (simp add: mem_cpy_eq)
  then show ?thesis using s1 set_mem by (auto simp: same_dev_def)
qed

lemma read_clust_in:
  assumes ok: "dev_ok s" and v: "volume_ok v" and c: "clust_in (blocks s) (fsi v) c"
    and sz: "0 < sz" "sz \<le> unat (cluster_size (fsi v)) * 512" and dis: "span buf sz \<inter> span (blk_buf v) 512 = {}"
  shows "\<exists>s'. read_clust d v c buf (int sz) s = Some (SDMMC_OK, s') \<and> same_dev s s' \<and>
     bytes_at (dev_mem d s') buf sz = take sz (cluster_bytes (block s) (fsi v) c) \<and>
     same_outside (span buf sz \<union> span (blk_buf v) 512) (dev_mem d s) (dev_mem d s')"
proof -
  let ?fs = "fsi v"
  let ?n = "clust_block ?fs c" and ?cs = "unat (cluster_size ?fs)"
  define k where "k = sz div 512"
  define r where "r = sz mod 512"
  define A where "A = concat (map (block s) [?n..<?n + k])"
  define B where "B = take r (block s (?n + k))"
  have s: "sz = k * 512 + r" "r < 512" by (simp_all add: k_def r_def)
  have k: "k < ?cs \<or> k = ?cs \<and> r = 0" and cs: "?cs < 256" and bl: "blk v = blk_buf v" using sz s v by (auto simp: volume_ok_def)
  have kr: "(word_of_int (int sz sdiv 512) :: u32) = of_nat k" "(word_of_int (int sz smod 512) :: u32) = of_nat r"
    using sz(1) zdiv_int [of sz 512] zmod_int [of sz 512] of_int_of_nat_eq [of k, where ?'a = u32] of_int_of_nat_eq [of r, where ?'a = u32]
    by (simp_all add: k_def r_def signed_divide_int_def signed_modulo_int_def)
  have u: "unat (of_nat k :: u32) = k" "unat (of_nat r :: u32) = r" using k cs s by (auto simp: unat_of_nat)
  have sec: "(if cluster_size ?fs \<le> of_nat k then cluster_size ?fs else of_nat k) = of_nat k"
      "(if cluster_size ?fs \<le> of_nat k then 0 else of_nat r) = (of_nat r :: u32)"
    using k u by (auto simp: word_le_nat_alt word_unat_eq_iff)
  have A: "length A = k * 512" using length_blocks [of "block s" ?n "?n + k"] block_len [OF ok] by (simp add: A_def)
  have B: "length B = r" using block_len [OF ok] s(2) by (simp add: B_def)
  have cp: "take sz (cluster_bytes (block s) ?fs c) = A @ B"
    using cluster_prefix [OF ok k, of c] s by (simp add: A_def B_def)
  obtain s1 where s1: "(if (of_nat k :: u32) \<noteq> 0 then read_fsect d ?fs (clust2fsect ?fs c) buf (of_nat k) s else Some (SDMMC_OK, s)) = Some (SDMMC_OK, s1)"
      "same_dev s s1" "dev_mem d s1 = store buf A (dev_mem d s)"
    using read_whole [OF ok, of k ?fs c buf] k cs c by (auto simp: A_def clust_in_def)
  show ?thesis
  proof (cases "r = 0")
    case True
    then have "read_clust d v c buf (int sz) s = Some (SDMMC_OK, s1)"
      unfolding read_clust_def Let_def kr sec s1(1) by simp
    then show ?thesis
      using s1 A B s k cs True cp by (auto simp: bytes_at_store intro!: same_outside_store)
  next
    case False
    let ?buf = "buf + of_nat (k * 512)"
    have sp: "span ?buf r \<subseteq> span buf sz" using span_offset [of "k * 512" r sz buf] s(1) by simp
    have b1: "block s1 = block s" "blocks s1 = blocks s" "dev_ok s1" using s1(2) by (simp_all add: same_dev_def)
    obtain s2 s3 where s2: "read_fsect d ?fs (clust2fsect ?fs c + of_nat k) (blk v) 1 s1 = Some (SDMMC_OK, s2)"
        "dev_set_mem d (mem_cpy ?buf (blk v) (int r) (dev_mem d s2)) s2 = s3" "same_dev s1 s3"
      and m3: "dev_mem d s3 = store ?buf B (store (blk v) (block s (?n + k)) (dev_mem d s1))"
      using read_rest [OF b1(3), of k ?fs c r ?buf "blk v"] k cs c s(2) False dis sp b1 bl
      unfolding B_def clust_in_def by fastforce
    have "sint (of_nat r :: u32) = int r" using s(2) by (simp add: sint_of_nat32)
    then have "read_clust d v c buf (int sz) s = Some (SDMMC_OK, s3)"
      using s2(1,2) False u(2) unfolding read_clust_def Let_def kr sec s1(1) by auto
    moreover have "k * 512 + r \<le> 2 ^ 32" using k cs s(2) by auto
    ultimately show ?thesis
      using same_dev_trans [OF s1(2) s2(3)] split_store [of buf A B "blk v" "block s (?n + k)" "dev_mem d s"] dis A B bl
        block_len [OF ok] s(1) cp
      by (simp add: m3 s1(3))
  qed
qed

end

lemma copy_step_size:
  fixes lim :: u32
  assumes "sz < 2 ^ 31" "unat lim < 2 ^ 31"
  shows "sint (if (word_of_int (int sz) :: u32) < lim then word_of_int (int sz) else lim) = int (min sz (unat lim))"
proof -
  have w: "(word_of_int (int sz) :: u32) = of_nat sz" by simp
  have "unat (of_nat sz :: u32) = sz" using assms(1) by (simp add: unat_of_nat)
  then show ?thesis
    using sint_of_nat32 [of sz] sint_of_nat32 [of "unat lim"] assms unfolding w by (simp add: word_less_nat_alt)
qed

context block_device
begin

lemma length_cluster_bytes: "dev_ok s \<Longrightarrow> length (cluster_bytes (block s) fs c) = unat (cluster_size fs) * 512"
  using length_blocks [of "block s"] block_len by (simp add: cluster_bytes_def)

lemma copy_loop_chain:
  assumes "chain nxt c cs" "nxt = fat_next (block s) (fsi v)" "dev_ok s" "volume_ok v"
    "\<forall>x \<in> set cs. clust_in (blocks s) (fsi v) x" "sz < 2 ^ 31" "span buf sz \<inter> span (blk_buf v) 512 = {}"
  shows "\<exists>s'. fat_copy_loop d v c (int sz) buf s = Some (SDMMC_OK, s') \<and> same_dev s s' \<and>
     (let X = take sz (concat (map (cluster_bytes (block s) (fsi v)) cs)) in bytes_at (dev_mem d s') buf (length X) = X) \<and>
     same_outside (span buf sz \<union> span (blk_buf v) 512) (dev_mem d s) (dev_mem d s')"
  using assms
proof (induction arbitrary: s buf sz rule: chain.induct)
  case (chain_end c)
  then show ?case by (subst fat_copy_loop.simps) (simp add: same_dev_def)
next
  case (chain_step c cs)
  let ?lim = "unat (cluster_size (fsi v)) * 512" and ?F = "fsi v"
  define t where "t = min sz ?lim"
  note ok = chain_step.prems(2) and v = chain_step.prems(3)
  show ?case
  proof (cases "sz = 0")
    case True
    then show ?thesis using ok by (subst fat_copy_loop.simps) (simp add: same_dev_def)
  next
    case False
    have lim: "unat (cluster_size ?F * SECT_SIZE) = ?lim" using v by (simp add: volume_ok_def unat_word_ariths)
    have tx: "sint (if (word_of_int (int sz) :: u32) < cluster_size ?F * SECT_SIZE then word_of_int (int sz) else cluster_size ?F * SECT_SIZE) = int t"
      using copy_step_size [of sz "cluster_size ?F * SECT_SIZE"] chain_step.prems(5) v unfolding lim t_def by (simp add: volume_ok_def)
    have t: "0 < t" "t \<le> ?lim" "t \<le> sz" using False v by (auto simp: t_def volume_ok_def)
    have sp: "span buf t \<subseteq> span buf sz" "span (buf + of_nat t) (sz - t) \<subseteq> span buf sz"
      using t(3) span_mono span_offset [of t "sz - t" sz buf] by auto
    have dj: "span buf t \<inter> span (buf + of_nat t) (sz - t) = {}"
      using span_offsets_disjoint [of 0 t t "sz - t" buf] t(3) chain_step.prems(5) by simp
    obtain s1 where s1: "read_clust d v c buf (int t) s = Some (SDMMC_OK, s1)" "same_dev s s1"
        "bytes_at (dev_mem d s1) buf t = take t (cluster_bytes (block s) ?F c)"
        "same_outside (span buf t \<union> span (blk_buf v) 512) (dev_mem d s) (dev_mem d s1)"
      using read_clust_in [OF ok v _ t(1,2), of c buf] chain_step.prems(4,6) sp by fastforce
    obtain s2 where s2: "fat_get_fat_entry d v c s1 = Some (nxt c, s2)" "same_dev s1 s2"
        "same_outside (span (blk_buf v) 512) (dev_mem d s1) (dev_mem d s2)"
      using fat_entry_in [of s1 v c] s1(2) chain_step.prems(1,4) by (auto simp: same_dev_def clust_in_def)
    have sd: "same_dev s s2" using s1(2) s2(2) by (rule same_dev_trans)
    let ?X = "take (sz - t) (concat (map (cluster_bytes (block s) ?F) cs))"
    obtain s3 where s3: "fat_copy_loop d v (nxt c) (int (sz - t)) (buf + of_nat t) s2 = Some (SDMMC_OK, s3)" "same_dev s2 s3"
        "bytes_at (dev_mem d s3) (buf + of_nat t) (length ?X) = ?X"
        "same_outside (span (buf + of_nat t) (sz - t) \<union> span (blk_buf v) 512) (dev_mem d s2) (dev_mem d s3)"
      using chain_step.IH [of s2 "sz - t" "buf + of_nat t"] chain_step.prems sd sp(2) by (fastforce simp: same_dev_def Let_def)
    have "fat_copy_loop d v c (int sz) buf s = Some (SDMMC_OK, s3)"
      using s1(1) s2(1) s3(1) False chain_step.hyps(1) t(3)
      by (subst fat_copy_loop.simps, unfold Let_def tx) (simp add: of_nat_diff)
    moreover have "same_dev s s3" using sd s3(2) by (rule same_dev_trans)
    moreover have "take sz (concat (map (cluster_bytes (block s) ?F) (c # cs))) = take t (cluster_bytes (block s) ?F c) @ ?X"
      using length_cluster_bytes [OF ok, of ?F c] by (auto simp: t_def min_def)
    moreover have "bytes_at (dev_mem d s3) buf t = take t (cluster_bytes (block s) ?F c)"
    proof -
      have "span (blk_buf v) 512 \<inter> span buf t = {}" using chain_step.prems(6) sp(1) by auto
      then show ?thesis
        using s1(3) same_outside_bytes [OF s2(3), of buf t] same_outside_bytes [OF s3(4), of buf t] dj by (simp add: Int_Un_distrib Int_commute)
    qed
    moreover have "same_outside (span buf sz \<union> span (blk_buf v) 512) (dev_mem d s) (dev_mem d s3)"
      by (rule same_outside_trans [OF same_outside_trans [OF s1(4) s2(3) subset_refl] s3(4)]) (use sp in blast)
    ultimately show ?thesis
      using s3(3) length_cluster_bytes [OF ok, of ?F c] t(2) by (simp add: Let_def bytes_at_append)
  qed
qed

end

section \<open>Directories\<close>

text \<open>
  A directory entry is its 32 bytes. \<open>wanted\<close> is the test the search makes of an entry that is
  neither free nor the end mark, and the end mark hides the entries after it in its cluster only.
\<close>

definition entry_clust :: "u8 list \<Rightarrow> u32" where
  "entry_clust e = ucast (word_of_nat (le_nat (take 2 (drop 26 e))) :: u16) OR
     push_bit 16 (ucast (word_of_nat (le_nat (take 2 (drop 20 e))) :: u16))"

definition entry_size :: "u8 list \<Rightarrow> u32" where
  "entry_size e = word_of_nat (le_nat (take 4 (drop 28 e)))"

definition wanted :: "u8 list \<Rightarrow> u8 list \<Rightarrow> bool" where
  "wanted name e \<longleftrightarrow> hd e \<noteq> ENT_UNUSED \<and> take 11 name = take (min 11 (length name)) e \<and> entry_clust e \<noteq> 0"

definition block_entries :: "u8 list \<Rightarrow> u8 list list" where
  "block_entries bs = map (\<lambda>i. take 32 (drop (32 * i) bs)) [0..<16]"

definition live :: "u8 list list \<Rightarrow> u8 list list" where
  "live es = takeWhile (\<lambda>e. hd e \<noteq> ENT_END) es"

definition clust_entries :: "(nat \<Rightarrow> u8 list) \<Rightarrow> fs_info \<Rightarrow> u32 \<Rightarrow> u8 list list" where
  "clust_entries block fs c =
     live (concat (map (\<lambda>n. block_entries (block n)) [clust_block fs c..<clust_block fs c + unat (cluster_size fs)]))"

definition dir_find :: "(nat \<Rightarrow> u8 list) \<Rightarrow> fs_info \<Rightarrow> u8 list \<Rightarrow> u32 list \<Rightarrow> u8 list option" where
  "dir_find block fs name cs = find (wanted name) (concat (map (clust_entries block fs) cs))"

lemma bytes_at_sub:
  assumes "i + k \<le> n"
  shows "bytes_at m (a + of_nat i) k = take k (drop i (bytes_at m a n))"
proof -
  have "bytes_at m a n = bytes_at m a (i + (k + (n - i - k)))" using assms by simp
  then show ?thesis by (simp only: bytes_at_append) simp
qed

lemma entry_at:
  assumes "bytes_at m a 32 = e"
  shows "m a = hd e" "GET_CLUSTER m a = entry_clust e" "dir_size m a = entry_size e"
proof -
  show "m a = hd e" using assms by (auto simp: numeral_eq_Suc)
  show "GET_CLUSTER m a = entry_clust e"
    using bytes_at_sub [of 26 2 32 m a] bytes_at_sub [of 20 2 32 m a] assms
    by (simp add: GET_CLUSTER_def entry_clust_def u16_at_def)
  show "dir_size m a = entry_size e"
    using bytes_at_sub [of 28 4 32 m a] assms by (simp add: dir_size_def entry_size_def u32_at_def)
qed

lemma name_loop_eq: "name_loop name n m a \<longleftrightarrow> take n name = bytes_at m a (min n (length name))"
  by (induction name n m a rule: name_loop.induct) auto

lemma name_wanted: "bytes_at m a 32 = e \<Longrightarrow> name_loop name 11 m a \<longleftrightarrow> take 11 name = take (min 11 (length name)) e"
  using bytes_at_sub [of 0 "min 11 (length name)" 32 m a] by (simp add: name_loop_eq)

lemma live_Cons: "live (x # es) = (if hd x = ENT_END then [] else x # live es)"
  by (simp add: live_def)

lemma dir_loop_find:
  assumes "bytes_at m a (32 * length es) = concat es" "\<forall>x \<in> set es. length x = 32"
  shows "case find (wanted name) (live es) of
     Some x \<Rightarrow> \<exists>e. dir_loop name (length es) a m = Inl e \<and> bytes_at m e 32 = x
   | None \<Rightarrow> \<exists>k. dir_loop name (length es) a m = Inr k \<and> (0 < k \<longleftrightarrow> live es \<noteq> es)"
  using assms
proof (induction es arbitrary: a)
  case (Cons x es)
  have "bytes_at m a 32 @ bytes_at m (a + 32) (32 * length es) = x @ concat es"
    using Cons.prems(1) bytes_at_append [of m a 32 "32 * length es"] by simp
  then have x: "bytes_at m a 32 = x" and es: "bytes_at m (a + 32) (32 * length es) = concat es"
    using Cons.prems(2) by simp_all
  have IH: "case find (wanted name) (live es) of
     Some x \<Rightarrow> \<exists>e. dir_loop name (length es) (a + 32) m = Inl e \<and> bytes_at m e 32 = x
   | None \<Rightarrow> \<exists>k. dir_loop name (length es) (a + 32) m = Inr k \<and> (0 < k \<longleftrightarrow> live es \<noteq> es)"
    using Cons.IH [OF es] Cons.prems(2) by simp
  show ?case
  proof (cases "hd x = ENT_END \<or> wanted name x")
    case True
    then show ?thesis
      using x entry_at [OF x] name_wanted [OF x, of name] by (auto simp: live_Cons wanted_def)
  next
    case False
    then have eq: "dir_loop name (length (x # es)) a m = dir_loop name (length es) (a + 32) m"
      using entry_at [OF x] name_wanted [OF x, of name] by (auto simp: wanted_def)
    show ?thesis using IH False unfolding eq by (auto simp: live_Cons split: option.splits)
  qed
qed (simp add: live_def)

lemma block_entries_concat:
  assumes "length bs = 512"
  shows "concat (block_entries bs) = bs" "\<forall>x \<in> set (block_entries bs). length x = 32" "length (block_entries bs) = 16"
proof -
  have "concat (map (\<lambda>i. take 32 (drop (32 * i) bs)) [0..<n]) = take (32 * n) bs" for n
    by (induction n) (simp_all add: take_add [symmetric] add.commute)
  then show "concat (block_entries bs) = bs" using assms by (simp add: block_entries_def)
qed (use assms in \<open>auto simp: block_entries_def\<close>)

lemma live_append: "live (es @ fs) = (if live es = es then es @ live fs else live es)"
  by (induction es) (auto simp: live_def)

lemma find_append: "find P (xs @ ys) = (case find P xs of None \<Rightarrow> find P ys | Some x \<Rightarrow> Some x)"
  by (induction xs) simp_all

lemma find_live_skip: "live es = es \<Longrightarrow> find P (live es) = None \<Longrightarrow> find P (live (es @ fs)) = find P (live fs)"
  by (simp add: live_append find_append)

context block_device
begin

definition blk_only :: "fat_vars \<Rightarrow> 's \<Rightarrow> 's \<Rightarrow> bool" where
  "blk_only v s s' \<longleftrightarrow> same_dev s s' \<and> same_outside (span (blk_buf v) 512) (dev_mem d s) (dev_mem d s')"

lemma blk_only_trans: "blk_only v s s' \<Longrightarrow> blk_only v s' s'' \<Longrightarrow> blk_only v s s''"
  by (simp add: blk_only_def same_dev_def same_outside_def)

lemma sub_loop_find:
  assumes "dev_ok s" "blk v = blk_buf v" "unat (sector + fs_offset (fsi v)) = n" "n + k \<le> blocks s"
  defines "es \<equiv> concat (map (\<lambda>n. block_entries (block s n)) [n..<n + k])"
  shows "\<exists>s' hit. sub_loop d v name sector k s = Some (SDMMC_OK, hit, s') \<and> blk_only v s s' \<and>
     map_option (\<lambda>e. bytes_at (dev_mem d s') e 32) hit = find (wanted name) (live es)"
  using assms(1,3,4) unfolding es_def
proof (induction k arbitrary: s sector n)
  case 0
  then show ?case by (simp add: blk_only_def same_dev_def live_def)
next
  case (Suc k)
  let ?E = "block_entries (block s n)" and ?es = "concat (map (\<lambda>n. block_entries (block s n)) [Suc n..<Suc n + k])"
  have up: "concat (map (\<lambda>n. block_entries (block s n)) [n..<n + Suc k]) = ?E @ ?es"
    by (simp add: upt_conv_Cons del: upt_Suc)
  obtain s1 where s1: "read_fsect d (fsi v) sector (blk v) 1 s = Some (SDMMC_OK, s1)" "same_dev s s1"
      "dev_mem d s1 = store (blk v) (block s n) (dev_mem d s)"
    using read_fsect_in [OF Suc.prems(1,2), of 1 "blk v"] Suc.prems(3) by auto
  have b: "blk_only v s s1"
    unfolding blk_only_def s1(3) assms(2) using s1(2) block_len [OF Suc.prems(1)] by (auto intro: same_outside_store)
  have "bytes_at (dev_mem d s1) (blk v) 512 = block s n"
    unfolding s1(3) using block_len [OF Suc.prems(1)] by (simp add: bytes_at_store)
  moreover note len = block_entries_concat(3) [OF block_len [OF Suc.prems(1)], of n]
  ultimately have f: "case find (wanted name) (live ?E) of
      Some x \<Rightarrow> \<exists>e. dir_loop name 16 (blk v) (dev_mem d s1) = Inl e \<and> bytes_at (dev_mem d s1) e 32 = x
    | None \<Rightarrow> \<exists>k. dir_loop name 16 (blk v) (dev_mem d s1) = Inr k \<and> (0 < k \<longleftrightarrow> live ?E \<noteq> ?E)"
    using dir_loop_find [of "dev_mem d s1" "blk v" ?E name] unfolding len
    using block_entries_concat(1,2) [OF block_len [OF Suc.prems(1)], of n] by simp
  show ?case
  proof (cases "find (wanted name) (live ?E) = None \<and> live ?E = ?E")
    case True
    then have "dir_loop name 16 (blk v) (dev_mem d s1) = Inr 0" using f by auto
    then have st: "sub_loop d v name sector (Suc k) s = sub_loop d v name (sector + 1) k s1" using s1(1) by simp
    have nx: "unat (sector + 1 + fs_offset (fsi v)) = Suc n" if "k \<noteq> 0"
    proof -
      have "unat ((sector + fs_offset (fsi v)) + 1) = n + 1"
        using Suc.prems blocks_le [OF Suc.prems(1)] that by (subst unat_add_no_wrap) auto
      then show ?thesis by (simp add: algebra_simps)
    qed
    have fe: "find (wanted name) (live (?E @ ?es)) = find (wanted name) (live ?es)"
      using True by (intro find_live_skip) auto
    show ?thesis
    proof (cases "k = 0")
      case True
      then show ?thesis using b unfolding st up fe by (simp add: live_def)
    next
      case False
      then obtain s' hit where "sub_loop d v name (sector + 1) k s1 = Some (SDMMC_OK, hit, s')" "blk_only v s1 s'"
          "map_option (\<lambda>e. bytes_at (dev_mem d s') e 32) hit = find (wanted name) (live ?es)"
        using Suc.IH [of s1 "sector + 1" "Suc n"] s1(2) Suc.prems nx by (auto simp: same_dev_def)
      then show ?thesis using blk_only_trans [OF b] unfolding st up fe by blast
    qed
  next
    case False
    then have "find (wanted name) (live (?E @ ?es)) = find (wanted name) (live ?E)"
      by (auto simp: live_append find_append split: option.splits)
    then show ?thesis
      using f s1(1) b False unfolding up by (auto split: option.splits)
  qed
qed

lemma dir_loop_chain:
  assumes "chain nxt c cs" "nxt = fat_next (block s) (fsi v)" "dev_ok s" "volume_ok v"
    "\<forall>x \<in> set cs. clust_in (blocks s) (fsi v) x"
  shows "\<exists>s'. blk_only v s s' \<and> fat_dir_loop d v buf name c s =
     (case dir_find (block s) (fsi v) name cs of
        None \<Rightarrow> Some (SDMMC_ERROR, s')
      | Some e \<Rightarrow> fat_copy_file d v (entry_clust e) (entry_size e) buf s')"
  using assms
proof (induction arbitrary: s rule: chain.induct)
  case (chain_end c)
  then show ?case
    by (subst fat_dir_loop.simps) (auto simp: dir_find_def blk_only_def same_dev_def)
next
  case (chain_step c cs)
  let ?F = "fsi v"
  obtain s1 hit where s1: "sub_loop d v name (clust2fsect ?F c) (unat (cluster_size ?F)) s = Some (SDMMC_OK, hit, s1)"
      "blk_only v s s1" "map_option (\<lambda>e. bytes_at (dev_mem d s1) e 32) hit = find (wanted name) (clust_entries (block s) ?F c)"
    using sub_loop_find [OF chain_step.prems(2), of v "clust2fsect ?F c" "clust_block ?F c" "unat (cluster_size ?F)" name]
      chain_step.prems(3,4) by (auto simp: volume_ok_def clust_in_def clust_block_def clust_entries_def)
  show ?case
  proof (cases hit)
    case (Some e)
    then have "dir_find (block s) ?F name (c # cs) = Some (bytes_at (dev_mem d s1) e 32)"
      by (simp add: dir_find_def find_append s1(3) [symmetric])
    then show ?thesis
      using s1(1,2) Some chain_step.hyps(1) entry_at [OF refl, of "dev_mem d s1" e]
      by (intro exI [of _ s1], subst fat_dir_loop.simps) simp
  next
    case None
    obtain s2 where s2: "fat_get_fat_entry d v c s1 = Some (nxt c, s2)" "blk_only v s1 s2"
      using fat_entry_in [of s1 v c] s1(2) chain_step.prems(1,4) by (auto simp: same_dev_def clust_in_def blk_only_def)
    have b: "blk_only v s s2" using s1(2) s2(2) by (rule blk_only_trans)
    have "dir_find (block s) ?F name (c # cs) = dir_find (block s) ?F name cs"
      using None by (simp add: dir_find_def find_append s1(3) [symmetric])
    moreover have "fat_dir_loop d v buf name c s = fat_dir_loop d v buf name (nxt c) s2"
      using s1(1) s2(1) None chain_step.hyps(1) by (subst fat_dir_loop.simps) simp
    moreover obtain s' where "blk_only v s2 s'" "fat_dir_loop d v buf name (nxt c) s2 =
       (case dir_find (block s2) ?F name cs of
          None \<Rightarrow> Some (SDMMC_ERROR, s')
        | Some e \<Rightarrow> fat_copy_file d v (entry_clust e) (entry_size e) buf s')"
      using chain_step.IH [of s2] chain_step.prems b by (auto simp: blk_only_def same_dev_def)
    moreover have "block s2 = block s" using b by (simp add: blk_only_def same_dev_def)
    ultimately show ?thesis using blk_only_trans [OF b] by (intro exI [of _ s']) simp
  qed
qed

end

section \<open>The SD card as the block device\<close>

interpretation sdcard: block_device "sdmmc_dev host_bus" host_ok "\<lambda>s. unat (blk_num (sd_card s))" "\<lambda>s. disk (fst (mach s))"
proof (unfold_locales, goal_cases)
  case (1 s cnt n buf)
  then show ?case using sdmmc_read_host [of s cnt n buf] by (auto simp: sdmmc_dev_def disk_bytes_def)
next
  case (2 s n cnt buf)
  then show ?case using sdmmc_read_refused [of n s cnt host_bus buf] by (simp add: sdmmc_dev_def)
next
  case (4 s)
  show ?case using unat_lt32 [of "blk_num (sd_card s)"] by simp
qed (auto simp: host_ok_def sdmmc_dev_def card_memory_def Let_def)

abbreviation card_disk :: "sd_host sdmmc \<Rightarrow> nat \<Rightarrow> u8 list" where
  "card_disk s \<equiv> disk (fst (mach s))"

definition chain_in :: "sd_host sdmmc \<Rightarrow> fat_vars \<Rightarrow> u32 \<Rightarrow> u32 list \<Rightarrow> bool" where
  "chain_in s v c cs \<longleftrightarrow> chain (fat_next (card_disk s) (fsi v)) c cs \<and>
     (\<forall>x \<in> set cs. clust_in (unat (blk_num (sd_card s))) (fsi v) x)"

definition file_bytes :: "sd_host sdmmc \<Rightarrow> fat_vars \<Rightarrow> u32 list \<Rightarrow> u32 \<Rightarrow> u8 list" where
  "file_bytes s v cs sz = take (unat sz) (concat (map (cluster_bytes (card_disk s) (fsi v)) cs))"

lemma file_copied:
  assumes "host_ok s" "volume_ok v" "chain_in s v clust cs" "unat sz < 2 ^ 31" "span buf (unat sz) \<inter> span (blk_buf v) 512 = {}"
  shows "\<exists>s'. fat_copy_file (sdmmc_dev host_bus) v clust sz buf s = Some (SDMMC_OK, s') \<and>
     bytes_at (card_memory s') buf (length (file_bytes s v cs sz)) = file_bytes s v cs sz \<and>
     same_outside (span buf (unat sz) \<union> span (blk_buf v) 512) (card_memory s) (card_memory s')"
proof -
  have "sint sz = int (unat sz)" using sint_of_nat32 [of "unat sz"] assms(4) by simp
  then show ?thesis
    using sdcard.copy_loop_chain [OF _ refl assms(1,2), of clust cs "unat sz" buf] assms(3-5)
    unfolding fat_copy_file_def chain_in_def file_bytes_def Let_def by (auto simp: sdmmc_dev_def)
qed

text \<open>
  C10: copying a file whose cluster chain ends and lies on the card returns, and puts at the buffer the
  first \<open>size\<close> bytes of the clusters of the chain, one after the other; nothing else in memory changes
  but the sector buffer. When the chain is shorter than \<open>size\<close> the copy stops with it and still
  reports success.
\<close>

theorem fat_copy_file_contents:
  assumes "host_ok s" "volume_ok v" "chain_in s v clust cs" "unat sz < 2 ^ 31" "span buf (unat sz) \<inter> span (blk_buf v) 512 = {}"
  shows "\<exists>s'. fat_copy_file (sdmmc_dev host_bus) v clust sz buf s = Some (SDMMC_OK, s') \<and>
     bytes_at (card_memory s') buf (length (file_bytes s v cs sz)) = file_bytes s v cs sz \<and>
     length (file_bytes s v cs sz) = min (unat sz) (length cs * (unat (cluster_size (fsi v)) * 512)) \<and>
     same_outside (span buf (unat sz) \<union> span (blk_buf v) 512) (card_memory s) (card_memory s')"
proof -
  have "length (file_bytes s v cs sz) = min (unat sz) (length cs * (unat (cluster_size (fsi v)) * 512))"
    using sdcard.length_cluster_bytes [OF assms(1)] by (simp add: file_bytes_def length_concat comp_def sum_list_triv)
  then show ?thesis using file_copied [OF assms] by auto
qed

text \<open>
  C4: a search by name copies the first entry of the root directory that the name is a prefix of, that
  is not free, has a cluster and is not behind an end mark of its own cluster, and fails when there is
  none. A name of fewer than eleven characters also finds longer names that begin with it.
\<close>

theorem fat_copy_named_file_finds:
  assumes "host_ok s" "volume_ok v" "chain_in s v (root_dir_start (fsi v)) ds"
  shows "case dir_find (card_disk s) (fsi v) name ds of
     None \<Rightarrow> \<exists>s'. fat_copy_named_file (sdmmc_dev host_bus) v buf name s = Some (SDMMC_ERROR, s') \<and>
       same_outside (span (blk_buf v) 512) (card_memory s) (card_memory s')
   | Some e \<Rightarrow> \<forall>cs. chain_in s v (entry_clust e) cs \<longrightarrow> unat (entry_size e) < 2 ^ 31 \<longrightarrow>
       span buf (unat (entry_size e)) \<inter> span (blk_buf v) 512 = {} \<longrightarrow>
       (\<exists>s'. fat_copy_named_file (sdmmc_dev host_bus) v buf name s = Some (SDMMC_OK, s') \<and>
          bytes_at (card_memory s') buf (length (file_bytes s v cs (entry_size e))) = file_bytes s v cs (entry_size e))"
proof -
  obtain s1 where b: "sdcard.blk_only v s s1" and c: "fat_copy_named_file (sdmmc_dev host_bus) v buf name s =
     (case dir_find (card_disk s) (fsi v) name ds of
        None \<Rightarrow> Some (SDMMC_ERROR, s1)
      | Some e \<Rightarrow> fat_copy_file (sdmmc_dev host_bus) v (entry_clust e) (entry_size e) buf s1)"
    using sdcard.dir_loop_chain [OF _ refl assms(1,2), of "root_dir_start (fsi v)" ds buf name] assms(3)
    unfolding fat_copy_named_file_def chain_in_def by blast
  have s1: "host_ok s1" "card_disk s1 = card_disk s" "blk_num (sd_card s1) = blk_num (sd_card s)"
    and o: "same_outside (span (blk_buf v) 512) (card_memory s) (card_memory s1)"
    using b unfolding sdcard.blk_only_def sdcard.same_dev_def by (auto simp: sdmmc_dev_def word_unat_eq_iff)
  have "file_bytes s1 v = file_bytes s v" "chain_in s1 v = chain_in s v"
    by (intro ext; simp add: file_bytes_def chain_in_def s1)+
  then show ?thesis
    using c o file_copied [OF s1(1) assms(2)] by (auto split: option.splits) blast
qed

section \<open>The type of the volume\<close>






section \<open>A card with a file\<close>

definition demo_block :: "nat \<Rightarrow> u8 list" where
  "demo_block n =
     (if n = 1 then [0xf8, 0xff, 0xff, 0x0f, 0xff, 0xff, 0xff, 0x0f, 0xff, 0xff, 0xff, 0x0f, 4, 0, 0, 0, 0xf8, 0xff, 0xff, 0x0f]
        @ replicate 492 0
      else if n = 10 then map of_char ''QNX-IFS    '' @ replicate 15 0 @ [3, 0, 0x58, 2, 0, 0] @ replicate 480 0
      else replicate 512 (of_nat n))"

definition demo_card :: "sd_host sdmmc" where
  "demo_card = sd_demo\<lparr>mach := ((fst (mach sd_demo))\<lparr>disk := demo_block\<rparr>, snd (mach sd_demo))\<rparr>"

definition demo_vars :: fat_vars where
  "demo_vars = \<lparr>fsi = \<lparr>fs_offset = 0, fat_type = 32, total_sectors = 100, root_dir_sectors = 0, reserved_sectors = 1,
     data_sectors = 90, fat_size = 1, number_of_fats = 2, cluster_size = 1, count_of_clusters = 70000, fat1_start = 1,
     fat2_start = 2, root_dir_start = 2, root_entry_count = 0, cluster2_start = 10\<rparr>, blk_buf = 0x2000, blk = 0x2000\<rparr>"

lemma demo_ok: "host_ok demo_card" "volume_ok demo_vars" "card_disk demo_card = demo_block" "unat (blk_num (sd_card demo_card)) = 100"
  using sd_demo_ok
  by (auto simp: host_ok_def demo_card_def volume_ok_def demo_vars_def Let_def demo_block_def)

lemma demo_next:
  "fat_next demo_block (fsi demo_vars) 2 = 0x0fffffff" "fat_next demo_block (fsi demo_vars) 3 = 4"
  "fat_next demo_block (fsi demo_vars) 4 = 0x0ffffff8"
  by (simp_all add: fat_next_def fat_block_def demo_vars_def demo_block_def)

lemma demo_chains: "chain_in demo_card demo_vars 3 [3, 4]" "chain_in demo_card demo_vars 2 [2]"
  unfolding chain_in_def demo_ok
  by (simp_all add: chain_simps demo_next end_of_file_def clust_in_def clust_block_def fat_block_def clust2fsect_def)
    (simp_all add: demo_vars_def)

lemma demo_file: "file_bytes demo_card demo_vars [3, 4] 600 = replicate 512 11 @ replicate 88 12"
  unfolding file_bytes_def demo_ok
  by (simp add: cluster_bytes_def clust_block_def clust2fsect_def demo_vars_def demo_block_def)

lemma demo_apart: "span 0x10000 600 \<inter> span 0x2000 512 = {}"
proof -
  have "span (0 + of_nat 0x2000) 512 \<inter> span (0 + of_nat 0x10000) 600 = {}" by (rule span_offsets_disjoint) simp_all
  then show ?thesis by (simp add: Int_commute)
qed

theorem fat_copy_file_contents_witness:
  "\<exists>s'. fat_copy_file (sdmmc_dev host_bus) demo_vars 3 600 0x10000 demo_card = Some (SDMMC_OK, s') \<and>
     bytes_at (card_memory s') 0x10000 600 = replicate 512 11 @ replicate 88 12"
  using fat_copy_file_contents [OF demo_ok(1,2) demo_chains(1), of 600 "0x10000"] demo_apart
  by (auto simp: demo_file) (auto simp: demo_vars_def)

lemma demo_dir: "\<exists>e. dir_find demo_block (fsi demo_vars) (map of_char ''QNX-IFS'') [2] = Some e \<and> entry_clust e = 3 \<and> entry_size e = 600"
  by (simp add: numeral_2_eq_2 [THEN arg_cong [where f = "\<lambda>n. replicate n (0 :: u8)"]] dir_find_def clust_entries_def clust_block_def clust2fsect_def demo_vars_def demo_block_def block_entries_def
    upt_rec live_def wanted_def entry_clust_def entry_size_def)

theorem fat_copy_named_file_finds_witness:
  "\<exists>s'. fat_copy_named_file (sdmmc_dev host_bus) demo_vars 0x10000 (map of_char ''QNX-IFS'') demo_card = Some (SDMMC_OK, s') \<and>
     bytes_at (card_memory s') 0x10000 600 = replicate 512 11 @ replicate 88 12"
proof -
  have "root_dir_start (fsi demo_vars) = 2" "blk_buf demo_vars = 0x2000" by (simp_all add: demo_vars_def)
  moreover obtain e where "dir_find demo_block (fsi demo_vars) (map of_char ''QNX-IFS'') [2] = Some e" "entry_clust e = 3" "entry_size e = 600"
    using demo_dir by blast
  ultimately have "\<forall>cs. chain_in demo_card demo_vars 3 cs \<longrightarrow> unat (600 :: u32) < 2 ^ 31 \<longrightarrow>
       span 0x10000 (unat (600 :: u32)) \<inter> span 0x2000 512 = {} \<longrightarrow>
       (\<exists>s'. fat_copy_named_file (sdmmc_dev host_bus) demo_vars 0x10000 (map of_char ''QNX-IFS'') demo_card = Some (SDMMC_OK, s') \<and>
          bytes_at (card_memory s') 0x10000 (length (file_bytes demo_card demo_vars cs 600)) = file_bytes demo_card demo_vars cs 600)"
    using fat_copy_named_file_finds [OF demo_ok(1,2), where ds = "[2]" and name = "map of_char ''QNX-IFS''" and buf = "0x10000"] demo_chains(2)
    by (simp only: demo_ok(3) option.case True_implies_equals)
  from this [THEN spec [of _ "[3, 4]"]] show ?thesis using demo_chains(1) demo_apart by (simp add: demo_file)
qed




end
