(* ===== verification/Ipl_Image.thy ===== *)
theory Ipl_Image
  imports Ipl_Mem
begin

text \<open>
  Finding, placing and starting a boot image (\<open>ipl/lib/image_scan.c\<close>, \<open>image_setup.c\<close>,
  \<open>image_start.c\<close>). The loader's two globals, the 512-byte \<open>scratch\<close> buffer and the 256-byte
  \<open>startup_hdr\<close>, are objects in memory whose addresses the linker chooses: they are the fields of
  \<open>globals\<close>. The fields of \<open>struct startup_header\<close> (\<open>startup/lib/public/sys/startup.h\<close>) are
  little-endian reads at their offsets.
\<close>

record globals =
  scratch :: u32
  startup_hdr :: u32

abbreviation SCRATCH_SIZE :: nat where "SCRATCH_SIZE \<equiv> 512"
abbreviation HDR_SIZE :: nat where "HDR_SIZE \<equiv> 256"
abbreviation STARTUP_HDR_SIGNATURE :: u32 where "STARTUP_HDR_SIGNATURE \<equiv> 0x00ff7eeb"

section \<open>\<open>struct startup_header\<close>\<close>

definition hdr_signature :: "mem \<Rightarrow> u32 \<Rightarrow> u32" where "hdr_signature m h = u32_at m h"
definition hdr_version :: "mem \<Rightarrow> u32 \<Rightarrow> u16" where "hdr_version m h = u16_at m (h + 4)"
definition hdr_startup_vaddr :: "mem \<Rightarrow> u32 \<Rightarrow> u32" where "hdr_startup_vaddr m h = u32_at m (h + 12)"
definition hdr_paddr_bias :: "mem \<Rightarrow> u32 \<Rightarrow> u32" where "hdr_paddr_bias m h = u32_at m (h + 16)"
definition hdr_ram_paddr :: "mem \<Rightarrow> u32 \<Rightarrow> u32" where "hdr_ram_paddr m h = u32_at m (h + 24)"
definition hdr_startup_size :: "mem \<Rightarrow> u32 \<Rightarrow> u32" where "hdr_startup_size m h = u32_at m (h + 32)"
definition hdr_stored_size :: "mem \<Rightarrow> u32 \<Rightarrow> u32" where "hdr_stored_size m h = u32_at m (h + 36)"
definition hdr_imagefs_paddr :: "mem \<Rightarrow> u32 \<Rightarrow> u32" where "hdr_imagefs_paddr m h = u32_at m (h + 40)"

lemmas hdr_defs = hdr_signature_def hdr_version_def hdr_startup_vaddr_def hdr_paddr_bias_def
  hdr_ram_paddr_def hdr_startup_size_def hdr_stored_size_def hdr_imagefs_paddr_def

section \<open>\<open>image_scan.c\<close>\<close>

definition zero_ok :: "mem \<Rightarrow> u32 \<Rightarrow> bool" where
  "zero_ok m shdr \<longleftrightarrow> u32_at m (shdr + 52) = 0 \<and> u32_at m (shdr + 56) = 0 \<and> u32_at m (shdr + 60) = 0"

text \<open>\<open>len\<close> is a signed \<open>long\<close>: the loop takes a whole word while any byte is left.\<close>

function small_checksum_loop :: "mem \<Rightarrow> u32 \<Rightarrow> int \<Rightarrow> u32 \<Rightarrow> u32" where
  "small_checksum_loop m iray len s =
     (if 0 < len then small_checksum_loop m (iray + 4) (len - 4) (s + u32_at m iray) else s)"
  by pat_completeness auto
termination
  by (relation "measure (\<lambda>(m, iray, len, s). nat len)") auto

declare small_checksum_loop.simps [simp del]

definition small_checksum :: "mem \<Rightarrow> u32 \<Rightarrow> int \<Rightarrow> u32" where
  "small_checksum m iray len = small_checksum_loop m iray len 0"

text \<open>
  \<open>len >= sizeof scratch\<close> compares with an unsigned \<open>size_t\<close>, so \<open>len\<close> is read unsigned there.
\<close>

function checksum_loop :: "globals \<Rightarrow> u32 \<Rightarrow> u32 \<Rightarrow> u32 \<Rightarrow> mem \<Rightarrow> u32 \<times> u32 \<times> u32 \<times> mem" where
  "checksum_loop g addr len s m =
     (if 512 \<le> len
      then (let m = copy (scratch g) addr 512 m
            in checksum_loop g (addr + 512) (len - 512) (s + small_checksum m (scratch g) 512) m)
      else (addr, len, s, m))"
  by pat_completeness auto
termination
proof (relation "measure (\<lambda>(g, addr, len, s, m). unat len)", goal_cases)
  case (2 g addr len s m x)
  then have "unat (len - 512) = unat len - 512" "0 < unat len"
    by (simp_all add: unat_sub word_le_nat_alt)
  then show ?case by simp
qed simp

declare checksum_loop.simps [simp del]

definition checksum :: "globals \<Rightarrow> u32 \<Rightarrow> u32 \<Rightarrow> mem \<Rightarrow> u32 \<times> mem" where
  "checksum g addr len m =
     (let (addr, len, s, m) = checksum_loop g addr len 0 m
      in if len \<noteq> 0
         then (let m = copy (scratch g) addr len m
               in (s + small_checksum m (scratch g) (int (unat len)), m))
         else (s, m))"

text \<open>
  The scan. It need not end: a header whose \<open>stored_size\<close> is zero sends \<open>start\<close> back to itself.
  The outcome \<open>None\<close> is a scan that never returns.
\<close>

partial_function (option) scan_loop ::
    "globals \<Rightarrow> u32 \<Rightarrow> u32 \<Rightarrow> u32 \<Rightarrow> u16 \<Rightarrow> mem \<Rightarrow> (u32 \<times> mem) option" where
  "scan_loop g start fin lastaddr lastver m =
     (if start < fin then
        (let m = copy (startup_hdr g) start 256 m; h = startup_hdr g
         in if hdr_signature m h \<noteq> STARTUP_HDR_SIGNATURE then scan_loop g (start + 4) fin lastaddr lastver m
         else (let (c, m) = checksum g start (hdr_startup_size m h) m
         in if c \<noteq> 0 then scan_loop g (start + 4) fin lastaddr lastver m
         else (let (c, m) = checksum g (start + hdr_startup_size m h) (hdr_stored_size m h - hdr_startup_size m h) m
         in if c \<noteq> 0 then scan_loop g (start + 4) fin lastaddr lastver m
         else (let (lastver, lastaddr) =
                 (if lastver < hdr_version m h then (hdr_version m h, start) else (lastver, lastaddr))
               in scan_loop g (start + (hdr_stored_size m h - 4) + 4) fin lastaddr lastver m))))
      else Some (lastaddr, m))"

definition image_scan :: "globals \<Rightarrow> u32 \<Rightarrow> u32 \<Rightarrow> mem \<Rightarrow> (u32 \<times> mem) option" where
  "image_scan g start fin m = scan_loop g start fin (- 1) 0 m"

section \<open>\<open>image_setup.c\<close> and \<open>image_start.c\<close>\<close>

definition image_setup :: "globals \<Rightarrow> u32 \<Rightarrow> mem \<Rightarrow> int \<times> mem" where
  "image_setup g addr m =
     (let h = startup_hdr g;
          m = copy h addr 256 m;
          ram_addr = hdr_ram_paddr m h + hdr_paddr_bias m h;
          m = store32 (h + 40) (addr + hdr_startup_size m h - hdr_paddr_bias m h) m;
          m = copy ram_addr h 256 m;
          m = copy (ram_addr + 256) (addr + 256) (hdr_startup_size m h - 256) m
      in (0, m))"

text \<open>\<open>jump\<close> does not return: the result is the address control goes to.\<close>

definition image_start :: "globals \<Rightarrow> u32 \<Rightarrow> mem \<Rightarrow> u32 \<times> mem" where
  "image_start g addr m =
     (let m = copy (startup_hdr g) addr 256 m in (hdr_startup_vaddr m (startup_hdr g), m))"

section \<open>The checksum is the sum of the words\<close>

fun word_sum :: "mem \<Rightarrow> u32 \<Rightarrow> nat \<Rightarrow> u32" where
  "word_sum m a 0 = 0"
| "word_sum m a (Suc n) = u32_at m a + word_sum m (a + 4) n"

lemma word_sum_cong:
  "bytes_at m a (4 * n) = bytes_at m' a' (4 * n) \<Longrightarrow> word_sum m a n = word_sum m' a' n"
proof (induction n arbitrary: a a')
  case (Suc n)
  have s: "bytes_at p b (4 * Suc n) = bytes_at p b 4 @ bytes_at p (b + 4) (4 * n)" for p b
    using bytes_at_append [of p b 4 "4 * n"] by simp
  have "bytes_at m a 4 = bytes_at m' a' 4" "bytes_at m (a + 4) (4 * n) = bytes_at m' (a' + 4) (4 * n)"
    using Suc.prems unfolding s by simp_all
  then show ?case using Suc.IH by (simp add: u32_at_def)
qed simp

lemma word_sum_add: "word_sum m a (i + j) = word_sum m a i + word_sum m (a + of_nat (4 * i)) j"
  by (induction i arbitrary: a) (simp_all add: algebra_simps)

lemma small_checksum_loop_words: "small_checksum_loop m p (int (4 * n)) s = s + word_sum m p n"
proof (induction n arbitrary: p s)
  case (Suc n)
  have "int (4 * Suc n) - 4 = int (4 * n)" by simp
  then show ?case
    using Suc by (subst small_checksum_loop.simps) (simp add: algebra_simps)
qed (simp add: small_checksum_loop.simps)

lemma small_checksum_words: "4 dvd n \<Longrightarrow> small_checksum m p (int n) = word_sum m p (n div 4)"
  using small_checksum_loop_words [of m p "n div 4" 0] by (simp add: small_checksum_def)

text \<open>What a step may change: the two buffers.\<close>

definition buffers :: "globals \<Rightarrow> u32 set" where
  "buffers g = span (scratch g) SCRATCH_SIZE \<union> span (startup_hdr g) HDR_SIZE"

definition same_but :: "u32 set \<Rightarrow> mem \<Rightarrow> mem \<Rightarrow> bool" where
  "same_but A m m' \<longleftrightarrow> (\<forall>x. x \<notin> A \<longrightarrow> m' x = m x)"

lemma same_but_refl [simp]: "same_but A m m"
  by (simp add: same_but_def)

lemma same_but_trans: "same_but A m m' \<Longrightarrow> same_but B m' m'' \<Longrightarrow> A \<subseteq> C \<Longrightarrow> B \<subseteq> C \<Longrightarrow> same_but C m m''"
  unfolding same_but_def by (metis subsetD)

lemma same_but_bytes: "same_but A m m' \<Longrightarrow> span a n \<inter> A = {} \<Longrightarrow> bytes_at m' a n = bytes_at m a n"
  by (rule bytes_at_cong) (auto simp: same_but_def)

lemma same_but_copy:
  "span dst (unat sz) \<inter> span src (unat sz) = {} \<Longrightarrow> span dst (unat sz) \<subseteq> A \<Longrightarrow> same_but A m (copy dst src sz m)"
  unfolding same_but_def using copy_frame by (metis subsetD)

abbreviation scr :: "globals \<Rightarrow> u32 set" where
  "scr g \<equiv> span (scratch g) SCRATCH_SIZE"

lemma checksum_piece:
  fixes m :: mem
  assumes "4 dvd unat n" "unat n \<le> 512" "span addr (unat n) \<inter> scr g = {}"
  defines "m' \<equiv> copy (scratch g) addr n m"
  shows "same_but (scr g) m m'"
    and "small_checksum m' (scratch g) (int (unat n)) = word_sum m addr (unat n div 4)"
proof -
  have sub: "span (scratch g) (unat n) \<subseteq> scr g" using assms(2) by (rule span_mono)
  then have d: "span (scratch g) (unat n) \<inter> span addr (unat n) = {}" using assms(3) by auto
  show "same_but (scr g) m m'" unfolding m'_def using d sub by (rule same_but_copy)
  have "bytes_at m' (scratch g) (unat n) = bytes_at m addr (unat n)"
    unfolding m'_def using d by (rule bytes_at_copy)
  then have "word_sum m' (scratch g) (unat n div 4) = word_sum m addr (unat n div 4)"
    using assms(1) by (intro word_sum_cong) simp
  then show "small_checksum m' (scratch g) (int (unat n)) = word_sum m addr (unat n div 4)"
    using small_checksum_words [OF assms(1), of m' "scratch g"] by simp
qed

lemma checksum_loop_words:
  assumes "4 dvd unat len" "span addr (unat len) \<inter> scr g = {}"
  shows "\<exists>a l s' m'. checksum_loop g addr len s m = (a, l, s', m') \<and> same_but (scr g) m m' \<and>
      unat l < 512 \<and> 4 dvd unat l \<and> span a (unat l) \<subseteq> span addr (unat len) \<and>
      s' + word_sum m a (unat l div 4) = s + word_sum m addr (unat len div 4)"
  using assms
proof (induction g addr len s m rule: checksum_loop.induct)
  case (1 g addr len s m)
  show ?case
  proof (cases "512 \<le> len")
    case False
    then have "unat len < 512" by (simp add: word_le_nat_alt)
    then show ?thesis using False 1(2) by (subst checksum_loop.simps) simp
  next
    case True
    let ?m = "copy (scratch g) addr 512 m"
    have u: "unat (len - 512) = unat len - 512" "512 \<le> unat len"
      using True by (simp_all add: unat_sub word_le_nat_alt)
    have sp: "span addr (unat len) = span addr 512 \<union> span (addr + 512) (unat (len - 512))"
      using span_add [of addr 512 "unat (len - 512)"] u by simp
    have dis: "span addr 512 \<inter> scr g = {}" "span (addr + 512) (unat (len - 512)) \<inter> scr g = {}"
      using 1(3) sp by auto
    have p: "same_but (scr g) m ?m" "small_checksum ?m (scratch g) 512 = word_sum m addr 128"
      using checksum_piece [of 512 addr g m] dis by simp_all
    have "4 dvd unat (len - 512)" using 1(2) u by (simp add: dvd_diff_nat)
    from 1(1) [OF True refl this dis(2)] obtain a l s' m' where
      r: "checksum_loop g (addr + 512) (len - 512) (s + small_checksum ?m (scratch g) 512) ?m = (a, l, s', m')"
        "same_but (scr g) ?m m'" "unat l < 512" "4 dvd unat l" "span a (unat l) \<subseteq> span (addr + 512) (unat (len - 512))"
        "s' + word_sum ?m a (unat l div 4) = s + small_checksum ?m (scratch g) 512 + word_sum ?m (addr + 512) (unat (len - 512) div 4)"
      by blast
    have "bytes_at ?m a (4 * (unat l div 4)) = bytes_at m a (4 * (unat l div 4))"
      "bytes_at ?m (addr + 512) (4 * (unat (len - 512) div 4)) = bytes_at m (addr + 512) (4 * (unat (len - 512) div 4))"
      using p(1) r(4,5) dis \<open>4 dvd unat (len - 512)\<close>
      by (auto intro!: same_but_bytes [where A = "scr g"])
    then have w: "word_sum ?m a (unat l div 4) = word_sum m a (unat l div 4)"
      "word_sum ?m (addr + 512) (unat (len - 512) div 4) = word_sum m (addr + 512) (unat (len - 512) div 4)"
      by (blast intro: word_sum_cong)+
    have "unat len div 4 = 128 + unat (len - 512) div 4" using u by simp
    then have "word_sum m addr (unat len div 4) = word_sum m addr 128 + word_sum m (addr + 512) (unat (len - 512) div 4)"
      using word_sum_add [of m addr 128] by simp
    moreover have "checksum_loop g addr len s m = (a, l, s', m')"
      using True r(1) by (subst checksum_loop.simps) (simp only: Let_def if_True)
    moreover have "same_but (scr g) m m'" using p(1) r(2) by (rule same_but_trans) auto
    moreover have "s' + word_sum m a (unat l div 4) =
        s + (word_sum m addr 128 + word_sum m (addr + 512) (unat (len - 512) div 4))"
      using r(6) unfolding w p(2) by (simp add: add.assoc)
    moreover have "span a (unat l) \<subseteq> span addr (unat len)" using r(5) sp by blast
    ultimately show ?thesis using r(3,4) by (intro exI conjI) (assumption | simp)+
  qed
qed

lemma checksum_words:
  assumes "4 dvd unat len" "span addr (unat len) \<inter> scr g = {}"
  shows "\<exists>m'. checksum g addr len m = (word_sum m addr (unat len div 4), m') \<and> same_but (scr g) m m'"
proof -
  obtain a l s' m1 where r: "checksum_loop g addr len 0 m = (a, l, s', m1)" "same_but (scr g) m m1"
      "unat l < 512" "4 dvd unat l" "span a (unat l) \<subseteq> span addr (unat len)"
      "s' + word_sum m a (unat l div 4) = word_sum m addr (unat len div 4)"
    using checksum_loop_words [OF assms, of 0 m] by auto
  show ?thesis
  proof (cases "l = 0")
    case True
    then show ?thesis using r by (simp add: checksum_def)
  next
    case False
    let ?m = "copy (scratch g) a l m1"
    have d: "span a (unat l) \<inter> scr g = {}" using r(5) assms(2) by auto
    have p: "same_but (scr g) m1 ?m" "small_checksum ?m (scratch g) (int (unat l)) = word_sum m1 a (unat l div 4)"
      using checksum_piece [OF r(4) _ d, of m1] r(3) by simp_all
    have "bytes_at m1 a (4 * (unat l div 4)) = bytes_at m a (4 * (unat l div 4))"
      using r(2,4) d by (intro same_but_bytes [where A = "scr g"]) auto
    then have "word_sum m1 a (unat l div 4) = word_sum m a (unat l div 4)" by (rule word_sum_cong)
    moreover have "same_but (scr g) m ?m" using r(2) p(1) by (rule same_but_trans) auto
    ultimately show ?thesis using r(1,6) p(2) False by (simp add: checksum_def Let_def)
  qed
qed

section \<open>The scan finds the newest image\<close>

text \<open>A copied header reads like the original at every offset.\<close>

lemma bytes_at_part:
  assumes "bytes_at m a n = bytes_at m' a' n" "i + j \<le> n"
  shows "bytes_at m (a + of_nat i) j = bytes_at m' (a' + of_nat i) j"
proof -
  have "bytes_at p b n = bytes_at p b i @ bytes_at p (b + of_nat i) j @ bytes_at p (b + of_nat (i + j)) (n - (i + j))" for p b
    using assms(2) bytes_at_append [of p b i "n - i"] bytes_at_append [of p "b + of_nat i" j "n - (i + j)"]
    by (simp add: add.assoc)
  then show ?thesis using assms(1) by simp
qed

lemma hdr_same:
  assumes "bytes_at m a HDR_SIZE = bytes_at m' a' HDR_SIZE"
  shows "hdr_signature m a = hdr_signature m' a'" "hdr_version m a = hdr_version m' a'"
    "hdr_startup_vaddr m a = hdr_startup_vaddr m' a'" "hdr_paddr_bias m a = hdr_paddr_bias m' a'"
    "hdr_ram_paddr m a = hdr_ram_paddr m' a'" "hdr_startup_size m a = hdr_startup_size m' a'"
    "hdr_stored_size m a = hdr_stored_size m' a'" "hdr_imagefs_paddr m a = hdr_imagefs_paddr m' a'"
  using bytes_at_part [OF assms, of 0 4] bytes_at_part [OF assms, of 4 2] bytes_at_part [OF assms, of 12 4]
    bytes_at_part [OF assms, of 16 4] bytes_at_part [OF assms, of 24 4] bytes_at_part [OF assms, of 32 4]
    bytes_at_part [OF assms, of 36 4] bytes_at_part [OF assms, of 40 4]
  by (simp_all add: hdr_defs u32_at_def u16_at_def)

definition image_at :: "mem \<Rightarrow> u32 \<Rightarrow> bool" where
  "image_at m a \<longleftrightarrow>
     hdr_signature m a = STARTUP_HDR_SIGNATURE \<and>
     word_sum m a (unat (hdr_startup_size m a) div 4) = 0 \<and>
     word_sum m (a + hdr_startup_size m a) (unat (hdr_stored_size m a - hdr_startup_size m a) div 4) = 0"

definition hdr_sane :: "globals \<Rightarrow> mem \<Rightarrow> u32 \<Rightarrow> bool" where
  "hdr_sane g m a \<longleftrightarrow>
     4 dvd unat (hdr_startup_size m a) \<and> 4 dvd unat (hdr_stored_size m a) \<and>
     hdr_startup_size m a \<le> hdr_stored_size m a \<and> 0 < hdr_stored_size m a \<and>
     unat a + unat (hdr_stored_size m a) < 2 ^ 32 \<and>
     span a (unat (hdr_stored_size m a)) \<inter> buffers g = {}"

definition scan_ok :: "globals \<Rightarrow> mem \<Rightarrow> u32 \<Rightarrow> u32 \<Rightarrow> bool" where
  "scan_ok g m s e \<longleftrightarrow>
     span (scratch g) SCRATCH_SIZE \<inter> span (startup_hdr g) HDR_SIZE = {} \<and> unat e \<le> 2 ^ 32 - 4 \<and>
     (\<forall>a. s \<le> a \<and> a < e \<longrightarrow> span a HDR_SIZE \<inter> buffers g = {} \<and>
        (hdr_signature m a = STARTUP_HDR_SIGNATURE \<longrightarrow> hdr_sane g m a))"

text \<open>The addresses the scan looks at: four bytes on, or past an image it accepted.\<close>

inductive scanned :: "mem \<Rightarrow> u32 \<Rightarrow> u32 \<Rightarrow> u32 \<Rightarrow> bool" for m e where
  here: "scanned m e s s"
| skip: "s < e \<Longrightarrow> \<not> image_at m s \<Longrightarrow> scanned m e (s + 4) a \<Longrightarrow> scanned m e s a"
| over: "s < e \<Longrightarrow> image_at m s \<Longrightarrow> scanned m e (s + hdr_stored_size m s) a \<Longrightarrow> scanned m e s a"

inductive_cases scannedE: "scanned m e s a"

lemma header_copy:
  assumes ok: "scan_ok g m s e" "s < e" and m1: "same_but (buffers g) m m1"
  defines "m2 \<equiv> copy (startup_hdr g) s 256 m1"
  shows "same_but (buffers g) m m2" and "bytes_at m2 (startup_hdr g) HDR_SIZE = bytes_at m s HDR_SIZE"
proof -
  have s: "span s HDR_SIZE \<inter> buffers g = {}" using ok by (simp add: scan_ok_def)
  then have d: "span (startup_hdr g) (unat (256 :: u32)) \<inter> span s (unat (256 :: u32)) = {}"
    by (auto simp: buffers_def)
  have "same_but (buffers g) m1 m2"
    unfolding m2_def using d by (rule same_but_copy) (simp add: buffers_def)
  with m1 show "same_but (buffers g) m m2" by (rule same_but_trans) auto
  have "bytes_at m2 (startup_hdr g) HDR_SIZE = bytes_at m1 s HDR_SIZE"
    unfolding m2_def using bytes_at_copy [OF d, of m1] by simp
  also have "\<dots> = bytes_at m s HDR_SIZE" using m1 s by (rule same_but_bytes)
  finally show "bytes_at m2 (startup_hdr g) HDR_SIZE = bytes_at m s HDR_SIZE" .
qed

lemma checksum_of:
  assumes m1: "same_but (buffers g) m m1" and h: "bytes_at m1 (startup_hdr g) HDR_SIZE = bytes_at m s HDR_SIZE"
    and g: "span (scratch g) SCRATCH_SIZE \<inter> span (startup_hdr g) HDR_SIZE = {}"
    and l: "4 dvd unat len" "span a (unat len) \<inter> buffers g = {}"
  shows "\<exists>m2. checksum g a len m1 = (word_sum m a (unat len div 4), m2) \<and> same_but (buffers g) m m2 \<and>
     bytes_at m2 (startup_hdr g) HDR_SIZE = bytes_at m s HDR_SIZE"
proof -
  have "span a (unat len) \<inter> scr g = {}" using l(2) by (auto simp: buffers_def)
  from checksum_words [OF l(1) this, of m1] obtain m2 where
    c: "checksum g a len m1 = (word_sum m1 a (unat len div 4), m2)" "same_but (scr g) m1 m2" by blast
  have "bytes_at m1 a (4 * (unat len div 4)) = bytes_at m a (4 * (unat len div 4))"
    using m1 l by (intro same_but_bytes [where A = "buffers g"]) auto
  then have "word_sum m1 a (unat len div 4) = word_sum m a (unat len div 4)" by (rule word_sum_cong)
  moreover have "same_but (buffers g) m m2"
    using m1 c(2) by (rule same_but_trans) (auto simp: buffers_def)
  moreover have "bytes_at m2 (startup_hdr g) HDR_SIZE = bytes_at m1 (startup_hdr g) HDR_SIZE"
    using c(2) g by (intro same_but_bytes [where A = "scr g"]) auto
  ultimately show ?thesis using c(1) h by auto
qed

lemma scan_step:
  assumes ok: "scan_ok g m s e" "s < e" and lt: "s < fin" and m1: "same_but (buffers g) m m1"
  shows "\<exists>m2. same_but (buffers g) m m2 \<and>
    scan_loop g s fin la lv m1 =
      (if image_at m s
       then (if lv < hdr_version m s then scan_loop g (s + hdr_stored_size m s) fin s (hdr_version m s) m2
             else scan_loop g (s + hdr_stored_size m s) fin la lv m2)
       else scan_loop g (s + 4) fin la lv m2)"
proof -
  let ?h = "startup_hdr g" and ?m2 = "copy (startup_hdr g) s 256 m1"
  note h2 = header_copy [OF ok m1]
  note f2 = hdr_same [OF h2(2)]
  note lp = scan_loop.simps [of g s fin la lv m1]
  have gl: "span (scratch g) SCRATCH_SIZE \<inter> span ?h HDR_SIZE = {}" using ok(1) by (simp add: scan_ok_def)
  show ?thesis
  proof (cases "hdr_signature m s = STARTUP_HDR_SIGNATURE")
    case False
    then have "scan_loop g s fin la lv m1 = scan_loop g (s + 4) fin la lv ?m2"
      using lt f2(1) by (subst lp) (simp add: Let_def)
    moreover have "\<not> image_at m s" using False by (simp add: image_at_def)
    ultimately show ?thesis using h2(1) by auto
  next
    case True
    let ?su = "hdr_startup_size m s" and ?st = "hdr_stored_size m s"
    have sane: "4 dvd unat ?su" "4 dvd unat ?st" "?su \<le> ?st" "span s (unat ?st) \<inter> buffers g = {}"
      using ok True by (simp_all add: scan_ok_def hdr_sane_def)
    have le: "unat ?su \<le> unat ?st" using sane(3) by (simp add: word_le_nat_alt)
    have rest: "unat (?st - ?su) = unat ?st - unat ?su" using sane(3) by (rule unat_sub)
    have sp: "span s (unat ?st) = span s (unat ?su) \<union> span (s + ?su) (unat (?st - ?su))"
      using span_add [of s "unat ?su" "unat ?st - unat ?su"] le rest by simp
    have "4 dvd unat (?st - ?su)" using sane rest by (simp add: dvd_diff_nat)
    note d2 = this
    obtain m3 where c1: "checksum g s ?su ?m2 = (word_sum m s (unat ?su div 4), m3)"
      and m3: "same_but (buffers g) m m3" "bytes_at m3 ?h HDR_SIZE = bytes_at m s HDR_SIZE"
      using checksum_of [OF h2 gl sane(1), of s] sane(4) sp by auto
    note f3 = hdr_same [OF m3(2)]
    obtain m4 where c2: "checksum g (s + ?su) (?st - ?su) m3 = (word_sum m (s + ?su) (unat (?st - ?su) div 4), m4)"
      and m4: "same_but (buffers g) m m4" "bytes_at m4 ?h HDR_SIZE = bytes_at m s HDR_SIZE"
      using checksum_of [OF m3 gl d2, of "s + ?su"] sane(4) sp by auto
    note f4 = hdr_same [OF m4(2)]
    show ?thesis
    proof (cases "word_sum m s (unat ?su div 4) = 0")
      case False
      then have "scan_loop g s fin la lv m1 = scan_loop g (s + 4) fin la lv m3"
        using lt True by (subst lp) (simp add: Let_def f2 c1)
      moreover have "\<not> image_at m s" using False by (simp add: image_at_def)
      ultimately show ?thesis using m3(1) by auto
    next
      case w1: True
      show ?thesis
      proof (cases "word_sum m (s + ?su) (unat (?st - ?su) div 4) = 0")
        case False
        then have "scan_loop g s fin la lv m1 = scan_loop g (s + 4) fin la lv m4"
          using lt True w1 by (subst lp) (simp add: Let_def f2 c1 f3 c2)
        moreover have "\<not> image_at m s" using False by (simp add: image_at_def)
        ultimately show ?thesis using m4(1) by auto
      next
        case w2: True
        then have "scan_loop g s fin la lv m1 =
           (if lv < hdr_version m s then scan_loop g (s + ?st) fin s (hdr_version m s) m4
             else scan_loop g (s + ?st) fin la lv m4)"
          using lt True w1 by (subst lp) (simp add: Let_def f2 c1 f3 c2 f4 split: prod.split)
        moreover have "image_at m s" using True w1 w2 by (simp add: image_at_def)
        ultimately show ?thesis using m4(1) by auto
      qed
    qed
  qed
qed

definition candidate :: "mem \<Rightarrow> u32 \<Rightarrow> u32 \<Rightarrow> u32 \<Rightarrow> bool" where
  "candidate m e s a \<longleftrightarrow> scanned m e s a \<and> a < e \<and> image_at m a"

definition newest :: "mem \<Rightarrow> u32 \<Rightarrow> u32 \<Rightarrow> u32 \<Rightarrow> u16 \<Rightarrow> u32 \<Rightarrow> bool" where
  "newest m e s la lv r \<longleftrightarrow>
     (r = la \<and> (\<forall>a. candidate m e s a \<longrightarrow> hdr_version m a \<le> lv)) \<or>
     (candidate m e s r \<and> lv < hdr_version m r \<and> (\<forall>a. candidate m e s a \<longrightarrow> hdr_version m a \<le> hdr_version m r))"

lemma candidate_skip: "s < e \<Longrightarrow> \<not> image_at m s \<Longrightarrow> candidate m e s a \<longleftrightarrow> candidate m e (s + 4) a"
  by (auto simp: candidate_def intro: scanned.skip elim: scannedE)

lemma candidate_over:
  "s < e \<Longrightarrow> image_at m s \<Longrightarrow> candidate m e s a \<longleftrightarrow> a = s \<or> candidate m e (s + hdr_stored_size m s) a"
  by (auto simp: candidate_def intro: scanned.here scanned.over elim: scannedE)

lemma candidate_end: "\<not> s < e \<Longrightarrow> \<not> candidate m e s a"
  by (auto simp: candidate_def elim: scannedE)

lemma newest_over:
  assumes "s < e" "image_at m s"
    and "if lv < hdr_version m s then newest m e (s + hdr_stored_size m s) s (hdr_version m s) r
         else newest m e (s + hdr_stored_size m s) la lv r"
  shows "newest m e s la lv r"
proof (cases "lv < hdr_version m s")
  case True
  have n: "newest m e (s + hdr_stored_size m s) s (hdr_version m s) r" using assms(3) True by simp
  then consider "r = s" "\<forall>a. candidate m e (s + hdr_stored_size m s) a \<longrightarrow> hdr_version m a \<le> hdr_version m s"
    | "candidate m e (s + hdr_stored_size m s) r" "hdr_version m s < hdr_version m r"
      "\<forall>a. candidate m e (s + hdr_stored_size m s) a \<longrightarrow> hdr_version m a \<le> hdr_version m r"
    unfolding newest_def by blast
  then show ?thesis
  proof cases
    case 1
    then show ?thesis using True by (auto simp: newest_def candidate_over [OF assms(1,2)])
  next
    case 2
    then have "lv < hdr_version m r" using True by (meson less_trans)
    with 2 show ?thesis by (auto simp: newest_def candidate_over [OF assms(1,2)])
  qed
next
  case False
  have n: "newest m e (s + hdr_stored_size m s) la lv r" using assms(3) False by simp
  have v: "hdr_version m s \<le> lv" using False by simp
  from n consider "r = la" "\<forall>a. candidate m e (s + hdr_stored_size m s) a \<longrightarrow> hdr_version m a \<le> lv"
    | "candidate m e (s + hdr_stored_size m s) r" "lv < hdr_version m r"
      "\<forall>a. candidate m e (s + hdr_stored_size m s) a \<longrightarrow> hdr_version m a \<le> hdr_version m r"
    unfolding newest_def by blast
  then show ?thesis
  proof cases
    case 1
    then show ?thesis using v by (auto simp: newest_def candidate_over [OF assms(1,2)])
  next
    case 2
    then have "hdr_version m s \<le> hdr_version m r" using v by (meson le_less_trans less_imp_le)
    with 2 show ?thesis by (auto simp: newest_def candidate_over [OF assms(1,2)])
  qed
qed

lemma scan_ok_mono: "scan_ok g m s e \<Longrightarrow> s \<le> s' \<Longrightarrow> scan_ok g m s' e"
  by (auto simp: scan_ok_def intro: order_trans)

lemma scan_loop_newest:
  assumes "scan_ok g m s e" "same_but (buffers g) m m1"
  shows "\<exists>r m2. scan_loop g s e la lv m1 = Some (r, m2) \<and> same_but (buffers g) m m2 \<and> newest m e s la lv r"
  using assms
proof (induction "unat e - unat s" arbitrary: s la lv m1 rule: less_induct)
  case less
  show ?case
  proof (cases "s < e")
    case False
    then have "scan_loop g s e la lv m1 = Some (la, m1)" by (subst scan_loop.simps) simp
    moreover have "newest m e s la lv la" using candidate_end [OF False] by (simp add: newest_def)
    ultimately show ?thesis using less.prems(2) by blast
  next
    case True
    have su: "unat s < unat e" using True by (simp add: word_less_nat_alt)
    obtain m2 where m2: "same_but (buffers g) m m2" and st: "scan_loop g s e la lv m1 =
      (if image_at m s
       then (if lv < hdr_version m s then scan_loop g (s + hdr_stored_size m s) e s (hdr_version m s) m2
             else scan_loop g (s + hdr_stored_size m s) e la lv m2)
       else scan_loop g (s + 4) e la lv m2)"
      using scan_step [OF less.prems(1) True True less.prems(2)] by blast
    show ?thesis
    proof (cases "image_at m s")
      case False
      have "unat (s + 4) = unat s + 4"
        using less.prems(1) su by (subst unat_add_no_wrap) (simp_all add: scan_ok_def)
      then have "unat e - unat (s + 4) < unat e - unat s" "s \<le> s + 4"
        using su by (simp_all add: word_le_nat_alt)
      from less.hyps [OF this(1) scan_ok_mono [OF less.prems(1) this(2)] m2, of la lv] show ?thesis
        using False True by (simp add: st newest_def candidate_skip)
    next
      case im: True
      have sane: "0 < hdr_stored_size m s" "unat s + unat (hdr_stored_size m s) < 2 ^ 32"
        using less.prems(1) True im by (simp_all add: scan_ok_def image_at_def hdr_sane_def)
      then have "unat (s + hdr_stored_size m s) = unat s + unat (hdr_stored_size m s)" "0 < unat (hdr_stored_size m s)"
        by (simp_all add: unat_add_no_wrap word_less_nat_alt)
      then have "unat e - unat (s + hdr_stored_size m s) < unat e - unat s" "s \<le> s + hdr_stored_size m s"
        using su by (simp_all add: word_le_nat_alt)
      note ih = less.hyps [OF this(1) scan_ok_mono [OF less.prems(1) this(2)] m2]
      show ?thesis
      proof (cases "lv < hdr_version m s")
        case v: True
        obtain r m3 where "scan_loop g (s + hdr_stored_size m s) e s (hdr_version m s) m2 = Some (r, m3)"
          "same_but (buffers g) m m3" "newest m e (s + hdr_stored_size m s) s (hdr_version m s) r" using ih by blast
        then show ?thesis using newest_over [OF True im, of lv r la] v im by (simp add: st)
      next
        case v: False
        obtain r m3 where "scan_loop g (s + hdr_stored_size m s) e la lv m2 = Some (r, m3)"
          "same_but (buffers g) m m3" "newest m e (s + hdr_stored_size m s) la lv r" using ih by blast
        then show ?thesis using newest_over [OF True im, of lv r la] v im by (simp add: st)
      qed
    qed
  qed
qed

text \<open>
  C6: a scan over a region whose headers are sane (sizes that are multiples of four, the startup
  part inside the stored size, nothing wrapping or overlapping the loader's buffers) returns, and
  leaves memory alone but for the two buffers. It returns an image it looked at whose version is the
  highest of the images it looked at, or minus one when none of them has a version above zero.
\<close>

theorem image_scan_newest:
  assumes "scan_ok g m start fin"
  shows "\<exists>r m'. image_scan g start fin m = Some (r, m') \<and> same_but (buffers g) m m' \<and>
     ((r = - 1 \<and> (\<forall>a. candidate m fin start a \<longrightarrow> hdr_version m a = 0)) \<or>
      (candidate m fin start r \<and> 0 < hdr_version m r \<and>
        (\<forall>a. candidate m fin start a \<longrightarrow> hdr_version m a \<le> hdr_version m r)))"
  using scan_loop_newest [OF assms same_but_refl, of "- 1" 0] by (auto simp: image_scan_def newest_def)

lemma scan_loop_stuck:
  assumes "start < fin" "span (startup_hdr g) HDR_SIZE \<inter> span start HDR_SIZE = {}"
    and "hdr_signature m start = STARTUP_HDR_SIGNATURE"
    and "hdr_startup_size m start = 0" "hdr_stored_size m start = 0"
    and "bytes_at m1 start HDR_SIZE = bytes_at m start HDR_SIZE"
  shows "scan_loop g start fin la lv m1 = None"
proof -
  let ?h = "startup_hdr g"
  have z: "checksum g a 0 p = (0, p)" for a p by (simp add: checksum_def checksum_loop.simps)
  have d: "span ?h (unat (256 :: u32)) \<inter> span start (unat (256 :: u32)) = {}" using assms(2) by simp
  have cp: "bytes_at (copy ?h start 256 p) start HDR_SIZE = bytes_at p start HDR_SIZE"
    "bytes_at (copy ?h start 256 p) ?h HDR_SIZE = bytes_at p start HDR_SIZE" for p
    using bytes_at_copy [OF d, of p] bytes_at_store_disjoint [of start HDR_SIZE ?h "bytes_at p start HDR_SIZE" p] assms(2)
    by (simp_all add: copy_eq [OF d] Int_commute)
  let ?stuck = "\<lambda>g' s' e' p. g' = g \<and> s' = start \<and> e' = fin \<and> bytes_at p start HDR_SIZE = bytes_at m start HDR_SIZE"
  have hang: "\<not> ?stuck g' s' e' p" if "scan_loop g' s' e' la lv p = Some y" for g' s' e' la lv p y
  proof (rule scan_loop.raw_induct [where P = "\<lambda>g' s' e' la lv p y. \<not> ?stuck g' s' e' p", OF _ that])
    fix lp :: "globals \<Rightarrow> u32 \<Rightarrow> u32 \<Rightarrow> u32 \<Rightarrow> u16 \<Rightarrow> mem \<Rightarrow> (u32 \<times> mem) option" and g' s' e' la lv p y
    assume ih: "\<And>g' s' e' la lv p y. lp g' s' e' la lv p = Some y \<Longrightarrow> \<not> ?stuck g' s' e' p"
      and eq: "(if s' < e' then
        (let m = copy (startup_hdr g') s' 256 p; h = startup_hdr g'
         in if hdr_signature m h \<noteq> STARTUP_HDR_SIGNATURE then lp g' (s' + 4) e' la lv m
         else (let (c, m) = checksum g' s' (hdr_startup_size m h) m
         in if c \<noteq> 0 then lp g' (s' + 4) e' la lv m
         else (let (c, m) = checksum g' (s' + hdr_startup_size m h) (hdr_stored_size m h - hdr_startup_size m h) m
         in if c \<noteq> 0 then lp g' (s' + 4) e' la lv m
         else (let (lv, la) = (if lv < hdr_version m h then (hdr_version m h, s') else (lv, la))
               in lp g' (s' + (hdr_stored_size m h - 4) + 4) e' la lv m))))
        else Some (la, p)) = Some y"
    show "\<not> ?stuck g' s' e' p"
    proof
      assume st: "?stuck g' s' e' p"
      have f: "hdr_signature (copy ?h start 256 p) ?h = STARTUP_HDR_SIGNATURE"
        "hdr_startup_size (copy ?h start 256 p) ?h = 0" "hdr_stored_size (copy ?h start 256 p) ?h = 0"
        using hdr_same [of "copy ?h start 256 p" ?h m start] cp(2) [of p] st assms(3-5) by simp_all
      have "\<exists>la lv. lp g start fin la lv (copy ?h start 256 p) = Some y"
        using eq assms(1) st by (auto simp: Let_def f z split: if_splits)
      moreover have "?stuck g start fin (copy ?h start 256 p)" using st cp(1) by simp
      ultimately show False using ih by blast
    qed
  qed
  have "scan_loop g start fin la lv m1 \<noteq> Some y" for y
    using hang [of g start fin la lv m1 y] assms(6) by auto
  then show ?thesis by (cases "scan_loop g start fin la lv m1") auto
qed

lemma scan_reaches_stuck:
  assumes "scanned m e s a" "scan_ok g m s e" "e \<le> fin" "a < fin" "span a HDR_SIZE \<inter> buffers g = {}"
    and "hdr_signature m a = STARTUP_HDR_SIGNATURE" "hdr_startup_size m a = 0" "hdr_stored_size m a = 0"
    and "same_but (buffers g) m m1"
  shows "scan_loop g s fin la lv m1 = None"
  using assms
proof (induction arbitrary: la lv m1 rule: scanned.induct)
  case (here s)
  have "span (startup_hdr g) HDR_SIZE \<inter> span s HDR_SIZE = {}" using here.prems(4) by (auto simp: buffers_def)
  moreover have "bytes_at m1 s HDR_SIZE = bytes_at m s HDR_SIZE" using here.prems(8,4) by (rule same_but_bytes)
  ultimately show ?case using here.prems by (intro scan_loop_stuck) auto
next
  case (skip s a)
  have lt: "s < fin" using skip.hyps(1) skip.prems(2) by simp
  obtain m2 where "same_but (buffers g) m m2" "scan_loop g s fin la lv m1 = scan_loop g (s + 4) fin la lv m2"
    using scan_step [OF skip.prems(1) skip.hyps(1) lt skip.prems(8)] skip.hyps(2) by metis
  moreover have "unat s + 4 < 2 ^ 32" using skip.hyps(1) skip.prems(1) by (simp add: scan_ok_def word_less_nat_alt)
  then have "s \<le> s + 4" by (simp add: word_le_nat_alt unat_add_no_wrap)
  ultimately show ?case using skip.IH [OF scan_ok_mono [OF skip.prems(1)]] skip.prems by simp
next
  case (over s a)
  have lt: "s < fin" using over.hyps(1) over.prems(2) by simp
  obtain m2 la' lv' where "same_but (buffers g) m m2" "scan_loop g s fin la lv m1 = scan_loop g (s + hdr_stored_size m s) fin la' lv' m2"
    using scan_step [OF over.prems(1) over.hyps(1) lt over.prems(8)] over.hyps(2) by metis
  moreover have "unat s + unat (hdr_stored_size m s) < 2 ^ 32"
    using over.hyps(1,2) over.prems(1) by (simp add: scan_ok_def image_at_def hdr_sane_def)
  then have "s \<le> s + hdr_stored_size m s" by (simp add: word_le_nat_alt unat_add_no_wrap)
  ultimately show ?case using over.IH [OF scan_ok_mono [OF over.prems(1)]] over.prems by simp
qed

text \<open>
  C27: a header that has the signature and both \<open>startup_size\<close> and \<open>stored_size\<close> zero makes the scan run
  for ever once the scan comes to it, past whatever sane headers stand before it: its two sums are over nothing, so it
  is accepted, and the scan goes on at the same address.
\<close>

theorem image_scan_hangs:
  assumes "scan_ok g m start a" "scanned m a start a" "a < fin" "span a HDR_SIZE \<inter> buffers g = {}"
    and "hdr_signature m a = STARTUP_HDR_SIGNATURE" "hdr_startup_size m a = 0" "hdr_stored_size m a = 0"
  shows "image_scan g start fin m = None"
  using scan_reaches_stuck [OF assms(2,1) less_imp_le [OF assms(3)] assms(3-7) same_but_refl]
  by (simp add: image_scan_def)

section \<open>The startup program lands in RAM\<close>

definition patch_bytes :: "nat \<Rightarrow> u8 list \<Rightarrow> u8 list \<Rightarrow> u8 list" where
  "patch_bytes i new bs = take i bs @ new @ drop (i + length new) bs"

lemma bytes_at_store_inside:
  assumes "i + length new \<le> n" "n \<le> 2 ^ 32"
  shows "bytes_at (store (a + of_nat i) new m) a n = patch_bytes i new (bytes_at m a n)"
proof (rule nth_equalityI)
  show "length (bytes_at (store (a + of_nat i) new m) a n) = length (patch_bytes i new (bytes_at m a n))"
    using assms(1) by (simp add: patch_bytes_def)
next
  fix k assume "k < length (bytes_at (store (a + of_nat i) new m) a n)"
  then have k: "k < n" by simp
  show "bytes_at (store (a + of_nat i) new m) a n ! k = patch_bytes i new (bytes_at m a n) ! k"
  proof (cases "i \<le> k \<and> k < i + length new")
    case True
    then have "(of_nat k :: u32) = of_nat i + of_nat (k - i)" by (simp flip: of_nat_add)
    moreover have "k - i < length new" using True by linarith
    ultimately show ?thesis
      using True k assms nth_store [of "k - i" new "a + of_nat i" m]
      by (simp add: nth_bytes_at patch_bytes_def nth_append add.assoc)
  next
    case False
    then have "a + of_nat k \<notin> span (a + of_nat i) (length new)"
      using k assms by (intro offset_notin_span) auto
    then show ?thesis using False k assms by (auto simp: nth_bytes_at store_notin patch_bytes_def nth_append)
  qed
qed

text \<open>
  \<open>image_setup\<close> leaves at the RAM address the header names a copy of the startup part of the
  image, changed in one field: \<open>imagefs_paddr\<close> is the physical address right after the startup
  part. The parts copied must not overlap each other or the loader's header buffer.
\<close>

lemma image_setup_places:
  fixes g m addr
  defines "ram \<equiv> hdr_ram_paddr m addr + hdr_paddr_bias m addr" and "su \<equiv> hdr_startup_size m addr"
    and "bias \<equiv> hdr_paddr_bias m addr"
  assumes sz: "256 \<le> su"
    and dis: "span (startup_hdr g) HDR_SIZE \<inter> span addr (unat su) = {}"
      "span ram (unat su) \<inter> span addr (unat su) = {}" "span ram (unat su) \<inter> span (startup_hdr g) HDR_SIZE = {}"
  shows "\<exists>m'. image_setup g addr m = (0, m') \<and>
    bytes_at m' ram (unat su) = patch_bytes 40 (le_bytes 4 (unat (addr + su - bias))) (bytes_at m addr (unat su)) \<and>
    bytes_at m' addr (unat su) = bytes_at m addr (unat su)"
proof -
  let ?h = "startup_hdr g"
  have su: "256 \<le> unat su" and su': "unat (su - 256) = unat su - 256"
    using sz by (simp_all add: word_le_nat_alt unat_sub)
  have sp: "span x (unat su) = span x 256 \<union> span (x + 256) (unat (su - 256))" for x
    using span_add [of x 256 "unat su - 256"] su su' by simp
  have rd: "bytes_at p x (unat su) = bytes_at p x 256 @ bytes_at p (x + 256) (unat (su - 256))" for p x
    using bytes_at_append [of p x 256 "unat su - 256"] su su' by simp
  have d: "span ?h (unat (256 :: u32)) \<inter> span addr (unat (256 :: u32)) = {}"
    "span ram (unat (256 :: u32)) \<inter> span ?h (unat (256 :: u32)) = {}"
    "span (ram + 256) (unat (su - 256)) \<inter> span (addr + 256) (unat (su - 256)) = {}"
    using dis by (simp_all add: sp) blast+
  define m1 where "m1 = copy ?h addr 256 m"
  have m1: "bytes_at m1 ?h HDR_SIZE = bytes_at m addr HDR_SIZE" "same_but (span ?h HDR_SIZE) m m1"
    unfolding m1_def using bytes_at_copy [OF d(1)] same_but_copy [OF d(1)] by simp_all
  note f1 = hdr_same [OF m1(1)]
  define v where "v = addr + su - bias"
  define m2 where "m2 = store32 (?h + 40) v m1"
  have m2: "bytes_at m2 ?h 256 = patch_bytes 40 (le_bytes 4 (unat v)) (bytes_at m addr 256)"
    unfolding m2_def store32_def using bytes_at_store_inside [of 40 "le_bytes 4 (unat v)" 256 ?h m1] by (simp add: m1(1))
  have "span (?h + 40) 4 \<subseteq> span ?h HDR_SIZE" using span_offset [of 40 4 HDR_SIZE ?h] by simp
  then have "same_but (span ?h HDR_SIZE) m1 m2"
    by (auto simp: same_but_def m2_def store32_def intro!: store_notin)
  with m1(2) have s2: "same_but (span ?h HDR_SIZE) m m2" by (rule same_but_trans) auto
  have "span (?h + 32) 4 \<inter> span (?h + 40) 4 = {}"
    using span_offsets_disjoint [of 32 4 40 4 ?h] by simp
  then have "hdr_startup_size m2 ?h = hdr_startup_size m1 ?h"
    unfolding m2_def store32_def hdr_startup_size_def by (intro u32_at_cong bytes_at_store_disjoint) simp
  then have su2: "hdr_startup_size m2 ?h = su" by (simp add: f1(6) su_def)
  define m3 where "m3 = copy ram ?h 256 m2"
  have m3: "bytes_at m3 ram HDR_SIZE = bytes_at m2 ?h HDR_SIZE" "same_but (span ram HDR_SIZE) m2 m3"
    unfolding m3_def using bytes_at_copy [OF d(2)] same_but_copy [OF d(2)] by simp_all
  have "bytes_at m3 ?h HDR_SIZE = bytes_at m2 ?h HDR_SIZE"
    using m3(2) d(2) by (intro same_but_bytes) auto
  then have su3: "hdr_startup_size m3 ?h = su" using hdr_same(6) su2 by metis
  define m4 where "m4 = copy (ram + 256) (addr + 256) (su - 256) m3"
  have m4: "bytes_at m4 (ram + 256) (unat (su - 256)) = bytes_at m3 (addr + 256) (unat (su - 256))"
    "same_but (span (ram + 256) (unat (su - 256))) m3 m4"
    unfolding m4_def using bytes_at_copy [OF d(3)] same_but_copy [OF d(3)] by simp_all
  have keep: "bytes_at m3 (addr + 256) (unat (su - 256)) = bytes_at m (addr + 256) (unat (su - 256))"
    "bytes_at m4 ram HDR_SIZE = bytes_at m3 ram HDR_SIZE"
  proof -
    have "same_but (span ?h HDR_SIZE \<union> span ram HDR_SIZE) m m3"
      using s2 m3(2) by (rule same_but_trans) auto
    then show "bytes_at m3 (addr + 256) (unat (su - 256)) = bytes_at m (addr + 256) (unat (su - 256))"
      by (rule same_but_bytes) (use dis sp in blast)
    have "span ram HDR_SIZE \<inter> span (ram + 256) (unat (su - 256)) = {}"
      using span_offsets_disjoint [of 0 256 256 "unat (su - 256)" ram] su su' unat_lt32 [of su] by simp
    then show "bytes_at m4 ram HDR_SIZE = bytes_at m3 ram HDR_SIZE" by (rule same_but_bytes [OF m4(2)])
  qed
  have "same_but (span ?h HDR_SIZE \<union> span ram (unat su)) m m3"
    using s2 m3(2) by (rule same_but_trans) (auto simp: sp)
  then have "same_but (span ?h HDR_SIZE \<union> span ram (unat su)) m m4"
    using m4(2) by (rule same_but_trans) (auto simp: sp)
  then have addr: "bytes_at m4 addr (unat su) = bytes_at m addr (unat su)"
    by (rule same_but_bytes) (use dis in blast)
  have "image_setup g addr m = (0, m4)"
    unfolding image_setup_def Let_def m1_def [symmetric] f1 ram_def [symmetric]
    unfolding bias_def [symmetric] su_def [symmetric] v_def [symmetric] m2_def [symmetric]
      m3_def [symmetric] su3 m4_def [symmetric] ..
  moreover have "bytes_at m4 ram (unat su) = patch_bytes 40 (le_bytes 4 (unat v)) (bytes_at m addr (unat su))"
    using su by (simp add: rd keep m4(1) m3(1) m2) (simp add: patch_bytes_def)
  ultimately show ?thesis using addr by (auto simp: v_def)
qed

section \<open>An example\<close>

text \<open>A memory that holds, at the load address of the board's \<open>main\<close>, the words of a header.\<close>

definition words_mem :: "u32 list \<Rightarrow> mem" where
  "words_mem ws a =
     (let i = unat (a - 0x18000000)
      in if i div 4 < length ws then le_bytes 4 (unat (ws ! (i div 4))) ! (i mod 4) else 0)"

definition example_globals :: globals where
  "example_globals = \<lparr>scratch = 0x1000, startup_hdr = 0x2000\<rparr>"

definition example_image :: mem where
  "example_image = words_mem
     [0x00ff7eeb, 1, 0, 0x10800100, 0, 0, 0x10800000, 0, 256, 256, 0, - 0x21ff81ec]"

lemma le_nat_replicate_0: "le_nat (replicate n 0) = 0"
  by (induction n) simp_all

lemma take_le_bytes: "take i (le_bytes n v) = le_bytes (min i n) v"
proof (induction n arbitrary: i v)
  case (Suc n)
  then show ?case by (cases i) simp_all
qed simp

lemma words_mem_byte:
  assumes "k < 2 ^ 20" "j < 4"
  shows "words_mem ws (0x18000000 + of_nat (4 * k) + of_nat j) =
     (if k < length ws then le_bytes 4 (unat (ws ! k)) ! j else 0)"
proof -
  have "unat (of_nat (4 * k + j) :: u32) = 4 * k + j"
    using assms by (simp only: unat_of_nat) simp
  moreover have "0x18000000 + of_nat (4 * k) + of_nat j - 0x18000000 = (of_nat (4 * k + j) :: u32)" by simp
  ultimately have u: "unat (0x18000000 + of_nat (4 * k) + of_nat j - 0x18000000 :: u32) = 4 * k + j" by (simp only:)
  have "(4 * k + j) div 4 = k" "(4 * k + j) mod 4 = j" using assms by auto
  then show ?thesis unfolding words_mem_def u Let_def by simp
qed

lemma u32_at_words_mem:
  assumes "k < 2 ^ 20"
  shows "u32_at (words_mem ws) (0x18000000 + of_nat (4 * k)) = (if k < length ws then ws ! k else 0)"
proof -
  have "bytes_at (words_mem ws) (0x18000000 + of_nat (4 * k)) 4 =
      (if k < length ws then le_bytes 4 (unat (ws ! k)) else replicate 4 0)"
    using words_mem_byte [OF assms] by (intro nth_equalityI) (auto simp del: of_nat_mult simp: nth_bytes_at)
  moreover have "unat (ws ! k) mod 4294967296 = unat (ws ! k)" using unat_lt32 by (rule mod_less)
  ultimately show ?thesis by (auto simp: u32_at_def le_nat_bytes le_nat_replicate_0)
qed

lemma u16_at_words_mem:
  assumes "k < length ws" "k < 2 ^ 20"
  shows "u16_at (words_mem ws) (0x18000000 + of_nat (4 * k)) = ucast (ws ! k)"
proof -
  have "bytes_at (words_mem ws) (0x18000000 + of_nat (4 * k)) 2 = take 2 (le_bytes 4 (unat (ws ! k)))"
    using words_mem_byte [OF assms(2)] assms(1) by (intro nth_equalityI) (auto simp del: of_nat_mult simp: nth_bytes_at)
  also have "\<dots> = le_bytes 2 (unat (ws ! k))" by (simp add: take_le_bytes)
  finally show ?thesis
    by (simp add: u16_at_def le_nat_bytes word_unat_eq_iff unat_of_nat unsigned_ucast_eq take_bit_eq_mod)
qed

lemma word_sum_words_mem:
  "k + n < 2 ^ 20 \<Longrightarrow> word_sum (words_mem ws) (0x18000000 + of_nat (4 * k)) n = sum_list (take n (drop k ws))"
proof (induction n arbitrary: k)
  case (Suc n)
  have "(0x18000000 + of_nat (4 * k) + 4 :: u32) = 0x18000000 + of_nat (4 * Suc k)" by simp
  then have "word_sum (words_mem ws) (0x18000000 + of_nat (4 * k) + 4) n = sum_list (take n (drop (Suc k) ws))"
    using Suc.IH [of "Suc k"] Suc.prems by simp
  moreover have "take (Suc n) (drop k ws) = (if k < length ws then ws ! k # take n (drop (Suc k) ws) else [])"
    by (cases "k < length ws") (simp_all add: Cons_nth_drop_Suc [symmetric])
  ultimately show ?case
    using Suc.prems u32_at_words_mem [of k ws] by (simp del: of_nat_mult of_nat_Suc mult_Suc_right)
qed simp

lemma example_fields:
  "hdr_signature example_image 0x18000000 = STARTUP_HDR_SIGNATURE" "hdr_version example_image 0x18000000 = 1"
  "hdr_startup_size example_image 0x18000000 = 256" "hdr_stored_size example_image 0x18000000 = 256"
  "hdr_ram_paddr example_image 0x18000000 = 0x10800000" "hdr_paddr_bias example_image 0x18000000 = 0"
  using u32_at_words_mem [of 0] u16_at_words_mem [of 1] u32_at_words_mem [of 8] u32_at_words_mem [of 9]
    u32_at_words_mem [of 6] u32_at_words_mem [of 4]
  by (simp_all add: hdr_defs example_image_def)

lemma example_sum: "word_sum example_image 0x18000000 64 = 0"
  using word_sum_words_mem [of 0 64] by (simp add: example_image_def)

lemma example_apart:
  "span a n \<inter> span b k = {}" if "unat a + n \<le> unat b" "unat b + k \<le> 2 ^ 32"
proof -
  have "span (0 + of_nat (unat a)) n \<inter> span (0 + of_nat (unat b)) k = {}"
    using that by (rule span_offsets_disjoint)
  then show ?thesis by simp
qed

lemma example_scan_ok: "scan_ok example_globals example_image 0x18000000 0x18000001"
proof -
  have one: "a = 0x18000000" if "0x18000000 \<le> a" "a < 0x18000001" for a :: u32
  proof -
    have "unat a = 0x18000000" using that by (simp add: word_le_nat_alt word_less_nat_alt)
    then show ?thesis by (simp add: word_unat_eq_iff)
  qed
  have sp: "span 0x18000000 HDR_SIZE \<inter> buffers example_globals = {}"
    using example_apart [of "0x1000" 512 "0x18000000" 256] example_apart [of "0x2000" 256 "0x18000000" 256]
    by (auto simp: buffers_def example_globals_def)
  then have "hdr_sane example_globals example_image 0x18000000"
    by (simp add: hdr_sane_def example_fields)
  then show ?thesis
    using example_apart [of "0x1000" 512 "0x2000" 256] one sp
    unfolding scan_ok_def by (auto simp: example_globals_def dest!: one)
qed

lemma example_candidate: "candidate example_image 0x18000001 0x18000000 a \<longleftrightarrow> a = 0x18000000"
proof -
  have "image_at example_image 0x18000000" using example_sum by (simp add: image_at_def example_fields)
  then show ?thesis
    using candidate_over [of "0x18000000" "0x18000001" example_image a] candidate_end [of "0x18000100" "0x18000001" example_image a]
    by (simp add: example_fields)
qed

theorem image_scan_newest_witness:
  "\<exists>m'. image_scan example_globals 0x18000000 0x18000001 example_image = Some (0x18000000, m') \<and>
     same_but (buffers example_globals) example_image m'"
  using image_scan_newest [OF example_scan_ok] by (auto simp: example_candidate example_fields)

theorem image_scan_hangs_witness:
  "image_scan example_globals 0x18000000 0x18000200 (words_mem [0, 0x00ff7eeb]) = None"
proof (rule image_scan_hangs)
  let ?m = "words_mem [0, 0x00ff7eeb]"
  have w: "u32_at ?m 0x18000000 = 0" "u32_at ?m 0x18000004 = 0x00ff7eeb" "u32_at ?m 0x18000024 = 0" "u32_at ?m 0x18000028 = 0"
    using u32_at_words_mem [of 0] u32_at_words_mem [of 1] u32_at_words_mem [of 9] u32_at_words_mem [of 10] by simp_all
  show "hdr_signature ?m 0x18000004 = STARTUP_HDR_SIGNATURE" "hdr_startup_size ?m 0x18000004 = 0" "hdr_stored_size ?m 0x18000004 = 0"
    using w by (simp_all add: hdr_defs)
  have sp: "span a HDR_SIZE \<inter> buffers example_globals = {}" if "0x18000000 \<le> a" "a < 0x18000200" for a
    using example_apart [of "0x1000" 512 a 256] example_apart [of "0x2000" 256 a 256] that
    by (auto simp: buffers_def example_globals_def word_le_nat_alt word_less_nat_alt)
  show "span 0x18000004 HDR_SIZE \<inter> buffers example_globals = {}" by (rule sp) simp_all
  have n: "hdr_signature ?m a \<noteq> STARTUP_HDR_SIGNATURE" if "0x18000000 \<le> a" "a < 0x18000004" for a
  proof -
    have "a = 0x18000000 \<or> a = 0x18000001 \<or> a = 0x18000002 \<or> a = 0x18000003"
      using that by unat_arith
    moreover have four: "4 = Suc (Suc (Suc (Suc 0)))" by simp
    moreover have "bytes_at p x 4 = [p x, p (x + 1), p (x + 2), p (x + 3)]" for p and x :: u32
      by (simp only: four bytes_at.simps) (simp add: add.assoc)
    moreover have "le_bytes 4 v = [word_of_nat v, word_of_nat (v div 256), word_of_nat (v div 65536), word_of_nat (v div 16777216)]" for v
      by (simp only: four le_bytes.simps) (simp add: div_mult2_eq [symmetric])
    ultimately show ?thesis by (auto simp: hdr_defs u32_at_def words_mem_def)
  qed
  then have "\<not> image_at ?m 0x18000000" by (simp add: image_at_def)
  then show "scanned ?m 0x18000004 0x18000000 0x18000004" by (rule scanned.skip [rotated]) (simp_all add: scanned.here)
  show "scan_ok example_globals ?m 0x18000000 0x18000004"
  proof -
    have "a < 0x18000200" if "a < 0x18000004" for a :: u32 using that by (rule order.strict_trans) simp
    then have "\<forall>a. 0x18000000 \<le> a \<and> a < 0x18000004 \<longrightarrow> span a HDR_SIZE \<inter> buffers example_globals = {} \<and>
        (hdr_signature ?m a = STARTUP_HDR_SIGNATURE \<longrightarrow> hdr_sane example_globals ?m a)"
      using n sp by blast
    then show ?thesis using example_apart [of "0x1000" 512 "0x2000" 256] by (simp add: scan_ok_def example_globals_def)
  qed
qed simp

end
