(* ===== verification/Ipl_Serial.thy ===== *)
theory Ipl_Serial
  imports Ipl_Mem Startup_Num
begin

text \<open>
  The serial consoles of the initial program loader: the device-independent layer
  \<open>ipl/lib/ser_dev.c\<close>, the board's driver \<open>ipl/boards/mx6q-sabresmart/serial.c\<close> and the library's
  drivers \<open>sermx1.c\<close>, \<open>ser8250.c\<close>, \<open>sersa1100.c\<close>, \<open>serpxa250.c\<close>, \<open>seromap.c\<close> and \<open>sertuareg.c\<close>.

  The hardware is a parameter: a \<open>bus\<close> gives the effect of each width of register read and write on
  a hardware state of any type. A driver's busy loop may spin for ever, which is the outcome \<open>None\<close>.
  The constant tables \<open>ser_dev\<close> of function pointers are the constructors of \<open>ser_dev\<close>, dispatched by
  \<open>dev_get_byte\<close>, \<open>dev_put_byte\<close> and \<open>dev_poll\<close>. The register numbers of the 8250, which come from a
  system header outside the sources, are fields of the bus.
\<close>

record 'h bus =
  bus_in8 :: "u32 \<Rightarrow> 'h \<Rightarrow> u8 \<times> 'h"
  bus_in16 :: "u32 \<Rightarrow> 'h \<Rightarrow> u16 \<times> 'h"
  bus_in32 :: "u32 \<Rightarrow> 'h \<Rightarrow> u32 \<times> 'h"
  bus_out8 :: "u32 \<Rightarrow> u8 \<Rightarrow> 'h \<Rightarrow> 'h"
  bus_out16 :: "u32 \<Rightarrow> u16 \<Rightarrow> 'h \<Rightarrow> 'h"
  bus_out32 :: "u32 \<Rightarrow> u32 \<Rightarrow> 'h \<Rightarrow> 'h"
  REG_LC :: u32
  REG_LS :: u32
  REG_DL0 :: u32
  REG_DL1 :: u32
  LCR_DLAB :: u32
  LSR_RXRDY :: u32
  LSR_TXRDY :: u32

datatype ser_dev = Mx6q_dev | Mx1_dev | Ser8250_dev | Sa1100_dev | Pxa250_dev | Omap_dev | Tuareg_dev

text \<open>The hardware, the registered device and the drivers' static variables.\<close>

record 'h ser_state =
  hw :: 'h
  ser :: "ser_dev option"
  mx1_uart :: u32
  port_base :: u32
  port_size :: u32
  reg_shift :: u32
  sa1100_uart_base :: u32
  pxa250_uart :: u32
  seromap_base :: u32
  tuareg_uart :: u32

section \<open>Register access\<close>

definition in8 :: "'h bus \<Rightarrow> u32 \<Rightarrow> 'h ser_state \<Rightarrow> u8 \<times> 'h ser_state" where
  "in8 b a s = (let (v, h) = bus_in8 b a (hw s) in (v, s\<lparr>hw := h\<rparr>))"

definition in16 :: "'h bus \<Rightarrow> u32 \<Rightarrow> 'h ser_state \<Rightarrow> u16 \<times> 'h ser_state" where
  "in16 b a s = (let (v, h) = bus_in16 b a (hw s) in (v, s\<lparr>hw := h\<rparr>))"

definition in32 :: "'h bus \<Rightarrow> u32 \<Rightarrow> 'h ser_state \<Rightarrow> u32 \<times> 'h ser_state" where
  "in32 b a s = (let (v, h) = bus_in32 b a (hw s) in (v, s\<lparr>hw := h\<rparr>))"

definition out8 :: "'h bus \<Rightarrow> u32 \<Rightarrow> u8 \<Rightarrow> 'h ser_state \<Rightarrow> 'h ser_state" where
  "out8 b a v s = s\<lparr>hw := bus_out8 b a v (hw s)\<rparr>"

definition out16 :: "'h bus \<Rightarrow> u32 \<Rightarrow> u16 \<Rightarrow> 'h ser_state \<Rightarrow> 'h ser_state" where
  "out16 b a v s = s\<lparr>hw := bus_out16 b a v (hw s)\<rparr>"

definition out32 :: "'h bus \<Rightarrow> u32 \<Rightarrow> u32 \<Rightarrow> 'h ser_state \<Rightarrow> 'h ser_state" where
  "out32 b a v s = s\<lparr>hw := bus_out32 b a v (hw s)\<rparr>"

definition upd16 :: "'h bus \<Rightarrow> u32 \<Rightarrow> (u16 \<Rightarrow> u16) \<Rightarrow> 'h ser_state \<Rightarrow> 'h ser_state" where
  "upd16 b a f s = (let (v, s) = in16 b a s in out16 b a (f v) s)"

definition upd32 :: "'h bus \<Rightarrow> u32 \<Rightarrow> (u32 \<Rightarrow> u32) \<Rightarrow> 'h ser_state \<Rightarrow> 'h ser_state" where
  "upd32 b a f s = (let (v, s) = in32 b a s in out32 b a (f v) s)"

definition outs16 :: "'h bus \<Rightarrow> (u32 \<times> u16) list \<Rightarrow> 'h ser_state \<Rightarrow> 'h ser_state" where
  "outs16 b ws s = fold (\<lambda>(a, v). out16 b a v) ws s"

definition outs32 :: "'h bus \<Rightarrow> (u32 \<times> u32) list \<Rightarrow> 'h ser_state \<Rightarrow> 'h ser_state" where
  "outs32 b ws s = fold (\<lambda>(a, v). out32 b a v) ws s"

text \<open>
  The baud rate divisor: \<open>for (brd = 0; clk >= divisor; clk -= divisor) ++brd;\<close> divides by
  repeated subtraction, and the drivers that round add one when the rest is half a divisor.
\<close>

partial_function (option) sub_div :: "u32 \<Rightarrow> u32 \<Rightarrow> u32 \<Rightarrow> (u32 \<times> u32) option" where
  "sub_div clk divisor brd =
     (if divisor \<le> clk then sub_div (clk - divisor) divisor (brd + 1) else Some (brd, clk))"

definition round_div :: "u32 \<Rightarrow> u32 \<Rightarrow> u32 option" where
  "round_div clk divisor =
     do { (brd, clk) \<leftarrow> sub_div clk divisor 0; Some (if divisor \<le> push_bit 1 clk then brd + 1 else brd) }"

section \<open>\<open>ipl/boards/mx6q-sabresmart/serial.c\<close>\<close>

abbreviation MX6X_UART1_BASE :: u32 where "MX6X_UART1_BASE \<equiv> 0x02020000"

definition mx6q_uart_pollkey :: "'h bus \<Rightarrow> 'h ser_state \<Rightarrow> u8 \<times> 'h ser_state" where
  "mx6q_uart_pollkey b s =
     (let (v, s) = in16 b (MX6X_UART1_BASE + 0x98) s in (if v AND 1 \<noteq> 0 then 1 else 0, s))"

definition mx6q_uart_getchar :: "'h bus \<Rightarrow> 'h ser_state \<Rightarrow> (u8 \<times> 'h ser_state) option" where
  "mx6q_uart_getchar b s =
     do { s \<leftarrow> spin_until (\<lambda>s. let (k, s) = mx6q_uart_pollkey b s in (k \<noteq> 0, s)) s;
          let (v, s) = in16 b MX6X_UART1_BASE s;
          Some (ucast v, s) }"

definition mx6q_uart_putchar :: "'h bus \<Rightarrow> u8 \<Rightarrow> 'h ser_state \<Rightarrow> 'h ser_state option" where
  "mx6q_uart_putchar b data1 s =
     do { s \<leftarrow> spin_until (\<lambda>s. let (v, s) = in16 b (MX6X_UART1_BASE + 0x94) s in (v AND 0x2000 \<noteq> 0, s)) s;
          Some (out16 b (MX6X_UART1_BASE + 0x40) (ucast data1) s) }"

definition init_serdev :: "ser_dev \<Rightarrow> 'h ser_state \<Rightarrow> 'h ser_state" where
  "init_serdev dev s = s\<lparr>ser := Some dev\<rparr>"

definition init_serial_mx6q :: "'h bus \<Rightarrow> 'h ser_state \<Rightarrow> 'h ser_state option" where
  "init_serial_mx6q b s =
     (let r = \<lambda>off. MX6X_UART1_BASE + off
      in do {
        s \<leftarrow> spin_until (\<lambda>s. let (v, s) = in16 b (r 0xB4) s in (v AND 0x40 \<noteq> 0, s)) s;
        let s = upd16 b (r 0x80) (\<lambda>v. v AND NOT 1) s;
        let s = outs16 b [(r 0x80, 0), (r 0x84, 0)] s;
        s \<leftarrow> spin_until (\<lambda>s. let (v, s) = in16 b (r 0x84) s in (v AND 1 \<noteq> 0, s)) s;
        let s = outs16 b [(r 0x88, 0x0704), (r 0x8C, 0x8000), (r 0x90, 0x0801), (r 0x9C, 0x002B), (r 0xA0, 0),
                          (r 0xA4, 0), (r 0xA8, 0)] s;
        let s = out32 b (r 0xB0) 0 s;
        let s = outs16 b [(r 0xB4, 0),
                          (r 0x90, push_bit 0 1 OR push_bit 7 4 OR push_bit 10 2)] s;
        let s = upd16 b (r 0x84) (\<lambda>v. v AND NOT 0x100) s;
        let s = upd16 b (r 0x84) (\<lambda>v. v OR 0x20) s;
        let s = upd16 b (r 0x84) (\<lambda>v. v AND NOT 0x40) s;
        let s = upd16 b (r 0x84) (\<lambda>v. v OR 0x4000) s;
        let s = upd16 b (r 0x80) (\<lambda>v. v OR 1) s;
        let s = upd16 b (r 0x84) (\<lambda>v. v OR (1 OR 2 OR 4)) s;
        let s = upd16 b (r 0x98) (\<lambda>v. v OR (0x8000 OR 0x1000 OR 0x100 OR 0x80 OR 0x10 OR 4 OR 2 OR 1)) s;
        let s = upd16 b (r 0x94) (\<lambda>v. v OR (0x8000 OR 0x1000 OR 0x800 OR 0x400 OR 0x20 OR 0x10)) s;
        let s = outs16 b [(r 0xA4, 0xF), (r 0xA8, 0x15B)] s;
        Some (init_serdev Mx6q_dev s) })"

section \<open>\<open>ipl/lib/arm/sermx1.c\<close>\<close>

abbreviation MX1_UART1_BASE :: u32 where "MX1_UART1_BASE \<equiv> 0x00206000"
abbreviation MX1_UART2_BASE :: u32 where "MX1_UART2_BASE \<equiv> 0x00207000"
abbreviation MX1_GPIOB_BASE :: u32 where "MX1_GPIOB_BASE \<equiv> 0x0021C100"
abbreviation MX1_GPIOC_BASE :: u32 where "MX1_GPIOC_BASE \<equiv> 0x0021C200"

definition mx1uart_pollkey :: "'h bus \<Rightarrow> 'h ser_state \<Rightarrow> u8 \<times> 'h ser_state" where
  "mx1uart_pollkey b s =
     (let (v, s) = in32 b (mx1_uart s + 0x98) s in (if v AND 1 \<noteq> 0 then 1 else 0, s))"

definition mx1uart_getchar :: "'h bus \<Rightarrow> 'h ser_state \<Rightarrow> (u8 \<times> 'h ser_state) option" where
  "mx1uart_getchar b s =
     do { s \<leftarrow> spin_until (\<lambda>s. let (k, s) = mx1uart_pollkey b s in (k \<noteq> 0, s)) s;
          let (v, s) = in32 b (mx1_uart s) s;
          Some (ucast v, s) }"

definition mx1uart_putchar :: "'h bus \<Rightarrow> u8 \<Rightarrow> 'h ser_state \<Rightarrow> 'h ser_state option" where
  "mx1uart_putchar b c s =
     do { s \<leftarrow> spin_until (\<lambda>s. let (v, s) = in32 b (mx1_uart s + 0x94) s in (v AND 0x2000 \<noteq> 0, s)) s;
          Some (out32 b (mx1_uart s + 0x40) (ucast c) s) }"

definition init_sermx1 :: "'h bus \<Rightarrow> u32 \<Rightarrow> u32 \<Rightarrow> u32 \<Rightarrow> 'h ser_state \<Rightarrow> 'h ser_state option" where
  "init_sermx1 b port baud clk s =
     do {
       (gpio_base, gpio_mask) \<leftarrow>
         (if port = MX1_UART1_BASE then Some (MX1_GPIOC_BASE, NOT 0x00001E00)
          else if port = MX1_UART2_BASE then Some (MX1_GPIOB_BASE, NOT 0xF0000000)
          else None);
       let (cr1, s) = in32 b (port + 0x80) s;
       s \<leftarrow> (if cr1 AND (4 OR 1) = (4 OR 1) then
               (let (cr2, s) = in32 b (port + 0x84) s
                in if cr2 AND 4 \<noteq> 0
                   then spin_until (\<lambda>s. let (v, s) = in32 b (port + 0x98) s in (v AND 8 \<noteq> 0, s)) s
                   else Some s)
             else Some s);
       let s = outs32 b [(port + 0x80, 4), (port + 0x84, 0)] s;
       let (v, s) = in32 b (gpio_base + 0x20) s;
       let tmp = v AND gpio_mask;
       let s = outs32 b [(gpio_base + 0x20, tmp), (gpio_base + 0x20, tmp)] s;
       let (v, s) = in32 b (gpio_base + 0x38) s;
       let tmp = v AND gpio_mask;
       let s = outs32 b [(gpio_base + 0x38, tmp), (port + 0x84, 0x5021), (port + 0x88, 0), (port + 0x8C, 0x41),
                         (port + 0x90, 0x801), (port + 0xA4, drop_bit 7 baud - 1),
                         (port + 0xA8, drop_bit 7 1000000 - 1), (port + 0x80, 4 OR 1), (port + 0x84, 0x5027)] s;
       let s = ((\<lambda>s. snd (in32 b port s)) ^^ 100) s;
       Some (init_serdev Mx1_dev (s\<lparr>mx1_uart := port\<rparr>)) }"

section \<open>\<open>ipl/lib/ser8250.c\<close>\<close>

definition ser8250_writeport :: "'h bus \<Rightarrow> u32 \<Rightarrow> u32 \<Rightarrow> 'h ser_state \<Rightarrow> 'h ser_state" where
  "ser8250_writeport b address d s =
     (if port_size s = 4 then out32 b address d s
      else if port_size s = 2 then out16 b address (ucast d) s
      else out8 b address (ucast d) s)"

definition ser8250_readport :: "'h bus \<Rightarrow> u32 \<Rightarrow> 'h ser_state \<Rightarrow> u32 \<times> 'h ser_state" where
  "ser8250_readport b address s =
     (if port_size s = 4 then in32 b address s
      else if port_size s = 2 then (let (v, s) = in16 b address s in (ucast v, s))
      else (let (v, s) = in8 b address s in (ucast v, s)))"

definition ser8250_setport :: "'h bus \<Rightarrow> u32 \<Rightarrow> u32 \<Rightarrow> u32 \<Rightarrow> 'h ser_state \<Rightarrow> 'h ser_state" where
  "ser8250_setport b address mk d s =
     (let (v, s) = ser8250_readport b address s;
          c = (ucast (ucast v :: u8) :: u32)
      in ser8250_writeport b address ((c AND NOT mk) OR (d AND mk)) s)"

definition init_ser8250 :: "'h bus \<Rightarrow> u32 \<Rightarrow> u32 \<Rightarrow> nat \<Rightarrow> u32 \<Rightarrow> u32 \<Rightarrow> u32 \<Rightarrow> 'h ser_state \<Rightarrow> 'h ser_state option" where
  "init_ser8250 b address sz shift baud clk divisor s =
     do {
       let s = s\<lparr>port_base := address, reg_shift := of_nat shift, port_size := sz\<rparr>;
       brd \<leftarrow> round_div clk (divisor * baud);
       let s = ser8250_setport b (address + push_bit shift (REG_LC b)) (LCR_DLAB b) (LCR_DLAB b) s;
       let s = ser8250_setport b (address + push_bit shift (REG_DL0 b)) 0xFF (brd AND 0xFF) s;
       let s = ser8250_setport b (address + push_bit shift (REG_DL1 b)) 0xFF (drop_bit 8 brd) s;
       let s = ser8250_setport b (address + push_bit shift (REG_LC b)) (LCR_DLAB b) 0 s;
       let s = ser8250_setport b (address + push_bit shift (REG_LC b)) 0xFF 3 s;
       Some (init_serdev Ser8250_dev s) }"

definition ser8250_pollkey :: "'h bus \<Rightarrow> 'h ser_state \<Rightarrow> u8 \<times> 'h ser_state" where
  "ser8250_pollkey b s =
     (let (v, s) = ser8250_readport b (port_base s + push_bit (unat (reg_shift s)) (REG_LS b)) s
      in (if v AND LSR_RXRDY b \<noteq> 0 then 1 else 0, s))"

definition ser8250_getchar :: "'h bus \<Rightarrow> 'h ser_state \<Rightarrow> (u8 \<times> 'h ser_state) option" where
  "ser8250_getchar b s =
     do { s \<leftarrow> spin_until (\<lambda>s. let (k, s) = ser8250_pollkey b s in (k \<noteq> 0, s)) s;
          let (v, s) = ser8250_readport b (port_base s) s;
          Some (ucast v, s) }"

definition ser8250_putchar :: "'h bus \<Rightarrow> u8 \<Rightarrow> 'h ser_state \<Rightarrow> 'h ser_state option" where
  "ser8250_putchar b c s =
     do { s \<leftarrow> spin_until (\<lambda>s.
              let (v, s) = ser8250_readport b (port_base s + push_bit (unat (reg_shift s)) (REG_LS b)) s
              in (v AND LSR_TXRDY b \<noteq> 0, s)) s;
          Some (ser8250_writeport b (port_base s) (ucast c) s) }"

section \<open>\<open>ipl/lib/arm/sersa1100.c\<close>\<close>

abbreviation SA1100_UART1_BASE :: u32 where "SA1100_UART1_BASE \<equiv> 0x80010000"
abbreviation SA1100_GPIO_BASE :: u32 where "SA1100_GPIO_BASE \<equiv> 0x90040000"
abbreviation SA1100_PPC_BASE :: u32 where "SA1100_PPC_BASE \<equiv> 0x90060000"
abbreviation SA1100_SDLC_BASE :: u32 where "SA1100_SDLC_BASE \<equiv> 0x80020060"

definition init_sa1100 :: "'h bus \<Rightarrow> u32 \<Rightarrow> u32 \<Rightarrow> u32 \<Rightarrow> bool \<Rightarrow> 'h ser_state \<Rightarrow> 'h ser_state option" where
  "init_sa1100 b port baud clk alt s =
     do {
       let clk = (if clk = 0 then 3686400 else clk);
       (dv, clk) \<leftarrow> sub_div clk (baud * 16) 0;
       let s = (if port = SA1100_UART1_BASE then
                  if alt then
                    (let s = out32 b (SA1100_PPC_BASE + 0x08) 0x1000 s;
                         (tmp, s) = in32 b (SA1100_GPIO_BASE + 0x04) s;
                         s = out32 b (SA1100_GPIO_BASE + 0x04) ((tmp OR 0x4000) AND NOT 0x8000) s;
                         (tmp, s) = in32 b (SA1100_GPIO_BASE + 0x1c) s
                     in out32 b (SA1100_GPIO_BASE + 0x1c) (tmp OR (0x4000 OR 0x8000)) s)
                  else out32 b SA1100_SDLC_BASE 1 s
                else s);
       let dv = dv - 1;
       let s = outs32 b [(port + 0x0c, 0), (port + 0x04, drop_bit 8 dv AND 0xff), (port + 0x08, dv AND 0xff),
                         (port + 0x1c, 0xff), (port, 0x08), (port + 0x0c, 1 OR 2)] s;
       Some (s\<lparr>sa1100_uart_base := port\<rparr>) }"

definition init_sersa1100 :: "'h bus \<Rightarrow> u32 \<Rightarrow> u32 \<Rightarrow> u32 \<Rightarrow> bool \<Rightarrow> 'h ser_state \<Rightarrow> 'h ser_state option" where
  "init_sersa1100 b port baud clk alt s = map_option (init_serdev Sa1100_dev) (init_sa1100 b port baud clk alt s)"

definition poll_sa1100 :: "'h bus \<Rightarrow> 'h ser_state \<Rightarrow> u8 \<times> 'h ser_state" where
  "poll_sa1100 b s = (let (v, s) = in32 b (sa1100_uart_base s + 0x20) s in (if v AND 2 = 0 then 0 else 1, s))"

definition get_byte_sa1100 :: "'h bus \<Rightarrow> 'h ser_state \<Rightarrow> (u8 \<times> 'h ser_state) option" where
  "get_byte_sa1100 b s =
     do { s \<leftarrow> spin_until (\<lambda>s. let (v, s) = in32 b (sa1100_uart_base s + 0x20) s in (v AND 2 \<noteq> 0, s)) s;
          let (v, s) = in32 b (sa1100_uart_base s + 0x14) s;
          Some (ucast v, s) }"

definition put_byte_sa1100 :: "'h bus \<Rightarrow> u8 \<Rightarrow> 'h ser_state \<Rightarrow> 'h ser_state option" where
  "put_byte_sa1100 b c s =
     do { s \<leftarrow> spin_until (\<lambda>s. let (v, s) = in32 b (sa1100_uart_base s + 0x20) s in (v AND 4 \<noteq> 0, s)) s;
          Some (out32 b (sa1100_uart_base s + 0x14) (ucast c) s) }"

section \<open>\<open>ipl/lib/arm/serpxa250.c\<close>\<close>

definition init_pxa250 :: "'h bus \<Rightarrow> u32 \<Rightarrow> u32 \<Rightarrow> u32 \<Rightarrow> 'h ser_state \<Rightarrow> 'h ser_state option" where
  "init_pxa250 b port baud clk s =
     do {
       let clk = (if clk = 0 then 14745600 else clk);
       (brd, clk) \<leftarrow> sub_div clk (baud * 16) 0;
       let s = out32 b (port + 0x04) 0 s;
       let (tmp, s) = in32 b (port + 0x0c) s;
       let s = outs32 b [(port + 0x0c, tmp OR 0x80), (port, brd AND 0xff), (port + 0x04, drop_bit 8 brd AND 0xff),
                         (port + 0x08, 1), (port + 0x08, 1 OR 2 OR 4), (port + 0x0c, 3), (port + 0x10, 1 OR 2),
                         (port + 0x04, 0x40)] s;
       Some (s\<lparr>pxa250_uart := port\<rparr>) }"

definition init_serpxa250 :: "'h bus \<Rightarrow> u32 \<Rightarrow> u32 \<Rightarrow> u32 \<Rightarrow> 'h ser_state \<Rightarrow> 'h ser_state option" where
  "init_serpxa250 b port baud clk s = map_option (init_serdev Pxa250_dev) (init_pxa250 b port baud clk s)"

definition get_byte_pxa250 :: "'h bus \<Rightarrow> 'h ser_state \<Rightarrow> (u8 \<times> 'h ser_state) option" where
  "get_byte_pxa250 b s =
     do { s \<leftarrow> spin_until (\<lambda>s. let (v, s) = in32 b (pxa250_uart s + 0x14) s in (v AND 1 \<noteq> 0, s)) s;
          let (v, s) = in32 b (pxa250_uart s) s;
          Some (ucast (v AND 0xff), s) }"

definition put_byte_pxa250 :: "'h bus \<Rightarrow> u8 \<Rightarrow> 'h ser_state \<Rightarrow> 'h ser_state option" where
  "put_byte_pxa250 b c s =
     do { s \<leftarrow> spin_until (\<lambda>s. let (v, s) = in32 b (pxa250_uart s + 0x14) s in (v AND 0x20 \<noteq> 0, s)) s;
          Some (out32 b (pxa250_uart s) (ucast c) s) }"

definition pollkey_pxa250 :: "'h bus \<Rightarrow> 'h ser_state \<Rightarrow> u8 \<times> 'h ser_state" where
  "pollkey_pxa250 b s = (let (v, s) = in32 b (pxa250_uart s + 0x14) s in (if v AND 1 = 0 then 0 else 1, s))"

section \<open>\<open>ipl/lib/arm/seromap.c\<close>\<close>

definition omap_set_port :: "'h bus \<Rightarrow> u32 \<Rightarrow> u32 \<Rightarrow> u32 \<Rightarrow> 'h ser_state \<Rightarrow> 'h ser_state" where
  "omap_set_port b address mk d s =
     (let (c, s) = in8 b address s in out8 b address (ucast ((ucast c AND NOT mk) OR (d AND mk))) s)"

definition init_seromap :: "'h bus \<Rightarrow> u32 \<Rightarrow> u32 \<Rightarrow> u32 \<Rightarrow> u32 \<Rightarrow> 'h ser_state \<Rightarrow> 'h ser_state option" where
  "init_seromap b address baud clk divisor s =
     do {
       let s = fold (\<lambda>(off, mk, d). omap_set_port b (address + off) mk d)
                 [(0x04, 0xff, 0), (0x20, 0xff, 0x07), (0x0C, 0xff, 0xbf), (0x08, 0x50, 0x50), (0x0C, 0xff, 0x83),
                  (0x10, 0x40, 0x40), (0x18, 0xff, 0x0d), (0x1C, 0xff, 0xcf), (0x10, 0x40, 0), (0x08, 0xff, 0xe7)] s;
       baud_val \<leftarrow> round_div clk (baud * divisor);
       let s = fold (\<lambda>(off, mk, d). omap_set_port b (address + off) mk d)
                 [(0, 0xff, baud_val), (0x04, 0xff, signed_drop_bit 8 baud_val), (0x0C, 0xff, 0x03), (0x20, 0xff, 0)] s;
       Some (init_serdev Omap_dev (s\<lparr>seromap_base := address\<rparr>)) }"

definition seromap_pollkey :: "'h bus \<Rightarrow> 'h ser_state \<Rightarrow> u8 \<times> 'h ser_state" where
  "seromap_pollkey b s = (let (v, s) = in8 b (seromap_base s + 0x14) s in (if v AND 1 \<noteq> 0 then 1 else 0, s))"

definition seromap_getchar :: "'h bus \<Rightarrow> 'h ser_state \<Rightarrow> (u8 \<times> 'h ser_state) option" where
  "seromap_getchar b s =
     do { s \<leftarrow> spin_until (\<lambda>s. let (k, s) = seromap_pollkey b s in (k \<noteq> 0, s)) s;
          Some (in8 b (seromap_base s) s) }"

definition seromap_putchar :: "'h bus \<Rightarrow> u8 \<Rightarrow> 'h ser_state \<Rightarrow> 'h ser_state option" where
  "seromap_putchar b c s =
     do { s \<leftarrow> spin_until (\<lambda>s. let (v, s) = in8 b (seromap_base s + 0x14) s in (v AND 0x20 \<noteq> 0, s)) s;
          Some (out8 b (seromap_base s) c s) }"

section \<open>\<open>ipl/lib/arm/sertuareg.c\<close>\<close>

abbreviation TUAREG_UART0_BASE :: u32 where "TUAREG_UART0_BASE \<equiv> 0xe0005000"
abbreviation TUAREG_CGC_BASE :: u32 where "TUAREG_CGC_BASE \<equiv> 0xf0002c00"
abbreviation TUAREG_GPIO_BASE :: u32 where "TUAREG_GPIO_BASE \<equiv> 0xe0002000"
abbreviation TUAREG_EIC_BASE :: u32 where "TUAREG_EIC_BASE \<equiv> 0xf0003c00"

definition init_sertuareg :: "'h bus \<Rightarrow> u32 \<Rightarrow> u32 \<Rightarrow> u32 \<Rightarrow> 'h ser_state \<Rightarrow> 'h ser_state option" where
  "init_sertuareg b port baud clk s =
     (if port = TUAREG_UART0_BASE then
        do {
          let s = fold (\<lambda>(a, v). upd16 b a (\<lambda>x. x OR v))
                    [(TUAREG_CGC_BASE + 0x04, 0x21), (TUAREG_CGC_BASE, 0x21), (TUAREG_GPIO_BASE, 1 OR 2),
                     (TUAREG_GPIO_BASE + 0x04, 1 OR 2), (TUAREG_GPIO_BASE + 0x08, 1 OR 2)] s;
          let s = upd32 b (TUAREG_EIC_BASE + 0x20) (\<lambda>x. x AND NOT 0x20) s;
          let s = outs16 b [(TUAREG_UART0_BASE + 0x20, 0xFFFF), (TUAREG_UART0_BASE + 0x20, 0xFFFF)] s;
          brd \<leftarrow> round_div clk (16 * baud);
          let s = outs16 b [(TUAREG_UART0_BASE, ucast brd),
                            (TUAREG_UART0_BASE + 0x0c, 0x100 OR 0x80 OR 8 OR 1)] s;
          Some (init_serdev Tuareg_dev (s\<lparr>tuareg_uart := port\<rparr>)) }
      else None)"

definition tuareguart_pollkey :: "'h bus \<Rightarrow> 'h ser_state \<Rightarrow> u8 \<times> 'h ser_state" where
  "tuareguart_pollkey b s =
     (let (v, s) = in16 b (tuareg_uart s + 0x14) s in (if v AND 1 \<noteq> 0 then 1 else 0, s))"

definition tuareguart_getchar :: "'h bus \<Rightarrow> 'h ser_state \<Rightarrow> (u8 \<times> 'h ser_state) option" where
  "tuareguart_getchar b s =
     do { s \<leftarrow> spin_until (\<lambda>s. let (k, s) = tuareguart_pollkey b s in (k \<noteq> 0, s)) s;
          let (v, s) = in16 b (tuareg_uart s + 0x08) s;
          Some (ucast v, s) }"

definition tuareguart_putchar :: "'h bus \<Rightarrow> u8 \<Rightarrow> 'h ser_state \<Rightarrow> 'h ser_state option" where
  "tuareguart_putchar b c s =
     do { s \<leftarrow> spin_until (\<lambda>s. let (v, s) = in16 b (tuareg_uart s + 0x14) s in (v AND 2 \<noteq> 0, s)) s;
          Some (out16 b (tuareg_uart s + 0x04) (ucast c) s) }"

section \<open>\<open>ipl/lib/ser_dev.c\<close>\<close>

fun dev_get_byte :: "'h bus \<Rightarrow> ser_dev \<Rightarrow> 'h ser_state \<Rightarrow> (u8 \<times> 'h ser_state) option" where
  "dev_get_byte b Mx6q_dev = mx6q_uart_getchar b"
| "dev_get_byte b Mx1_dev = mx1uart_getchar b"
| "dev_get_byte b Ser8250_dev = ser8250_getchar b"
| "dev_get_byte b Sa1100_dev = get_byte_sa1100 b"
| "dev_get_byte b Pxa250_dev = get_byte_pxa250 b"
| "dev_get_byte b Omap_dev = seromap_getchar b"
| "dev_get_byte b Tuareg_dev = tuareguart_getchar b"

fun dev_put_byte :: "'h bus \<Rightarrow> ser_dev \<Rightarrow> u8 \<Rightarrow> 'h ser_state \<Rightarrow> 'h ser_state option" where
  "dev_put_byte b Mx6q_dev = mx6q_uart_putchar b"
| "dev_put_byte b Mx1_dev = mx1uart_putchar b"
| "dev_put_byte b Ser8250_dev = ser8250_putchar b"
| "dev_put_byte b Sa1100_dev = put_byte_sa1100 b"
| "dev_put_byte b Pxa250_dev = put_byte_pxa250 b"
| "dev_put_byte b Omap_dev = seromap_putchar b"
| "dev_put_byte b Tuareg_dev = tuareguart_putchar b"

fun dev_poll :: "'h bus \<Rightarrow> ser_dev \<Rightarrow> 'h ser_state \<Rightarrow> u8 \<times> 'h ser_state" where
  "dev_poll b Mx6q_dev = mx6q_uart_pollkey b"
| "dev_poll b Mx1_dev = mx1uart_pollkey b"
| "dev_poll b Ser8250_dev = ser8250_pollkey b"
| "dev_poll b Sa1100_dev = poll_sa1100 b"
| "dev_poll b Pxa250_dev = pollkey_pxa250 b"
| "dev_poll b Omap_dev = seromap_pollkey b"
| "dev_poll b Tuareg_dev = tuareguart_pollkey b"

definition ser_poll :: "'h bus \<Rightarrow> 'h ser_state \<Rightarrow> u8 \<times> 'h ser_state" where
  "ser_poll b s = (case ser s of None \<Rightarrow> (0, s) | Some dev \<Rightarrow> dev_poll b dev s)"

definition ser_getchar :: "'h bus \<Rightarrow> 'h ser_state \<Rightarrow> (u8 \<times> 'h ser_state) option" where
  "ser_getchar b s = (case ser s of None \<Rightarrow> Some (0, s) | Some dev \<Rightarrow> dev_get_byte b dev s)"

definition ser_putchar :: "'h bus \<Rightarrow> u8 \<Rightarrow> 'h ser_state \<Rightarrow> 'h ser_state option" where
  "ser_putchar b c s =
     (case ser s of None \<Rightarrow> Some s
      | Some dev \<Rightarrow>
          do { s \<leftarrow> (if c = 10 then dev_put_byte b dev 13 s else Some s);
               dev_put_byte b dev c s })"

fun put_chars :: "('s \<Rightarrow> u8 \<Rightarrow> 's option) \<Rightarrow> u8 list \<Rightarrow> 's \<Rightarrow> 's option" where
  "put_chars put [] s = Some s"
| "put_chars put (c # cs) s = do { s \<leftarrow> put s c; put_chars put cs s }"

definition ser_putstr :: "'h bus \<Rightarrow> u8 list \<Rightarrow> 'h ser_state \<Rightarrow> 'h ser_state option" where
  "ser_putstr b str s = (if ser s = None then Some s else put_chars (\<lambda>s c. ser_putchar b c s) str s)"

text \<open>The digit loop fills the buffer from its end.\<close>

fun hex_loop :: "nat \<Rightarrow> u32 \<Rightarrow> string \<Rightarrow> string" where
  "hex_loop 0 x buf = buf"
| "hex_loop (Suc i) x buf = hex_loop i (drop_bit 4 x) (''0123456789ABCDEF'' ! unat (x AND 15) # buf)"

definition bytes_of_string :: "string \<Rightarrow> u8 list" where
  "bytes_of_string str = map of_char str"

definition ser_puthex_n :: "'h bus \<Rightarrow> u32 \<Rightarrow> nat \<Rightarrow> 'h ser_state \<Rightarrow> 'h ser_state option" where
  "ser_puthex_n b x sz s = ser_putstr b (bytes_of_string (hex_loop sz x [])) s"

definition ser_puthex32 :: "'h bus \<Rightarrow> u32 \<Rightarrow> 'h ser_state \<Rightarrow> 'h ser_state option" where
  "ser_puthex32 b x s = ser_puthex_n b x 8 s"

definition ser_puthex16 :: "'h bus \<Rightarrow> u32 \<Rightarrow> 'h ser_state \<Rightarrow> 'h ser_state option" where
  "ser_puthex16 b x s = ser_puthex_n b x 4 s"

definition ser_puthex8 :: "'h bus \<Rightarrow> u32 \<Rightarrow> 'h ser_state \<Rightarrow> 'h ser_state option" where
  "ser_puthex8 b x s = ser_puthex_n b x 2 s"

definition ser_puthex :: "'h bus \<Rightarrow> u32 \<Rightarrow> 'h ser_state \<Rightarrow> 'h ser_state option" where
  "ser_puthex b x s = ser_puthex32 b x s"

section \<open>Baud rate divisors\<close>

lemma sub_div_eq:
  assumes "d \<noteq> 0"
  shows "sub_div clk d q = Some (q + clk div d, clk mod d)"
proof (induction "unat clk" arbitrary: clk q rule: less_induct)
  case less
  show ?case
  proof (cases "d \<le> clk")
    case False
    then have "clk div d = 0" "clk mod d = clk"
      by (simp_all add: word_unat_eq_iff unat_div unat_mod word_le_nat_alt)
    then show ?thesis using False by (subst sub_div.simps) simp
  next
    case True
    have u: "unat (clk - d) = unat clk - unat d" "unat d \<le> unat clk" "0 < unat d"
      using True assms by (simp_all add: unat_sub word_le_nat_alt unat_gt_0)
    then have ih: "sub_div (clk - d) d (q + 1) = Some (q + 1 + (clk - d) div d, (clk - d) mod d)"
      by (intro less) simp
    have "unat clk div unat d = Suc ((unat clk - unat d) div unat d)"
      using u by (simp add: le_div_geq)
    then have "unat (clk div d) = unat (1 + (clk - d) div d)"
      using u unat_lt32 [of "clk div d"] by (simp add: unat_div unat_word_ariths)
    then have "clk div d = 1 + (clk - d) div d" by (simp only: word_unat_eq_iff)
    moreover have "clk mod d = (clk - d) mod d"
      using u by (simp add: word_unat_eq_iff unat_mod le_mod_geq)
    ultimately show ?thesis using True ih by (subst sub_div.simps) (simp add: add.assoc)
  qed
qed

lemma sub_div_zero: "sub_div clk 0 q = None"
proof -
  have "\<not> d = 0" if "sub_div clk d q = Some y" for clk d q y
    by (rule sub_div.raw_induct [where P = "\<lambda>clk d q y. \<not> d = 0", OF _ that]) (auto split: if_splits)
  then show ?thesis by (cases "sub_div clk 0 q") blast+
qed

text \<open>
  C34: the divisor a driver computes by repeated subtraction is the quotient rounded to the nearest,
  and a zero divisor, which a zero baud rate gives, makes the loop run for ever.
\<close>

theorem round_div_nearest:
  assumes "clk mod d < 2 ^ 31"
  shows "if d = 0 then round_div clk d = None
         else \<exists>brd. round_div clk d = Some brd \<and> unat brd = (2 * unat clk + unat d) div (2 * unat d)"
proof (cases "d = 0")
  case True
  then show ?thesis by (simp add: round_div_def sub_div_zero)
next
  case False
  let ?q = "unat clk div unat d" and ?r = "unat clk mod unat d"
  have d: "0 < unat d" using False by (simp add: unat_gt_0)
  have c: "unat clk = ?q * unat d + ?r" by simp
  have rd: "?r < unat d" using d by simp
  have r: "?r < 2 ^ 31" using assms by (simp add: word_less_nat_alt unat_mod)
  then have s: "unat (push_bit 1 (clk mod d)) = 2 * ?r"
    by (subst unat_push_bit_no_wrap) (simp_all add: unat_mod)
  have "(2 * unat clk + unat d) div (2 * unat d) = (?q * (2 * unat d) + (2 * ?r + unat d)) div (2 * unat d)"
  proof -
    have "2 * unat clk + unat d = 2 * (?q * unat d + ?r) + unat d" using c by (rule arg_cong)
    also have "\<dots> = ?q * (2 * unat d) + (2 * ?r + unat d)" by (simp only: algebra_simps)
    finally show ?thesis by (simp only:)
  qed
  also have "\<dots> = ?q + (2 * ?r + unat d) div (2 * unat d)" using d by simp
  also have "(2 * ?r + unat d) div (2 * unat d) = (if unat d \<le> 2 * ?r then 1 else 0)"
  proof (cases "unat d \<le> 2 * ?r")
    case True
    have "(2 * r + e) div (2 * e) = 1" if "e \<le> 2 * r" "r < e" for r e :: nat
      using that by (intro div_nat_eqI) simp_all
    then show ?thesis using True rd by simp
  qed (use d in auto)
  finally have e: "(2 * unat clk + unat d) div (2 * unat d) = ?q + (if unat d \<le> 2 * ?r then 1 else 0)" .
  have "unat (clk div d + 1) = ?q + 1" if "unat d \<le> 2 * ?r"
  proof -
    have "?q + 1 < 2 ^ 32"
    proof (cases "unat d = 1")
      case True then show ?thesis using that rd by simp
    next
      case False
      then have "?q \<le> unat clk div 2" using d by (intro div_le_mono2) auto
      then show ?thesis using unat_lt32 [of clk] by simp
    qed
    then show ?thesis by (subst unat_add_no_wrap) (simp_all add: unat_div)
  qed
  then show ?thesis
    using False e s by (auto simp: round_div_def sub_div_eq word_le_nat_alt unat_div)
qed

theorem round_div_nearest_witness: "\<exists>brd. round_div 1843200 (16 * 115200) = Some brd \<and> unat brd = 1"
  using round_div_nearest [of 1843200 "16 * 115200"] by simp

section \<open>Printing and reading back\<close>

lemma hex_digit_value: "n < 16 \<Longrightarrow> radix_value (''0123456789ABCDEF'' ! n) = int n"
proof -
  assume "n < 16"
  then have "n \<in> set [0..<16]" by simp
  then show ?thesis by (simp add: upt_rec radix_value_def del: set_upt) auto
qed

lemma digits_loop_hex:
  "digits_loop 16 v (hex_loop n x buf) = digits_loop 16 (v * 16 ^ n + take_bit (4 * n) x) buf"
proof (induction n arbitrary: x buf)
  case (Suc n)
  let ?d = "x AND 15"
  have m: "?d = take_bit 4 x" by (simp add: take_bit_eq_mask mask_eq_exp_minus_1)
  then have "unat ?d = unat x mod 16" by (simp only: unsigned_take_bit_eq) (simp add: take_bit_eq_mod)
  then have l: "unat ?d < 16" by simp
  then have "int (unat ?d) < 16" by linarith
  then have d: "radix_value (''0123456789ABCDEF'' ! unat ?d) = uint ?d" "uint ?d < 16"
    using hex_digit_value [OF l] by simp_all
  have "take_bit (4 * n + 4) x = push_bit 4 (take_bit (4 * n) (drop_bit 4 x)) OR take_bit 4 x"
    by (rule bit_word_eqI) (auto simp: bit_take_bit_iff bit_or_iff bit_push_bit_iff bit_drop_bit_eq)
  also have "\<dots> = push_bit 4 (take_bit (4 * n) (drop_bit 4 x)) + take_bit 4 x"
    by (rule disjunctive_add_eq_or [symmetric], rule bit_word_eqI) (auto simp: bit_take_bit_iff bit_and_iff bit_push_bit_iff)
  finally have "take_bit (4 * Suc n) x = 16 * take_bit (4 * n) (drop_bit 4 x) + ?d"
    by (simp add: push_bit_eq_mult m algebra_simps)
  then show ?case
    using Suc d by (simp add: algebra_simps)
qed simp

text \<open>
  the eight digits \<open>ser_puthex\<close> prints read back, in base sixteen, as the number printed.
\<close>

lemma ser_puthex_readback:
  "strtopaddr (hex_loop 8 x []) 16 = (x, []) \<and> length (hex_loop 8 x []) = 8"
proof -
  have len: "length (hex_loop n y buf) = n + length buf" for n y buf
    by (induction n arbitrary: y buf) simp_all
  have st: "set (hex_loop n y buf) \<subseteq> set ''0123456789ABCDEF'' \<union> set buf" for n y buf
  proof (induction n arbitrary: y buf)
    case (Suc n)
    have "unat (y AND 15) \<le> unat (15 :: u32)" using word_and_le1 [of y 15] by (simp only: word_le_nat_alt)
    then have "''0123456789ABCDEF'' ! unat (y AND 15) \<in> set ''0123456789ABCDEF''" by (intro nth_mem) simp
    then show ?case using Suc [of "drop_bit 4 y"] by fastforce
  qed auto
  have "hexstr l \<Longrightarrow> CHR ''x'' \<in> set l \<or> CHR ''X'' \<in> set l" for l by (cases l rule: hexstr.cases) auto
  then have nx: "\<not> hexstr (hex_loop 8 x [])" using st [of 8 x "[]"] by auto
  have "digits_loop 16 0 (hex_loop 8 x []) = (take_bit 32 x, [])"
    by (simp add: digits_loop_hex)
  moreover have "take_bit 32 x = x" by (simp add: take_bit_word_eq_self)
  moreover have "hex_loop 8 x [] \<noteq> []" using len [of 8 x "[]"] by auto
  ultimately show ?thesis using nx len by (simp add: strtopaddr_def Let_def)
qed

section \<open>What a serial line promises\<close>

text \<open>
  The contract a client of the serial layer relies on: reading takes the next byte that the line
  delivers, writing sends a byte, neither disturbs the other, and neither blocks while there is
  something to read. A line feed is the one byte that need not go out alone.
\<close>

locale serial_line =
  fixes attached :: "'s \<Rightarrow> bool"
    and getb :: "'s \<Rightarrow> (u8 \<times> 's) option"
    and putb :: "u8 \<Rightarrow> 's \<Rightarrow> 's option"
    and pending :: "'s \<Rightarrow> u8 list"
    and sent :: "'s \<Rightarrow> u8 list"
  assumes getb_next: "attached s \<Longrightarrow> pending s = c # cs \<Longrightarrow>
      \<exists>s'. getb s = Some (c, s') \<and> attached s' \<and> pending s' = cs \<and> sent s' = sent s"
    and putb_sends: "attached s \<Longrightarrow> c \<noteq> 10 \<Longrightarrow>
      \<exists>s'. putb c s = Some s' \<and> attached s' \<and> pending s' = pending s \<and> sent s' = sent s @ [c]"
begin

lemma putb_two:
  assumes "attached s" "c \<noteq> 10" "d \<noteq> 10"
  shows "\<exists>s1 s'. putb c s = Some s1 \<and> putb d s1 = Some s' \<and> attached s' \<and> pending s' = pending s \<and> sent s' = sent s @ [c, d]"
  using putb_sends [OF assms(1,2)] putb_sends [OF _ assms(3)] by fastforce

end

text \<open>
  A UART as the drivers see it: a receive queue whose head the data register delivers, a
  transmitter that is always ready, status bits that say so, and no other register.
\<close>

record fifo_uart =
  rx_fifo :: "u8 list"
  tx_log :: "u8 list"

record uart_layout =
  rx_stat :: u32
  rx_bit :: u32
  tx_stat :: u32
  tx_bit :: u32
  rx_data :: u32
  tx_data :: u32

definition fifo_read :: "uart_layout \<Rightarrow> u32 \<Rightarrow> fifo_uart \<Rightarrow> u32 \<times> fifo_uart" where
  "fifo_read l a h =
     (if a = rx_data l
      then (case rx_fifo h of [] \<Rightarrow> (0, h) | c # cs \<Rightarrow> (ucast c, h\<lparr>rx_fifo := cs\<rparr>))
      else ((if a = rx_stat l \<and> rx_fifo h \<noteq> [] then rx_bit l else 0) OR (if a = tx_stat l then tx_bit l else 0), h))"

definition fifo_write :: "uart_layout \<Rightarrow> u32 \<Rightarrow> u32 \<Rightarrow> fifo_uart \<Rightarrow> fifo_uart" where
  "fifo_write l a v h = (if a = tx_data l then h\<lparr>tx_log := tx_log h @ [ucast v]\<rparr> else h)"

definition fifo_bus :: "uart_layout \<Rightarrow> fifo_uart bus" where
  "fifo_bus l = \<lparr>
     bus_in8 = (\<lambda>a h. let (v, h) = fifo_read l a h in (ucast v, h)),
     bus_in16 = (\<lambda>a h. let (v, h) = fifo_read l a h in (ucast v, h)),
     bus_in32 = fifo_read l,
     bus_out8 = (\<lambda>a v. fifo_write l a (ucast v)),
     bus_out16 = (\<lambda>a v. fifo_write l a (ucast v)),
     bus_out32 = fifo_write l,
     REG_LC = 3, REG_LS = 5, REG_DL0 = 0, REG_DL1 = 1, LCR_DLAB = 0x80, LSR_RXRDY = 1, LSR_TXRDY = 0x20\<rparr>"

definition stat_layout :: "u32 \<Rightarrow> u32 \<Rightarrow> u32 \<Rightarrow> u32 \<Rightarrow> u32 \<Rightarrow> u32 \<Rightarrow> u32 \<Rightarrow> uart_layout" where
  "stat_layout base rs rb ts tb rd td =
     \<lparr>rx_stat = base + rs, rx_bit = rb, tx_stat = base + ts, tx_bit = tb, rx_data = base + rd, tx_data = base + td\<rparr>"

fun dev_layout :: "ser_dev \<Rightarrow> uart_layout" where
  "dev_layout Mx6q_dev = stat_layout MX6X_UART1_BASE 0x98 1 0x94 0x2000 0 0x40"
| "dev_layout Mx1_dev = stat_layout MX1_UART1_BASE 0x98 1 0x94 0x2000 0 0x40"
| "dev_layout Ser8250_dev = stat_layout 0x3f8 5 1 5 0x20 0 0"
| "dev_layout Sa1100_dev = stat_layout SA1100_UART1_BASE 0x20 2 0x20 4 0x14 0x14"
| "dev_layout Pxa250_dev = stat_layout 0x40100000 0x14 1 0x14 0x20 0 0"
| "dev_layout Omap_dev = stat_layout 0x4806a000 0x14 1 0x14 0x20 0 0"
| "dev_layout Tuareg_dev = stat_layout TUAREG_UART0_BASE 0x14 1 0x14 2 8 4"

definition ser_attached :: "ser_dev \<Rightarrow> 'h ser_state \<Rightarrow> bool" where
  "ser_attached dev s \<longleftrightarrow> ser s = Some dev \<and> mx1_uart s = MX1_UART1_BASE \<and> port_base s = 0x3f8 \<and> port_size s = 1 \<and>
     reg_shift s = 0 \<and> sa1100_uart_base s = SA1100_UART1_BASE \<and> pxa250_uart s = 0x40100000 \<and>
     seromap_base s = 0x4806a000 \<and> tuareg_uart s = TUAREG_UART0_BASE"

lemmas driver_defs = mx6q_uart_getchar_def mx6q_uart_putchar_def mx6q_uart_pollkey_def mx1uart_getchar_def
  mx1uart_putchar_def mx1uart_pollkey_def ser8250_getchar_def ser8250_putchar_def ser8250_pollkey_def
  ser8250_readport_def ser8250_writeport_def get_byte_sa1100_def put_byte_sa1100_def get_byte_pxa250_def
  put_byte_pxa250_def seromap_getchar_def seromap_putchar_def seromap_pollkey_def tuareguart_getchar_def
  tuareguart_putchar_def tuareguart_pollkey_def

lemmas fifo_defs = in8_def in16_def in32_def out8_def out16_def out32_def fifo_bus_def fifo_read_def fifo_write_def
  stat_layout_def

lemma ucast_and_255: "(ucast (ucast (c :: u8) AND 0xff :: u32) :: u8) = c"
proof -
  have "(ucast (ucast c AND mask 8 :: u32) :: u8) = c" by (rule bit_word_eqI) (auto simp: bit_simps)
  then show ?thesis by (simp add: mask_eq_exp_minus_1)
qed

lemma ucast_back [simp]: "(ucast (ucast (c :: u8) :: u32) :: u8) = c" "(ucast (ucast (c :: u8) :: u16) :: u8) = c"
  "(ucast (ucast (ucast (c :: u8) :: u32) :: u16) :: u8) = c" "(ucast (ucast (ucast (c :: u8) :: u16) :: u32) :: u8) = c"
  by (rule bit_word_eqI, auto simp: bit_simps)+

lemma dev_get_byte_fifo:
  assumes "ser_attached dev s" "rx_fifo (hw s) = c # cs"
  shows "dev_get_byte (fifo_bus (dev_layout dev)) dev s = Some (c, s\<lparr>hw := (hw s)\<lparr>rx_fifo := cs\<rparr>\<rparr>)"
  using assms
  by (cases dev) (simp_all add: ser_attached_def driver_defs fifo_defs spin_ready ucast_and_255)

lemma dev_put_byte_fifo:
  assumes "ser_attached dev s"
  shows "dev_put_byte (fifo_bus (dev_layout dev)) dev c s = Some (s\<lparr>hw := (hw s)\<lparr>tx_log := tx_log (hw s) @ [c]\<rparr>\<rparr>)"
  using assms
  by (cases dev; cases "rx_fifo (hw s)") (simp_all add: ser_attached_def driver_defs fifo_defs spin_ready)

interpretation ser_line: serial_line "ser_attached dev" "ser_getchar (fifo_bus (dev_layout dev))"
    "ser_putchar (fifo_bus (dev_layout dev))" "\<lambda>s. rx_fifo (hw s)" "\<lambda>s. tx_log (hw s)" for dev
proof
  fix s :: "fifo_uart ser_state" and c cs
  assume s: "ser_attached dev s" "rx_fifo (hw s) = c # cs"
  then show "\<exists>s'. ser_getchar (fifo_bus (dev_layout dev)) s = Some (c, s') \<and> ser_attached dev s' \<and>
      rx_fifo (hw s') = cs \<and> tx_log (hw s') = tx_log (hw s)"
    using dev_get_byte_fifo [OF s] by (simp add: ser_getchar_def ser_attached_def)
next
  fix s :: "fifo_uart ser_state" and c :: u8
  assume s: "ser_attached dev s" "c \<noteq> 10"
  then show "\<exists>s'. ser_putchar (fifo_bus (dev_layout dev)) c s = Some s' \<and> ser_attached dev s' \<and>
      rx_fifo (hw s') = rx_fifo (hw s) \<and> tx_log (hw s') = tx_log (hw s) @ [c]"
    using dev_put_byte_fifo [OF s(1), of c] by (simp add: ser_putchar_def ser_attached_def)
qed

end
