(* ===== verification/Ipl_Download.thy ===== *)
theory Ipl_Download
  imports Ipl_Serial
begin

text \<open>
  Loading an image over a serial line: \<open>ipl/lib/image_download_ser.c\<close> on the device-independent
  layer, and the four older copies of the same protocol that talk to one device each
  (\<open>image_download_8250.c\<close>, \<open>arm/image_download_primecell.c\<close>, \<open>arm/image_download_pxa250.c\<close>,
  \<open>arm/image_download_sa1100.c\<close>). The five differ in the byte input and output they call, so the
  protocol is written once over \<open>getb\<close> and \<open>putb\<close> and each routine is its instance. The state of
  the line and the memory the image goes to are threaded through; \<open>None\<close> is a routine that waits
  for ever.
\<close>

abbreviation START_CMD :: u8 where "START_CMD \<equiv> 0x80"
abbreviation DATA_CMD :: u8 where "DATA_CMD \<equiv> 0x81"
abbreviation GO_CMD :: u8 where "GO_CMD \<equiv> 0x82"
abbreviation ABORT_CMD :: u8 where "ABORT_CMD \<equiv> 0x88"
abbreviation ABORT_SEQ :: u8 where "ABORT_SEQ \<equiv> 2"
abbreviation ABORT_PROTOCOL :: u8 where "ABORT_PROTOCOL \<equiv> 3"

record data_record =
  rec_cmd :: u8
  rec_seq :: u8
  rec_cksum :: u8
  rec_nbytes :: u8
  rec_daddr :: u32

section \<open>The protocol\<close>

partial_function (option) wait_start :: "('s \<Rightarrow> (u8 \<times> 's) option) \<Rightarrow> 's \<Rightarrow> 's option" where
  "wait_start getb s = do { (c, s) \<leftarrow> getb s; if c = START_CMD then Some s else wait_start getb s }"

fun get_bytes :: "('s \<Rightarrow> (u8 \<times> 's) option) \<Rightarrow> nat \<Rightarrow> 's \<Rightarrow> (u8 list \<times> 's) option" where
  "get_bytes getb 0 s = Some ([], s)"
| "get_bytes getb (Suc n) s = do { (c, s) \<leftarrow> getb s; (cs, s) \<leftarrow> get_bytes getb n s; Some (c # cs, s) }"

text \<open>The seven bytes after the command fill the record from its \<open>seq\<close> field on.\<close>

definition read_record :: "('s \<Rightarrow> (u8 \<times> 's) option) \<Rightarrow> u8 \<Rightarrow> 's \<Rightarrow> (data_record \<times> 's) option" where
  "read_record getb cmd s =
     do { (bs, s) \<leftarrow> get_bytes getb 7 s;
          Some (\<lparr>rec_cmd = cmd, rec_seq = bs ! 0, rec_cksum = bs ! 1, rec_nbytes = bs ! 2,
                 rec_daddr = word_of_nat (le_nat (drop 3 bs))\<rparr>, s) }"

fun recv_data :: "('s \<Rightarrow> (u8 \<times> 's) option) \<Rightarrow> nat \<Rightarrow> u32 \<Rightarrow> 's \<Rightarrow> mem \<Rightarrow> (u32 \<times> 's \<times> mem) option" where
  "recv_data getb 0 dst s m = Some (dst, s, m)"
| "recv_data getb (Suc n) dst s m = do { (c, s) \<leftarrow> getb s; recv_data getb n (dst + 1) s (m(dst := c)) }"

definition send_abort :: "(u8 \<Rightarrow> 's \<Rightarrow> 's option) \<Rightarrow> u8 \<Rightarrow> 's \<Rightarrow> 's option" where
  "send_abort putb code s = do { s \<leftarrow> putb ABORT_CMD s; putb code s }"

partial_function (option) data_loop ::
    "('s \<Rightarrow> (u8 \<times> 's) option) \<Rightarrow> (u8 \<Rightarrow> 's \<Rightarrow> 's option) \<Rightarrow> u8 \<Rightarrow> u32 \<Rightarrow> 's \<Rightarrow> mem \<Rightarrow> (u32 \<times> 's \<times> mem) option" where
  "data_loop getb putb sq dst s m =
     do { (cmd, s) \<leftarrow> getb s;
          if cmd \<noteq> DATA_CMD then
            if cmd = GO_CMD then Some (0, s, m)
            else do { s \<leftarrow> send_abort putb ABORT_PROTOCOL s; Some (1, s, m) }
          else do {
            (r, s) \<leftarrow> read_record getb cmd s;
            if sq \<noteq> rec_seq r then do { s \<leftarrow> send_abort putb ABORT_SEQ s; Some (1, s, m) }
            else do {
              (dst, s, m) \<leftarrow> recv_data getb (unat (rec_nbytes r) + 1) dst s m;
              data_loop getb putb ((sq + 1) AND 0x7f) dst s m } } }"

definition download :: "('s \<Rightarrow> (u8 \<times> 's) option) \<Rightarrow> (u8 \<Rightarrow> 's \<Rightarrow> 's option) \<Rightarrow> u32 \<Rightarrow> 's \<Rightarrow> mem \<Rightarrow> (u32 \<times> 's \<times> mem) option" where
  "download getb putb dst_address s m =
     do { s \<leftarrow> wait_start getb s; data_loop getb putb 0 dst_address s m }"

section \<open>The five routines\<close>

definition image_download_ser :: "'h bus \<Rightarrow> u32 \<Rightarrow> 'h ser_state \<Rightarrow> mem \<Rightarrow> (u32 \<times> 'h ser_state \<times> mem) option" where
  "image_download_ser b dst_address s m = download (ser_getchar b) (ser_putchar b) dst_address s m"

definition image_download_pxa250 :: "'h bus \<Rightarrow> u32 \<Rightarrow> 'h ser_state \<Rightarrow> mem \<Rightarrow> (u32 \<times> 'h ser_state \<times> mem) option" where
  "image_download_pxa250 b dst_address s m = download (get_byte_pxa250 b) (put_byte_pxa250 b) dst_address s m"

definition image_download_sa1100 :: "'h bus \<Rightarrow> u32 \<Rightarrow> 'h ser_state \<Rightarrow> mem \<Rightarrow> (u32 \<times> 'h ser_state \<times> mem) option" where
  "image_download_sa1100 b dst_address s m = download (get_byte_sa1100 b) (put_byte_sa1100 b) dst_address s m"

text \<open>\<open>image_download_8250.c\<close>\<close>

definition set_port :: "'h bus \<Rightarrow> u32 \<Rightarrow> u32 \<Rightarrow> u32 \<Rightarrow> 'h ser_state \<Rightarrow> 'h ser_state" where
  "set_port b address mk d s =
     (let (c, s) = in8 b address s in out8 b address (ucast ((ucast c AND NOT mk) OR (d AND mk))) s)"

definition init_8250 :: "'h bus \<Rightarrow> u32 \<Rightarrow> u32 \<Rightarrow> u32 \<Rightarrow> u32 \<Rightarrow> 'h ser_state \<Rightarrow> 'h ser_state" where
  "init_8250 b address baud clk divisor s =
     (let v = clk div (baud * divisor);
          s = set_port b (address + REG_LC b) (LCR_DLAB b) (LCR_DLAB b) s;
          s = set_port b (address + REG_DL0 b) 0xff (v AND 0xff) s;
          s = set_port b (address + REG_DL1 b) 0xff (drop_bit 8 v) s;
          s = set_port b (address + REG_LC b) (LCR_DLAB b) 0 s
      in set_port b (address + REG_LC b) 0xFF (0 OR 3) s)"

definition get_byte_8250 :: "'h bus \<Rightarrow> u32 \<Rightarrow> 'h ser_state \<Rightarrow> (u8 \<times> 'h ser_state) option" where
  "get_byte_8250 b port_address s =
     do { s \<leftarrow> spin_until (\<lambda>s. let (v, s) = in8 b (port_address + REG_LS b) s in (ucast v AND LSR_RXRDY b \<noteq> 0, s)) s;
          Some (in8 b port_address s) }"

definition put_byte_8250 :: "'h bus \<Rightarrow> u32 \<Rightarrow> u8 \<Rightarrow> 'h ser_state \<Rightarrow> 'h ser_state option" where
  "put_byte_8250 b port_address c s =
     do { s \<leftarrow> spin_until (\<lambda>s. let (v, s) = in8 b (port_address + REG_LS b) s in (ucast v AND LSR_TXRDY b \<noteq> 0, s)) s;
          Some (out8 b port_address c s) }"

definition image_download_8250 :: "'h bus \<Rightarrow> u32 \<Rightarrow> u32 \<Rightarrow> u32 \<Rightarrow> 'h ser_state \<Rightarrow> mem \<Rightarrow> (u32 \<times> 'h ser_state \<times> mem) option" where
  "image_download_8250 b baud port_address dst_address s m =
     (let s = init_8250 b port_address baud 1843200 16 s
      in download (get_byte_8250 b port_address) (put_byte_8250 b port_address) dst_address s m)"

text \<open>
  \<open>image_download_primecell.c\<close>, built without \<open>NEEDS_LIBGCC\<close>. The register offsets and bits of the
  PrimeCell UART come from a system header outside the sources.
\<close>

record primecell =
  UART_CR :: u32
  UART_LCRL :: u32
  UART_LCRM :: u32
  UART_LCRH :: u32
  UART_ICR :: u32
  UART_ECR :: u32
  UART_FR :: u32
  UART_DR :: u32
  LCRH_8BIT :: u32
  LCRH_FEN :: u32
  CR_UARTEN :: u32
  FR_RXFE :: u32
  FR_TXFF :: u32

definition init_primecell :: "primecell \<Rightarrow> 'h bus \<Rightarrow> u32 \<Rightarrow> u32 \<Rightarrow> u32 \<Rightarrow> 'h ser_state \<Rightarrow> u32 \<times> 'h ser_state" where
  "init_primecell pc b port baud clk s =
     (let baud = (if baud = 115200 then 7 else if baud = 57600 then 15 else if baud = 38400 then 23
                  else if baud = 19200 then 47 else if baud = 9600 then 95 else baud);
          s = outs32 b [(port + UART_CR pc, 0), (port + UART_LCRL pc, baud AND 0xff),
                        (port + UART_LCRM pc, drop_bit 8 baud AND 0xff),
                        (port + UART_LCRH pc, LCRH_8BIT pc OR LCRH_FEN pc), (port + UART_ICR pc, 0),
                        (port + UART_ECR pc, 0), (port + UART_CR pc, CR_UARTEN pc)] s
      in (port, s))"

definition get_byte_primecell :: "primecell \<Rightarrow> 'h bus \<Rightarrow> u32 \<Rightarrow> 'h ser_state \<Rightarrow> (u8 \<times> 'h ser_state) option" where
  "get_byte_primecell pc b primecell_uart s =
     do { s \<leftarrow> spin_until (\<lambda>s. let (v, s) = in32 b (primecell_uart + UART_FR pc) s in (v AND FR_RXFE pc = 0, s)) s;
          let (v, s) = in32 b (primecell_uart + UART_DR pc) s;
          Some (ucast v, s) }"

definition put_byte_primecell :: "primecell \<Rightarrow> 'h bus \<Rightarrow> u32 \<Rightarrow> u8 \<Rightarrow> 'h ser_state \<Rightarrow> 'h ser_state option" where
  "put_byte_primecell pc b primecell_uart c s =
     do { s \<leftarrow> spin_until (\<lambda>s. let (v, s) = in32 b (primecell_uart + UART_FR pc) s in (v AND FR_TXFF pc = 0, s)) s;
          Some (out32 b (primecell_uart + UART_DR pc) (ucast c) s) }"

definition image_download_primecell ::
    "primecell \<Rightarrow> 'h bus \<Rightarrow> u32 \<Rightarrow> u32 \<Rightarrow> 'h ser_state \<Rightarrow> mem \<Rightarrow> (u32 \<times> 'h ser_state \<times> mem) option" where
  "image_download_primecell pc b primecell_uart dst_address s m =
     download (get_byte_primecell pc b primecell_uart) (put_byte_primecell pc b primecell_uart) dst_address s m"

text \<open>The debug output of the device-specific files: a line feed goes out as carriage return and line feed.\<close>

definition debug_char :: "(u8 \<Rightarrow> 's \<Rightarrow> 's option) \<Rightarrow> u8 \<Rightarrow> 's \<Rightarrow> 's option" where
  "debug_char putb c s = do { s \<leftarrow> (if c = 10 then putb 13 s else Some s); putb c s }"

definition debug_string :: "(u8 \<Rightarrow> 's \<Rightarrow> 's option) \<Rightarrow> u8 list \<Rightarrow> 's \<Rightarrow> 's option" where
  "debug_string putb str s = put_chars (\<lambda>s c. debug_char putb c s) str s"

definition debug_hex :: "(u8 \<Rightarrow> 's \<Rightarrow> 's option) \<Rightarrow> u32 \<Rightarrow> 's \<Rightarrow> 's option" where
  "debug_hex putb x s = debug_string putb (bytes_of_string (hex_loop 8 x [])) s"

definition debug_string_pxa250 :: "'h bus \<Rightarrow> u8 list \<Rightarrow> 'h ser_state \<Rightarrow> 'h ser_state option" where
  "debug_string_pxa250 b = debug_string (put_byte_pxa250 b)"

definition debug_hex_pxa250 :: "'h bus \<Rightarrow> u32 \<Rightarrow> 'h ser_state \<Rightarrow> 'h ser_state option" where
  "debug_hex_pxa250 b = debug_hex (put_byte_pxa250 b)"

definition debug_string_sa1100 :: "'h bus \<Rightarrow> u8 list \<Rightarrow> 'h ser_state \<Rightarrow> 'h ser_state option" where
  "debug_string_sa1100 b = debug_string (put_byte_sa1100 b)"

definition debug_hex_sa1100 :: "'h bus \<Rightarrow> u32 \<Rightarrow> 'h ser_state \<Rightarrow> 'h ser_state option" where
  "debug_hex_sa1100 b = debug_hex (put_byte_sa1100 b)"

definition debug_string_primecell :: "primecell \<Rightarrow> 'h bus \<Rightarrow> u32 \<Rightarrow> u8 list \<Rightarrow> 'h ser_state \<Rightarrow> 'h ser_state option" where
  "debug_string_primecell pc b primecell_uart = debug_string (put_byte_primecell pc b primecell_uart)"

definition debug_hex_primecell :: "primecell \<Rightarrow> 'h bus \<Rightarrow> u32 \<Rightarrow> u32 \<Rightarrow> 'h ser_state \<Rightarrow> 'h ser_state option" where
  "debug_hex_primecell pc b primecell_uart = debug_hex (put_byte_primecell pc b primecell_uart)"

section \<open>What the sender sends\<close>

text \<open>
  A chunk is its checksum byte, its address field and one to 256 data bytes. The receiver reads the
  checksum and the address and uses neither.
\<close>

type_synonym chunk = "u8 \<times> u32 \<times> u8 list"

definition chunk_ok :: "chunk \<Rightarrow> bool" where
  "chunk_ok c \<longleftrightarrow> (case c of (ck, ad, d) \<Rightarrow> 1 \<le> length d \<and> length d \<le> 256)"

definition next_seq :: "u8 \<Rightarrow> u8" where
  "next_seq sq = (sq + 1) AND 0x7f"

fun encode_record :: "u8 \<Rightarrow> chunk \<Rightarrow> u8 list" where
  "encode_record sq (ck, ad, d) = [DATA_CMD, sq, ck, of_nat (length d - 1)] @ le_bytes 4 (unat ad) @ d"

fun encode_records :: "u8 \<Rightarrow> chunk list \<Rightarrow> u8 list" where
  "encode_records sq [] = []"
| "encode_records sq (c # cs) = encode_record sq c @ encode_records (next_seq sq) cs"

definition payload :: "chunk list \<Rightarrow> u8 list" where
  "payload cs = concat (map (\<lambda>(ck, ad, d). d) cs)"

section \<open>The protocol on any serial line\<close>

context serial_line begin

lemma wait_start_finds:
  assumes "attached s" "pending s = junk @ START_CMD # rest" "START_CMD \<notin> set junk"
  shows "\<exists>s'. wait_start getb s = Some s' \<and> attached s' \<and> pending s' = rest \<and> sent s' = sent s"
  using assms
proof (induction junk arbitrary: s)
  case Nil
  then obtain s' where "getb s = Some (START_CMD, s')" "attached s'" "pending s' = rest" "sent s' = sent s"
    using getb_next [of s START_CMD rest] by auto
  then show ?case by (subst wait_start.simps) simp
next
  case (Cons c junk)
  then obtain s1 where s1: "getb s = Some (c, s1)" "attached s1" "pending s1 = junk @ START_CMD # rest" "sent s1 = sent s"
    using getb_next [of s c "junk @ START_CMD # rest"] by auto
  from Cons.IH [OF s1(2,3)] Cons.prems(3) obtain s' where
    "wait_start getb s1 = Some s'" "attached s'" "pending s' = rest" "sent s' = sent s1" by auto
  then show ?case using s1 Cons.prems(3) by (subst wait_start.simps) auto
qed

lemma get_bytes_takes:
  assumes "attached s" "pending s = bs @ rest"
  shows "\<exists>s'. get_bytes getb (length bs) s = Some (bs, s') \<and> attached s' \<and> pending s' = rest \<and> sent s' = sent s"
  using assms
proof (induction bs arbitrary: s)
  case (Cons c bs)
  then obtain s1 where s1: "getb s = Some (c, s1)" "attached s1" "pending s1 = bs @ rest" "sent s1 = sent s"
    using getb_next [of s c "bs @ rest"] by auto
  then show ?case using Cons.IH [OF s1(2,3)] by auto
qed simp

lemma recv_data_stores:
  assumes "attached s" "pending s = bs @ rest"
  shows "\<exists>s'. recv_data getb (length bs) dst s m = Some (dst + of_nat (length bs), s', store dst bs m) \<and>
     attached s' \<and> pending s' = rest \<and> sent s' = sent s"
  using assms
proof (induction bs arbitrary: s dst m)
  case (Cons c bs)
  then obtain s1 where s1: "getb s = Some (c, s1)" "attached s1" "pending s1 = bs @ rest" "sent s1 = sent s"
    using getb_next [of s c "bs @ rest"] by auto
  then show ?case using Cons.IH [OF s1(2,3), of "dst + 1" "m(dst := c)"] by (auto simp: add.assoc simp del: fun_upd_apply)
qed simp

lemma read_record_takes:
  assumes "attached s" "pending s = [sq, ck, nb] @ le_bytes 4 (unat ad) @ rest"
  shows "\<exists>s'. read_record getb cmd s =
      Some (\<lparr>rec_cmd = cmd, rec_seq = sq, rec_cksum = ck, rec_nbytes = nb, rec_daddr = ad\<rparr>, s') \<and>
     attached s' \<and> pending s' = rest \<and> sent s' = sent s"
proof -
  have "unat ad mod 4294967296 = unat ad" using unat_lt32 by (rule mod_less)
  then show ?thesis
    using get_bytes_takes [of s "[sq, ck, nb] @ le_bytes 4 (unat ad)" rest] assms
    by (auto simp: read_record_def le_nat_bytes)
qed

lemma data_loop_record:
  assumes "attached s" "pending s = encode_record sq c @ rest" "chunk_ok c"
  shows "\<exists>s'. data_loop getb putb sq dst s m =
      data_loop getb putb (next_seq sq) (dst + of_nat (length (snd (snd c)))) s' (store dst (snd (snd c)) m) \<and>
     attached s' \<and> pending s' = rest \<and> sent s' = sent s"
proof -
  obtain ck ad d where c: "c = (ck, ad, d)" by (cases c) auto
  define nb where "nb = (of_nat (length d - 1) :: u8)"
  have l: "unat nb + 1 = length d"
  proof -
    have "length d - 1 < 2 ^ 8" "0 < length d" using assms(3) by (auto simp: c chunk_ok_def)
    then show ?thesis by (simp only: nb_def unat_of_nat) simp
  qed
  obtain s1 where s1: "getb s = Some (DATA_CMD, s1)" "attached s1" "sent s1 = sent s"
      "pending s1 = [sq, ck, nb] @ le_bytes 4 (unat ad) @ d @ rest"
    using getb_next [OF assms(1), of DATA_CMD] assms(2) c by (auto simp: nb_def)
  obtain s2 where s2: "read_record getb DATA_CMD s1 = Some (\<lparr>rec_cmd = DATA_CMD, rec_seq = sq, rec_cksum = ck,
        rec_nbytes = nb, rec_daddr = ad\<rparr>, s2)" "attached s2" "pending s2 = d @ rest" "sent s2 = sent s1"
    using read_record_takes [OF s1(2,4)] by blast
  obtain s3 where "recv_data getb (length d) dst s2 m = Some (dst + of_nat (length d), s3, store dst d m)"
      "attached s3" "pending s3 = rest" "sent s3 = sent s2"
    using recv_data_stores [OF s2(2,3)] by blast
  then show ?thesis
    using s1 s2 l by (subst data_loop.simps) (auto simp: c next_seq_def simp del: recv_data.simps)
qed

lemma data_loop_records:
  assumes "attached s" "pending s = encode_records sq cs @ rest" "\<forall>c\<in>set cs. chunk_ok c"
  shows "\<exists>s'. data_loop getb putb sq dst s m =
      data_loop getb putb ((next_seq ^^ length cs) sq) (dst + of_nat (length (payload cs))) s' (store dst (payload cs) m) \<and>
     attached s' \<and> pending s' = rest \<and> sent s' = sent s"
  using assms
proof (induction cs arbitrary: s sq dst m)
  case (Cons c cs)
  obtain s1 where s1: "data_loop getb putb sq dst s m =
      data_loop getb putb (next_seq sq) (dst + of_nat (length (snd (snd c)))) s1 (store dst (snd (snd c)) m)"
      "attached s1" "pending s1 = encode_records (next_seq sq) cs @ rest" "sent s1 = sent s"
    using data_loop_record [of s sq c "encode_records (next_seq sq) cs @ rest" dst m] Cons.prems by auto
  have p: "payload (c # cs) = snd (snd c) @ payload cs" by (cases c) (simp add: payload_def)
  show ?case
    using Cons.IH [OF s1(2,3), of "dst + of_nat (length (snd (snd c)))" "store dst (snd (snd c)) m"] Cons.prems(3) s1
    by (auto simp: p store_append add.assoc funpow_swap1)
next
  case Nil
  then show ?case by (intro exI [of _ s]) (simp add: payload_def)
qed

text \<open>A whole download, by how the record after the good ones ends it.\<close>

lemma download_start:
  assumes "attached s" "pending s = junk @ START_CMD # encode_records 0 cs @ rest" "START_CMD \<notin> set junk"
    and "\<forall>c\<in>set cs. chunk_ok c"
  shows "\<exists>s'. download getb putb dst s m =
      data_loop getb putb ((next_seq ^^ length cs) 0) (dst + of_nat (length (payload cs))) s' (store dst (payload cs) m) \<and>
     attached s' \<and> pending s' = rest \<and> sent s' = sent s"
proof -
  obtain s1 where s1: "wait_start getb s = Some s1" "attached s1" "pending s1 = encode_records 0 cs @ rest" "sent s1 = sent s"
    using wait_start_finds [OF assms(1,2,3)] by blast
  show ?thesis using data_loop_records [OF s1(2,3) assms(4), of dst m] s1 by (auto simp: download_def)
qed

lemma download_go:
  assumes "attached s" "pending s = junk @ START_CMD # encode_records 0 cs @ GO_CMD # rest" "START_CMD \<notin> set junk"
    and "\<forall>c\<in>set cs. chunk_ok c"
  shows "\<exists>s'. download getb putb dst s m = Some (0, s', store dst (payload cs) m) \<and>
     attached s' \<and> pending s' = rest \<and> sent s' = sent s"
proof -
  obtain s1 where s1: "download getb putb dst s m =
      data_loop getb putb ((next_seq ^^ length cs) 0) (dst + of_nat (length (payload cs))) s1 (store dst (payload cs) m)"
      "attached s1" "pending s1 = GO_CMD # rest" "sent s1 = sent s"
    using download_start [OF assms] by blast
  obtain s2 where "getb s1 = Some (GO_CMD, s2)" "attached s2" "pending s2 = rest" "sent s2 = sent s1"
    using getb_next [OF s1(2,3)] by blast
  then show ?thesis unfolding s1(1) using s1(4) by (subst data_loop.simps) simp
qed

lemma download_bad_seq:
  assumes "attached s" "pending s = junk @ START_CMD # encode_records 0 cs @ encode_record sq c @ rest"
    and "START_CMD \<notin> set junk" "\<forall>c\<in>set cs. chunk_ok c" "sq \<noteq> (next_seq ^^ length cs) 0"
  shows "\<exists>s'. download getb putb dst s m = Some (1, s', store dst (payload cs) m) \<and>
     attached s' \<and> sent s' = sent s @ [ABORT_CMD, ABORT_SEQ]"
proof -
  obtain ck ad d where c: "c = (ck, ad, d)" by (cases c) auto
  obtain s1 where s1: "download getb putb dst s m =
      data_loop getb putb ((next_seq ^^ length cs) 0) (dst + of_nat (length (payload cs))) s1 (store dst (payload cs) m)"
      "attached s1" "pending s1 = encode_record sq c @ rest" "sent s1 = sent s"
    using download_start [OF assms(1-4)] by blast
  obtain s2 where s2: "getb s1 = Some (DATA_CMD, s2)" "attached s2" "sent s2 = sent s1"
      "pending s2 = [sq, ck, of_nat (length d - 1)] @ le_bytes 4 (unat ad) @ d @ rest"
    using getb_next [OF s1(2), of DATA_CMD] s1(3) c by auto
  obtain s3 where s3: "read_record getb DATA_CMD s2 = Some (\<lparr>rec_cmd = DATA_CMD, rec_seq = sq, rec_cksum = ck,
        rec_nbytes = of_nat (length d - 1), rec_daddr = ad\<rparr>, s3)" "attached s3" "sent s3 = sent s2"
    using read_record_takes [OF s2(2,4)] by blast
  obtain s4 s5 where "putb ABORT_CMD s3 = Some s4" "putb ABORT_SEQ s4 = Some s5" "attached s5"
      "sent s5 = sent s3 @ [ABORT_CMD, ABORT_SEQ]"
    using putb_two [OF s3(2), of ABORT_CMD ABORT_SEQ] by auto
  then show ?thesis
    unfolding s1(1) using s1(4) s2 s3 assms(5) by (subst data_loop.simps) (auto simp: send_abort_def)
qed

lemma download_bad_cmd:
  assumes "attached s" "pending s = junk @ START_CMD # encode_records 0 cs @ cmd # rest" "START_CMD \<notin> set junk"
    and "\<forall>c\<in>set cs. chunk_ok c" "cmd \<noteq> DATA_CMD" "cmd \<noteq> GO_CMD"
  shows "\<exists>s'. download getb putb dst s m = Some (1, s', store dst (payload cs) m) \<and>
     attached s' \<and> pending s' = rest \<and> sent s' = sent s @ [ABORT_CMD, ABORT_PROTOCOL]"
proof -
  obtain s1 where s1: "download getb putb dst s m =
      data_loop getb putb ((next_seq ^^ length cs) 0) (dst + of_nat (length (payload cs))) s1 (store dst (payload cs) m)"
      "attached s1" "pending s1 = cmd # rest" "sent s1 = sent s"
    using download_start [OF assms(1-4)] by blast
  obtain s2 where s2: "getb s1 = Some (cmd, s2)" "attached s2" "pending s2 = rest" "sent s2 = sent s1"
    using getb_next [OF s1(2,3)] by blast
  obtain s4 s5 where "putb ABORT_CMD s2 = Some s4" "putb ABORT_PROTOCOL s4 = Some s5" "attached s5"
      "pending s5 = pending s2" "sent s5 = sent s2 @ [ABORT_CMD, ABORT_PROTOCOL]"
    using putb_two [OF s2(2), of ABORT_CMD ABORT_PROTOCOL] by auto
  then show ?thesis
    unfolding s1(1) using s1(4) s2 assms(5,6) by (subst data_loop.simps) (auto simp: send_abort_def)
qed

end

section \<open>The lines the routines run on\<close>

lemma ser_attached_hw: "ser_attached dev (s\<lparr>hw := h\<rparr>) \<longleftrightarrow> ser_attached dev s"
  by (simp add: ser_attached_def)

lemmas dev_byte_fifo = dev_get_byte_fifo dev_put_byte_fifo

lemma get_byte_8250_fifo:
  assumes "ser_attached Ser8250_dev s" "rx_fifo (hw s) = c # cs"
  shows "get_byte_8250 (fifo_bus (dev_layout Ser8250_dev)) 0x3f8 s = Some (c, s\<lparr>hw := (hw s)\<lparr>rx_fifo := cs\<rparr>\<rparr>)"
  using assms by (simp add: ser_attached_def get_byte_8250_def fifo_defs spin_ready)

lemma put_byte_8250_fifo:
  assumes "ser_attached Ser8250_dev s"
  shows "put_byte_8250 (fifo_bus (dev_layout Ser8250_dev)) 0x3f8 c s = Some (s\<lparr>hw := (hw s)\<lparr>tx_log := tx_log (hw s) @ [c]\<rparr>\<rparr>)"
  using assms by (cases "rx_fifo (hw s)") (simp_all add: ser_attached_def put_byte_8250_def fifo_defs spin_ready)

interpretation line_8250: serial_line "ser_attached Ser8250_dev" "get_byte_8250 (fifo_bus (dev_layout Ser8250_dev)) 0x3f8"
    "put_byte_8250 (fifo_bus (dev_layout Ser8250_dev)) 0x3f8" "\<lambda>s. rx_fifo (hw s)" "\<lambda>s. tx_log (hw s)"
  by unfold_locales (simp_all add: get_byte_8250_fifo put_byte_8250_fifo ser_attached_hw del: dev_layout.simps)

interpretation line_pxa250: serial_line "ser_attached Pxa250_dev" "get_byte_pxa250 (fifo_bus (dev_layout Pxa250_dev))"
    "put_byte_pxa250 (fifo_bus (dev_layout Pxa250_dev))" "\<lambda>s. rx_fifo (hw s)" "\<lambda>s. tx_log (hw s)"
  by unfold_locales (simp_all add: dev_byte_fifo [where dev = Pxa250_dev, unfolded dev_get_byte.simps dev_put_byte.simps]
      ser_attached_hw del: dev_layout.simps)

interpretation line_sa1100: serial_line "ser_attached Sa1100_dev" "get_byte_sa1100 (fifo_bus (dev_layout Sa1100_dev))"
    "put_byte_sa1100 (fifo_bus (dev_layout Sa1100_dev))" "\<lambda>s. rx_fifo (hw s)" "\<lambda>s. tx_log (hw s)"
  by unfold_locales (simp_all add: dev_byte_fifo [where dev = Sa1100_dev, unfolded dev_get_byte.simps dev_put_byte.simps]
      ser_attached_hw del: dev_layout.simps)

text \<open>
  C14: over any of the seven serial devices, the records a sender sends for a list of chunks arrive:
  bytes before the start command are skipped, the routine returns zero, memory from the
  destination on holds the data of the chunks in order, everything up to the go command is consumed
  and nothing is sent back. Checksums and address fields may be anything.
\<close>

theorem image_download_ser_receives:
  assumes "ser_attached dev s" "START_CMD \<notin> set junk" "\<forall>c\<in>set cs. chunk_ok c"
    and "rx_fifo (hw s) = junk @ START_CMD # encode_records 0 cs @ GO_CMD # rest"
  shows "\<exists>s'. image_download_ser (fifo_bus (dev_layout dev)) dst s m = Some (0, s', store dst (payload cs) m) \<and>
     ser_attached dev s' \<and> rx_fifo (hw s') = rest \<and> tx_log (hw s') = tx_log (hw s)"
  using ser_line.download_go [OF assms(1,4,2,3)] by (simp add: image_download_ser_def)

text \<open>
  C28: a record out of sequence, or a command that is neither data nor go, ends the download with one
  and the abort reply that names the reason; memory holds the data of the good records before it.
\<close>

theorem image_download_ser_aborts:
  assumes "ser_attached dev s" "START_CMD \<notin> set junk" "\<forall>c\<in>set cs. chunk_ok c"
    and "rx_fifo (hw s) = junk @ START_CMD # encode_records 0 cs @ bad @ rest"
    and "(\<exists>sq c. bad = encode_record sq c \<and> sq \<noteq> (next_seq ^^ length cs) 0 \<and> code = ABORT_SEQ) \<or>
         (\<exists>cmd. bad = [cmd] \<and> cmd \<noteq> DATA_CMD \<and> cmd \<noteq> GO_CMD \<and> code = ABORT_PROTOCOL)"
  shows "\<exists>s'. image_download_ser (fifo_bus (dev_layout dev)) dst s m = Some (1, s', store dst (payload cs) m) \<and>
     ser_attached dev s' \<and> tx_log (hw s') = tx_log (hw s) @ [ABORT_CMD, code]"
  using assms(5)
proof (elim disjE exE conjE)
  fix sq c
  assume b: "bad = encode_record sq c" "sq \<noteq> (next_seq ^^ length cs) 0" "code = ABORT_SEQ"
  have "rx_fifo (hw s) = junk @ START_CMD # encode_records 0 cs @ encode_record sq c @ rest"
    using assms(4) b(1) by simp
  from ser_line.download_bad_seq [OF assms(1) this assms(2,3) b(2)] show ?thesis
    using b(3) by (simp add: image_download_ser_def)
next
  fix cmd
  assume b: "bad = [cmd]" "cmd \<noteq> DATA_CMD" "cmd \<noteq> GO_CMD" "code = ABORT_PROTOCOL"
  have "rx_fifo (hw s) = junk @ START_CMD # encode_records 0 cs @ cmd # rest"
    using assms(4) b(1) by simp
  from ser_line.download_bad_cmd [OF assms(1) this assms(2,3) b(2,3), of dst m] show ?thesis
    using b(4) by (auto simp: image_download_ser_def)
qed

definition line_state :: "ser_dev \<Rightarrow> u8 list \<Rightarrow> fifo_uart ser_state" where
  "line_state dev bs = \<lparr>hw = \<lparr>rx_fifo = bs, tx_log = []\<rparr>, ser = Some dev, mx1_uart = MX1_UART1_BASE, port_base = 0x3f8,
     port_size = 1, reg_shift = 0, sa1100_uart_base = SA1100_UART1_BASE, pxa250_uart = 0x40100000,
     seromap_base = 0x4806a000, tuareg_uart = TUAREG_UART0_BASE\<rparr>"

lemma line_state_attached: "ser_attached dev (line_state dev bs)"
  by (simp add: ser_attached_def line_state_def)

theorem image_download_ser_receives_witness:
  "\<exists>s'. image_download_ser (fifo_bus (dev_layout Mx6q_dev)) 0x18000000
      (line_state Mx6q_dev ([7] @ START_CMD # encode_records 0 [(0, 0, [1, 2]), (9, 4, [3])] @ GO_CMD # [5])) (\<lambda>_. 0) =
     Some (0, s', store 0x18000000 [1, 2, 3] (\<lambda>_. 0)) \<and> rx_fifo (hw s') = [5]"
  using image_download_ser_receives [OF line_state_attached, of "[7]" "[(0, 0, [1, 2]), (9, 4, [3])]" Mx6q_dev _ "[5]" "0x18000000" "\<lambda>_. 0"]
  by (auto simp: line_state_def chunk_ok_def payload_def)

theorem image_download_ser_aborts_witness:
  "\<exists>s'. image_download_ser (fifo_bus (dev_layout Omap_dev)) 0x18000000
      (line_state Omap_dev ([] @ START_CMD # encode_records 0 [(0, 0, [1])] @ [0x90] @ [])) (\<lambda>_. 0) =
     Some (1, s', store 0x18000000 [1] (\<lambda>_. 0)) \<and> tx_log (hw s') = [0x88, 3]"
  using image_download_ser_aborts [OF line_state_attached, of "[]" "[(0, 0, [1])]" Omap_dev _ "[0x90]" "[]" ABORT_PROTOCOL "0x18000000" "\<lambda>_. 0"]
  by (auto simp: line_state_def chunk_ok_def payload_def)

end
