(* ===== verification/Ipl_Main.thy ===== *)
theory Ipl_Main
  imports Ipl_Fat Ipl_Image Ipl_Download
begin

text \<open>
  The boot loader of the board (\<open>ipl/boards/mx6q-sabresmart/main.c\<close> and \<open>init.c\<close>): it sets the chip up
  and then asks for a command until an image is found, placed and started. The state is the
  hardware with the serial driver's variables, memory and the file system's globals. The SD card's
  structure lives on the stack of \<open>sdmmc_load_file\<close>: \<open>env_frame\<close> is what the stack happens to hold.
  A round that jumps to an image gives the address it jumps to; \<open>None\<close> is a round that never ends.
\<close>

record 'h ipl =
  sdev :: "'h ser_state"
  ram :: mem
  fatv :: fat_vars

record 'h env =
  env_bus :: "'h bus"
  env_card :: "'h hbus"
  env_globals :: globals
  env_frame :: "'h sdmmc"

abbreviation QNX_LOAD_ADDR :: u32 where "QNX_LOAD_ADDR \<equiv> 0x18000000"

section \<open>\<open>init.c\<close>\<close>

abbreviation MX6X_IOMUXC_BASE :: u32 where "MX6X_IOMUXC_BASE \<equiv> 0x020E0000"
abbreviation MX6X_CCM_BASE :: u32 where "MX6X_CCM_BASE \<equiv> 0x020C4000"
abbreviation MX6X_ANATOP_BASE :: u32 where "MX6X_ANATOP_BASE \<equiv> 0x020C8000"
abbreviation MX6X_GPIO2_BASE :: u32 where "MX6X_GPIO2_BASE \<equiv> 0x020A0000"
abbreviation PAD_UART :: u32 where "PAD_UART \<equiv> 0x1b0b1"
abbreviation PAD_USDHC :: u32 where "PAD_USDHC \<equiv> 0x17059"
abbreviation PAD_USDHC_CDWP :: u32 where "PAD_USDHC_CDWP \<equiv> 0x10040"
abbreviation PAD_ECSPI :: u32 where "PAD_ECSPI \<equiv> 0x100b1"

definition set_mux_cfg :: "'h bus \<Rightarrow> u32 \<Rightarrow> u32 \<Rightarrow> 'h ser_state \<Rightarrow> 'h ser_state" where
  "set_mux_cfg b pin v = out32 b (MX6X_IOMUXC_BASE + 0x4C + pin * 4) v"

definition set_pad_cfg :: "'h bus \<Rightarrow> u32 \<Rightarrow> u32 \<Rightarrow> 'h ser_state \<Rightarrow> 'h ser_state" where
  "set_pad_cfg b pin v = out32 b (MX6X_IOMUXC_BASE + 0x360 + pin * 4) v"

definition set_pin_as_input :: "'h bus \<Rightarrow> u32 \<Rightarrow> u32 \<Rightarrow> 'h ser_state \<Rightarrow> 'h ser_state" where
  "set_pin_as_input b pin v = out32 b (MX6X_IOMUXC_BASE + 0x7B0 + pin * 4) v"

definition init_clocks :: "'h bus \<Rightarrow> 'h ser_state \<Rightarrow> 'h ser_state" where
  "init_clocks b s =
     (let s = outs32 b [(MX6X_CCM_BASE + 0x68, 0xFFFFFFFF), (MX6X_CCM_BASE + 0x6c, 0xFFFFFFFF),
            (MX6X_CCM_BASE + 0x70, 0xFC3FFFFF), (MX6X_CCM_BASE + 0x74, 0xFFFFFFFF),
            (MX6X_CCM_BASE + 0x78, 0xFFFFFFFF), (MX6X_CCM_BASE + 0x7c, 0xFFFFFFFF),
            (MX6X_CCM_BASE + 0x80, 0xFFFFFFFF), (MX6X_CCM_BASE + 0x84, 0xFFFFFFFF)] s
      in upd32 b (MX6X_ANATOP_BASE + 0x140) (\<lambda>v. v AND NOT 0x7C0000 OR push_bit 18 0x14 AND 0x7C0000) s)"

text \<open>Each pin as the C code names it, with its pad and, where there is one, its input selection.\<close>

definition uart_pins :: "'h bus \<Rightarrow> 'h ser_state \<Rightarrow> 'h ser_state" where
  "uart_pins b s =
     (let s = set_mux_cfg b 142 3 s; s = set_pad_cfg b 189 PAD_UART s; s = set_pin_as_input b 92 1 s;
          s = set_mux_cfg b 141 3 s; s = set_pad_cfg b 188 PAD_UART s
      in s)"

definition sd3_pins :: "'h bus \<Rightarrow> 'h ser_state \<Rightarrow> 'h ser_state" where
  "sd3_pins b s =
     (let s = fold (\<lambda>(mux, mode, pad) s. set_pad_cfg b pad PAD_USDHC (set_mux_cfg b mux mode s))
            [(156, 0, 209), (155, 0x10, 208), (157, 0, 210), (158, 0, 211), (159, 0, 212), (160, 0, 213),
             (154, 0, 207), (153, 0, 206), (152, 0, 205), (151, 0, 204)] s;
          s = set_mux_cfg b 173 5 s; s = set_pad_cfg b 226 PAD_USDHC_CDWP s;
          s = upd32 b (MX6X_GPIO2_BASE + 4) (\<lambda>v. v AND NOT 2) s;
          s = set_mux_cfg b 172 5 s; s = set_pad_cfg b 225 PAD_USDHC_CDWP s;
          s = upd32 b (MX6X_GPIO2_BASE + 4) (\<lambda>v. v AND NOT 1) s
      in s)"

definition spi_pins :: "'h bus \<Rightarrow> 'h ser_state \<Rightarrow> 'h ser_state" where
  "spi_pins b s =
     fold (\<lambda>(mux, pad, inp) s. set_pin_as_input b inp 2 (set_pad_cfg b pad PAD_ECSPI (set_mux_cfg b mux 0 s)))
       [(107, 154, 17), (109, 156, 18), (108, 155, 19), (110, 157, 20)] s"

definition init_pinmux :: "'h bus \<Rightarrow> 'h ser_state \<Rightarrow> 'h ser_state" where
  "init_pinmux b s = spi_pins b (sd3_pins b (uart_pins b s))"

definition init_aips :: "'h bus \<Rightarrow> 'h ser_state \<Rightarrow> 'h ser_state" where
  "init_aips b s =
     fold (\<lambda>base. outs32 b [(base, 0x77777777), (base + 0x04, 0x77777777), (base + 0x40, 0), (base + 0x44, 0),
        (base + 0x48, 0), (base + 0x4C, 0), (base + 0x50, 0)]) [0x0207C000, 0x0217C000] s"

section \<open>\<open>main.c\<close>\<close>

definition say :: "'h env \<Rightarrow> string \<Rightarrow> 'h ipl \<Rightarrow> 'h ipl option" where
  "say e str s = do { d \<leftarrow> ser_putstr (env_bus e) (bytes_of_string str) (sdev s); Some (s\<lparr>sdev := d\<rparr>) }"

definition say_hex :: "'h env \<Rightarrow> u32 \<Rightarrow> 'h ipl \<Rightarrow> 'h ipl option" where
  "say_hex e x s = do { d \<leftarrow> ser_puthex (env_bus e) x (sdev s); Some (s\<lparr>sdev := d\<rparr>) }"

text \<open>The card works on the same hardware and memory as the loader.\<close>

definition to_card :: "'h ipl \<Rightarrow> 'h sdmmc \<Rightarrow> 'h sdmmc" where
  "to_card s cd = cd\<lparr>mach := (hw (sdev s), ram s)\<rparr>"

definition from_card :: "'h sdmmc \<Rightarrow> 'h ipl \<Rightarrow> 'h ipl" where
  "from_card cd s = s\<lparr>sdev := (sdev s)\<lparr>hw := fst (mach cd)\<rparr>, ram := snd (mach cd)\<rparr>"

definition sdmmc_load_file :: "'h env \<Rightarrow> u32 \<Rightarrow> u8 list \<Rightarrow> 'h ipl \<Rightarrow> (int \<times> 'h ipl) option" where
  "sdmmc_load_file e address fn s =
     do { let b = env_card e;
          let cd = (to_card s (env_frame e))\<lparr>sdmmc_pbase := 0x02198000\<rparr>;
          (st, cd) \<leftarrow> sdmmc_init_ctrl b cd;
          if st \<noteq> SDMMC_OK then Some (SDMMC_ERROR, from_card cd s)
          else do {
            (st, cd) \<leftarrow> sdmmc_init_card b cd;
            if st \<noteq> 0 then Some (SDMMC_ERROR, from_card cd s)
            else do {
              s \<leftarrow> say e (''Load QNX image from SDMMC...'' @ [CHR 0x0A]) (from_card cd s);
              (st, v, cd) \<leftarrow> fat_read_mbr (sdmmc_dev b) (fatv s) (to_card s cd);
              let s = (from_card cd s)\<lparr>fatv := v\<rparr>;
              if st \<noteq> 0 then Some (SDMMC_ERROR, s)
              else if fat_type (fsi v) = 32 then do {
                (status, cd) \<leftarrow> fat_copy_named_file (sdmmc_dev b) v address fn cd;
                let (_, cd) = sdmmc_fini b cd;
                Some (status, from_card cd s) }
              else do {
                s \<leftarrow> say e (''SDMMC card has an unsupported file system, please use FAT32 file system'' @ [CHR 0x0A]) s;
                Some (SDMMC_ERROR, s) } } } }"

definition serial_load :: "'h env \<Rightarrow> u32 \<Rightarrow> 'h ipl \<Rightarrow> (bool \<times> 'h ipl) option" where
  "serial_load e img s =
     do { s \<leftarrow> say e (''send image now...'' @ [CHR 0x0A]) s;
          (r, d, m) \<leftarrow> image_download_ser (env_bus e) img (sdev s) (ram s);
          let s = s\<lparr>sdev := d, ram := m\<rparr>;
          if r \<noteq> 0 then do { s \<leftarrow> say e (''download failed...'' @ [CHR 0x0A]) s; Some (False, s) }
          else do { s \<leftarrow> say e (''download OK...'' @ [CHR 0x0A]) s; Some (True, s) } }"

definition card_load :: "'h env \<Rightarrow> u32 \<Rightarrow> 'h ipl \<Rightarrow> (bool \<times> 'h ipl) option" where
  "card_load e img s =
     do { (st, s) \<leftarrow> sdmmc_load_file e img (bytes_of_string ''QNX-IFS'') s;
          if st = 0 then Some (True, s)
          else do { s \<leftarrow> say e (''load image failed'' @ [CHR 0x0A]) s; Some (False, s) } }"

definition boot_image :: "'h env \<Rightarrow> u32 \<Rightarrow> 'h ipl \<Rightarrow> (u32 \<times> 'h ipl) option" where
  "boot_image e img s =
     do { let g = env_globals e;
          s \<leftarrow> say e ''Found image               @ 0x'' s;
          s \<leftarrow> say_hex e img s;
          s \<leftarrow> say e [CHR 0x0A] s;
          let s = s\<lparr>ram := snd (image_setup g img (ram s))\<rparr>;
          s \<leftarrow> say e ''Jumping to startup        @ 0x'' s;
          s \<leftarrow> say_hex e (hdr_startup_vaddr (ram s) (startup_hdr g)) s;
          s \<leftarrow> say e [CHR 0x0A, CHR 0x0A] s;
          let (pc, m) = image_start g img (ram s);
          Some (pc, s\<lparr>ram := m\<rparr>) }"

definition main_step :: "'h env \<Rightarrow> u32 \<Rightarrow> 'h ipl \<Rightarrow> (u32 option \<times> u32 \<times> 'h ipl) option" where
  "main_step e img s =
     do { s \<leftarrow> say e (''Command:'' @ [CHR 0x0A]) s;
          s \<leftarrow> say e (''Press 'D' for serial download, using the 'sendnto' utility'' @ [CHR 0x0A]) s;
          s \<leftarrow> say e (''Press 'M' for SDMMC download, IFS filename MUST be 'QNX-IFS'.'' @ [CHR 0x0A]) s;
          (c, d) \<leftarrow> ser_getchar (env_bus e) (sdev s);
          let s = s\<lparr>sdev := d\<rparr>;
          (loaded, s) \<leftarrow>
            (if c = of_char CHR ''D'' \<or> c = of_char CHR ''d'' then serial_load e img s
             else if c = of_char CHR ''M'' \<or> c = of_char CHR ''m'' then card_load e img s
             else Some (False, s));
          if \<not> loaded then Some (None, img, s)
          else do {
            (img, m) \<leftarrow> image_scan (env_globals e) img (img + 0x200) (ram s);
            let s = s\<lparr>ram := m\<rparr>;
            if img \<noteq> 0xffffffff then do { (pc, s) \<leftarrow> boot_image e img s; Some (Some pc, img, s) }
            else do { s \<leftarrow> say e (''Image_scan failed...'' @ [CHR 0x0A]) s; Some (None, img, s) } } }"

partial_function (option) main_loop :: "'h env \<Rightarrow> u32 \<Rightarrow> 'h ipl \<Rightarrow> (u32 \<times> 'h ipl) option" where
  "main_loop e img s =
     do { (r, img, s) \<leftarrow> main_step e img s;
          case r of Some pc \<Rightarrow> Some (pc, s) | None \<Rightarrow> main_loop e img s }"

definition main :: "'h env \<Rightarrow> 'h ipl \<Rightarrow> (u32 \<times> 'h ipl) option" where
  "main e s =
     do { let b = env_bus e;
          d \<leftarrow> init_serial_mx6q b (init_pinmux b (init_clocks b (init_aips b (sdev s))));
          s \<leftarrow> say e ([CHR 0x0A] @ ''Welcome to QNX Neutrino Initial Program Loader for Freescale i.MX6Q Sabre-Smart (ARM Cortex-A9 MPCore)''
                 @ [CHR 0x0A]) (s\<lparr>sdev := d\<rparr>);
          main_loop e QNX_LOAD_ADDR s }"

section \<open>The console\<close>

text \<open>The loader's state after output: the device is still there, input and memory are untouched.\<close>

definition quiet :: "fifo_uart ipl \<Rightarrow> fifo_uart ipl \<Rightarrow> bool" where
  "quiet s s' \<longleftrightarrow> ser_attached Mx6q_dev (sdev s') \<and> rx_fifo (hw (sdev s')) = rx_fifo (hw (sdev s)) \<and> ram s' = ram s"

lemma quiet_trans: "quiet s s' \<Longrightarrow> quiet s' s'' \<Longrightarrow> quiet s s''"
  by (simp add: quiet_def)

lemma putchar_fifo:
  assumes "ser_attached dev d"
  shows "\<exists>d'. ser_putchar (fifo_bus (dev_layout dev)) c d = Some d' \<and> ser_attached dev d' \<and> rx_fifo (hw d') = rx_fifo (hw d)"
proof -
  have s: "ser d = Some dev" using assms by (simp add: ser_attached_def)
  show ?thesis
    using s dev_put_byte_fifo [OF assms, of 13] dev_put_byte_fifo [OF assms, of c]
      dev_put_byte_fifo [of dev "d\<lparr>hw := (hw d)\<lparr>tx_log := tx_log (hw d) @ [13]\<rparr>\<rparr>" c] assms
    by (cases "c = 10") (simp_all add: ser_putchar_def ser_attached_hw)
qed

lemma put_chars_fifo:
  assumes "ser_attached dev d"
  shows "\<exists>d'. put_chars (\<lambda>s c. ser_putchar (fifo_bus (dev_layout dev)) c s) str d = Some d' \<and> ser_attached dev d' \<and>
     rx_fifo (hw d') = rx_fifo (hw d)"
  using assms
proof (induction str arbitrary: d)
  case (Cons c str)
  obtain d1 where "ser_putchar (fifo_bus (dev_layout dev)) c d = Some d1" "ser_attached dev d1" "rx_fifo (hw d1) = rx_fifo (hw d)"
    using putchar_fifo [OF Cons.prems] by blast
  then show ?case using Cons.IH [of d1] by simp
qed simp

lemma ser_putstr_fifo:
  assumes "ser_attached dev d"
  shows "\<exists>d'. ser_putstr (fifo_bus (dev_layout dev)) str d = Some d' \<and> ser_attached dev d' \<and> rx_fifo (hw d') = rx_fifo (hw d)"
  using put_chars_fifo [OF assms] assms by (simp add: ser_putstr_def ser_attached_def)

text \<open>The board's environment: its console is the FIFO UART.\<close>

definition on_console :: "fifo_uart env \<Rightarrow> bool" where
  "on_console e \<longleftrightarrow> env_bus e = fifo_bus (dev_layout Mx6q_dev)"

lemma say_quiet:
  assumes "on_console e" "ser_attached Mx6q_dev (sdev s)"
  shows "\<exists>s'. say e str s = Some s' \<and> quiet s s'"
  using ser_putstr_fifo [OF assms(2), of "bytes_of_string str"] assms(1)
  by (auto simp: say_def on_console_def quiet_def)

lemma say_hex_quiet:
  assumes "on_console e" "ser_attached Mx6q_dev (sdev s)"
  shows "\<exists>s'. say_hex e x s = Some s' \<and> quiet s s'"
  using ser_putstr_fifo [OF assms(2), of "bytes_of_string (hex_loop 8 x [])"] assms(1)
  by (auto simp: say_hex_def ser_puthex_def ser_puthex32_def ser_puthex_n_def on_console_def quiet_def)

section \<open>A failed scan is final\<close>

lemma image_scan_wrapped: "image_scan g (- 1) (- 1 + 0x200) m = Some (- 1, m)"
  unfolding image_scan_def by (subst scan_loop.simps) simp

lemma main_step_dead: "main_step e (- 1) s = Some (r, img, s') \<Longrightarrow> r = None \<and> img = - 1"
  unfolding main_step_def image_scan_wrapped
  by (auto simp: Let_def bind_eq_Some_conv split: if_splits)

text \<open>From the address that a failed scan leaves, no command starts an image, whatever is sent or read.\<close>

lemma main_loop_at_end: "main_loop e 0xffffffff s = None"
proof -
  have "img \<noteq> - 1" if "main_loop e img s = Some y" for e :: "'a env" and img s y
  proof (rule main_loop.raw_induct [where P = "\<lambda>e img s y. img \<noteq> - 1", OF _ that])
    fix f e img s y
    assume IH: "\<And>(e :: 'a env) img s y. f e img s = Some y \<Longrightarrow> img \<noteq> - 1"
      and "do { (r, img, s) \<leftarrow> main_step e img s; case r of Some pc \<Rightarrow> Some (pc, s) | None \<Rightarrow> f e img s } = Some y"
    then obtain r img' s' where st: "main_step e img s = Some (r, img', s')"
      and r: "(case r of Some pc \<Rightarrow> Some (pc, s') | None \<Rightarrow> f e img' s') = Some y"
      by (auto simp: bind_eq_Some_conv)
    show "img \<noteq> - 1"
    proof
      assume "img = - 1"
      then have "r = None" "img' = - 1" using main_step_dead st by blast+
      then have "f e (- 1) s' = Some y" using r by simp
      then show False using IH by blast
    qed
  qed
  then show ?thesis by (cases "main_loop e 0xffffffff s") fastforce+
qed

section \<open>A good download boots\<close>

text \<open>
  The image at \<open>a\<close> can be placed: its startup part has the header, and neither it, its place in RAM
  nor the loader's buffers overlap.
\<close>

definition ram_start :: "mem \<Rightarrow> u32 \<Rightarrow> u32" where
  "ram_start m a = hdr_ram_paddr m a + hdr_paddr_bias m a"

definition startup_bytes :: "mem \<Rightarrow> u32 \<Rightarrow> u8 list" where
  "startup_bytes m a = bytes_at m a (unat (hdr_startup_size m a))"

definition placeable :: "globals \<Rightarrow> mem \<Rightarrow> u32 \<Rightarrow> bool" where
  "placeable g m a \<longleftrightarrow>
     (let n = unat (hdr_startup_size m a) in
      256 \<le> n \<and> span a n \<inter> buffers g = {} \<and> span (ram_start m a) n \<inter> span a n = {} \<and>
      span (ram_start m a) n \<inter> span (startup_hdr g) HDR_SIZE = {})"

text \<open>What the startup part becomes in RAM: the field for the image file system is filled in.\<close>

definition placed_bytes :: "mem \<Rightarrow> u32 \<Rightarrow> u8 list" where
  "placed_bytes m a =
     patch_bytes 40 (le_bytes 4 (unat (a + hdr_startup_size m a - hdr_paddr_bias m a))) (startup_bytes m a)"

lemma image_start_enters:
  assumes "span (startup_hdr g) HDR_SIZE \<inter> span a HDR_SIZE = {}"
  shows "\<exists>m'. image_start g a m = (hdr_startup_vaddr m a, m') \<and> same_but (span (startup_hdr g) HDR_SIZE) m m'"
proof -
  have d: "span (startup_hdr g) (unat (256 :: u32)) \<inter> span a (unat (256 :: u32)) = {}" using assms by simp
  have "bytes_at (copy (startup_hdr g) a 256 m) (startup_hdr g) HDR_SIZE = bytes_at m a HDR_SIZE"
    using bytes_at_copy [OF d, of m] by simp
  from hdr_same(3) [OF this] show ?thesis
    using same_but_copy [OF d, of "span (startup_hdr g) HDR_SIZE" m] by (simp add: image_start_def Let_def)
qed

lemma placeable_same:
  assumes "placeable g m a" "same_but (buffers g) m m'"
  shows "placeable g m' a" "placed_bytes m' a = placed_bytes m a" "ram_start m' a = ram_start m a"
    "hdr_startup_vaddr m' a = hdr_startup_vaddr m a" "hdr_startup_size m' a = hdr_startup_size m a"
proof -
  let ?n = "unat (hdr_startup_size m a)"
  have n: "256 \<le> ?n" "span a ?n \<inter> buffers g = {}" using assms(1) by (simp_all add: placeable_def Let_def)
  then have "span a HDR_SIZE \<inter> buffers g = {}" using span_mono [OF n(1), of a] by auto
  then have "bytes_at m' a HDR_SIZE = bytes_at m a HDR_SIZE" by (rule same_but_bytes [OF assms(2)])
  note h = hdr_same [OF this]
  have "bytes_at m' a ?n = bytes_at m a ?n" by (rule same_but_bytes [OF assms(2) n(2)])
  then show "placeable g m' a" "placed_bytes m' a = placed_bytes m a" "ram_start m' a = ram_start m a"
    "hdr_startup_vaddr m' a = hdr_startup_vaddr m a" "hdr_startup_size m' a = hdr_startup_size m a"
    using assms(1) by (simp_all add: placeable_def placed_bytes_def ram_start_def startup_bytes_def h)
qed

lemma boot_image_places:
  assumes e: "on_console e" and at: "ser_attached Mx6q_dev (sdev s)" and pl: "placeable (env_globals e) (ram s) a"
  shows "\<exists>s'. boot_image e a s = Some (hdr_startup_vaddr (ram s) a, s') \<and>
     bytes_at (ram s') (ram_start (ram s) a) (unat (hdr_startup_size (ram s) a)) = placed_bytes (ram s) a"
proof -
  let ?g = "env_globals e" and ?m = "ram s" and ?n = "unat (hdr_startup_size (ram s) a)"
  have n: "256 \<le> ?n" "span a ?n \<inter> buffers ?g = {}" "span (ram_start ?m a) ?n \<inter> span a ?n = {}"
      "span (ram_start ?m a) ?n \<inter> span (startup_hdr ?g) HDR_SIZE = {}"
    using pl by (simp_all add: placeable_def Let_def)
  have hd: "span (startup_hdr ?g) HDR_SIZE \<inter> span a ?n = {}" using n(2) by (auto simp: buffers_def)
  obtain s1 where s1: "say e ''Found image               @ 0x'' s = Some s1" "quiet s s1" using say_quiet [OF e at] by blast
  obtain s2 where s2: "say_hex e a s1 = Some s2" "quiet s1 s2" using say_hex_quiet [OF e, of s1] s1(2) by (auto simp: quiet_def)
  obtain s3 where s3: "say e [CHR 0x0A] s2 = Some s3" "quiet s2 s3" using say_quiet [OF e, of s2] s2(2) by (auto simp: quiet_def)
  have r3: "ram s3 = ?m" "ser_attached Mx6q_dev (sdev s3)" using s1(2) s2(2) s3(2) by (simp_all add: quiet_def)
  obtain m4 where m4: "image_setup ?g a ?m = (0, m4)" "bytes_at m4 (ram_start ?m a) ?n = placed_bytes ?m a"
      "bytes_at m4 a ?n = bytes_at ?m a ?n"
    using image_setup_places [of ?m a ?g] n hd by (auto simp: ram_start_def placed_bytes_def startup_bytes_def word_le_nat_alt)
  let ?s4 = "s3\<lparr>ram := m4\<rparr>"
  obtain s5 where s5: "say e ''Jumping to startup        @ 0x'' ?s4 = Some s5" "quiet ?s4 s5" using say_quiet [OF e, of ?s4] r3(2) by auto
  obtain s6 where s6: "say_hex e (hdr_startup_vaddr (ram s5) (startup_hdr ?g)) s5 = Some s6" "quiet s5 s6"
    using say_hex_quiet [OF e, of s5] s5(2) by (auto simp: quiet_def)
  obtain s7 where s7: "say e [CHR 0x0A, CHR 0x0A] s6 = Some s7" "quiet s6 s7" using say_quiet [OF e, of s6] s6(2) by (auto simp: quiet_def)
  have r7: "ram s7 = m4" using s5(2) s6(2) s7(2) by (simp add: quiet_def)
  have "span (startup_hdr ?g) HDR_SIZE \<inter> span a HDR_SIZE = {}" using hd span_mono [OF n(1), of a] by auto
  from image_start_enters [OF this] obtain m8 where m8: "image_start ?g a m4 = (hdr_startup_vaddr m4 a, m8)"
      "same_but (span (startup_hdr ?g) HDR_SIZE) m4 m8" by blast
  have "bytes_at m4 a HDR_SIZE = bytes_at ?m a HDR_SIZE"
    using arg_cong [OF m4(3), of "take HDR_SIZE"] n(1) bytes_at_append [of _ a HDR_SIZE "?n - HDR_SIZE"] by simp
  then have "hdr_startup_vaddr m4 a = hdr_startup_vaddr ?m a" by (rule hdr_same)
  moreover have "boot_image e a s = Some (hdr_startup_vaddr m4 a, s7\<lparr>ram := m8\<rparr>)"
    using s1(1) s2(1) s3(1) s5(1) s6(1) s7(1) m4(1) m8(1) r3 r7 by (simp add: boot_image_def Let_def)
  moreover have "bytes_at m8 (ram_start ?m a) ?n = placed_bytes ?m a"
    using same_but_bytes [OF m8(2) n(4)] m4(2) by simp
  ultimately show ?thesis by simp
qed

text \<open>A command for the serial line followed by a transfer of the chunks \<open>cs\<close>.\<close>

definition sends :: "fifo_uart ipl \<Rightarrow> u8 \<Rightarrow> chunk list \<Rightarrow> bool" where
  "sends s k cs \<longleftrightarrow> (\<exists>junk rest. START_CMD \<notin> set junk \<and>
     rx_fifo (hw (sdev s)) = k # junk @ START_CMD # encode_records 0 cs @ GO_CMD # rest)"

lemma serial_load_stores:
  assumes e: "on_console e" and at: "ser_attached Mx6q_dev (sdev s)"
    and rx: "rx_fifo (hw (sdev s)) = junk @ START_CMD # encode_records 0 cs @ GO_CMD # rest" "START_CMD \<notin> set junk"
    and cs: "\<forall>c \<in> set cs. chunk_ok c"
  shows "\<exists>s'. serial_load e img s = Some (True, s') \<and> ser_attached Mx6q_dev (sdev s') \<and> ram s' = store img (payload cs) (ram s)"
proof -
  obtain s1 where s1: "say e (''send image now...'' @ [CHR 0x0A]) s = Some s1" "quiet s s1" using say_quiet [OF e at] by blast
  obtain d where d: "image_download_ser (env_bus e) img (sdev s1) (ram s1) = Some (0, d, store img (payload cs) (ram s1))"
      "ser_attached Mx6q_dev d"
    using ser_line.download_go [of Mx6q_dev "sdev s1" junk cs rest img "ram s1"] s1(2) rx cs e
    by (auto simp: quiet_def image_download_ser_def on_console_def)
  let ?s2 = "s1\<lparr>sdev := d, ram := store img (payload cs) (ram s1)\<rparr>"
  obtain s3 where s3: "say e (''download OK...'' @ [CHR 0x0A]) ?s2 = Some s3" "quiet ?s2 s3" using say_quiet [OF e, of ?s2] d(2) by auto
  show ?thesis
    using s1 d(1) s3 by (simp add: serial_load_def Let_def quiet_def)
qed

lemma main_step_download:
  fixes img :: u32
  assumes e: "on_console e" and at: "ser_attached Mx6q_dev (sdev s)"
    and k: "k = of_char CHR ''D'' \<or> k = of_char CHR ''d''" "sends s k cs" "\<forall>c \<in> set cs. chunk_ok c"
  shows "\<exists>s5. ser_attached Mx6q_dev (sdev s5) \<and>
     main_step e img s =
       do { (r, m) \<leftarrow> image_scan (env_globals e) img (img + 0x200) (store img (payload cs) (ram s));
            let s = s5\<lparr>ram := m\<rparr>;
            if r \<noteq> 0xffffffff then do { (pc, s) \<leftarrow> boot_image e r s; Some (Some pc, r, s) }
            else do { s \<leftarrow> say e (''Image_scan failed...'' @ [CHR 0x0A]) s; Some (None, 0xffffffff, s) } }"
proof -
  obtain junk rest where rx: "START_CMD \<notin> set junk"
      "rx_fifo (hw (sdev s)) = k # junk @ START_CMD # encode_records 0 cs @ GO_CMD # rest"
    using k(2) by (auto simp: sends_def)
  obtain s1 where s1: "say e (''Command:'' @ [CHR 0x0A]) s = Some s1" "quiet s s1" using say_quiet [OF e at] by blast
  obtain s2 where s2: "say e (''Press 'D' for serial download, using the 'sendnto' utility'' @ [CHR 0x0A]) s1 = Some s2" "quiet s1 s2"
    using say_quiet [OF e, of s1] s1(2) by (auto simp: quiet_def)
  obtain s3 where s3: "say e (''Press 'M' for SDMMC download, IFS filename MUST be 'QNX-IFS'.'' @ [CHR 0x0A]) s2 = Some s3" "quiet s2 s3"
    using say_quiet [OF e, of s2] s2(2) by (auto simp: quiet_def)
  have q: "quiet s s3" using s1(2) s2(2) s3(2) by (meson quiet_trans)
  obtain d where d: "ser_getchar (env_bus e) (sdev s3) = Some (k, d)" "ser_attached Mx6q_dev d"
      "rx_fifo (hw d) = junk @ START_CMD # encode_records 0 cs @ GO_CMD # rest"
    using ser_line.getb_next [of Mx6q_dev "sdev s3" k] q rx(2) e by (fastforce simp: quiet_def on_console_def)
  obtain s5 where s5: "serial_load e img (s3\<lparr>sdev := d\<rparr>) = Some (True, s5)" "ser_attached Mx6q_dev (sdev s5)"
      "ram s5 = store img (payload cs) (ram s)"
    using serial_load_stores [OF e, of "s3\<lparr>sdev := d\<rparr>" junk cs rest img] d rx(1) k(3) q by (auto simp: quiet_def)
  show ?thesis
    using s1(1) s2(1) s3(1) d(1) s5 k(1) unfolding main_step_def
    by (intro exI [of _ s5]) (auto simp: Let_def intro!: Option.bind_cong split: prod.split)
qed

lemma main_step_boots:
  fixes img :: u32
  assumes e: "on_console e" and at: "ser_attached Mx6q_dev (sdev s)"
    and k: "k = of_char CHR ''D'' \<or> k = of_char CHR ''d''" "sends s k cs" "\<forall>c \<in> set cs. chunk_ok c"
  defines "m \<equiv> store img (payload cs) (ram s)" and "g \<equiv> env_globals e"
  assumes ok: "scan_ok g m img (img + 0x200)" and ex: "candidate m (img + 0x200) img a" "0 < hdr_version m a"
    and pl: "\<And>a. candidate m (img + 0x200) img a \<Longrightarrow> placeable g m a"
  shows "\<exists>r s'. main_step e img s = Some (Some (hdr_startup_vaddr m r), r, s') \<and> candidate m (img + 0x200) img r \<and>
     (\<forall>a. candidate m (img + 0x200) img a \<longrightarrow> hdr_version m a \<le> hdr_version m r) \<and>
     bytes_at (ram s') (ram_start m r) (unat (hdr_startup_size m r)) = placed_bytes m r"
proof -
  obtain s5 where s5: "ser_attached Mx6q_dev (sdev s5)" and st: "main_step e img s =
       do { (r, m) \<leftarrow> image_scan g img (img + 0x200) m;
            let s = s5\<lparr>ram := m\<rparr>;
            if r \<noteq> 0xffffffff then do { (pc, s) \<leftarrow> boot_image e r s; Some (Some pc, r, s) }
            else do { s \<leftarrow> say e (''Image_scan failed...'' @ [CHR 0x0A]) s; Some (None, 0xffffffff, s) } }"
    using main_step_download [OF e at k] unfolding g_def m_def by blast
  obtain r m6 where sc: "image_scan g img (img + 0x200) m = Some (r, m6)" "same_but (buffers g) m m6"
      "newest m (img + 0x200) img (- 1) 0 r"
    using scan_loop_newest [OF ok same_but_refl, of "- 1" 0] by (auto simp: image_scan_def)
  have r: "candidate m (img + 0x200) img r" "\<forall>a. candidate m (img + 0x200) img a \<longrightarrow> hdr_version m a \<le> hdr_version m r"
    using sc(3) ex by (auto simp: newest_def)
  have "r < img + 0x200" using r(1) by (simp add: candidate_def)
  then have nr: "r \<noteq> 0xffffffff" using ok by (auto simp: scan_ok_def word_less_nat_alt)
  let ?s6 = "s5\<lparr>ram := m6\<rparr>"
  note same = placeable_same [OF pl [OF r(1)] sc(2)]
  have "placeable (env_globals e) (ram ?s6) r" using same(1) by (simp add: g_def)
  then obtain s7 where s7: "boot_image e r ?s6 = Some (hdr_startup_vaddr m r, s7)"
      "bytes_at (ram s7) (ram_start m r) (unat (hdr_startup_size m r)) = placed_bytes m r"
    using boot_image_places [OF e, of ?s6 r] s5 same by auto
  have "main_step e img s = Some (Some (hdr_startup_vaddr m r), r, s7)"
    using st sc(1) s7(1) nr by simp
  then show ?thesis using r s7(2) by blast
qed

text \<open>
  C1: when the sender asks for a download and transfers chunks that put a valid image at the load
  address, the loader ends by jumping: to the start address of the newest image in the scanned range,
  with its startup part placed in RAM and the address of the image file system filled in.
\<close>

theorem main_loop_boots:
  assumes "on_console e" "ser_attached Mx6q_dev (sdev s)"
    and "k = of_char CHR ''D'' \<or> k = of_char CHR ''d''" "sends s k cs" "\<forall>c \<in> set cs. chunk_ok c"
    and "m = store img (payload cs) (ram s)" "scan_ok (env_globals e) m img (img + 0x200)"
    and "candidate m (img + 0x200) img a" "0 < hdr_version m a"
    and "\<forall>a. candidate m (img + 0x200) img a \<longrightarrow> placeable (env_globals e) m a"
  shows "\<exists>r s'. main_loop e img s = Some (hdr_startup_vaddr m r, s') \<and> candidate m (img + 0x200) img r \<and>
     (\<forall>a. candidate m (img + 0x200) img a \<longrightarrow> hdr_version m a \<le> hdr_version m r) \<and>
     bytes_at (ram s') (ram_start m r) (unat (hdr_startup_size m r)) = placed_bytes m r"
proof -
  obtain r s' where r: "main_step e img s = Some (Some (hdr_startup_vaddr m r), r, s')"
      "candidate m (img + 0x200) img r" "\<forall>a. candidate m (img + 0x200) img a \<longrightarrow> hdr_version m a \<le> hdr_version m r"
      "bytes_at (ram s') (ram_start m r) (unat (hdr_startup_size m r)) = placed_bytes m r"
    using main_step_boots [OF assms(1-5), of img a] assms(6-10) by blast
  have "main_loop e img s = Some (hdr_startup_vaddr m r, s')"
    using r(1) by (subst main_loop.simps) simp
  then show ?thesis using r(2-4) by blast
qed

text \<open>
  C15: the loader keeps the result of the scan in the variable that holds the load address. When a
  transfer is complete and no image with a version above zero is found in what it brought, the loader
  never starts an image again, whatever is sent after it: it downloads to \<open>0xffffffff\<close> from then on.
\<close>

theorem main_loop_dead:
  assumes "on_console e" "ser_attached Mx6q_dev (sdev s)"
    and "k = of_char CHR ''D'' \<or> k = of_char CHR ''d''" "sends s k cs" "\<forall>c \<in> set cs. chunk_ok c"
    and "m = store img (payload cs) (ram s)" "scan_ok (env_globals e) m img (img + 0x200)"
    and "\<forall>a. candidate m (img + 0x200) img a \<longrightarrow> hdr_version m a = 0"
  shows "main_loop e img s = None"
proof -
  obtain s5 where s5: "ser_attached Mx6q_dev (sdev s5)" and st: "main_step e img s =
       do { (r, m) \<leftarrow> image_scan (env_globals e) img (img + 0x200) m;
            let s = s5\<lparr>ram := m\<rparr>;
            if r \<noteq> 0xffffffff then do { (pc, s) \<leftarrow> boot_image e r s; Some (Some pc, r, s) }
            else do { s \<leftarrow> say e (''Image_scan failed...'' @ [CHR 0x0A]) s; Some (None, 0xffffffff, s) } }"
    using main_step_download [OF assms(1-5), of img] assms(6) by blast
  obtain r m6 where sc: "image_scan (env_globals e) img (img + 0x200) m = Some (r, m6)" "newest m (img + 0x200) img (- 1) 0 r"
    using scan_loop_newest [OF assms(7) same_but_refl, of "- 1" 0] by (auto simp: image_scan_def)
  have r: "r = 0xffffffff" using sc(2) assms(8) by (auto simp: newest_def)
  obtain s6 where "say e (''Image_scan failed...'' @ [CHR 0x0A]) (s5\<lparr>ram := m6\<rparr>) = Some s6"
    using say_quiet [OF assms(1), of "s5\<lparr>ram := m6\<rparr>"] s5 by auto
  then have "main_step e img s = Some (None, 0xffffffff, s6)" using st sc(1) r by simp
  then show ?thesis by (subst main_loop.simps) (simp add: main_loop_at_end)
qed

section \<open>An example\<close>

lemma le_bytes_4: "le_bytes 4 v = [word_of_nat v, word_of_nat (v div 256), word_of_nat (v div 65536), word_of_nat (v div 16777216)]"
proof -
  have "4 = Suc (Suc (Suc (Suc 0)))" by simp
  then show ?thesis by (simp only: le_bytes.simps) (simp add: div_mult2_eq [symmetric])
qed

lemma example_byte: "example_image a = 0xeb \<Longrightarrow> a = 0x18000000"
proof -
  define i where "i = unat (a - 0x18000000)"
  define q where "q = i div 4"
  define r where "r = i mod 4"
  assume "example_image a = 0xeb"
  then have b: "q < 12" "le_bytes 4 (unat ([0x00ff7eeb, 1, 0, 0x10800100, 0, 0, 0x10800000, 0, 256, 256, 0, - 0x21ff81ec :: u32] ! q)) ! r = 0xeb"
    by (auto simp: example_image_def words_mem_def Let_def i_def q_def r_def split: if_splits)
  let ?ws = "[1, 0, 0x10800100, 0, 0, 0x10800000, 0, 256, 256, 0, 0xde007e14 :: u32]"
  have w: "[0x00ff7eeb, 1, 0, 0x10800100, 0, 0, 0x10800000, 0, 256, 256, 0, - 0x21ff81ec :: u32] = 0x00ff7eeb # ?ws" by simp
  have r: "r < 4" by (simp add: r_def)
  have rest: "\<forall>v \<in> set ?ws. 0xeb \<notin> set (le_bytes 4 (unat v))" by (simp add: le_bytes_4)
  have q: "q = 0"
  proof (rule ccontr)
    assume "q \<noteq> 0"
    then obtain j where j: "q = Suc j" "j < length ?ws" using b(1) by (cases q) simp_all
    then have "?ws ! j \<in> set ?ws" by (intro nth_mem)
    then have "0xeb \<notin> set (le_bytes 4 (unat (?ws ! j)))" using rest by blast
    moreover have "le_bytes 4 (unat (?ws ! j)) ! r \<in> set (le_bytes 4 (unat (?ws ! j)))"
      using r by (intro nth_mem) (simp add: le_bytes_4)
    moreover have "le_bytes 4 (unat (?ws ! j)) ! r = 0xeb" using b(2) unfolding w j(1) by (simp only: nth_Cons_Suc)
    ultimately show False by simp
  qed
  have "r = 0 \<or> r = 1 \<or> r = 2 \<or> r = 3" using r by arith
  then have "q = 0 \<and> r = 0" using b(2) q unfolding w by (elim disjE) (simp_all add: le_bytes_4)
  then have "i = 0" using div_mult_mod_eq [of i 4] by (simp add: q_def r_def)
  then have "a - 0x18000000 = 0" unfolding i_def by (simp only: unat_eq_zero)
  then show ?thesis by simp
qed

lemma example_signature: "hdr_signature example_image a = STARTUP_HDR_SIGNATURE \<longleftrightarrow> a = 0x18000000"
proof
  assume "hdr_signature example_image a = STARTUP_HDR_SIGNATURE"
  then have "unat (word_of_nat (le_nat (bytes_at example_image a 4)) :: u32) = 0x00ff7eeb"
    by (simp only: hdr_defs u32_at_def) simp
  then have "le_nat (bytes_at example_image a 4) = 0x00ff7eeb"
    using le_nat_less [of "bytes_at example_image a 4"] by (simp add: unat_of_nat)
  moreover have "bytes_at example_image a 4 = example_image a # bytes_at example_image (a + 1) 3"
    using bytes_at.simps(2) [of example_image a 3] by (simp del: bytes_at.simps)
  ultimately have "unat (example_image a) + 256 * le_nat (bytes_at example_image (a + 1) 3) = 0x00ff7eeb" by simp
  from arg_cong [OF this, of "\<lambda>n. n mod 256"] have "unat (example_image a) mod 256 = 0xeb" by simp
  then have "unat (example_image a) = 0xeb" using unsigned_less [of "example_image a", where ?'a = nat] by simp
  then have "example_image a = 0xeb" by (simp add: word_unat_eq_iff)
  then show "a = 0x18000000" by (rule example_byte)
qed (simp add: example_fields)

lemma example_scan: "scan_ok example_globals example_image 0x18000000 (0x18000000 + 0x200)"
proof -
  have sp: "span a HDR_SIZE \<inter> buffers example_globals = {}" if "0x18000000 \<le> a" "a < 0x18000200" for a
    using example_apart [of "0x1000" 512 a 256] example_apart [of "0x2000" 256 a 256] that
    by (auto simp: buffers_def example_globals_def word_le_nat_alt word_less_nat_alt)
  have "hdr_sane example_globals example_image 0x18000000"
    using sp [of "0x18000000"] by (simp add: hdr_sane_def example_fields)
  then show ?thesis
    using example_apart [of "0x1000" 512 "0x2000" 256] sp unfolding scan_ok_def example_signature by (auto simp: example_globals_def)
qed

lemma example_candidates: "candidate example_image (0x18000000 + 0x200) 0x18000000 a \<longleftrightarrow> a = 0x18000000"
proof -
  have i: "image_at example_image 0x18000000" using example_sum by (simp add: image_at_def example_fields)
  have "candidate example_image 0x18000200 0x18000000 0x18000000"
    using i by (simp add: candidate_def scanned.here)
  then show ?thesis by (auto simp: candidate_def image_at_def example_signature)
qed

lemma example_placeable: "placeable example_globals example_image 0x18000000"
  using example_apart [of "0x1000" 512 "0x18000000" 256] example_apart [of "0x2000" 256 "0x18000000" 256]
    example_apart [of "0x10800000" 256 "0x18000000" 256] example_apart [of "0x2000" 256 "0x10800000" 256]
  by (auto simp: placeable_def ram_start_def example_fields buffers_def example_globals_def)

lemma example_stored: "store 0x18000000 (bytes_at example_image 0x18000000 48) (\<lambda>_. 0) = example_image"
proof
  fix x :: u32
  show "store 0x18000000 (bytes_at example_image 0x18000000 48) (\<lambda>_. 0) x = example_image x"
  proof (cases "unat (x - 0x18000000) < 48")
    case True
    then obtain k where k: "k < 48" "x = 0x18000000 + of_nat k"
      by (intro that [of "unat (x - 0x18000000)"]) simp_all
    then show ?thesis by (simp add: nth_store nth_bytes_at)
  next
    case False
    then have "x \<notin> span 0x18000000 48" by (auto simp: span_def unat_of_nat)
    moreover have "example_image x = 0" using False by (auto simp: example_image_def words_mem_def Let_def)
    ultimately show ?thesis by (simp add: store_notin)
  qed
qed

definition example_env :: "fifo_uart env" where
  "example_env = \<lparr>env_bus = fifo_bus (dev_layout Mx6q_dev), env_card = \<lparr>reg_rd = (\<lambda>a hm. (0, hm)), reg_wr = (\<lambda>a v hm. hm)\<rparr>,
     env_globals = example_globals, env_frame = card_100 (\<lparr>rx_fifo = [], tx_log = []\<rparr>, \<lambda>_. 0)\<rparr>"

definition example_ipl :: "chunk list \<Rightarrow> fifo_uart ipl" where
  "example_ipl cs = \<lparr>sdev = line_state Mx6q_dev (of_char CHR ''D'' # [] @ START_CMD # encode_records 0 cs @ GO_CMD # []),
     ram = (\<lambda>_. 0), fatv = demo_vars\<rparr>"

theorem main_loop_boots_witness:
  "\<exists>s'. main_loop example_env 0x18000000 (example_ipl [(0, 0, bytes_at example_image 0x18000000 48)]) =
      Some (hdr_startup_vaddr example_image 0x18000000, s') \<and>
     bytes_at (ram s') 0x10800000 256 = placed_bytes example_image 0x18000000"
proof -
  let ?cs = "[(0, 0, bytes_at example_image 0x18000000 48)] :: chunk list"
  have "on_console example_env" "ser_attached Mx6q_dev (sdev (example_ipl ?cs))"
    by (simp_all add: on_console_def example_env_def example_ipl_def line_state_attached del: dev_layout.simps encode_records.simps)
  moreover have "sends (example_ipl ?cs) (of_char CHR ''D'') ?cs"
    unfolding sends_def example_ipl_def line_state_def by (intro exI [of _ "[]"]) simp
  moreover have "\<forall>c \<in> set ?cs. chunk_ok c" by (simp add: chunk_ok_def)
  moreover have "example_image = store 0x18000000 (payload ?cs) (ram (example_ipl ?cs))"
    using example_stored by (simp add: payload_def example_ipl_def)
  moreover have g: "env_globals example_env = example_globals" by (simp add: example_env_def)
  ultimately show ?thesis
    using main_loop_boots [of example_env "example_ipl ?cs" "of_char CHR ''D''" ?cs example_image "0x18000000" "0x18000000"]
      example_scan example_candidates example_placeable
    by (simp add: example_fields ram_start_def)
qed

text \<open>An empty transfer first, then the one that boots when it comes first.\<close>

definition dead_ipl :: "fifo_uart ipl" where
  "dead_ipl = \<lparr>sdev = line_state Mx6q_dev (of_char CHR ''D'' # START_CMD # GO_CMD #
       rx_fifo (hw (sdev (example_ipl [(0, 0, bytes_at example_image 0x18000000 48)])))),
     ram = (\<lambda>_. 0), fatv = demo_vars\<rparr>"

lemma blank_signature: "hdr_signature (\<lambda>_. 0) a \<noteq> STARTUP_HDR_SIGNATURE"
proof -
  have "le_nat (bytes_at (\<lambda>_. 0) b n) = 0" for b :: u32 and n by (induction n arbitrary: b) simp_all
  then show ?thesis by (simp add: hdr_defs u32_at_def)
qed

theorem main_loop_dead_witness: "main_loop example_env 0x18000000 dead_ipl = None"
proof (rule main_loop_dead)
  show "on_console example_env" by (simp add: on_console_def example_env_def del: dev_layout.simps)
  show "ser_attached Mx6q_dev (sdev dead_ipl)" by (simp add: dead_ipl_def line_state_attached del: dev_layout.simps encode_records.simps)
  show "of_char CHR ''D'' = of_char CHR ''D'' \<or> of_char CHR ''D'' = (of_char CHR ''d'' :: u8)" by simp
  show "sends dead_ipl (of_char CHR ''D'') []"
    unfolding sends_def dead_ipl_def line_state_def
    by (rule exI [of _ "[]"], rule exI [of _ "rx_fifo (hw (sdev (example_ipl [(0, 0, bytes_at example_image 0x18000000 48)])))"]) simp
  show "(\<lambda>_. 0) = store 0x18000000 (payload []) (ram dead_ipl)" by (simp add: payload_def dead_ipl_def)
  have g: "env_globals example_env = example_globals" by (simp add: example_env_def)
  have "span a HDR_SIZE \<inter> buffers example_globals = {}" if "0x18000000 \<le> a" "a < 0x18000200" for a
    using example_apart [of "0x1000" 512 a 256] example_apart [of "0x2000" 256 a 256] that
    by (auto simp: buffers_def example_globals_def word_le_nat_alt word_less_nat_alt)
  then show "scan_ok (env_globals example_env) (\<lambda>_. 0) 0x18000000 (0x18000000 + 0x200)"
    using example_apart [of "0x1000" 512 "0x2000" 256] by (auto simp: g scan_ok_def blank_signature example_globals_def)
  show "\<forall>a. candidate (\<lambda>_. 0) (0x18000000 + 0x200) 0x18000000 a \<longrightarrow> hdr_version (\<lambda>_. 0) a = 0"
    by (simp add: candidate_def image_at_def blank_signature)
qed simp

end
