(* ===== verification/Startup_Hwi.thy ===== *)
theory Startup_Hwi
  imports Startup_As
begin

text \<open>
  The hardware information table of the system page: \<open>hwi_alloc.c\<close>, the \<open>hwi_add_*.c\<close>,
  \<open>hwibus_add*.c\<close>, \<open>hwidev_add*.c\<close> and \<open>hwitag_*.c\<close> files of \<open>src/hardware/startup/lib\<close>, and
  \<open>hwi_default.c\<close>.

  The table is the bytes of the \<open>hwinfo\<close> section, with the layouts of \<open>hw/sysinfo.h\<close>: every tag
  begins with its size in words and the offset of its name in the string section, an item tag goes
  on with the size of the item, its name, its owner and its count of children. A tag pointer is
  the tag's offset in the section, so \<open>hwi_tag2off\<close> and \<open>hwi_off2tag\<close> are the identity. The
  searches \<open>hwi_find_item\<close> (of the C library), \<open>hwi_find_device\<close>, \<open>hwi_find_unit\<close> and \<open>hwi_tag_find\<close>
  (of the driver library) are not part of the sources and are a parameter, as is the constant \<open>AS_NULL_OFF\<close>. Messages of the
  debug level are left out.
\<close>

section \<open>State and layouts\<close>

datatype hwi_ty =
    T_group | T_bus | T_device | T_location | T_irq | T_irqmapping | T_irqrange | T_diskgeometry
  | T_regname | T_inputclk | T_nicaddr | T_nicphyaddr | T_pad | T_synonym | T_busattr | T_dll | T_optstr
  | T_errata | T_nanospin

fun hwi_name :: "hwi_ty \<Rightarrow> u8 list" where
  "hwi_name T_group = cs ''Group''"
| "hwi_name T_bus = cs ''Bus''"
| "hwi_name T_device = cs ''Device''"
| "hwi_name T_synonym = cs ''Synonym''"
| "hwi_name T_location = cs ''location''"
| "hwi_name T_irq = cs ''irq''"
| "hwi_name T_irqmapping = cs ''irqmapping''"
| "hwi_name T_irqrange = cs ''irqrange''"
| "hwi_name T_diskgeometry = cs ''diskgeometry''"
| "hwi_name T_regname = cs ''regname''"
| "hwi_name T_inputclk = cs ''inputclk''"
| "hwi_name T_nicaddr = cs ''nicaddr''"
| "hwi_name T_nicphyaddr = cs ''nicphyaddr''"
| "hwi_name T_busattr = cs ''busattr''"
| "hwi_name T_optstr = cs ''optstr''"
| "hwi_name T_dll = cs ''drvr_dll''"
| "hwi_name T_errata = cs ''errata''"
| "hwi_name T_nanospin = cs ''nanospin''"
| "hwi_name T_pad = cs ''pad''"

text \<open>The sizes of the structures, with the natural alignment of their fields.\<close>

fun hwi_size :: "hwi_ty \<Rightarrow> nat" where
  "hwi_size T_group = 12"
| "hwi_size T_bus = 12"
| "hwi_size T_device = 16"
| "hwi_size T_synonym = 16"
| "hwi_size T_location = 24"
| "hwi_size T_irq = 8"
| "hwi_size T_irqmapping = 12"
| "hwi_size T_irqrange = 12"
| "hwi_size T_diskgeometry = 16"
| "hwi_size T_regname = 8"
| "hwi_size T_inputclk = 12"
| "hwi_size T_nicaddr = 8"
| "hwi_size T_nicphyaddr = 8"
| "hwi_size T_busattr = 32"
| "hwi_size T_optstr = 8"
| "hwi_size T_dll = 8"
| "hwi_size T_errata = 8"
| "hwi_size T_nanospin = 12"
| "hwi_size T_pad = 4"

fun hwi_align :: "hwi_ty \<Rightarrow> nat" where
  "hwi_align T_location = 8"
| "hwi_align T_busattr = 8"
| "hwi_align _ = 4"

abbreviation (input) HWI_NULL_OFF :: nat where
  "HWI_NULL_OFF \<equiv> 0xffff"

abbreviation (input) HWI_ILLEGAL_VECTOR :: u32 where
  "HWI_ILLEGAL_VECTOR \<equiv> - 1"

text \<open>The static variables \<open>offset\<close> and \<open>last_item\<close> beside the system page.\<close>

record hwi =
  hwi_st :: sst
  hw_offset :: nat
  last_item :: nat

record hwi_lib =
  find_item :: "hwi \<Rightarrow> nat \<Rightarrow> u8 list list \<Rightarrow> nat"
  find_device :: "hwi \<Rightarrow> u8 list \<Rightarrow> nat \<Rightarrow> nat"
  find_unit :: "hwi \<Rightarrow> nat \<Rightarrow> nat"
  tag_find :: "hwi \<Rightarrow> nat \<Rightarrow> u8 list \<Rightarrow> nat \<Rightarrow> nat option \<times> nat"
  AS_NULL_OFF :: u16

abbreviation hwi_lsp :: "hwi \<Rightarrow> lsp" where
  "hwi_lsp s \<equiv> st_lsp (hwi_st s)"

abbreviation set_lsp :: "lsp \<Rightarrow> hwi \<Rightarrow> hwi" where
  "set_lsp l s \<equiv> s\<lparr>hwi_st := (hwi_st s)\<lparr>st_lsp := l\<rparr>\<rparr>"

definition le16 :: "u16 \<Rightarrow> u8 list" where
  "le16 w = [ucast w, ucast (drop_bit 8 w)]"

definition le64 :: "u64 \<Rightarrow> u8 list" where
  "le64 w = le32 (ucast w) @ le32 (ucast (drop_bit 32 w))"

definition tag_put :: "nat \<Rightarrow> u8 list \<Rightarrow> hwi \<Rightarrow> hwi" where
  "tag_put off bs s =
     (let l = hwi_lsp s in set_lsp (l\<lparr>lsp_mem := mem_write (lsp_mem l) (s_p l S_hwinfo + off) bs\<rparr>) s)"

definition tag_get8 :: "nat \<Rightarrow> hwi \<Rightarrow> u8" where
  "tag_get8 off s = lsp_mem (hwi_lsp s) (s_p (hwi_lsp s) S_hwinfo + off)"

definition tag_get16 :: "nat \<Rightarrow> hwi \<Rightarrow> u16" where
  "tag_get16 off s = ucast (tag_get8 off s) OR push_bit 8 (ucast (tag_get8 (off + 1) s))"

definition tag_get32 :: "nat \<Rightarrow> hwi \<Rightarrow> u32" where
  "tag_get32 off s = ucast (tag_get16 off s) OR push_bit 16 (ucast (tag_get16 (off + 2) s))"

definition tag_add16 :: "nat \<Rightarrow> nat \<Rightarrow> hwi \<Rightarrow> hwi" where
  "tag_add16 off n s = tag_put off (le16 (tag_get16 off s + of_nat n)) s"

section \<open>\<open>hwi_alloc.c\<close>\<close>

text \<open>\<open>hwi_alloc_tag\<close> behind its call of \<open>align_tag\<close>.\<close>

definition place_tag :: "u8 list \<Rightarrow> nat \<Rightarrow> hwi \<Rightarrow> (nat \<times> hwi) res" where
  "place_tag name sz s =
     rbind (add_string name (hwi_lsp s)) (\<lambda>(name_off, l).
     rbind (grow_syspage_section S_hwinfo sz l) (\<lambda>l.
       let s = set_lsp l s;
           s = tag_add16 (last_item s + 4) (sz div 4) s;
           tag = hw_offset s;
           s = tag_put tag (le16 (of_nat (sz div 4))) s;
           s = tag_put (tag + 2) (le16 (of_nat name_off)) s
       in Inr (tag, s\<lparr>hw_offset := (hw_offset s + sz) mod 2 ^ 32\<rparr>)))"

definition misaligned :: "nat \<Rightarrow> hwi \<Rightarrow> bool" where
  "misaligned align s \<longleftrightarrow> unat (ROUND (of_nat (hw_offset s)) (of_nat align) - of_nat (hw_offset s)) \<noteq> 0"

text \<open>
  \<open>align_tag\<close> calls \<open>hwi_alloc_tag\<close> for a padding tag, which itself begins with \<open>align_tag\<close>. If the
  offset is not aligned for the padding tag either, nothing has changed and the two call each other
  for ever: \<open>AllocDiverges\<close>.
\<close>

definition align_tag :: "nat \<Rightarrow> hwi \<Rightarrow> hwi res" where
  "align_tag align s =
     (if misaligned align s then
        (if misaligned (hwi_align T_pad) s then Inl AllocDiverges
         else rbind (place_tag (hwi_name T_pad) (hwi_size T_pad) s) (\<lambda>(_, s). Inr s))
      else Inr s)"

definition hwi_alloc_tag :: "u8 list \<Rightarrow> nat \<Rightarrow> nat \<Rightarrow> hwi \<Rightarrow> (nat \<times> hwi) res" where
  "hwi_alloc_tag name sz align s = rbind (align_tag align s) (place_tag name sz)"

definition hwi_alloc_item :: "u8 list \<Rightarrow> nat \<Rightarrow> nat \<Rightarrow> u8 list \<Rightarrow> nat \<Rightarrow> hwi \<Rightarrow> (nat \<times> hwi) res" where
  "hwi_alloc_item name sz align itemname owner s =
     rbind (add_string itemname (hwi_lsp s)) (\<lambda>(saved_in, l).
     rbind (align_tag align (set_lsp l s)) (\<lambda>s.
     rbind (hwi_alloc_tag name sz align (s\<lparr>last_item := hw_offset s\<rparr>)) (\<lambda>(tag, s).
       let s = tag_put (tag + 6) (le16 (of_nat saved_in)) s;
           s = tag_put (tag + 8) (le16 (of_nat owner)) s;
           s = (if owner \<noteq> HWI_NULL_OFF then tag_add16 (owner + 10) 1 s else s)
       in Inr (tag, s))))"

text \<open>The parameter \<open>offset\<close> of \<open>hwi_grow_tag\<close> hides the static variable, which is not advanced.\<close>

definition hwi_grow_tag :: "nat \<Rightarrow> nat \<Rightarrow> hwi \<Rightarrow> (nat \<times> hwi) res" where
  "hwi_grow_tag offset sz s =
     rbind (grow_syspage_section S_hwinfo sz (hwi_lsp s)) (\<lambda>l.
       let s = set_lsp l s;
           s = tag_add16 (last_item s + 4) (sz div 4) s;
           s = tag_add16 offset (sz div 4) s
       in Inr (offset, s))"

text \<open>The macro \<open>HWI_TAG_INFO\<close> passes a type's name, size and alignment.\<close>

definition alloc_tag :: "hwi_ty \<Rightarrow> hwi \<Rightarrow> (nat \<times> hwi) res" where
  "alloc_tag ty s = hwi_alloc_tag (hwi_name ty) (hwi_size ty) (hwi_align ty) s"

definition alloc_item :: "hwi_ty \<Rightarrow> u8 list \<Rightarrow> nat \<Rightarrow> hwi \<Rightarrow> (nat \<times> hwi) res" where
  "alloc_item ty itemname owner s = hwi_alloc_item (hwi_name ty) (hwi_size ty) (hwi_align ty) itemname owner s"

section \<open>Tags\<close>

definition puts :: "(nat \<times> u8 list) list \<Rightarrow> nat \<Rightarrow> hwi \<Rightarrow> hwi" where
  "puts fs tag s = fold (\<lambda>(f, bs). tag_put (tag + f) bs) fs s"

definition hwitag_add_location :: "nat \<Rightarrow> u32 \<Rightarrow> u32 \<Rightarrow> u32 \<Rightarrow> u32 \<Rightarrow> hwi \<Rightarrow> hwi res" where
  "hwitag_add_location hwi_off base len reg_shift addr_space s =
     rbind (alloc_tag T_location s) (\<lambda>(tag, s).
       Inr (puts [(8, le64 (ucast base)), (4, le32 len), (16, le16 (ucast reg_shift)), (18, le16 (ucast addr_space))] tag s))"

definition hwitag_add_irq :: "nat \<Rightarrow> u32 \<Rightarrow> hwi \<Rightarrow> hwi res" where
  "hwitag_add_irq hwi_off vector s =
     rbind (alloc_tag T_irq s) (\<lambda>(tag, s). Inr (puts [(4, le32 vector)] tag s))"

definition hwitag_add_irqrange :: "nat \<Rightarrow> u32 \<Rightarrow> u32 \<Rightarrow> hwi \<Rightarrow> hwi res" where
  "hwitag_add_irqrange hwi_off start_vector num s =
     rbind (alloc_tag T_irqrange s) (\<lambda>(tag, s).
       Inr (puts [(4, le32 start_vector), (8, le16 (ucast num))] tag s))"

definition hwitag_add_inputclk :: "nat \<Rightarrow> u32 \<Rightarrow> u32 \<Rightarrow> hwi \<Rightarrow> hwi res" where
  "hwitag_add_inputclk hwi_off clk dv s =
     rbind (alloc_tag T_inputclk s) (\<lambda>(tag, s). Inr (puts [(4, le32 clk), (8, le32 dv)] tag s))"

definition hwitag_add_nicaddr :: "nat \<Rightarrow> u8 list \<Rightarrow> hwi \<Rightarrow> hwi res" where
  "hwitag_add_nicaddr hwi_off addr s =
     rbind (hwi_alloc_tag (hwi_name T_nicaddr) (round4 (8 + length addr)) (hwi_align T_nicaddr) s) (\<lambda>(tag, s).
       Inr (puts [(4, le32 (of_nat (length addr))), (8, addr)] tag s))"

definition hwitag_add_nicphyaddr :: "nat \<Rightarrow> u32 \<Rightarrow> hwi \<Rightarrow> hwi res" where
  "hwitag_add_nicphyaddr hwi_off addr s =
     rbind (alloc_tag T_nicphyaddr s) (\<lambda>(tag, s). Inr (puts [(4, le32 addr)] tag s))"

definition hwitag_add_regname :: "nat \<Rightarrow> u8 list \<Rightarrow> u32 \<Rightarrow> hwi \<Rightarrow> hwi res" where
  "hwitag_add_regname hwi_off name regoffset s =
     rbind (add_string name (hwi_lsp s)) (\<lambda>(string_idx, l).
     rbind (alloc_tag T_regname (set_lsp l s)) (\<lambda>(tag, s).
       Inr (puts [(4, le16 (of_nat string_idx)), (6, le16 (ucast regoffset))] tag s)))"

record busattr =
  ba_flags :: u32
  ba_addr :: u64
  ba_speed :: u32
  ba_width :: u16
  ba_spare :: u16
  ba_size :: u64

definition hwitag_add_busattr :: "nat \<Rightarrow> busattr option \<Rightarrow> hwi \<Rightarrow> hwi res" where
  "hwitag_add_busattr hwi_off attr s =
     rbind (alloc_tag T_busattr s) (\<lambda>(tag, s).
       Inr (puts [(16, le32 (case attr of None \<Rightarrow> 0 | Some a \<Rightarrow> ba_speed a)),
                  (20, le16 (case attr of None \<Rightarrow> 0 | Some a \<Rightarrow> ba_width a)),
                  (8, le64 (case attr of None \<Rightarrow> 0 | Some a \<Rightarrow> ba_addr a)),
                  (4, le32 (case attr of None \<Rightarrow> 0 | Some a \<Rightarrow> ba_flags a))] tag s))"

definition hwitag_add_errata :: "nat \<Rightarrow> u32 \<Rightarrow> hwi \<Rightarrow> hwi res" where
  "hwitag_add_errata hwi_off errata_num s =
     rbind (alloc_tag T_errata s) (\<lambda>(tag, s). Inr (puts [(4, le32 errata_num)] tag s))"

definition hwitag_add_dll :: "nat \<Rightarrow> u8 list \<Rightarrow> hwi \<Rightarrow> hwi res" where
  "hwitag_add_dll hwi_off dll s =
     rbind (add_string dll (hwi_lsp s)) (\<lambda>(string_idx, l).
     rbind (alloc_tag T_dll (set_lsp l s)) (\<lambda>(tag, s). Inr (puts [(4, le32 (of_nat string_idx))] tag s)))"

definition hwitag_add_optstr :: "nat \<Rightarrow> u8 list \<Rightarrow> hwi \<Rightarrow> hwi res" where
  "hwitag_add_optstr hwi_off str s =
     rbind (add_string str (hwi_lsp s)) (\<lambda>(string_idx, l).
     rbind (alloc_tag T_optstr (set_lsp l s)) (\<lambda>(tag, s). Inr (puts [(4, le32 (of_nat string_idx))] tag s)))"

text \<open>A counted loop that adds one tag per round; the round may depend on the count.\<close>

fun add_each :: "(nat \<Rightarrow> hwi \<Rightarrow> hwi res) \<Rightarrow> nat list \<Rightarrow> hwi \<Rightarrow> hwi res" where
  "add_each f [] s = Inr s"
| "add_each f (i # is) s = rbind (f i s) (add_each f is)"

abbreviation add_n :: "nat \<Rightarrow> (hwi \<Rightarrow> hwi res) \<Rightarrow> hwi \<Rightarrow> hwi res" where
  "add_n n f \<equiv> add_each (\<lambda>_. f) [0..<n]"

record hwiattr_common =
  at_base :: u32
  at_len :: u32
  at_regshift :: u16
  at_addrspace :: u16
  at_dll :: "u8 list option"
  at_optstr :: "u8 list option"
  num_irq :: nat
  num_errata :: nat

definition hwitag_add_common :: "nat \<Rightarrow> hwiattr_common \<Rightarrow> hwi \<Rightarrow> hwi res" where
  "hwitag_add_common hwi_off attr s =
     rbind (hwitag_add_location hwi_off (at_base attr) (at_len attr) (ucast (at_regshift attr)) (ucast (at_addrspace attr)) s) (\<lambda>s.
     rbind (add_n (num_irq attr) (hwitag_add_irq hwi_off HWI_ILLEGAL_VECTOR) s) (\<lambda>s.
     rbind (case at_dll attr of None \<Rightarrow> Inr s | Some dll \<Rightarrow> hwitag_add_dll hwi_off dll s) (\<lambda>s.
     rbind (case at_optstr attr of None \<Rightarrow> Inr s | Some str \<Rightarrow> hwitag_add_optstr hwi_off str s) (\<lambda>s.
     add_n (num_errata attr) (hwitag_add_errata hwi_off 0) s))))"

section \<open>Setting tags that are there\<close>

text \<open>The result is the C truth value; \<^term>\<open>None\<close> from the search is a null pointer.\<close>

definition set_tag :: "hwi_lib \<Rightarrow> hwi_ty \<Rightarrow> nat \<Rightarrow> nat \<Rightarrow> (nat \<Rightarrow> hwi \<Rightarrow> hwi) \<Rightarrow> hwi \<Rightarrow> bool \<times> hwi" where
  "set_tag L ty hwi_off idx f s =
     (case fst (tag_find L s hwi_off (hwi_name ty) idx) of
        None \<Rightarrow> (False, s) | Some tag \<Rightarrow> (True, f tag s))"

definition hwitag_set_ivec :: "hwi_lib \<Rightarrow> nat \<Rightarrow> nat \<Rightarrow> u32 \<Rightarrow> hwi \<Rightarrow> bool \<times> hwi" where
  "hwitag_set_ivec L hwi_off ivec_idx vector = set_tag L T_irq hwi_off ivec_idx (puts [(4, le32 vector)])"

definition hwitag_set_ivecrange :: "hwi_lib \<Rightarrow> nat \<Rightarrow> nat \<Rightarrow> u32 \<Rightarrow> u32 \<Rightarrow> hwi \<Rightarrow> bool \<times> hwi" where
  "hwitag_set_ivecrange L hwi_off idx start_vector num =
     set_tag L T_irqrange hwi_off idx (puts [(4, le32 start_vector), (8, le16 (ucast num))])"

definition hwitag_set_errata :: "hwi_lib \<Rightarrow> nat \<Rightarrow> nat \<Rightarrow> u32 \<Rightarrow> hwi \<Rightarrow> bool \<times> hwi" where
  "hwitag_set_errata L hwi_off idx errata = set_tag L T_errata hwi_off idx (puts [(4, le32 errata)])"

definition hwitag_set_phyaddr :: "hwi_lib \<Rightarrow> nat \<Rightarrow> nat \<Rightarrow> u32 \<Rightarrow> hwi \<Rightarrow> bool \<times> hwi" where
  "hwitag_set_phyaddr L hwi_off idx phy_addr = set_tag L T_nicphyaddr hwi_off idx (puts [(4, le32 phy_addr)])"

text \<open>\<open>memcpy\<close> of as many bytes as the tag has room for: \<open>nic_addr\<close> must have that many.\<close>

definition hwitag_set_nicaddr :: "hwi_lib \<Rightarrow> nat \<Rightarrow> nat \<Rightarrow> u8 list \<Rightarrow> hwi \<Rightarrow> bool \<times> hwi" where
  "hwitag_set_nicaddr L hwi_off idx nic_addr =
     set_tag L T_nicaddr hwi_off idx (\<lambda>tag s. tag_put (tag + 8) (take (unat (tag_get32 (tag + 4) s)) nic_addr) s)"

text \<open>The prefix of the tag is kept: the caller's structure takes it over first.\<close>

definition hwitag_set_inputclk :: "hwi_lib \<Rightarrow> nat \<Rightarrow> nat \<Rightarrow> u32 \<times> u32 \<Rightarrow> hwi \<Rightarrow> bool \<times> hwi" where
  "hwitag_set_inputclk L hwi_off idx clk =
     set_tag L T_inputclk hwi_off idx (puts [(4, le32 (fst clk)), (8, le32 (snd clk))])"

definition hwitag_set_busattr :: "hwi_lib \<Rightarrow> nat \<Rightarrow> nat \<Rightarrow> busattr \<Rightarrow> hwi \<Rightarrow> bool \<times> hwi" where
  "hwitag_set_busattr L hwi_off idx a =
     set_tag L T_busattr hwi_off idx
       (puts [(4, le32 (ba_flags a)), (8, le64 (ba_addr a)), (16, le32 (ba_speed a)), (20, le16 (ba_width a)),
              (22, le16 (ba_spare a)), (24, le64 (ba_size a))])"

text \<open>
  The search for a free interrupt tag goes on while tags are found; a library search that never
  runs out of tags would keep it going, so it is a partial function.
\<close>

partial_function (option) avail_loop :: "hwi_lib \<Rightarrow> nat \<Rightarrow> bool \<Rightarrow> u32 \<Rightarrow> nat \<Rightarrow> hwi \<Rightarrow> (int \<times> hwi) option" where
  "avail_loop L hwi_off fixed vector tag_idx s =
     (case tag_find L s hwi_off (hwi_name T_irq) tag_idx of
        (None, _) \<Rightarrow> Some (- 1, s)
      | (Some tag, tag_idx) \<Rightarrow>
          (if tag_get32 (tag + 4) s = HWI_ILLEGAL_VECTOR
           then Some (int tag_idx - 1, tag_put (tag + 4) (le32 vector) s)
           else if fixed then Some (- 1, s)
           else avail_loop L hwi_off fixed vector tag_idx s))"

definition hwitag_set_avail_ivec :: "hwi_lib \<Rightarrow> nat \<Rightarrow> int \<Rightarrow> u32 \<Rightarrow> hwi \<Rightarrow> (int \<times> hwi) option" where
  "hwitag_set_avail_ivec L hwi_off ivec_idx vector s =
     avail_loop L hwi_off (0 \<le> ivec_idx) vector (if ivec_idx < 0 then 0 else nat ivec_idx) s"

section \<open>Buses and devices\<close>

abbreviation root_hw :: "u8 list" where "root_hw \<equiv> cs ''hw''"
abbreviation bus_unknown :: "u8 list" where "bus_unknown \<equiv> cs ''unknown''"

definition hwi_default :: "hwi \<Rightarrow> hwi res" where
  "hwi_default s =
     rbind (alloc_item T_group root_hw HWI_NULL_OFF s) (\<lambda>(tag, s).
     rbind (alloc_item T_bus bus_unknown tag s) (\<lambda>(_, s). Inr s))"

definition hwi_add_device :: "hwi_lib \<Rightarrow> u8 list \<Rightarrow> u8 list \<Rightarrow> u8 list \<Rightarrow> u32 \<Rightarrow> hwi \<Rightarrow> hwi res" where
  "hwi_add_device L bname cname dname pnp s =
     (let bus = find_item L s HWI_NULL_OFF [bname]
      in rbind (if bus = HWI_NULL_OFF
                then alloc_item T_bus bname (find_item L s HWI_NULL_OFF [root_hw]) s
                else Inr (bus, s)) (\<lambda>(bus, s).
         let cls = find_item L s HWI_NULL_OFF [bname, cname]
         in rbind (if cls = HWI_NULL_OFF then alloc_item T_group cname bus s else Inr (cls, s)) (\<lambda>(cls, s).
            rbind (alloc_item T_device dname cls s) (\<lambda>(tag, s). Inr (puts [(12, le32 pnp)] tag s)))))"

definition hwi_add_inputclk :: "u32 \<Rightarrow> u32 \<Rightarrow> hwi \<Rightarrow> hwi res" where
  "hwi_add_inputclk clk dv s = hwitag_add_inputclk HWI_NULL_OFF clk dv s"

definition hwi_add_irq :: "u32 \<Rightarrow> hwi \<Rightarrow> hwi res" where
  "hwi_add_irq vector s = hwitag_add_irq HWI_NULL_OFF vector s"

definition hwi_add_location :: "u32 \<Rightarrow> u32 \<Rightarrow> u32 \<Rightarrow> u32 \<Rightarrow> hwi \<Rightarrow> hwi res" where
  "hwi_add_location base len reg_shift addr_space s = hwitag_add_location HWI_NULL_OFF base len reg_shift addr_space s"

definition hwi_add_nicaddr :: "u8 list \<Rightarrow> hwi \<Rightarrow> hwi res" where
  "hwi_add_nicaddr addr s = hwitag_add_nicaddr HWI_NULL_OFF addr s"

definition hwi_add_nicphyaddr :: "u32 \<Rightarrow> hwi \<Rightarrow> hwi res" where
  "hwi_add_nicphyaddr addr s = hwitag_add_nicphyaddr HWI_NULL_OFF addr s"

definition hwi_add_nanospin :: "hwi_lib \<Rightarrow> u32 \<Rightarrow> u32 \<Rightarrow> hwi \<Rightarrow> hwi res" where
  "hwi_add_nanospin L hundred_loop_time overhead s =
     rbind (hwi_add_device L bus_unknown (cs ''misc'') (cs ''nanospin_calibrate'') 0 s) (\<lambda>s.
     rbind (alloc_tag T_nanospin s) (\<lambda>(tag, s).
       Inr (puts [(4, le32 hundred_loop_time), (8, le32 overhead)] tag s)))"

text \<open>An offset in the address space table, which \<open>Startup_As\<close> gives as an index, in bytes.\<close>

definition as_byte_off :: "hwi_lib \<Rightarrow> hwi \<Rightarrow> nat option \<Rightarrow> u32" where
  "as_byte_off L s i = (case i of None \<Rightarrow> ucast (AS_NULL_OFF L) | Some i \<Rightarrow> of_nat (i * sz_asinfo (lsp_abi (hwi_lsp s))))"

definition hwi_add_rtc :: "hwi_lib \<Rightarrow> u8 list \<Rightarrow> u32 \<Rightarrow> nat \<Rightarrow> u32 \<Rightarrow> bool \<Rightarrow> int \<Rightarrow> hwi \<Rightarrow> hwi res" where
  "hwi_add_rtc L name base reg_shift len mmap cent_reg s =
     rbind (hwi_add_device L bus_unknown (cs ''rtc'') name 0 s) (\<lambda>s.
     rbind (hwi_add_location base (push_bit reg_shift len) (of_nat reg_shift)
              (as_byte_off L s (hwi_find_as base mmap (hwi_st s))) s) (\<lambda>s.
       if cent_reg \<noteq> - 1
       then rbind (alloc_tag T_regname s) (\<lambda>(cent, s).
              Inr (puts [(4, le16 0), (6, le16 (of_int cent_reg))] cent s))
       else Inr s))"

definition hwi_add_synonym :: "hwi_lib \<Rightarrow> nat \<Rightarrow> u8 list \<Rightarrow> hwi \<Rightarrow> (nat \<times> hwi) res" where
  "hwi_add_synonym L hwi_off synonym_name s =
     (let owner = find_item L s HWI_NULL_OFF [root_hw]
      in if hwi_off = HWI_NULL_OFF \<or> owner = HWI_NULL_OFF then Inr (HWI_NULL_OFF, s)
         else rbind (alloc_item T_synonym synonym_name owner s) (\<lambda>(tag, s).
                Inr (tag, puts [(12, le32 (of_nat hwi_off))] tag s)))"

definition hwibus_add :: "hwi_lib \<Rightarrow> u8 list \<Rightarrow> nat \<Rightarrow> hwi \<Rightarrow> (nat \<times> hwi) res" where
  "hwibus_add L bus_name parent s =
     (let parent = (if parent \<noteq> HWI_NULL_OFF then parent else find_item L s HWI_NULL_OFF [root_hw])
      in if parent \<noteq> HWI_NULL_OFF then alloc_item T_bus bus_name parent s else Inr (HWI_NULL_OFF, s))"

definition hwidev_add :: "hwi_lib \<Rightarrow> u8 list \<Rightarrow> u32 \<Rightarrow> nat \<Rightarrow> hwi \<Rightarrow> (nat \<times> hwi) res" where
  "hwidev_add L device_name pnp bus s =
     (let bus = (if bus \<noteq> HWI_NULL_OFF then bus else find_item L s HWI_NULL_OFF [root_hw, bus_unknown])
      in if bus \<noteq> HWI_NULL_OFF
         then rbind (alloc_item T_device device_name bus s) (\<lambda>(tag, s). Inr (tag, puts [(12, le32 pnp)] tag s))
         else Inr (HWI_NULL_OFF, s))"

text \<open>What the adding functions share: the tags are added when the item was, and attributes are given.\<close>

definition with_attr :: "(nat \<times> hwi) res \<Rightarrow> 'a option \<Rightarrow> (nat \<Rightarrow> 'a \<Rightarrow> hwi \<Rightarrow> hwi res) \<Rightarrow> (nat \<times> hwi) res" where
  "with_attr r attr f =
     rbind r (\<lambda>(hwi_off, s).
       case attr of None \<Rightarrow> Inr (hwi_off, s)
       | Some a \<Rightarrow> if hwi_off \<noteq> HWI_NULL_OFF then rbind (f hwi_off a s) (\<lambda>s. Inr (hwi_off, s)) else Inr (hwi_off, s))"

text \<open>\<open>hwiattr_uart_t\<close> and \<open>hwiattr_timer_t\<close> have the same fields.\<close>

record hwiattr_clks =
  clks_common :: hwiattr_common
  num_clks :: nat

record hwiattr_enet =
  enet_common :: hwiattr_common
  mac :: "u8 list"
  enet_clks :: nat
  num_phys :: nat

record hwiattr_rtc =
  rtc_common :: hwiattr_common
  centreg_name :: "u8 list option"
  centreg_offset :: u16

record hwiattr_i2c =
  i2c_common :: hwiattr_common
  i2c_clks :: nat
  i2c_busattr :: nat

record hwiattr_pci =
  pci_common :: hwiattr_common
  num_irqblks :: nat
  pci_busattr :: nat

record hwiattr_can =
  can_common :: hwiattr_common
  can_clks :: nat
  num_memaddr :: nat

definition hwibus_add_can :: "hwi_lib \<Rightarrow> nat \<Rightarrow> hwiattr_can option \<Rightarrow> hwi \<Rightarrow> (nat \<times> hwi) res" where
  "hwibus_add_can L parent attr s =
     with_attr (hwibus_add L (cs ''can'') parent s) attr (\<lambda>off a s.
       rbind (hwitag_add_common off (can_common a) s) (\<lambda>s.
       rbind (add_n (can_clks a) (hwitag_add_inputclk off 0 1) s) (\<lambda>s.
       add_n (num_memaddr a) (hwitag_add_location off 0 0 0 0) s)))"

definition hwibus_add_i2c :: "hwi_lib \<Rightarrow> nat \<Rightarrow> hwiattr_i2c option \<Rightarrow> hwi \<Rightarrow> (nat \<times> hwi) res" where
  "hwibus_add_i2c L parent attr s =
     with_attr (hwibus_add L (cs ''i2c'') parent s) attr (\<lambda>off a s.
       rbind (hwitag_add_common off (i2c_common a) s) (\<lambda>s.
       rbind (add_n (i2c_clks a) (hwitag_add_inputclk off 0 1) s) (\<lambda>s.
       add_n (i2c_busattr a) (hwitag_add_busattr off None) s)))"

text \<open>\<open>hwiattr_spi_t\<close> has the fields of \<open>hwiattr_i2c_t\<close>.\<close>

definition hwibus_add_spi :: "hwi_lib \<Rightarrow> nat \<Rightarrow> hwiattr_i2c option \<Rightarrow> hwi \<Rightarrow> (nat \<times> hwi) res" where
  "hwibus_add_spi L parent attr s =
     with_attr (hwibus_add L (cs ''spi'') parent s) attr (\<lambda>off a s.
       rbind (hwitag_add_common off (i2c_common a) s) (\<lambda>s.
       rbind (add_n (i2c_clks a) (hwitag_add_inputclk off 0 1) s) (\<lambda>s.
       add_n (i2c_busattr a) (hwitag_add_busattr off None) s)))"

definition hwibus_add_pci :: "hwi_lib \<Rightarrow> nat \<Rightarrow> hwiattr_pci option \<Rightarrow> hwi \<Rightarrow> (nat \<times> hwi) res" where
  "hwibus_add_pci L parent attr s =
     with_attr (hwibus_add L (cs ''pci'') parent s) attr (\<lambda>off a s.
       rbind (hwitag_add_common off (pci_common a) s) (\<lambda>s.
       rbind (add_n (num_irqblks a) (hwitag_add_irqrange off HWI_ILLEGAL_VECTOR 0) s) (\<lambda>s.
       add_n (pci_busattr a) (hwitag_add_busattr off None) s)))"

definition hwibus_add_usb :: "hwi_lib \<Rightarrow> nat \<Rightarrow> hwiattr_common option \<Rightarrow> hwi \<Rightarrow> (nat \<times> hwi) res" where
  "hwibus_add_usb L parent attr s = with_attr (hwibus_add L (cs ''usb'') parent s) attr hwitag_add_common"

text \<open>
  The device classes of \<open>sys/hwinfo.h\<close> number the devices; the unused \<open>pnpid\<close> carries the class.
\<close>

abbreviation (input) hwi_devclass_UART :: u32 where "hwi_devclass_UART \<equiv> 1"
abbreviation (input) hwi_devclass_ENET :: u32 where "hwi_devclass_ENET \<equiv> 2"
abbreviation (input) hwi_devclass_RTC :: u32 where "hwi_devclass_RTC \<equiv> 3"
abbreviation (input) hwi_devclass_DMA :: u32 where "hwi_devclass_DMA \<equiv> 4"
abbreviation (input) hwi_devclass_TIMER :: u32 where "hwi_devclass_TIMER \<equiv> 7"

definition hwidev_add_dma :: "hwi_lib \<Rightarrow> u8 list \<Rightarrow> hwiattr_common option \<Rightarrow> nat \<Rightarrow> hwi \<Rightarrow> (nat \<times> hwi) res" where
  "hwidev_add_dma L device_name attr bus s =
     with_attr (hwidev_add L device_name hwi_devclass_DMA bus s) attr hwitag_add_common"

definition hwidev_add_enet :: "hwi_lib \<Rightarrow> u8 list \<Rightarrow> hwiattr_enet option \<Rightarrow> nat \<Rightarrow> hwi \<Rightarrow> (nat \<times> hwi) res" where
  "hwidev_add_enet L device_name attr bus s =
     with_attr (hwidev_add L device_name hwi_devclass_ENET bus s) attr (\<lambda>off a s.
       rbind (hwitag_add_common off (enet_common a) s) (\<lambda>s.
       rbind (add_each (\<lambda>i. hwitag_add_nicphyaddr off (of_nat i)) [0..<num_phys a] s) (\<lambda>s.
       rbind (add_n (enet_clks a) (hwitag_add_inputclk off 0 1) s) (\<lambda>s.
       if mac a \<noteq> [0, 0, 0, 0, 0, 0] then hwitag_add_nicaddr off (mac a) s else Inr s))))"

definition hwidev_add_rtc :: "hwi_lib \<Rightarrow> u8 list \<Rightarrow> hwiattr_rtc option \<Rightarrow> nat \<Rightarrow> hwi \<Rightarrow> (nat \<times> hwi) res" where
  "hwidev_add_rtc L device_name attr bus s =
     with_attr (hwidev_add L device_name hwi_devclass_RTC bus s) attr (\<lambda>off a s.
       rbind (hwitag_add_common off (rtc_common a) s) (\<lambda>s.
       case centreg_name a of None \<Rightarrow> Inr s | Some name \<Rightarrow> hwitag_add_regname off name (ucast (centreg_offset a)) s))"

definition hwidev_add_timer :: "hwi_lib \<Rightarrow> u8 list \<Rightarrow> hwiattr_clks option \<Rightarrow> nat \<Rightarrow> hwi \<Rightarrow> (nat \<times> hwi) res" where
  "hwidev_add_timer L device_name attr bus s =
     with_attr (hwidev_add L device_name hwi_devclass_TIMER bus s) attr (\<lambda>off a s.
       rbind (hwitag_add_common off (clks_common a) s) (\<lambda>s.
       add_n (num_clks a) (hwitag_add_inputclk off 0 1) s))"

definition hwidev_add_uart :: "hwi_lib \<Rightarrow> u8 list \<Rightarrow> hwiattr_clks option \<Rightarrow> nat \<Rightarrow> hwi \<Rightarrow> (nat \<times> hwi) res" where
  "hwidev_add_uart L device_name attr bus s =
     with_attr (hwidev_add L device_name hwi_devclass_UART bus s) attr (\<lambda>off a s.
       rbind (hwitag_add_common off (clks_common a) s) (\<lambda>s.
       add_n (num_clks a) (hwitag_add_inputclk off 0 1) s))"

end
