(* ===== verification/Startup_Hwitab.thy ===== *)
theory Startup_Hwitab
  imports Startup_Hwi
begin

text \<open>
  The hardware information table is an append-only list of tags: the invariant of the table built by
  \<open>Startup_Hwi\<close>, a reader of the table, and the theorem that adding a device appends exactly its tags.
\<close>

section \<open>The table as a list of tags\<close>

text \<open>A tag is its name's offset and the bytes behind its prefix.\<close>

type_synonym hwi_tag = "u16 \<times> u8 list"

definition enc :: "hwi_tag \<Rightarrow> u8 list" where
  "enc t = le16 (of_nat (Suc (length (snd t) div 4))) @ le16 (fst t) @ snd t"

definition encs :: "hwi_tag list \<Rightarrow> u8 list" where
  "encs ts = concat (map enc ts)"

abbreviation hwi_data :: "hwi \<Rightarrow> u8 list" where
  "hwi_data s \<equiv> sec_data (hwi_lsp s) S_hwinfo"

lemma length_le16 [simp]: "length (le16 w) = 2"
  by (simp add: le16_def)

lemma length_enc [simp]: "length (enc t) = 4 + length (snd t)"
  by (simp add: enc_def)

lemma enc_not_Nil [simp]: "enc t \<noteq> []"
  by (simp add: enc_def le16_def)

lemma encs_simps [simp]: "encs [] = []" "encs (t # ts) = enc t @ encs ts" "encs (a @ b) = encs a @ encs b"
  by (simp_all add: encs_def)

definition shape :: "hwi_tag list \<Rightarrow> (u16 \<times> nat) list" where
  "shape ts = map (\<lambda>t. (fst t, length (snd t))) ts"

lemma shape_simps [simp]: "shape [] = []" "shape (t # ts) = (fst t, length (snd t)) # shape ts" "shape (a @ b) = shape a @ shape b"
  by (simp_all add: shape_def)

lemma length_encs: "length (encs ts) = sum_list (map (\<lambda>(n, l). 4 + l) (shape ts))"
  by (induction ts) simp_all

lemma length_encs_shape: "shape ts = shape ts' \<Longrightarrow> length (encs ts) = length (encs ts')"
  by (simp add: length_encs)

lemma list_write_append:
  "length a = i \<Longrightarrow> j + length bs \<le> length m \<Longrightarrow> list_write (a @ m @ z) (i + j) bs = a @ list_write m j bs @ z"
  by (simp add: list_write_def)

definition enc_prefix :: "hwi_tag \<Rightarrow> u8 list" where
  "enc_prefix t = le16 (of_nat (Suc (length (snd t) div 4))) @ le16 (fst t)"

lemma enc_eq: "enc t = enc_prefix t @ snd t" and length_enc_prefix [simp]: "length (enc_prefix t) = 4"
  by (simp_all add: enc_def enc_prefix_def)

lemma write_body:
  assumes "f + length bs \<le> length (snd t)"
  shows "list_write (encs a @ enc t @ z) (length (encs a) + 4 + f) bs = encs a @ enc (fst t, list_write (snd t) f bs) @ z"
proof -
  have "enc_prefix (fst t, list_write (snd t) f bs) = enc_prefix t"
    using assms by (simp add: enc_prefix_def length_list_write)
  then show ?thesis
    using list_write_append [of "encs a @ enc_prefix t" "length (encs a) + 4" f bs "snd t" z] assms
    by (simp add: enc_eq)
qed

section \<open>The invariant\<close>

definition hwi_core :: "hwi \<Rightarrow> hwi_tag list \<Rightarrow> bool" where
  "hwi_core s ts \<longleftrightarrow>
     strings_ok (hwi_lsp s) \<and> floating (hwi_lsp s) S_hwinfo \<and>
     sp_total_size (hwi_lsp s) \<le> sp_size (hwi_lsp s) \<and> sp_size (hwi_lsp s) \<le> 2 ^ 16 \<and>
     (\<exists>n \<ge> 8. hwi_data s = encs ts @ replicate n 0) \<and> hw_offset s = length (encs ts) \<and>
     (\<forall>t \<in> set ts. 4 dvd length (snd t) \<and> live_string (hwi_lsp s) (unat (fst t)))"

definition is_tag :: "hwi_tag list \<Rightarrow> nat \<Rightarrow> nat \<Rightarrow> bool" where
  "is_tag ts off n \<longleftrightarrow> (\<exists>a t b. ts = a @ t # b \<and> off = length (encs a) \<and> n \<le> length (snd t))"

lemma tag_put_simps [simp]:
  "hw_offset (tag_put off bs s) = hw_offset s" "last_item (tag_put off bs s) = last_item s"
  "sp_inv (hwi_lsp (tag_put off bs s)) = sp_inv (hwi_lsp s)"
  "floating (hwi_lsp (tag_put off bs s)) k = floating (hwi_lsp s) k"
  "sp_size (hwi_lsp (tag_put off bs s)) = sp_size (hwi_lsp s)"
  "sp_total_size (hwi_lsp (tag_put off bs s)) = sp_total_size (hwi_lsp s)"
  "s_size (hwi_lsp (tag_put off bs s)) k = s_size (hwi_lsp s) k"
  by (simp_all add: tag_put_def Let_def)

lemma tag_put_data:
  assumes "sp_inv (hwi_lsp s)" "off + length bs \<le> s_size (hwi_lsp s) S_hwinfo"
  shows "hwi_data (tag_put off bs s) = list_write (hwi_data s) off bs"
    and "sec_data (hwi_lsp (tag_put off bs s)) S_strings = sec_data (hwi_lsp s) S_strings"
  using assms by (simp_all add: tag_put_def Let_def poke_data sp_inv_def)

lemma tag_put_strings:
  assumes "sp_inv (hwi_lsp s)" "off + length bs \<le> s_size (hwi_lsp s) S_hwinfo"
  shows "strings_ok (hwi_lsp (tag_put off bs s)) = strings_ok (hwi_lsp s)"
    and "hwi_find_string (hwi_lsp (tag_put off bs s)) = hwi_find_string (hwi_lsp s)"
    and "live_string (hwi_lsp (tag_put off bs s)) = live_string (hwi_lsp s)"
proof -
  note d = tag_put_data(2) [OF assms]
  show "strings_ok (hwi_lsp (tag_put off bs s)) = strings_ok (hwi_lsp s)"
    unfolding strings_ok_def d by simp
  show f: "hwi_find_string (hwi_lsp (tag_put off bs s)) = hwi_find_string (hwi_lsp s)"
    unfolding hwi_find_string_def d ..
  show "live_string (hwi_lsp (tag_put off bs s)) = live_string (hwi_lsp s)"
    unfolding live_string_def fun_eq_iff f by simp
qed

lemma hwi_coreE:
  assumes "hwi_core s ts"
  obtains n where "8 \<le> n" "hwi_data s = encs ts @ replicate n 0" "hw_offset s = length (encs ts)"
    "s_size (hwi_lsp s) S_hwinfo = length (encs ts) + n" "sp_inv (hwi_lsp s)" "lsp_ok (hwi_lsp s)"
proof -
  obtain n where n: "8 \<le> n" "hwi_data s = encs ts @ replicate n 0"
    using assms unfolding hwi_core_def by blast
  have "s_size (hwi_lsp s) S_hwinfo = length (encs ts) + n"
    using arg_cong [OF n(2), of length] by simp
  then show ?thesis using that n assms by (simp add: hwi_core_def strings_ok_def sp_inv_def)
qed

text \<open>Writing inside the body of a tag.\<close>

lemma put_body:
  assumes core: "hwi_core s ts" and tag: "is_tag ts off (f + length bs)"
  shows "\<exists>ts'. hwi_core (tag_put (off + 4 + f) bs s) ts' \<and> shape ts' = shape ts"
proof -
  obtain a t b where t: "ts = a @ t # b" "off = length (encs a)" "f + length bs \<le> length (snd t)"
    using tag by (auto simp: is_tag_def)
  obtain n where n: "8 \<le> n" "hwi_data s = encs ts @ replicate n 0" "hw_offset s = length (encs ts)"
    "s_size (hwi_lsp s) S_hwinfo = length (encs ts) + n" "sp_inv (hwi_lsp s)"
    using core by (rule hwi_coreE)
  have room: "off + 4 + f + length bs \<le> s_size (hwi_lsp s) S_hwinfo"
    using t by (simp add: n(4))
  let ?t = "(fst t, list_write (snd t) f bs)" and ?s = "tag_put (off + 4 + f) bs s"
  have "hwi_data ?s = list_write (hwi_data s) (off + 4 + f) bs"
    by (rule tag_put_data(1) [OF n(5) room])
  also have "\<dots> = encs (a @ ?t # b) @ replicate n 0"
    using write_body [OF t(3), of a "encs b @ replicate n 0"]
    by (simp only: n(2) t(1) t(2) encs_simps append_assoc)
  finally have "hwi_data ?s = encs (a @ ?t # b) @ replicate n 0" .
  then have "hwi_core ?s (a @ ?t # b)"
    using core n t length_list_write [OF t(3)] tag_put_strings [OF n(5) room]
    unfolding hwi_core_def by auto
  then show ?thesis using t length_list_write [OF t(3)] by (intro exI [of _ "a @ ?t # b"]) simp
qed

lemma add_string_sizes:
  assumes "strings_ok l" "name_ok x" "sp_total_size l \<le> sp_size l" "add_string x l = Inr (off, l')"
  shows "sp_size l' = sp_size l \<and> sp_total_size l' \<le> sp_size l'"
proof -
  have lok: "lsp_ok l" using assms(1) by (simp add: strings_ok_def sp_inv_def)
  obtain i b where sc: "add_string_scan (sec_data l S_strings) x 0 = Some (i, b)"
    using assms(4) by (cases "add_string_scan (sec_data l S_strings) x 0") (auto simp: add_string_def)
  let ?k = "length x + 2 - (s_size l S_strings - i)"
  have "length x \<le> 2 ^ 20" using assms(2) by (simp add: name_ok_def)
  then have k: "?k \<le> 2 ^ 30" by simp
  show ?thesis
  proof (cases "\<not> b \<and> 0 < ?k")
    case True
    then obtain l1 where g: "grow_syspage_section S_strings ?k l = Inr l1" "l' = l1\<lparr>lsp_mem := lsp_mem l'\<rparr>"
      using assms(4) sc by (auto simp: add_string_def Let_def rbind_Inr_iff split: prod.splits bool.splits)
    have "sp_size l1 = sp_size l" "sp_total_size l1 \<le> sp_size l" "sp_size l' = sp_size l1" "sp_total_size l' = sp_total_size l1"
      using grow_unfold [OF lok _ k g(1)] True arg_cong [OF g(2), of sp_size] arg_cong [OF g(2), of sp_total_size] by simp_all
    then show ?thesis by simp
  next
    case False
    then show ?thesis using assms(3,4) sc by (auto simp: add_string_def Let_def split: bool.splits)
  qed
qed

lemma live_string_bound: "live_string l off \<Longrightarrow> off < s_size l S_strings"
  by (rule ccontr) (simp add: live_string_def hwi_find_string_def cstr_at_def)

text \<open>What a section growing keeps of the strings.\<close>

lemma grow_hwinfo:
  assumes st: "strings_ok l" and fl: "floating l S_hwinfo" and sz: "0 < sz" "sz \<le> 2 ^ 16"
    and g: "grow_syspage_section S_hwinfo sz l = Inr l'"
  shows "strings_ok l'" "floating l' S_hwinfo" "hwi_find_string l' = hwi_find_string l"
    and "sec_data l' S_hwinfo = sec_data l S_hwinfo @ replicate (round8 sz) 0"
    and "sp_size l' = sp_size l" "sp_total_size l' \<le> sp_size l'"
proof -
  have inv: "sp_inv l" and lok: "lsp_ok l" using st by (simp_all add: strings_ok_def sp_inv_def)
  have sz': "sz \<le> 2 ^ 30" using sz(2) by simp
  note gi = grow_inv [OF inv fl sz(1) sz' g]
  have str: "sec_data l' S_strings = sec_data l S_strings" using gi(3) by simp
  then show "strings_ok l'" using st gi(1,2) by (simp add: strings_ok_def)
  show "floating l' S_hwinfo" by (rule gi(2) [OF fl])
  show "hwi_find_string l' = hwi_find_string l" unfolding hwi_find_string_def str ..
  show "sec_data l' S_hwinfo = sec_data l S_hwinfo @ replicate (round8 sz) 0" using gi(3) by simp
  show "sp_size l' = sp_size l" "sp_total_size l' \<le> sp_size l'"
    using grow_unfold [OF lok sz(1) sz' g] by simp_all
qed


text \<open>The prefix of a new tag, written over zeros behind the table.\<close>

lemma new_prefix:
  assumes inv: "sp_inv (hwi_lsp s)" and d: "hwi_data s = encs ts @ replicate 4 0 @ body @ z"
    and off: "off = length (encs ts)" and body: "4 dvd length body" and w: "w = Suc (length body div 4)"
  shows "hwi_data (tag_put (off + 2) (le16 n) (tag_put off (le16 (of_nat w)) s)) = encs (ts @ [(n, body)]) @ z"
proof -
  have len: "s_size (hwi_lsp s) S_hwinfo = off + 4 + length body + length z"
    using arg_cong [OF d, of length] off by simp
  have z4: "replicate 4 0 = [0, 0, 0, 0 :: u8]" by (simp add: numeral_eq_Suc)
  have lw: "list_write (a @ [x0, x1, x2, x3] @ y) (length a) (le16 v) = a @ le16 v @ [x2, x3] @ y"
    "list_write (a @ (le16 v @ [x2, x3]) @ y) (length a + 2) (le16 u) = a @ (le16 v @ le16 u) @ y"
    for a y x0 x1 x2 x3 u v by (simp_all add: list_write_def le16_def)
  have "hwi_data (tag_put off (le16 (of_nat w)) s) = encs ts @ (le16 (of_nat w) @ [0, 0]) @ body @ z"
    using tag_put_data(1) [OF inv, of off "le16 (of_nat w)"] lw(1) [of "encs ts"] by (simp add: len d off z4)
  then have "hwi_data (tag_put (off + 2) (le16 n) (tag_put off (le16 (of_nat w)) s)) =
      encs ts @ (le16 (of_nat w) @ le16 n) @ body @ z"
    using tag_put_data(1) [of "tag_put off (le16 (of_nat w)) s" "off + 2" "le16 n"] lw(2) [of "encs ts"] inv
    by (simp add: len off)
  then show ?thesis by (simp add: enc_def w)
qed

text \<open>The item's size is written: into its tag, or over the zeros where its tag is about to be.\<close>

lemma item_size_step:
  assumes core: "hwi_core s ts" and d: "hwi_data s = encs ts @ replicate m 0" "sz + 8 \<le> m" "4 \<le> sz"
    and li: "last_item s = hw_offset s \<and> 8 \<le> sz \<or> is_tag ts (last_item s) 2"
  shows "\<exists>ts' body. shape ts' = shape ts \<and> length body = sz - 4 \<and>
    hwi_data (tag_add16 (last_item s + 4) k s) = encs ts' @ replicate 4 0 @ body @ replicate (m - sz) 0 \<and>
    (\<forall>t \<in> set ts'. 4 dvd length (snd t) \<and> live_string (hwi_lsp s) (unat (fst t)))"
  using li
proof
  assume li: "is_tag ts (last_item s) 2"
  let ?w = "le16 (tag_get16 (last_item s + 4) s + of_nat k)" and ?s = "tag_add16 (last_item s + 4) k s"
  have s': "?s = tag_put (last_item s + 4) ?w s" by (simp add: tag_add16_def)
  obtain ts' where ts': "hwi_core ?s ts'" "shape ts' = shape ts"
    using put_body [OF core, of "last_item s" 0 ?w] li by (auto simp: s' numeral_2_eq_2)
  obtain n where n: "hwi_data ?s = encs ts' @ replicate n 0" "s_size (hwi_lsp ?s) S_hwinfo = length (encs ts') + n"
    using ts'(1) by (rule hwi_coreE)
  obtain n0 where n0: "s_size (hwi_lsp s) S_hwinfo = length (encs ts) + n0" "sp_inv (hwi_lsp s)"
    "hwi_data s = encs ts @ replicate n0 0"
    using core by (rule hwi_coreE)
  have "n0 = m" using n0(3) d(1) by simp
  then have nm: "n = m" using n(2) n0(1) length_encs_shape [OF ts'(2)] by (simp add: s')
  have "last_item s + 6 \<le> length (encs ts)" using li by (auto simp: is_tag_def)
  then have "live_string (hwi_lsp ?s) = live_string (hwi_lsp s)"
    using tag_put_strings(3) [OF n0(2), of "last_item s + 4" ?w] n0(1) by (simp add: s')
  then have "\<forall>t \<in> set ts'. 4 dvd length (snd t) \<and> live_string (hwi_lsp s) (unat (fst t))"
    using ts'(1) by (simp add: hwi_core_def)
  moreover have "replicate m 0 = replicate 4 0 @ replicate (sz - 4) 0 @ replicate (m - sz) (0 :: u8)"
    using d(2,3) by (simp flip: replicate_add)
  ultimately show ?thesis
    using ts'(2) n(1) nm by (intro exI [of _ ts'] exI [of _ "replicate (sz - 4) 0"]) simp
next
  assume li: "last_item s = hw_offset s \<and> 8 \<le> sz"
  let ?w = "le16 (tag_get16 (last_item s + 4) s + of_nat k)"
  obtain n0 where n0: "s_size (hwi_lsp s) S_hwinfo = length (encs ts) + n0" "sp_inv (hwi_lsp s)"
    "hwi_data s = encs ts @ replicate n0 0" "hw_offset s = length (encs ts)"
    using core by (rule hwi_coreE)
  have m: "n0 = m" using n0(3) d(1) by simp
  have "hwi_data (tag_add16 (last_item s + 4) k s) = list_write (hwi_data s) (length (encs ts) + 4) ?w"
    using tag_put_data(1) [OF n0(2), of "length (encs ts) + 4" ?w] n0(1,4) m d(2) li by (simp add: tag_add16_def)
  also have "hwi_data s = encs ts @ replicate m 0 @ []" using d by simp
  also have "list_write (encs ts @ replicate m 0 @ []) (length (encs ts) + 4) ?w =
      encs ts @ list_write (replicate m 0) 4 ?w @ []"
    using d(2) by (intro list_write_append) simp_all
  also have "list_write (replicate m 0) 4 ?w = replicate 4 0 @ (?w @ replicate (sz - 6) 0) @ replicate (m - sz) 0"
    using d(2,3) li by (simp add: list_write_def min_def flip: replicate_add)
  finally have "hwi_data (tag_add16 (last_item s + 4) k s) =
      encs ts @ replicate 4 0 @ (?w @ replicate (sz - 6) 0) @ replicate (m - sz) 0" by simp
  moreover have "length (?w @ replicate (sz - 6) 0) = sz - 4" using conjunct2 [OF li] by simp
  ultimately show ?thesis using core by (intro exI [of _ ts] exI [of _ "?w @ replicate (sz - 6) 0"]) (simp add: hwi_core_def)
qed


text \<open>A tag placed at the end of the table: the tags before it keep their names and sizes.\<close>

definition extends :: "hwi \<Rightarrow> hwi_tag list \<Rightarrow> hwi \<Rightarrow> hwi_tag list \<Rightarrow> u8 list list \<Rightarrow> bool" where
  "extends s ts s' ts' names \<longleftrightarrow>
     take (length ts) (shape ts') = shape ts \<and>
     map (\<lambda>t. hwi_find_string (hwi_lsp s') (unat (fst t))) (drop (length ts) ts') = names \<and>
     (\<forall>off. live_string (hwi_lsp s) off \<longrightarrow> hwi_find_string (hwi_lsp s') off = hwi_find_string (hwi_lsp s) off)"

lemma place_tag_step:
  assumes core: "hwi_core s ts" and name: "name_ok name" and sz: "4 dvd sz" "4 \<le> sz" "sz \<le> 2 ^ 16"
    and li: "last_item s = hw_offset s \<and> 8 \<le> sz \<or> is_tag ts (last_item s) 2"
    and p: "place_tag name sz s = Inr (tag, s')"
  shows "\<exists>ts' t. hwi_core s' (ts' @ [t]) \<and> shape ts' = shape ts \<and> length (snd t) = sz - 4 \<and>
    extends s ts s' (ts' @ [t]) [name] \<and> tag = hw_offset s \<and> hw_offset s' = hw_offset s + sz \<and> last_item s' = last_item s"
proof -
  obtain off l1 l2 where a: "add_string name (hwi_lsp s) = Inr (off, l1)"
    and g: "grow_syspage_section S_hwinfo sz l1 = Inr l2"
    and tag: "tag = hw_offset s"
    and s': "s' = (tag_put (hw_offset s + 2) (le16 (of_nat off)) (tag_put (hw_offset s) (le16 (of_nat (sz div 4)))
        (tag_add16 (last_item s + 4) (sz div 4) (set_lsp l2 s))))\<lparr>hw_offset := (hw_offset s + sz) mod 2 ^ 32\<rparr>"
    using p by (auto simp: place_tag_def rbind_Inr_iff Let_def tag_add16_def)
  obtain n where n: "8 \<le> n" "hwi_data s = encs ts @ replicate n 0" "hw_offset s = length (encs ts)"
    "s_size (hwi_lsp s) S_hwinfo = length (encs ts) + n" "sp_inv (hwi_lsp s)"
    using core by (rule hwi_coreE)
  have c: "strings_ok (hwi_lsp s)" "floating (hwi_lsp s) S_hwinfo" "sp_total_size (hwi_lsp s) \<le> sp_size (hwi_lsp s)"
    "sp_size (hwi_lsp s) \<le> 2 ^ 16" using core by (simp_all add: hwi_core_def)
  note al = add_string_laws [OF c(1) name a] and asz = add_string_sizes [OF c(1) name c(3) a]
  have sz0: "0 < sz" using sz(2) by simp
  note gh = grow_hwinfo [OF al(1) al(5) [OF c(2)] sz0 sz(3) g]
  have data2: "hwi_data (set_lsp l2 s) = encs ts @ replicate (n + round8 sz) 0"
    using gh(4) al(4) [of S_hwinfo] n(2) by (simp add: replicate_add)
  have live: "live_string l2 o1 \<and> hwi_find_string l2 o1 = hwi_find_string (hwi_lsp s) o1"
    if "live_string (hwi_lsp s) o1" for o1
    using that al(3) [OF that] by (simp add: live_string_def gh(3))
  have core2: "hwi_core (set_lsp l2 s) ts"
    unfolding hwi_core_def using gh(1,2,5,6) asz c(4) data2 n(1,3) core live
    by (auto simp: hwi_core_def intro: exI [of _ "n + round8 sz"])
  have rnd: "sz \<le> round8 sz" using round8_bounds [of sz] sz(3) by simp
  define s3 where "s3 = tag_add16 (last_item s + 4) (sz div 4) (set_lsp l2 s)"
  obtain ts' body where b: "shape ts' = shape ts" "length body = sz - 4"
    "hwi_data s3 = encs ts' @ replicate 4 0 @ body @ replicate (n + round8 sz - sz) 0"
    "\<forall>t \<in> set ts'. 4 dvd length (snd t) \<and> live_string l2 (unat (fst t))"
    using item_size_step [OF core2 data2, of sz "sz div 4"] n(1) rnd sz(2) li unfolding s3_def by auto
  have le: "length (encs ts') = length (encs ts)" by (rule length_encs_shape [OF b(1)])
  obtain q where q: "sz = 4 * Suc q" using sz(1,2) by (metis dvd_def mult_0_right not_less_eq_eq old.nat.exhaust le_zero_eq zero_neq_numeral)
  have s3: "sp_inv (hwi_lsp s3)" "hw_offset s3 = length (encs ts)" "last_item s3 = last_item s"
    using gh(1) n(3) by (simp_all add: s3_def tag_add16_def strings_ok_def)
  define s5 where "s5 = tag_put (length (encs ts) + 2) (le16 (of_nat off)) (tag_put (length (encs ts)) (le16 (of_nat (sz div 4))) s3)"
  have d5: "hwi_data s5 = encs (ts' @ [(of_nat off, body)]) @ replicate (n + round8 sz - sz) 0"
    unfolding s5_def using b(2) q by (intro new_prefix [OF s3(1) b(3)]) (simp_all add: le)
  have size: "s_size l2 S_hwinfo = length (encs ts) + n + round8 sz"
    using arg_cong [OF data2, of length] by simp
  have lb: "last_item s + 6 \<le> s_size l2 S_hwinfo"
    using li n(1,3) by (auto simp: size is_tag_def)
  have inv2: "sp_inv l2" "lsp_ok l2" using gh(1) by (simp_all add: strings_ok_def sp_inv_def)
  have "strings_ok (hwi_lsp s3)" and f3: "hwi_find_string (hwi_lsp s3) = hwi_find_string l2"
    and z3: "s_size (hwi_lsp s3) S_hwinfo = s_size l2 S_hwinfo"
    using tag_put_strings(1,2) [of "set_lsp l2 s" "last_item s + 4"] gh(1) inv2 lb by (simp_all add: s3_def tag_add16_def)
  then have ok5: "strings_ok (hwi_lsp s5)" and f5: "hwi_find_string (hwi_lsp s5) = hwi_find_string l2"
    using tag_put_strings(1,2) [of "tag_put (length (encs ts)) (le16 (of_nat (sz div 4))) s3" "length (encs ts) + 2"]
      tag_put_strings(1,2) [of s3 "length (encs ts)"] s3(1) rnd sz(2) by (simp_all add: s5_def size)
  have lim: "sp_size l2 \<le> 2 ^ 16" "sp_total_size l2 \<le> sp_size l2" using gh(5,6) asz c(4) by simp_all
  have lim2: "s_size l2 k \<le> 2 ^ 16" for k using s_size_le_total [OF inv2(2), of k] lim by linarith
  have "live_string l2 off" using al(2) name by (simp add: live_string_def gh(3) name_ok_def str_ok_def)
  then have lt: "length (encs ts) + sz < 2 ^ 32" "off < 2 ^ 16"
    using lim2 [of S_hwinfo] lim2 [of S_strings] rnd live_string_bound [of l2 off] size by simp_all
  have uo: "unat (of_nat off :: u16) = off" using lt(2) by (simp add: unsigned_of_nat take_bit_nat_eq_self)
  have s5': "s' = s5\<lparr>hw_offset := length (encs ts) + sz\<rparr>"
    using lt(1) by (simp add: s' s5_def s3_def n(3) tag_add16_def)
  have nm: "hwi_find_string l2 off = name" using al(2) gh(3) by simp
  have core': "hwi_core s' (ts' @ [(of_nat off, body)])"
    unfolding hwi_core_def s5' using ok5 f5 d5 gh(2) lim b(2,4) q le n(1) rnd s3(2) sz(2) uo nm name
    by (auto simp: s5_def s3_def tag_add16_def live_string_def fun_eq_iff name_ok_def str_ok_def
        intro!: exI [of _ "n + round8 sz - sz"])
  have lts: "length ts' = length ts" using arg_cong [OF b(1), of length] by (simp add: shape_def)
  have "take (length ts) (shape ts') = shape ts" using lts b(1) by (simp add: shape_def)
  then have "extends s ts s' (ts' @ [(of_nat off, body)]) [name]"
    using live f5 nm uo lts by (simp add: extends_def s5' shape_def)
  then show ?thesis
    using core' b(1,2) tag by (intro exI [of _ ts'] exI [of _ "(of_nat off, body)"])
      (simp add: s5' n(3) s5_def s3(3))
qed

definition hwi_ok :: "hwi \<Rightarrow> hwi_tag list \<Rightarrow> bool" where
  "hwi_ok s ts \<longleftrightarrow> hwi_core s ts \<and> (hw_offset s = 0 \<and> last_item s = 0 \<or> is_tag ts (last_item s) 8)"

lemma is_tag_mono: "is_tag ts off n \<Longrightarrow> m \<le> n \<Longrightarrow> is_tag ts off m"
  unfolding is_tag_def by fastforce

lemma is_tag_shape:
  assumes "is_tag ts off n" "take (length ts) (shape ts') = shape ts"
  shows "is_tag ts' off n"
proof -
  obtain a t b where t: "ts = a @ t # b" "off = length (encs a)" "n \<le> length (snd t)"
    using assms(1) by (auto simp: is_tag_def)
  let ?k = "length a"
  have "?k < length (take (length ts) (shape ts'))" by (subst assms(2)) (simp add: shape_def t(1))
  then have k: "?k < length ts'" by (simp add: shape_def)
  have "shape (take ?k ts') = take ?k (take (length ts) (shape ts'))"
    by (simp add: shape_def take_map t(1))
  also have "\<dots> = shape a" by (simp add: assms(2)) (simp add: shape_def t(1))
  finally have a: "length (encs (take ?k ts')) = length (encs a)" by (rule length_encs_shape)
  have "shape ts' ! ?k = take (length ts) (shape ts') ! ?k" by (simp add: t(1))
  also have "\<dots> = (fst t, length (snd t))" by (simp only: assms(2)) (simp add: shape_def t(1) nth_append)
  finally have "length (snd (ts' ! ?k)) = length (snd t)" using k by (simp add: shape_def)
  then show ?thesis using id_take_nth_drop [OF k] a t(2,3) unfolding is_tag_def by metis
qed

lemma is_tag_last: "is_tag (ts @ [t]) (length (encs ts)) n" if "n \<le> length (snd t)"
  using that unfolding is_tag_def by blast

lemma shape_take: "shape ts' = shape ts \<Longrightarrow> take (length ts) (shape (ts' @ us)) = shape ts"
proof -
  assume e: "shape ts' = shape ts"
  then have "length ts = length (shape ts')" by (simp add: shape_def)
  then show ?thesis by (simp add: e)
qed

section \<open>The table read back\<close>

definition half_at :: "u8 list \<Rightarrow> nat \<Rightarrow> u16" where
  "half_at c i = ucast (c ! i) OR push_bit 8 (ucast (c ! (i + 1)))"

text \<open>A reader of the table: it goes from tag to tag by their sizes and stops at a size of zero.\<close>

function hwi_tags :: "u8 list \<Rightarrow> nat \<Rightarrow> (nat \<times> u16 \<times> u8 list) list" where
  "hwi_tags c i =
     (if length c < i + 4 \<or> half_at c i = 0 then []
      else (let w = unat (half_at c i)
            in (i, half_at c (i + 2), take (4 * w - 4) (drop (i + 4) c)) # hwi_tags c (i + 4 * w)))"
  by pat_completeness auto
termination
  by (relation "measure (\<lambda>(c, i). length c - i)") (auto simp: unat_gt_0 intro: diff_less_mono2)

declare hwi_tags.simps [simp del]

fun placed :: "nat \<Rightarrow> hwi_tag list \<Rightarrow> (nat \<times> u16 \<times> u8 list) list" where
  "placed i [] = []"
| "placed i (t # ts) = (i, fst t, snd t) # placed (i + length (enc t)) ts"

lemma half_at_le16: "length a = i \<Longrightarrow> half_at (a @ le16 w @ z) i = w"
  unfolding half_at_def le16_def
  by (simp add: nth_append) (rule bit_word_eqI, auto simp: bit_simps)

lemma hwi_tags_encs:
  assumes "8 \<le> n" "\<forall>t \<in> set ts. 4 dvd length (snd t) \<and> length (snd t) < 2 ^ 17"
  shows "length a = i \<Longrightarrow> hwi_tags (a @ encs ts @ replicate n 0) i = placed i ts"
  using assms(2)
proof (induction ts arbitrary: a i)
  case Nil
  have "half_at (a @ encs [] @ replicate n 0) i = 0"
    using assms(1) Nil(1) by (simp add: half_at_def nth_append)
  then show ?case by (subst hwi_tags.simps) simp
next
  case (Cons t ts)
  let ?w = "Suc (length (snd t) div 4)" and ?c = "a @ encs (t # ts) @ replicate n 0"
  have w: "unat (of_nat ?w :: u16) = ?w"
  proof -
    have "length (snd t) < 2 ^ 17" using Cons.prems(2) by simp
    then have "?w < 2 ^ LENGTH(16)" by simp
    then show ?thesis by (simp only: unsigned_of_nat take_bit_nat_eq_self of_nat_id)
  qed
  have h: "half_at ?c i = of_nat ?w" "half_at ?c (i + 2) = fst t"
    using half_at_le16 [of a i "of_nat ?w"] half_at_le16 [of "a @ le16 (of_nat ?w)" "i + 2" "fst t"] Cons.prems(1)
    by (simp_all add: enc_def)
  have nz: "(of_nat ?w :: u16) \<noteq> 0" using w by (metis nat.distinct(1) unat_0)
  have l: "4 * ?w - 4 = length (snd t)" using Cons.prems(2) by (simp add: dvd_mult_div_cancel)
  have body: "take (4 * ?w - 4) (drop (i + 4) ?c) = snd t"
    using Cons.prems(1) unfolding l by (simp add: enc_eq)
  have rest: "hwi_tags ?c (i + 4 * ?w) = placed (i + length (enc t)) ts"
    using Cons.IH [of "a @ enc t" "i + length (enc t)"] Cons.prems l by simp
  have le: "\<not> length ?c < i + 4" using Cons.prems(1) by simp
  show ?case
    by (subst hwi_tags.simps) (simp only: le h nz w Let_def body rest if_False disj_not1 simp_thms placed.simps)
qed

lemma hwi_core_tags:
  assumes "hwi_core s ts"
  shows "hwi_tags (hwi_data s) 0 = placed 0 ts"
proof -
  obtain n where n: "8 \<le> n" "hwi_data s = encs ts @ replicate n 0" "s_size (hwi_lsp s) S_hwinfo = length (encs ts) + n" "lsp_ok (hwi_lsp s)"
    using assms by (rule hwi_coreE)
  have "length (encs ts) \<le> 2 ^ 16"
    using assms s_size_le_total [OF n(4), of S_hwinfo] n(3) by (simp add: hwi_core_def)
  moreover have "\<forall>t \<in> set ts. length (snd t) \<le> length (encs ts)" by (induction ts) auto
  ultimately have "\<forall>t \<in> set ts. 4 dvd length (snd t) \<and> length (snd t) < 2 ^ 17"
    using assms unfolding hwi_core_def by fastforce
  from hwi_tags_encs [OF n(1) this, of "[]" 0] show ?thesis by (simp add: n(2))
qed

text \<open>The names of the tags in the table, without the padding.\<close>

definition tag_names :: "hwi \<Rightarrow> u8 list list" where
  "tag_names s =
     filter (\<lambda>x. x \<noteq> hwi_name T_pad)
       (map (\<lambda>(_, n, _). hwi_find_string (hwi_lsp s) (unat n)) (hwi_tags (hwi_data s) 0))"

definition names_in :: "hwi \<Rightarrow> hwi_tag list \<Rightarrow> u8 list list" where
  "names_in s ts = map (\<lambda>t. hwi_find_string (hwi_lsp s) (unat (fst t))) ts"

lemma names_placed: "map (\<lambda>(_, n, _). f n) (placed i ts) = map (\<lambda>t. f (fst t)) ts"
  by (induction ts arbitrary: i) auto

lemma tag_names_core: "hwi_core s ts \<Longrightarrow> tag_names s = filter (\<lambda>x. x \<noteq> hwi_name T_pad) (names_in s ts)"
  by (simp add: tag_names_def names_in_def hwi_core_tags names_placed)

lemma extends_names:
  assumes core: "hwi_core s ts" and ext: "extends s ts s' ts' nms"
  shows "names_in s' ts' = names_in s ts @ nms"
proof -
  let ?f = "\<lambda>t. hwi_find_string (hwi_lsp s') (unat (fst t))"
  have sh: "map fst (take (length ts) ts') = map fst ts"
    using arg_cong [of _ _ "map fst", OF conjunct1 [OF ext [unfolded extends_def]]]
    by (simp add: shape_def take_map comp_def)
  have "map ?f (take (length ts) ts') = map (\<lambda>n. hwi_find_string (hwi_lsp s') (unat n)) (map fst (take (length ts) ts'))"
    by simp
  also have "\<dots> = map ?f ts" by (simp only: sh) simp
  also have "\<dots> = names_in s ts"
    using core ext by (simp add: names_in_def hwi_core_def extends_def)
  finally have "map ?f (take (length ts) ts') @ map ?f (drop (length ts) ts') = names_in s ts @ nms"
    using ext by (simp add: extends_def)
  then show ?thesis by (simp only: names_in_def flip: map_append) simp
qed

text \<open>
  Tags of the given names are added: the tags that were there keep their places, names and sizes, and
  the strings in use still read as before.
\<close>

definition grown :: "hwi \<Rightarrow> hwi_tag list \<Rightarrow> hwi \<Rightarrow> hwi_tag list \<Rightarrow> u8 list list \<Rightarrow> bool" where
  "grown s ts s' ts' nms \<longleftrightarrow>
     hwi_core s' ts' \<and> take (length ts) (shape ts') = shape ts \<and>
     filter (\<lambda>x. x \<noteq> hwi_name T_pad) (names_in s' ts') = filter (\<lambda>x. x \<noteq> hwi_name T_pad) (names_in s ts) @ nms \<and>
     (\<forall>off. live_string (hwi_lsp s) off \<longrightarrow> hwi_find_string (hwi_lsp s') off = hwi_find_string (hwi_lsp s) off)"

lemma grown_trans:
  assumes "grown s ts s1 ts1 a" "grown s1 ts1 s2 ts2 b"
  shows "grown s ts s2 ts2 (a @ b)"
proof -
  have e: "take (length ts) (shape ts1) = shape ts" "take (length ts1) (shape ts2) = shape ts1"
    using assms by (simp_all add: grown_def)
  have "length ts \<le> length ts1" using arg_cong [OF e(1), of length] by (simp add: shape_def)
  then have "take (length ts) (shape ts2) = take (length ts) (take (length ts1) (shape ts2))"
    by (simp add: min_absorb1)
  also have "\<dots> = shape ts" by (simp only: e)
  finally show ?thesis using assms by (simp add: grown_def live_string_def)
qed

lemma grown_refl: "hwi_core s ts \<Longrightarrow> grown s ts s ts []"
  by (simp add: grown_def) (simp add: shape_def)

definition adds :: "u8 list list \<Rightarrow> hwi \<Rightarrow> hwi \<Rightarrow> bool" where
  "adds nms s s' \<longleftrightarrow> (\<forall>ts. hwi_ok s ts \<longrightarrow> (\<exists>ts'. hwi_ok s' ts' \<and> grown s ts s' ts' nms))"

lemma adds_refl: "adds [] s s"
  unfolding adds_def using grown_refl by (auto simp: hwi_ok_def)

lemma adds_trans: "adds a s s1 \<Longrightarrow> adds b s1 s2 \<Longrightarrow> adds (a @ b) s s2"
  unfolding adds_def using grown_trans by blast

definition hwi_wf :: "hwi \<Rightarrow> bool" where
  "hwi_wf s \<longleftrightarrow> (\<exists>ts. hwi_ok s ts)"

definition tag_at :: "hwi \<Rightarrow> nat \<Rightarrow> nat \<Rightarrow> bool" where
  "tag_at s off n \<longleftrightarrow> (\<exists>ts. hwi_ok s ts \<and> is_tag ts off n)"

lemma hwi_ok_unique:
  assumes "hwi_ok s ts" "hwi_ok s us"
  shows "us = ts"
proof -
  have m: "map snd (placed i xs) = xs" for i xs by (induction xs arbitrary: i) auto
  have "placed 0 us = placed 0 ts"
    using assms hwi_core_tags [of s ts] hwi_core_tags [of s us] by (simp add: hwi_ok_def)
  then show ?thesis using m by metis
qed

lemma tag_at_wf: "tag_at s off n \<Longrightarrow> hwi_wf s"
  by (auto simp: tag_at_def hwi_wf_def)

lemma adds_wf: "adds a s s' \<Longrightarrow> hwi_wf s \<Longrightarrow> hwi_wf s'"
  by (auto simp: adds_def hwi_wf_def)

lemma adds_tag_at: "adds a s s' \<Longrightarrow> tag_at s off n \<Longrightarrow> tag_at s' off n"
  unfolding adds_def tag_at_def grown_def using is_tag_shape by blast

lemma adds_tag_names: "adds a s s' \<Longrightarrow> hwi_wf s \<Longrightarrow> tag_names s' = tag_names s @ a"
  unfolding adds_def hwi_wf_def by (metis hwi_ok_def tag_names_core grown_def)

lemma adds_cong: "adds a s s1 \<Longrightarrow> adds b s1 s2 \<Longrightarrow> c = a @ b \<Longrightarrow> adds c s s2"
  using adds_trans by blast

lemma put_adds:
  assumes tag: "tag_at s tag (f + length bs)"
  shows "adds [] s (tag_put (tag + 4 + f) bs s)"
  unfolding adds_def
proof (intro allI impI)
  fix ts
  assume ok: "hwi_ok s ts"
  let ?s = "tag_put (tag + 4 + f) bs s"
  have t: "is_tag ts tag (f + length bs)"
    using tag hwi_ok_unique [OF ok] by (auto simp: tag_at_def)
  have core: "hwi_core s ts" using ok by (simp add: hwi_ok_def)
  obtain ts' where ts': "hwi_core ?s ts'" "shape ts' = shape ts"
    using put_body [OF core t] by blast
  have lts: "length ts' = length ts" using arg_cong [OF ts'(2), of length] by (simp add: shape_def)
  obtain n where n: "s_size (hwi_lsp s) S_hwinfo = length (encs ts) + n" "sp_inv (hwi_lsp s)"
    using core by (rule hwi_coreE)
  have "tag + 4 + f + length bs \<le> length (encs ts)" using t by (auto simp: is_tag_def)
  then have find: "hwi_find_string (hwi_lsp ?s) = hwi_find_string (hwi_lsp s)"
    using tag_put_strings(2) [OF n(2), of "tag + 4 + f" bs] n(1) by simp
  have sh: "take (length ts) (shape ts') = shape ts" by (simp add: ts'(2)) (simp add: shape_def)
  have "hwi_ok ?s ts'"
    using ok ts'(1) is_tag_shape [OF _ sh] by (auto simp: hwi_ok_def)
  moreover have "extends s ts ?s ts' []" using sh lts find by (simp add: extends_def)
  ultimately show "\<exists>ts'. hwi_ok ?s ts' \<and> grown s ts ?s ts' []"
    using sh find ts'(1) extends_names [OF core] by (fastforce simp: grown_def)
qed

lemma puts_adds:
  "\<forall>(f, bs) \<in> set fs. 4 \<le> f \<and> f + length bs \<le> n + 4 \<Longrightarrow> tag_at s tag n \<Longrightarrow> adds [] s (puts fs tag s)"
proof (induction fs arbitrary: s)
  case Nil
  then show ?case by (simp add: puts_def adds_refl)
next
  case (Cons x fs)
  obtain f bs where x: "x = (f, bs)" by (cases x)
  then have f: "4 \<le> f" "f - 4 + length bs \<le> n" "tag + 4 + (f - 4) = tag + f" using Cons.prems(1) by auto
  have "tag_at s tag (f - 4 + length bs)" using Cons.prems(2) f(2) is_tag_mono unfolding tag_at_def by blast
  then have a: "adds [] s (tag_put (tag + f) bs s)" using put_adds [of s tag "f - 4" bs] f(3) by simp
  have "adds [] (tag_put (tag + f) bs s) (puts fs tag (tag_put (tag + f) bs s))"
    using Cons.IH Cons.prems(1) adds_tag_at [OF a Cons.prems(2)] by simp
  then show ?case using adds_trans [OF a] by (simp add: puts_def x)
qed

section \<open>Allocation\<close>

lemma misaligned_iff:
  assumes core: "hwi_core s ts" and al: "align = 4 \<or> align = 8"
  shows "misaligned align s \<longleftrightarrow> \<not> align dvd hw_offset s" and "4 dvd hw_offset s"
proof -
  obtain n where n: "hw_offset s = length (encs ts)" "s_size (hwi_lsp s) S_hwinfo = length (encs ts) + n" "lsp_ok (hwi_lsp s)"
    using core by (rule hwi_coreE)
  have b: "hw_offset s \<le> 2 ^ 16"
    using core s_size_le_total [OF n(3), of S_hwinfo] n(1,2) by (simp add: hwi_core_def)
  have "\<forall>t \<in> set ts. 4 dvd length (snd t)" using core by (simp add: hwi_core_def)
  then show "4 dvd hw_offset s" unfolding n(1) by (induction ts) auto
  define w where "w = (of_nat (hw_offset s) :: u32)"
  have w: "unat w = hw_offset s" using b by (simp add: w_def unsigned_of_nat take_bit_nat_eq_self)
  have r: "unat (ROUND w (of_nat align)) = (hw_offset s + align - 1) div align * align"
    using al unat_ROUND [of 2 w] unat_ROUND [of 3 w] b by (auto simp: w)
  have "misaligned align s \<longleftrightarrow> ROUND w (of_nat align) \<noteq> w"
    by (simp add: misaligned_def w_def unat_eq_0)
  also have "\<dots> \<longleftrightarrow> (hw_offset s + align - 1) div align * align \<noteq> hw_offset s"
    using r w by (metis word_unat_eq_iff)
  also have "\<dots> \<longleftrightarrow> \<not> align dvd hw_offset s"
    using al by (auto; presburger)
  finally show "misaligned align s \<longleftrightarrow> \<not> align dvd hw_offset s" .
qed

lemma place_grown:
  assumes core: "hwi_core s ts" and name: "name_ok name" and sz: "4 dvd sz" "4 \<le> sz" "sz \<le> 2 ^ 16"
    and li: "last_item s = hw_offset s \<and> 8 \<le> sz \<or> is_tag ts (last_item s) 2"
    and p: "place_tag name sz s = Inr (tag, s')"
  shows "\<exists>ts'. grown s ts s' ts' (if name = hwi_name T_pad then [] else [name]) \<and> is_tag ts' (hw_offset s) (sz - 4) \<and>
    tag = hw_offset s \<and> hw_offset s' = hw_offset s + sz \<and> last_item s' = last_item s"
proof -
  obtain ts' t where r: "hwi_core s' (ts' @ [t])" "shape ts' = shape ts" "length (snd t) = sz - 4"
    "extends s ts s' (ts' @ [t]) [name]" "tag = hw_offset s" "hw_offset s' = hw_offset s + sz" "last_item s' = last_item s"
    using place_tag_step [OF assms] by blast
  have "hw_offset s = length (encs ts')"
    using core length_encs_shape [OF r(2)] by (simp add: hwi_core_def)
  then have "is_tag (ts' @ [t]) (hw_offset s) (sz - 4)" using is_tag_last [of "sz - 4" t ts'] r(3) by simp
  moreover have "grown s ts s' (ts' @ [t]) (if name = hwi_name T_pad then [] else [name])"
    using r(1,4) extends_names [OF core r(4)] by (simp add: grown_def extends_def)
  ultimately show ?thesis using r(5-7) by blast
qed

lemma hwi_name_ok: "name_ok (hwi_name ty)"
  by (cases ty) (simp_all add: name_ok_def str_ok_def cs_def)

lemma align_grown:
  assumes ok: "hwi_ok s ts" and al: "align = 4 \<or> align = 8" and a: "align_tag align s = Inr s'"
  shows "\<exists>ts'. grown s ts s' ts' [] \<and> last_item s' = last_item s \<and> align dvd hw_offset s' \<and>
    (hw_offset s' = 0 \<longleftrightarrow> hw_offset s = 0) \<and> hwi_ok s' ts'"
proof -
  have core: "hwi_core s ts" using ok by (simp add: hwi_ok_def)
  note m = misaligned_iff [OF core]
  show ?thesis
  proof (cases "misaligned align s")
    case False
    then show ?thesis using a m(1) al ok grown_refl [OF core] by (auto simp: align_tag_def)
  next
    case True
    then have nd: "\<not> align dvd hw_offset s" using m(1) al by blast
    then have a8: "align = 8" using m(2) [OF al] al by auto
    have nz: "hw_offset s \<noteq> 0" using nd by (metis dvd_0_right)
    then have li: "is_tag ts (last_item s) 8" using ok by (simp add: hwi_ok_def)
    obtain tag where p: "place_tag (hwi_name T_pad) 4 s = Inr (tag, s')"
      using a True m(1) [of 4] m(2) [OF al] by (auto simp: align_tag_def rbind_Inr_iff)
    obtain ts' where g: "grown s ts s' ts' []" "hw_offset s' = hw_offset s + 4" "last_item s' = last_item s"
      using place_grown [OF core hwi_name_ok [of T_pad] _ _ _ _ p] is_tag_mono [OF li, of 2] by auto
    have "8 dvd hw_offset s'" using nd m(2) [OF al] unfolding g(2) a8 by presburger
    moreover have "hwi_ok s' ts'"
      using g(1,3) is_tag_shape [OF li, of ts'] by (simp add: hwi_ok_def grown_def)
    ultimately show ?thesis using g nz a8 by auto
  qed
qed

lemma align_tag_aligned:
  assumes "hwi_core s ts" "align = 4 \<or> align = 8" "align dvd hw_offset s"
  shows "align_tag align s = Inr s"
  using misaligned_iff [OF assms(1,2)] assms(3) by (simp add: align_tag_def)

lemma hwi_ok_grown: "grown s ts s' ts' a \<Longrightarrow> is_tag ts' (last_item s') 8 \<Longrightarrow> hwi_ok s' ts'"
  by (simp add: hwi_ok_def grown_def)

lemma adds_grown:
  assumes "\<And>ts. hwi_ok s ts \<Longrightarrow> \<exists>ts'. grown s ts s' ts' a \<and> hwi_ok s' ts'"
  shows "adds a s s'"
  unfolding adds_def using assms by blast

lemma hwi_alloc_tag_adds:
  assumes name: "name_ok name" "name \<noteq> hwi_name T_pad" and sz: "4 dvd sz" "8 \<le> sz" "sz \<le> 2 ^ 16"
    and al: "align = 4 \<or> align = 8" and there: "tag_at s x 8"
    and a: "hwi_alloc_tag name sz align s = Inr (tag, s')"
  shows "adds [name] s s' \<and> tag_at s' tag (sz - 4) \<and> align dvd tag"
proof -
  obtain ts0 where ok0: "hwi_ok s ts0" "is_tag ts0 x 8" using there by (auto simp: tag_at_def)
  obtain s1 where s1: "align_tag align s = Inr s1" and p: "place_tag name sz s1 = Inr (tag, s')"
    using a by (auto simp: hwi_alloc_tag_def rbind_Inr_iff)
  obtain ts1 where g1: "grown s ts0 s1 ts1 []" "last_item s1 = last_item s" "align dvd hw_offset s1" "hwi_ok s1 ts1"
    using align_grown [OF ok0(1) al s1] by blast
  have core1: "hwi_core s1 ts1" using g1(4) by (simp add: hwi_ok_def)
  have "hw_offset s1 \<noteq> 0"
    using is_tag_shape [OF ok0(2), of ts1] g1(1) core1 by (auto simp: grown_def is_tag_def hwi_core_def)
  then have li: "is_tag ts1 (last_item s1) 8" using g1(4) by (simp add: hwi_ok_def)
  have sz4: "4 \<le> sz" using sz(2) by simp
  obtain ts2 where g2: "grown s1 ts1 s' ts2 [name]" "is_tag ts2 (hw_offset s1) (sz - 4)" "tag = hw_offset s1"
    "last_item s' = last_item s1"
    using place_grown [OF core1 name(1) sz(1) sz4 sz(3) _ p] is_tag_mono [OF li, of 2] name(2) by auto
  have g: "grown s ts0 s' ts2 [name]" using grown_trans [OF g1(1) g2(1)] by simp
  have ok2: "hwi_ok s' ts2"
    using g2(4) is_tag_shape [OF li, of ts2] g2(1) by (simp add: hwi_ok_def grown_def)
  have "adds [name] s s'"
    using hwi_ok_unique [OF ok0(1)] g ok2 by (intro adds_grown) blast
  then show ?thesis using g1(3) g2(2,3) ok2 by (auto simp: tag_at_def)
qed

lemma string_adds:
  assumes x: "name_ok x" and a: "add_string x (hwi_lsp s) = Inr (off, l)"
  shows "adds [] s (set_lsp l s)"
  unfolding adds_def
proof (intro allI impI)
  fix ts
  assume ok: "hwi_ok s ts"
  then have core: "hwi_core s ts" by (simp add: hwi_ok_def)
  have c: "strings_ok (hwi_lsp s)" "floating (hwi_lsp s) S_hwinfo" "sp_total_size (hwi_lsp s) \<le> sp_size (hwi_lsp s)"
    "sp_size (hwi_lsp s) \<le> 2 ^ 16" using core by (simp_all add: hwi_core_def)
  obtain n where n: "8 \<le> n" "hwi_data s = encs ts @ replicate n 0" "hw_offset s = length (encs ts)"
    using core by (rule hwi_coreE)
  note al = add_string_laws [OF c(1) x a] and asz = add_string_sizes [OF c(1) x c(3) a]
  have find: "hwi_find_string l o1 = hwi_find_string (hwi_lsp s) o1" if "live_string (hwi_lsp s) o1" for o1
    using al(3) [OF that] .
  have "hwi_core (set_lsp l s) ts"
    unfolding hwi_core_def using core al(1) al(5) [OF c(2)] asz c(4) n al(4) [of S_hwinfo] find
    by (auto simp: hwi_core_def live_string_def)
  moreover have "names_in (set_lsp l s) ts = names_in s ts"
    using core find by (simp add: names_in_def hwi_core_def)
  ultimately show "\<exists>ts'. hwi_ok (set_lsp l s) ts' \<and> grown s ts (set_lsp l s) ts' []"
    using ok find by (intro exI [of _ ts]) (simp add: hwi_ok_def grown_def, simp add: shape_def)
qed

lemma hwi_alloc_item_adds:
  assumes name: "name_ok name" "name \<noteq> hwi_name T_pad" and item: "name_ok itemname"
    and sz: "4 dvd sz" "12 \<le> sz" "sz \<le> 2 ^ 16" and wf: "hwi_wf s"
    and owner: "owner \<noteq> HWI_NULL_OFF \<Longrightarrow> tag_at s owner 8"
    and a: "hwi_alloc_item name sz 4 itemname owner s = Inr (tag, s')"
  shows "adds [name] s s' \<and> tag_at s' tag (sz - 4)"
proof -
  obtain saved_in l s1 s2 where str: "add_string itemname (hwi_lsp s) = Inr (saved_in, l)"
    and al: "align_tag 4 (set_lsp l s) = Inr s1"
    and alloc: "hwi_alloc_tag name sz 4 (s1\<lparr>last_item := hw_offset s1\<rparr>) = Inr (tag, s2)"
    and s': "s' = (let s = tag_put (tag + 8) (le16 (of_nat owner)) (tag_put (tag + 6) (le16 (of_nat saved_in)) s2)
                   in if owner \<noteq> HWI_NULL_OFF then tag_add16 (owner + 10) 1 s else s)"
    using a by (auto simp: hwi_alloc_item_def rbind_Inr_iff Let_def)
  obtain ts where ok: "hwi_ok s ts" using wf by (auto simp: hwi_wf_def)
  note st = string_adds [OF item str]
  obtain ts0 where ok0: "hwi_ok (set_lsp l s) ts0" "grown s ts (set_lsp l s) ts0 []"
    using st ok unfolding adds_def by blast
  obtain ts1 where g1: "grown (set_lsp l s) ts0 s1 ts1 []" "4 dvd hw_offset s1"
    using align_grown [OF ok0(1) disjI1 [OF refl] al] by blast
  let ?s1 = "s1\<lparr>last_item := hw_offset s1\<rparr>"
  have core1: "hwi_core ?s1 ts1" using g1(1) by (simp add: grown_def hwi_core_def)
  have p: "place_tag name sz ?s1 = Inr (tag, s2)"
    using alloc align_tag_aligned [OF core1, of 4] g1(2) by (simp add: hwi_alloc_tag_def)
  have sz': "4 \<le> sz" "8 \<le> sz" using sz(2) by simp_all
  obtain ts2 where g2: "grown ?s1 ts1 s2 ts2 [name]" "is_tag ts2 (hw_offset s1) (sz - 4)" "tag = hw_offset s1"
    "last_item s2 = hw_offset s1"
    using place_grown [OF core1 name(1) sz(1) sz'(1) sz(3) _ p] sz'(2) name(2) by auto
  have ok2: "hwi_ok s2 ts2"
    using g2(1,4) is_tag_mono [OF g2(2), of 8] sz(2) by (simp add: hwi_ok_def grown_def)
  have "grown ?s1 ts1 s2 ts2 [name] = grown s1 ts1 s2 ts2 [name]" by (simp add: grown_def names_in_def)
  then have "grown s ts s2 ts2 [name]"
    using grown_trans [OF grown_trans [OF ok0(2) g1(1)], of s2 ts2 "[name]"] g2(1) by simp
  then have ad2: "adds [name] s s2"
    using hwi_ok_unique [OF ok] ok2 unfolding adds_def by blast
  have t2: "tag_at s2 tag (sz - 4)" using ok2 g2(2,3) by (auto simp: tag_at_def)
  let ?s3 = "puts [(6, le16 (of_nat saved_in)), (8, le16 (of_nat owner))] tag s2"
  have ad3: "adds [] s2 ?s3" using t2 sz(2) by (intro puts_adds [where n = "sz - 4"]) auto
  have ad4: "adds [] ?s3 (if owner \<noteq> HWI_NULL_OFF then tag_add16 (owner + 10) 1 ?s3 else ?s3)"
  proof (cases "owner = HWI_NULL_OFF")
    case False
    then have "tag_at ?s3 owner 8" using adds_tag_at [OF ad3 adds_tag_at [OF ad2 owner]] by blast
    then show ?thesis using False put_adds [of ?s3 owner 6 "le16 (tag_get16 (owner + 10) ?s3 + of_nat 1)"]
      by (simp add: tag_add16_def add.commute)
  qed (simp add: adds_refl)
  have "s' = (if owner \<noteq> HWI_NULL_OFF then tag_add16 (owner + 10) 1 ?s3 else ?s3)"
    by (simp add: s' puts_def Let_def)
  then have "adds [] s2 s'" using adds_trans [OF ad3 ad4] by simp
  then show ?thesis using adds_trans [OF ad2, of "[]" s'] adds_tag_at [OF _ t2] by auto
qed

section \<open>Allocation returns while there is room\<close>

definition room :: "hwi \<Rightarrow> nat" where
  "room s = sp_size (hwi_lsp s) - sp_total_size (hwi_lsp s)"

lemma room_simps [simp]:
  "room (tag_put off bs s) = room s" "room (s\<lparr>last_item := x\<rparr>) = room s" "room (s\<lparr>hw_offset := x\<rparr>) = room s"
  "room (tag_add16 off n s) = room s"
  by (simp_all add: room_def tag_add16_def)

lemma room_puts [simp]: "room (puts fs tag s) = room s"
  by (induction fs arbitrary: s) (auto simp: puts_def)

lemma string_returns:
  assumes ok: "strings_ok (hwi_lsp s)" "name_ok x" "sp_total_size (hwi_lsp s) \<le> sp_size (hwi_lsp s)"
    and r: "round8 (length x + 2) \<le> room s"
  shows "\<exists>off l. add_string x (hwi_lsp s) = Inr (off, l) \<and> room s \<le> room (set_lsp l s) + round8 (length x + 2)"
  using add_string_returns [OF ok(1,2)] ok(3) r by (fastforce simp: room_def)

lemma place_returns:
  assumes core: "hwi_core s ts" and name: "name_ok name" "length name \<le> 14" and sz: "0 < sz" "sz \<le> 2 ^ 16"
    and r: "16 + round8 sz \<le> room s"
  shows "\<exists>tag s'. place_tag name sz s = Inr (tag, s') \<and> room s \<le> room s' + (16 + round8 sz)"
proof -
  have c: "strings_ok (hwi_lsp s)" "floating (hwi_lsp s) S_hwinfo" "sp_total_size (hwi_lsp s) \<le> sp_size (hwi_lsp s)"
    using core by (simp_all add: hwi_core_def)
  have "round8 (length name + 2) \<le> round8 16" using name(2) by (intro round8_mono) simp_all
  then have n: "round8 (length name + 2) \<le> 16" by (simp add: round8_eq)
  then obtain off l where a: "add_string name (hwi_lsp s) = Inr (off, l)" "room s \<le> room (set_lsp l s) + 16"
    using string_returns [OF c(1) name(1) c(3)] r by fastforce
  note al = add_string_laws [OF c(1) name(1) a(1)] and asz = add_string_sizes [OF c(1) name(1) c(3) a(1)]
  have lok: "lsp_ok l" using al(1) by (simp add: strings_ok_def sp_inv_def)
  have sz': "sz \<le> 2 ^ 30" using sz(2) by simp
  have "sp_total_size l + round8 sz \<le> sp_size l" using a(2) r asz by (simp add: room_def)
  then obtain l2 where g: "grow_syspage_section S_hwinfo sz l = Inr l2"
    using grow_returns [OF lok sz(1) sz'] by blast
  have "sp_total_size l2 = sp_total_size l + round8 sz" "sp_size l2 = sp_size l" "sp_total_size l2 \<le> sp_size l"
    using grow_unfold [OF lok sz(1) sz' g] by simp_all
  then show ?thesis using a g by (simp add: place_tag_def Let_def room_def tag_add16_def)
qed

lemma align_returns:
  assumes ok: "hwi_ok s ts" and al: "align = 4 \<or> align = 8" and r: "24 \<le> room s"
  shows "\<exists>s'. align_tag align s = Inr s' \<and> room s \<le> room s' + 24"
proof -
  have core: "hwi_core s ts" using ok by (simp add: hwi_ok_def)
  have r8: "round8 4 = 8" by (simp add: round8_eq)
  have m4: "\<not> misaligned 4 s" using misaligned_iff [OF core, of 4] by simp
  obtain tag s' where "place_tag (hwi_name T_pad) 4 s = Inr (tag, s')" "room s \<le> room s' + 24"
    using place_returns [OF core hwi_name_ok [of T_pad], of 4] r r8 by (auto simp: cs_def)
  then show ?thesis using m4 by (auto simp: align_tag_def)
qed

text \<open>An operation that needs at most \<open>k\<close> bytes of the page: it returns, and adds tags of the names.\<close>

definition runs :: "nat \<Rightarrow> u8 list list \<Rightarrow> hwi \<Rightarrow> hwi res \<Rightarrow> bool" where
  "runs k nms s r \<longleftrightarrow> (k \<le> room s \<longrightarrow> (\<exists>s'. r = Inr s' \<and> adds nms s s' \<and> room s \<le> room s' + k))"

lemma runs_Inr: "adds nms s s' \<Longrightarrow> room s' = room s \<Longrightarrow> runs 0 nms s (Inr s')"
  by (simp add: runs_def)

lemma runs_bind:
  assumes "runs k a s r" "\<And>s'. adds a s s' \<Longrightarrow> runs j b s' (f s')"
  shows "runs (k + j) (a @ b) s (rbind r f)"
  unfolding runs_def
proof
  assume r: "k + j \<le> room s"
  then obtain s1 where s1: "r = Inr s1" "adds a s s1" "room s \<le> room s1 + k"
    using assms(1) by (auto simp: runs_def)
  then have "j \<le> room s1" using r by simp
  then obtain s2 where "f s1 = Inr s2" "adds b s1 s2" "room s1 \<le> room s2 + j"
    using assms(2) [OF s1(2)] by (auto simp: runs_def)
  then show "\<exists>s'. rbind r f = Inr s' \<and> adds (a @ b) s s' \<and> room s \<le> room s' + (k + j)"
    using s1 adds_trans by fastforce
qed

lemma runs_mono: "runs k a s r \<Longrightarrow> k \<le> j \<Longrightarrow> runs j a s r"
  by (fastforce simp: runs_def)

text \<open>The same for an operation that also returns the tag it made, with a body of \<open>n\<close> bytes.\<close>

definition makes :: "nat \<Rightarrow> u8 list \<Rightarrow> nat \<Rightarrow> hwi \<Rightarrow> (nat \<times> hwi) res \<Rightarrow> bool" where
  "makes k name n s r \<longleftrightarrow>
     (k \<le> room s \<longrightarrow> (\<exists>tag s'. r = Inr (tag, s') \<and> adds [name] s s' \<and> tag_at s' tag n \<and> room s \<le> room s' + k))"

lemma hwi_alloc_tag_makes:
  assumes name: "name_ok name" "name \<noteq> hwi_name T_pad" "length name \<le> 14" and sz: "4 dvd sz" "8 \<le> sz" "sz \<le> 32"
    and al: "align = 4 \<or> align = 8" and there: "tag_at s x 8"
  shows "makes 72 name (sz - 4) s (hwi_alloc_tag name sz align s)"
  unfolding makes_def
proof
  assume r: "72 \<le> room s"
  obtain ts where ok: "hwi_ok s ts" using there by (auto simp: tag_at_def)
  obtain s1 where s1: "align_tag align s = Inr s1" "room s \<le> room s1 + 24"
    using align_returns [OF ok al] r by auto
  obtain ts1 where core1: "hwi_core s1 ts1" using align_grown [OF ok al s1(1)] by (auto simp: hwi_ok_def)
  have "round8 sz \<le> round8 32" using sz(3) by (intro round8_mono) simp_all
  then have r8: "round8 sz \<le> 32" by (simp add: round8_eq)
  have sz': "0 < sz" "sz \<le> 2 ^ 16" using sz by simp_all
  obtain tag s' where p: "place_tag name sz s1 = Inr (tag, s')" "room s1 \<le> room s' + (16 + round8 sz)"
    using place_returns [OF core1 name(1,3) sz'] r s1(2) r8 by fastforce
  have a: "hwi_alloc_tag name sz align s = Inr (tag, s')" using s1(1) p(1) by (simp add: hwi_alloc_tag_def)
  show "\<exists>tag s'. hwi_alloc_tag name sz align s = Inr (tag, s') \<and> adds [name] s s' \<and> tag_at s' tag (sz - 4) \<and> room s \<le> room s' + 72"
    using a hwi_alloc_tag_adds [OF name(1,2) sz(1,2) sz'(2) al there a] s1(2) p(2) r8 by fastforce
qed

lemma hwi_alloc_item_makes:
  assumes name: "name_ok name" "name \<noteq> hwi_name T_pad" "length name \<le> 14" and item: "name_ok itemname"
    and sz: "4 dvd sz" "12 \<le> sz" "sz \<le> 16" and wf: "hwi_wf s"
    and owner: "owner \<noteq> HWI_NULL_OFF \<Longrightarrow> tag_at s owner 8"
  shows "makes (72 + round8 (length itemname + 2)) name (sz - 4) s (hwi_alloc_item name sz 4 itemname owner s)"
  unfolding makes_def
proof
  assume r: "72 + round8 (length itemname + 2) \<le> room s"
  obtain ts where ok: "hwi_ok s ts" using wf by (auto simp: hwi_wf_def)
  have c: "strings_ok (hwi_lsp s)" "sp_total_size (hwi_lsp s) \<le> sp_size (hwi_lsp s)"
    using ok by (simp_all add: hwi_ok_def hwi_core_def)
  obtain off l where str: "add_string itemname (hwi_lsp s) = Inr (off, l)"
    "room s \<le> room (set_lsp l s) + round8 (length itemname + 2)"
    using string_returns [OF c(1) item c(2)] r by auto
  obtain ts0 where ok0: "hwi_ok (set_lsp l s) ts0" using string_adds [OF item str(1)] ok unfolding adds_def by blast
  obtain s1 where s1: "align_tag 4 (set_lsp l s) = Inr s1" "room (set_lsp l s) \<le> room s1 + 24"
    using align_returns [OF ok0, of 4] r str(2) by auto
  obtain ts1 where g1: "hwi_core s1 ts1" "4 dvd hw_offset s1"
    using align_grown [OF ok0 disjI1 [OF refl] s1(1)] by (auto simp: hwi_ok_def)
  let ?s1 = "s1\<lparr>last_item := hw_offset s1\<rparr>"
  have core1: "hwi_core ?s1 ts1" using g1(1) by (simp add: hwi_core_def)
  have "round8 sz \<le> round8 16" using sz(3) by (intro round8_mono) simp_all
  then have r8: "round8 sz \<le> 16" by (simp add: round8_eq)
  have sz': "0 < sz" "sz \<le> 2 ^ 16" using sz by simp_all
  have "16 + round8 sz \<le> room ?s1" using r str(2) s1(2) r8 by simp
  then obtain tag s2 where p: "place_tag name sz ?s1 = Inr (tag, s2)" "room s1 \<le> room s2 + (16 + round8 sz)"
    using place_returns [OF core1 name(1,3) sz'] by auto
  obtain s' where a: "hwi_alloc_item name sz 4 itemname owner s = Inr (tag, s')" and "room s' = room s2"
    using str s1(1) p(1) align_tag_aligned [OF core1, of 4] g1(2)
    by (auto simp: hwi_alloc_item_def hwi_alloc_tag_def Let_def)
  then show "\<exists>tag s'. hwi_alloc_item name sz 4 itemname owner s = Inr (tag, s') \<and> adds [name] s s' \<and>
      tag_at s' tag (sz - 4) \<and> room s \<le> room s' + (72 + round8 (length itemname + 2))"
    using hwi_alloc_item_adds [OF name(1,2) item sz(1,2) sz'(2) wf owner a] str(2) s1(2) p(2) r8 by fastforce
qed

section \<open>The operations add what they are meant to\<close>

lemma hwi_name_facts:
  "length (hwi_name ty) \<le> 14" "4 dvd hwi_size ty" "hwi_size ty \<le> 32" "hwi_align ty = 4 \<or> hwi_align ty = 8"
  "ty \<noteq> T_pad \<Longrightarrow> hwi_name ty \<noteq> hwi_name T_pad" "ty \<noteq> T_pad \<Longrightarrow> 8 \<le> hwi_size ty"
  by (cases ty; simp add: cs_def)+

lemma alloc_tag_makes:
  "ty \<noteq> T_pad \<Longrightarrow> tag_at s x 8 \<Longrightarrow> makes 72 (hwi_name ty) (hwi_size ty - 4) s (alloc_tag ty s)"
  unfolding alloc_tag_def
  by (rule hwi_alloc_tag_makes [OF hwi_name_ok hwi_name_facts(5,1,2,6,3,4)])

lemma makes_puts:
  assumes "makes k nm n s r" "\<forall>(f, bs) \<in> set fs. 4 \<le> f \<and> f + length bs \<le> n + 4"
  shows "runs k [nm] s (rbind r (\<lambda>(tag, s). Inr (puts fs tag s)))"
  unfolding runs_def
proof
  assume "k \<le> room s"
  then obtain tag s1 where s1: "r = Inr (tag, s1)" "adds [nm] s s1" "tag_at s1 tag n" "room s \<le> room s1 + k"
    using assms(1) by (auto simp: makes_def)
  have "adds [nm] s (puts fs tag s1)" using adds_trans [OF s1(2) puts_adds [OF assms(2) s1(3)]] by simp
  then show "\<exists>s'. rbind r (\<lambda>(tag, s). Inr (puts fs tag s)) = Inr s' \<and> adds [nm] s s' \<and> room s \<le> room s' + k"
    using s1 by simp
qed

lemma length_le64 [simp]: "length (le64 w) = 8"
  by (simp add: le64_def)

lemma hwitag_runs:
  assumes t: "tag_at s x 8"
  shows "runs 72 [cs ''location''] s (hwitag_add_location h a l r as s)"
    and "runs 72 [cs ''irq''] s (hwitag_add_irq h v s)"
    and "runs 72 [cs ''inputclk''] s (hwitag_add_inputclk h v w s)"
    and "runs 72 [cs ''nicphyaddr''] s (hwitag_add_nicphyaddr h v s)"
    and "runs 72 [cs ''errata''] s (hwitag_add_errata h v s)"
  unfolding hwitag_add_location_def hwitag_add_irq_def hwitag_add_inputclk_def hwitag_add_nicphyaddr_def hwitag_add_errata_def
  using makes_puts [OF alloc_tag_makes [OF _ t, of T_location]] makes_puts [OF alloc_tag_makes [OF _ t, of T_irq]]
    makes_puts [OF alloc_tag_makes [OF _ t, of T_inputclk]] makes_puts [OF alloc_tag_makes [OF _ t, of T_nicphyaddr]]
    makes_puts [OF alloc_tag_makes [OF _ t, of T_errata]]
  by simp_all

lemma hwitag_add_nicaddr_runs:
  assumes t: "tag_at s x 8" and l: "length addr = 6"
  shows "runs 72 [cs ''nicaddr''] s (hwitag_add_nicaddr h addr s)"
proof -
  have r: "round4 14 = 16" by (simp add: round4_eq)
  have "makes 72 (hwi_name T_nicaddr) (16 - 4) s (hwi_alloc_tag (hwi_name T_nicaddr) 16 4 s)"
    using t by (intro hwi_alloc_tag_makes) (simp_all add: cs_def name_ok_def str_ok_def)
  from makes_puts [OF this, of "[(4, le32 6), (8, addr)]"] show ?thesis
    using l r by (simp add: hwitag_add_nicaddr_def)
qed

text \<open>Operations that add a string of their own before the tag.\<close>

lemma string_runs:
  assumes x: "name_ok x" and wf: "hwi_wf s" and f: "\<And>off s'. adds [] s s' \<Longrightarrow> runs k nms s' (f off s')"
  shows "runs (round8 (length x + 2) + k) nms s (rbind (add_string x (hwi_lsp s)) (\<lambda>(off, l). f off (set_lsp l s)))"
  unfolding runs_def
proof
  assume r: "round8 (length x + 2) + k \<le> room s"
  obtain ts where ok: "hwi_ok s ts" using wf by (auto simp: hwi_wf_def)
  have c: "strings_ok (hwi_lsp s)" "sp_total_size (hwi_lsp s) \<le> sp_size (hwi_lsp s)"
    using ok by (simp_all add: hwi_ok_def hwi_core_def)
  obtain off l where str: "add_string x (hwi_lsp s) = Inr (off, l)"
    "room s \<le> room (set_lsp l s) + round8 (length x + 2)"
    using string_returns [OF c(1) x c(2)] r by auto
  have a: "adds [] s (set_lsp l s)" by (rule string_adds [OF x str(1)])
  obtain s' where "f off (set_lsp l s) = Inr s'" "adds nms (set_lsp l s) s'" "room (set_lsp l s) \<le> room s' + k"
    using f [OF a, of off] r str(2) by (auto simp: runs_def)
  then show "\<exists>s'. rbind (add_string x (hwi_lsp s)) (\<lambda>(off, l). f off (set_lsp l s)) = Inr s' \<and> adds nms s s' \<and>
      room s \<le> room s' + (round8 (length x + 2) + k)"
    using str adds_trans [OF a] by fastforce
qed

lemma hwitag_string_runs:
  assumes x: "name_ok x" and t: "tag_at s y 8"
  shows "runs (round8 (length x + 2) + 72) [cs ''drvr_dll''] s (hwitag_add_dll h x s)"
    and "runs (round8 (length x + 2) + 72) [cs ''optstr''] s (hwitag_add_optstr h x s)"
    and "runs (round8 (length x + 2) + 72) [cs ''regname''] s (hwitag_add_regname h x w s)"
proof -
  have m: "ty \<noteq> T_pad \<Longrightarrow> adds [] s s' \<Longrightarrow> makes 72 (hwi_name ty) (hwi_size ty - 4) s' (alloc_tag ty s')" for ty s'
    using alloc_tag_makes adds_tag_at [OF _ t] by blast
  have "runs (round8 (length x + 2) + 72) [hwi_name ty] s
      (rbind (add_string x (hwi_lsp s)) (\<lambda>(off, l). rbind (alloc_tag ty (set_lsp l s)) (\<lambda>(tag, s). Inr (puts (fs off) tag s))))"
    if "ty \<noteq> T_pad" "\<And>off. \<forall>(f, bs) \<in> set (fs off). 4 \<le> f \<and> f + length bs \<le> hwi_size ty - 4 + 4" for ty fs
    using string_runs [OF x tag_at_wf [OF t], of 72 "[hwi_name ty]" "\<lambda>off s. rbind (alloc_tag ty s) (\<lambda>(tag, s). Inr (puts (fs off) tag s))"]
      makes_puts [OF m [OF that(1)] that(2)] by blast
  from this [of T_dll "\<lambda>i. [(4, le32 (of_nat i))]"] this [of T_optstr "\<lambda>i. [(4, le32 (of_nat i))]"]
    this [of T_regname "\<lambda>i. [(4, le16 (of_nat i)), (6, le16 (ucast w))]"]
  show "runs (round8 (length x + 2) + 72) [cs ''drvr_dll''] s (hwitag_add_dll h x s)"
    "runs (round8 (length x + 2) + 72) [cs ''optstr''] s (hwitag_add_optstr h x s)"
    "runs (round8 (length x + 2) + 72) [cs ''regname''] s (hwitag_add_regname h x w s)"
    by (simp_all add: hwitag_add_dll_def hwitag_add_optstr_def hwitag_add_regname_def)
qed

lemma add_each_runs:
  assumes f: "\<And>i s. tag_at s x 8 \<Longrightarrow> runs k [nm] s (f i s)"
  shows "tag_at s x 8 \<Longrightarrow> runs (length is * k) (replicate (length is) nm) s (add_each f is s)"
proof (induction "is" arbitrary: s)
  case Nil
  then show ?case by (simp add: runs_Inr adds_refl)
next
  case (Cons i "is")
  have "runs (k + length is * k) ([nm] @ replicate (length is) nm) s (rbind (f i s) (add_each f is))"
    using f [OF Cons.prems] Cons.IH adds_tag_at [OF _ Cons.prems] by (intro runs_bind) blast+
  then show ?case by simp
qed

definition opt_cost :: "u8 list option \<Rightarrow> nat" where
  "opt_cost x = (case x of None \<Rightarrow> 0 | Some x \<Rightarrow> round8 (length x + 2) + 72)"

definition opt_tag :: "'a option \<Rightarrow> u8 list \<Rightarrow> u8 list list" where
  "opt_tag x nm = (case x of None \<Rightarrow> [] | Some _ \<Rightarrow> [nm])"

definition common_cost :: "hwiattr_common \<Rightarrow> nat" where
  "common_cost a = 72 + num_irq a * 72 + opt_cost (at_dll a) + opt_cost (at_optstr a) + num_errata a * 72"

definition common_tags :: "hwiattr_common \<Rightarrow> u8 list list" where
  "common_tags a = [cs ''location''] @ replicate (num_irq a) (cs ''irq'') @ opt_tag (at_dll a) (cs ''drvr_dll'') @
     opt_tag (at_optstr a) (cs ''optstr'') @ replicate (num_errata a) (cs ''errata'')"

lemma opt_runs:
  assumes t: "tag_at s x 8" and ok: "\<And>y. o1 = Some y \<Longrightarrow> name_ok y"
    and f: "\<And>y. name_ok y \<Longrightarrow> runs (round8 (length y + 2) + 72) [nm] s (f y s)"
  shows "runs (opt_cost o1) (opt_tag o1 nm) s (case o1 of None \<Rightarrow> Inr s | Some y \<Rightarrow> f y s)"
  using ok f by (cases o1) (simp_all add: opt_cost_def opt_tag_def runs_Inr adds_refl)

lemma hwitag_add_common_runs:
  assumes t: "tag_at s x 8" and ok: "\<And>y. at_dll a = Some y \<Longrightarrow> name_ok y" "\<And>y. at_optstr a = Some y \<Longrightarrow> name_ok y"
  shows "runs (common_cost a) (common_tags a) s (hwitag_add_common h a s)"
proof -
  note tr = adds_tag_at
  have "runs (72 + (num_irq a * 72 + (opt_cost (at_dll a) + (opt_cost (at_optstr a) + num_errata a * 72))))
      ([cs ''location''] @ replicate (num_irq a) (cs ''irq'') @ opt_tag (at_dll a) (cs ''drvr_dll'') @
       opt_tag (at_optstr a) (cs ''optstr'') @ replicate (num_errata a) (cs ''errata'')) s (hwitag_add_common h a s)"
    unfolding hwitag_add_common_def
  proof (intro runs_bind)
    show "runs 72 [cs ''location''] s
        (hwitag_add_location h (at_base a) (at_len a) (ucast (at_regshift a)) (ucast (at_addrspace a)) s)"
      by (rule hwitag_runs(1) [OF t])
    fix s1
    assume "adds [cs ''location''] s s1"
    then have t1: "tag_at s1 x 8" using t by (rule adds_tag_at)
    show "runs (num_irq a * 72) (replicate (num_irq a) (cs ''irq'')) s1 (add_n (num_irq a) (hwitag_add_irq h HWI_ILLEGAL_VECTOR) s1)"
      using add_each_runs [OF _ t1, of 72 "cs ''irq''" _ "[0..<num_irq a]"] hwitag_runs(2) by simp
    fix s2
    assume "adds (replicate (num_irq a) (cs ''irq'')) s1 s2"
    then have t2: "tag_at s2 x 8" using t1 by (rule adds_tag_at)
    show "runs (opt_cost (at_dll a)) (opt_tag (at_dll a) (cs ''drvr_dll'')) s2
        (case at_dll a of None \<Rightarrow> Inr s2 | Some dll \<Rightarrow> hwitag_add_dll h dll s2)"
      by (rule opt_runs [OF t2]) (erule ok(1), erule hwitag_string_runs(1) [OF _ t2])
    fix s3
    assume "adds (opt_tag (at_dll a) (cs ''drvr_dll'')) s2 s3"
    then have t3: "tag_at s3 x 8" using t2 by (rule adds_tag_at)
    show "runs (opt_cost (at_optstr a)) (opt_tag (at_optstr a) (cs ''optstr'')) s3
        (case at_optstr a of None \<Rightarrow> Inr s3 | Some str \<Rightarrow> hwitag_add_optstr h str s3)"
      by (rule opt_runs [OF t3]) (erule ok(2), erule hwitag_string_runs(2) [OF _ t3])
    fix s4
    assume "adds (opt_tag (at_optstr a) (cs ''optstr'')) s3 s4"
    then have t4: "tag_at s4 x 8" using t3 by (rule adds_tag_at)
    show "runs (num_errata a * 72) (replicate (num_errata a) (cs ''errata'')) s4 (add_n (num_errata a) (hwitag_add_errata h 0) s4)"
      using add_each_runs [OF _ t4, of 72 "cs ''errata''" _ "[0..<num_errata a]"] hwitag_runs(5) by simp
  qed
  then show ?thesis by (simp add: common_cost_def common_tags_def add.assoc)
qed

text \<open>A new item with tags behind it, as the adding functions build them.\<close>

lemma tag_at_real: "tag_at s off n \<Longrightarrow> off \<noteq> HWI_NULL_OFF"
proof -
  assume "tag_at s off n"
  then obtain ts where ts: "hwi_ok s ts" "is_tag ts off n" unfolding tag_at_def by blast
  then obtain a t b where t: "hwi_core s ts" "ts = a @ t # b" "off = length (encs a)"
    unfolding is_tag_def hwi_ok_def by blast
  then have "\<forall>t \<in> set a. 4 dvd length (snd t)" by (simp add: hwi_core_def)
  then have "4 dvd off" unfolding t(3) by (induction a) auto
  then show ?thesis by auto
qed

lemma with_attr_makes:
  assumes m: "makes k nm n s r" and n: "8 \<le> n"
    and f: "\<And>off s'. tag_at s' off 8 \<Longrightarrow> runs j b s' (f off a s')" and r: "k + j \<le> room s"
  shows "\<exists>off s'. with_attr r (Some a) f = Inr (off, s') \<and> adds (nm # b) s s' \<and> tag_at s' off n"
proof -
  obtain off s1 where s1: "r = Inr (off, s1)" "adds [nm] s s1" "tag_at s1 off n" "room s \<le> room s1 + k"
    using m r by (auto simp: makes_def)
  have "tag_at s1 off 8" using s1(3) is_tag_mono [OF _ n] unfolding tag_at_def by blast
  then obtain s2 where s2: "f off a s1 = Inr s2" "adds b s1 s2"
    using f r s1(4) by (fastforce simp: runs_def)
  then show ?thesis
    using s1 tag_at_real [OF s1(3)] adds_trans [OF s1(2) s2(2)] adds_tag_at [OF s2(2) s1(3)]
    by (auto simp: with_attr_def)
qed

lemma alloc_item_makes:
  "hwi_size ty \<le> 16 \<Longrightarrow> 12 \<le> hwi_size ty \<Longrightarrow> hwi_align ty = 4 \<Longrightarrow> ty \<noteq> T_pad \<Longrightarrow> name_ok itemname \<Longrightarrow> hwi_wf s \<Longrightarrow>
     (owner \<noteq> HWI_NULL_OFF \<Longrightarrow> tag_at s owner 8) \<Longrightarrow>
   makes (72 + round8 (length itemname + 2)) (hwi_name ty) (hwi_size ty - 4) s (alloc_item ty itemname owner s)"
  unfolding alloc_item_def
  using hwi_alloc_item_makes [OF hwi_name_ok hwi_name_facts(5,1) _ hwi_name_facts(2)] by metis

lemma hwidev_add_makes:
  assumes bus: "tag_at s bus 8" and name: "name_ok device_name"
  shows "makes (72 + round8 (length device_name + 2)) (cs ''Device'') 12 s (hwidev_add L device_name pnp bus s)"
  unfolding makes_def
proof
  assume "72 + round8 (length device_name + 2) \<le> room s"
  then obtain tag s1 where s1: "alloc_item T_device device_name bus s = Inr (tag, s1)" "adds [cs ''Device''] s s1"
    "tag_at s1 tag 12" "room s \<le> room s1 + (72 + round8 (length device_name + 2))"
    using alloc_item_makes [of T_device, OF _ _ _ _ name tag_at_wf [OF bus] bus] by (auto simp: makes_def)
  have a: "adds [] s1 (puts [(12, le32 pnp)] tag s1)" using s1(3) by (intro puts_adds) auto
  show "\<exists>tag s'. hwidev_add L device_name pnp bus s = Inr (tag, s') \<and> adds [cs ''Device''] s s' \<and> tag_at s' tag 12 \<and>
      room s \<le> room s' + (72 + round8 (length device_name + 2))"
    using s1 adds_trans [OF s1(2) a] adds_tag_at [OF a s1(3)] tag_at_real [OF bus]
    by (simp add: hwidev_add_def)
qed

definition enet_tags :: "hwiattr_enet \<Rightarrow> u8 list list" where
  "enet_tags a = common_tags (enet_common a) @ replicate (num_phys a) (cs ''nicphyaddr'') @
     replicate (enet_clks a) (cs ''inputclk'') @ (if mac a = [0, 0, 0, 0, 0, 0] then [] else [cs ''nicaddr''])"

definition enet_cost :: "hwiattr_enet \<Rightarrow> nat" where
  "enet_cost a = common_cost (enet_common a) + (num_phys a * 72 + (enet_clks a * 72 + 72))"

text \<open>
  C3: adding a network device below a bus item returns while the page has the room, and leaves a
  well-formed table: the tags before it keep their places, and behind them come the device item, its
  location, its interrupts, driver and option strings, errata, one tag per PHY, one per clock, and an
  address tag unless the address is all zero.
\<close>

theorem hwidev_add_enet_tags:
  assumes bus: "tag_at s bus 8" and name: "name_ok device_name" and mac6: "length (mac a) = 6"
    and strs: "\<And>y. at_dll (enet_common a) = Some y \<Longrightarrow> name_ok y" "\<And>y. at_optstr (enet_common a) = Some y \<Longrightarrow> name_ok y"
    and r: "72 + round8 (length device_name + 2) + enet_cost a \<le> room s"
  shows "\<exists>off s'. hwidev_add_enet L device_name (Some a) bus s = Inr (off, s') \<and> hwi_wf s' \<and> tag_at s' off 12 \<and>
    tag_names s' = tag_names s @ cs ''Device'' # enet_tags a \<and> (\<forall>x n. tag_at s x n \<longrightarrow> tag_at s' x n)"
proof -
  let ?f = "\<lambda>off a s. rbind (hwitag_add_common off (enet_common a) s) (\<lambda>s.
       rbind (add_each (\<lambda>i. hwitag_add_nicphyaddr off (of_nat i)) [0..<num_phys a] s) (\<lambda>s.
       rbind (add_n (enet_clks a) (hwitag_add_inputclk off 0 1) s) (\<lambda>s.
       if mac a \<noteq> [0, 0, 0, 0, 0, 0] then hwitag_add_nicaddr off (mac a) s else Inr s)))"
  have tags: "runs (enet_cost a) (enet_tags a) s1 (?f off a s1)" if t: "tag_at s1 off 8" for off s1
    unfolding enet_cost_def enet_tags_def
  proof (intro runs_bind)
    show "runs (common_cost (enet_common a)) (common_tags (enet_common a)) s1 (hwitag_add_common off (enet_common a) s1)"
      by (rule hwitag_add_common_runs [OF t strs])
    fix s2
    assume "adds (common_tags (enet_common a)) s1 s2"
    then have t2: "tag_at s2 off 8" using t by (rule adds_tag_at)
    show "runs (num_phys a * 72) (replicate (num_phys a) (cs ''nicphyaddr'')) s2
        (add_each (\<lambda>i. hwitag_add_nicphyaddr off (of_nat i)) [0..<num_phys a] s2)"
      using add_each_runs [OF _ t2, of 72 "cs ''nicphyaddr''" _ "[0..<num_phys a]"] hwitag_runs(4) by simp
    fix s3
    assume "adds (replicate (num_phys a) (cs ''nicphyaddr'')) s2 s3"
    then have t3: "tag_at s3 off 8" using t2 by (rule adds_tag_at)
    show "runs (enet_clks a * 72) (replicate (enet_clks a) (cs ''inputclk'')) s3 (add_n (enet_clks a) (hwitag_add_inputclk off 0 1) s3)"
      using add_each_runs [OF _ t3, of 72 "cs ''inputclk''" _ "[0..<enet_clks a]"] hwitag_runs(3) by simp
    fix s4
    assume "adds (replicate (enet_clks a) (cs ''inputclk'')) s3 s4"
    then have t4: "tag_at s4 off 8" using t3 by (rule adds_tag_at)
    show "runs 72 (if mac a = [0, 0, 0, 0, 0, 0] then [] else [cs ''nicaddr'']) s4
        (if mac a \<noteq> [0, 0, 0, 0, 0, 0] then hwitag_add_nicaddr off (mac a) s4 else Inr s4)"
      using hwitag_add_nicaddr_runs [OF t4 mac6] runs_mono [OF runs_Inr [OF adds_refl refl], of 72 s4] by auto
  qed
  obtain off s' where "hwidev_add_enet L device_name (Some a) bus s = Inr (off, s')"
    "adds (cs ''Device'' # enet_tags a) s s'" "tag_at s' off 12"
    using with_attr_makes [where f = ?f, OF hwidev_add_makes [OF bus name, of L hwi_devclass_ENET] _ tags r]
    unfolding hwidev_add_enet_def by auto
  then show ?thesis
    using adds_wf adds_tag_names adds_tag_at tag_at_wf [OF bus] by blast
qed

section \<open>The table from the start\<close>

lemma hwi_fresh:
  assumes "strings_ok (hwi_lsp s)" "floating (hwi_lsp s) S_hwinfo" "hwi_data s = replicate n 0" "8 \<le> n"
    "sp_total_size (hwi_lsp s) \<le> sp_size (hwi_lsp s)" "sp_size (hwi_lsp s) \<le> 2 ^ 16" "hw_offset s = 0" "last_item s = 0"
  shows "hwi_ok s []"
  using assms by (auto simp: hwi_ok_def hwi_core_def)

lemma first_item_at_zero:
  "alloc_item T_group nm owner s = Inr (tag, s') \<Longrightarrow> hw_offset s = 0 \<Longrightarrow> tag = 0"
  by (auto simp: alloc_item_def hwi_alloc_item_def hwi_alloc_tag_def align_tag_def misaligned_def ROUND_def TRUNC_def
      place_tag_def rbind_Inr_iff Let_def tag_add16_def)

lemma hwi_default_builds:
  assumes ok: "hwi_ok s []" and r: "168 \<le> room s"
  shows "\<exists>s' bus. hwi_default s = Inr s' \<and> tag_names s' = [cs ''Group'', cs ''Bus''] \<and> tag_at s' bus 8 \<and> tag_at s' 0 8 \<and>
    room s \<le> room s' + 168"
proof -
  have wf: "hwi_wf s" using ok by (auto simp: hwi_wf_def)
  have nm: "name_ok root_hw" "name_ok bus_unknown" by (simp_all add: name_ok_def str_ok_def cs_def)
  have len: "length root_hw = 2" "length bus_unknown = 7" by (simp_all add: cs_def)
  have r8: "round8 4 = 8" "round8 9 = 16" by (simp_all add: round8_eq)
  have m1: "makes 80 (cs ''Group'') 8 s (alloc_item T_group root_hw HWI_NULL_OFF s)"
    using alloc_item_makes [of T_group, OF _ _ _ _ nm(1) wf, of HWI_NULL_OFF] len r8 by simp
  then obtain tag s1 where s1: "alloc_item T_group root_hw HWI_NULL_OFF s = Inr (tag, s1)" "adds [cs ''Group''] s s1"
    "tag_at s1 tag 8" "room s \<le> room s1 + 80" using r by (auto simp: makes_def)
  have m2: "makes 88 (cs ''Bus'') 8 s1 (alloc_item T_bus bus_unknown tag s1)"
    using alloc_item_makes [of T_bus, OF _ _ _ _ nm(2) adds_wf [OF s1(2) wf] s1(3)] len r8 by simp
  then obtain bus s2 where s2: "alloc_item T_bus bus_unknown tag s1 = Inr (bus, s2)" "adds [cs ''Bus''] s1 s2"
    "tag_at s2 bus 8" "room s1 \<le> room s2 + 88" using r s1(4) by (auto simp: makes_def)
  have "tag_names s = []"
    using tag_names_core [of s "[]"] ok by (simp add: hwi_ok_def names_in_def)
  then have "tag_names s2 = [cs ''Group'', cs ''Bus'']"
    using adds_tag_names [OF adds_trans [OF s1(2) s2(2)] wf] by simp
  moreover have "tag = 0" using first_item_at_zero [OF s1(1)] ok by (simp add: hwi_ok_def hwi_core_def)
  ultimately show ?thesis using s1(1,4) s2 adds_tag_at [OF s2(2) s1(3)] by (auto simp: hwi_default_def)
qed

text \<open>A page with an empty table: the small page after its \<open>hwinfo\<close> section has been made.\<close>

lemma fresh_page: "\<exists>s. hwi_ok s [] \<and> 12000 \<le> room s"
proof -
  let ?l = "page_of [] [0]"
  have "is_table [0] []" by (auto simp: is_table_def)
  then have st: "strings_ok ?l" by (rule page_strings_ok [rotated]) simp
  have fl: "floating ?l S_hwinfo" using page_of_inv(2) [of "[]" "[0]" S_hwinfo] by simp
  have z: "sec_data ?l S_hwinfo = []" by (simp add: sec_data_def mem_read_def page_of_def)
  have r8: "round8 4 = 8" by (simp add: round8_eq)
  have inv: "sp_inv ?l" using st by (simp add: strings_ok_def)
  obtain l where g: "grow_syspage_section S_hwinfo 4 ?l = Inr l" "sp_total_size l = 17" "sp_size l = 0x8000"
    using grow_step [OF inv fl, of 4] r8 by auto
  note gh = grow_hwinfo [OF st fl _ _ g(1), simplified]
  define s where "s = \<lparr>hwi_st = \<lparr>st_lsp = l, st_as = [], st_abi = \<lparr>AS_ATTR_NONE = 0, AS_ATTR_KIDS = 0,
     AS_ATTR_CONTINUED = 0, AS_ATTR_RAM = 0, AS_OVERLAY_IO = 0, AS_PRIORITY_DEFAULT = 0\<rparr>, st_as_hooked = False\<rparr>,
     hw_offset = 0, last_item = 0\<rparr>"
  have "hwi_ok s []" using gh g z r8 by (intro hwi_fresh [where n = 8]) (simp_all add: s_def)
  moreover have "12000 \<le> room s" using g by (simp add: s_def room_def)
  ultimately show ?thesis by blast
qed

theorem hwidev_add_enet_tags_witness:
  "\<exists>s bus off s'. hwidev_add_enet
      \<lparr>find_item = \<lambda>_ _ _. HWI_NULL_OFF, find_device = \<lambda>_ _ _. HWI_NULL_OFF,
        find_unit = \<lambda>_ _. 0, tag_find = \<lambda>_ _ _ _. (None, 0), AS_NULL_OFF = 0xffff\<rparr> (cs ''fec'')
      (Some \<lparr>enet_common = \<lparr>at_base = 0x02188000, at_len = 0x4000, at_regshift = 0, at_addrspace = 0, at_dll = None,
               at_optstr = None, num_irq = 2, num_errata = 0\<rparr>,
             mac = [0, 4, 159, 1, 2, 3], enet_clks = 0, num_phys = 1\<rparr>) bus s = Inr (off, s') \<and>
    tag_names s' = [cs ''Group'', cs ''Bus'', cs ''Device'', cs ''location'', cs ''irq'', cs ''irq'',
      cs ''nicphyaddr'', cs ''nicaddr'']"
proof -
  obtain s0 where s0: "hwi_ok s0 []" "12000 \<le> room s0" using fresh_page by blast
  obtain s bus where s: "tag_names s = [cs ''Group'', cs ''Bus'']" "tag_at s bus 8" "room s0 \<le> room s + 168"
    using hwi_default_builds [OF s0(1)] s0(2) by auto
  have nm: "name_ok (cs ''fec'')" by (simp add: name_ok_def str_ok_def cs_def)
  have len: "length (cs ''fec'') + 2 = 5" and r8: "round8 5 = 8" by (simp_all add: cs_def round8_eq)
  let ?L = "\<lparr>find_item = \<lambda>_ _ _. HWI_NULL_OFF, find_device = \<lambda>_ _ _. HWI_NULL_OFF,
        find_unit = \<lambda>_ _. 0, tag_find = \<lambda>_ _ _ _. (None, 0), AS_NULL_OFF = 0xffff\<rparr>"
  let ?a = "\<lparr>enet_common = \<lparr>at_base = 0x02188000, at_len = 0x4000, at_regshift = 0, at_addrspace = 0, at_dll = None,
               at_optstr = None, num_irq = 2, num_errata = 0\<rparr>,
             mac = [0, 4, 159, 1, 2, 3], enet_clks = 0, num_phys = 1\<rparr>"
  have "enet_tags ?a = [cs ''location'', cs ''irq'', cs ''irq'', cs ''nicphyaddr'', cs ''nicaddr'']"
    by (simp add: enet_tags_def common_tags_def opt_tag_def numeral_2_eq_2)
  moreover have "72 + round8 (length (cs ''fec'') + 2) + enet_cost ?a \<le> room s"
    using s(3) s0(2) r8 len by (simp add: enet_cost_def common_cost_def opt_cost_def)
  ultimately show ?thesis
    using hwidev_add_enet_tags [of s bus "cs ''fec''" ?a ?L, OF s(2) nm] s(1) by fastforce
qed

text \<open>
  \<open>hwi_grow_tag\<close> leaves the allocation offset where it is, so the next tag is placed inside the
  bytes the tag has just grown by.
\<close>

lemma hwi_grow_tag_keeps_offset: "hwi_grow_tag offset sz s = Inr (tag, s') \<Longrightarrow> hw_offset s' = hw_offset s"
  by (auto simp: hwi_grow_tag_def rbind_Inr_iff Let_def tag_add16_def)

end
