(* ===== verification/Startup_Hwiboard.thy ===== *)
theory Startup_Hwiboard
  imports Startup_Hwitab
begin

text \<open>
  The hardware tables of the boards: \<open>hwi_imx6dq\<close> of
  \<open>startup/boards/imx6x/sabresmart/hwi_imx6q_ddr3.c\<close> with \<open>init_hwinfo.c\<close>, and \<open>hwi_imx51\<close> and
  \<open>hwi_imx53\<close> of \<open>startup/lib/arm\<close>. Each is a straight sequence of blocks, one per kind of device:
  fill in the attributes, add the device, check its unit number, set its interrupt and clock. The
  blocks are definitions here, with the addresses of \<open>arm/mx6x.h\<close>, \<open>mx51.h\<close> and \<open>mx53.h\<close> as their
  arguments. A failed \<open>ASSERT\<close> crashes. Which unit number a device gets is up to the search of the
  library, which is a parameter here; what one device adds to the table is in \<open>Startup_Hwitab\<close>.
\<close>

section \<open>Blocks\<close>

fun steps :: "(hwi \<Rightarrow> hwi res) list \<Rightarrow> hwi \<Rightarrow> hwi res" where
  "steps [] s = Inr s"
| "steps (f # fs) s = rbind (f s) (steps fs)"

definition ASSERT :: "bool \<Rightarrow> hwi \<Rightarrow> hwi res" where
  "ASSERT c s = (if c then Inr s else Inl AssertFailed)"

text \<open>\<open>HWIATTR_COMMON_INITIALIZER\<close>, \<open>SET_LOCATION\<close> and \<open>SET_NUM_IRQ\<close>; \<open>as_base\<close> is looked up.\<close>

definition located :: "hwi_lib \<Rightarrow> hwi \<Rightarrow> u32 \<Rightarrow> u32 \<Rightarrow> u32 \<Rightarrow> nat \<Rightarrow> hwiattr_common" where
  "located L s base len as_base n =
     \<lparr>at_base = base, at_len = len, at_regshift = 0,
      at_addrspace = ucast (as_byte_off L s (hwi_find_as as_base True (hwi_st s))),
      at_dll = None, at_optstr = None, num_irq = n, num_errata = 0\<rparr>"

abbreviation set_ivec :: "hwi_lib \<Rightarrow> nat \<Rightarrow> u32 \<Rightarrow> hwi \<Rightarrow> hwi res" where
  "set_ivec L off irq s \<equiv> Inr (snd (hwitag_set_ivec L off 0 irq s))"

abbreviation set_avail_ivec :: "hwi_lib \<Rightarrow> nat \<Rightarrow> u32 \<Rightarrow> hwi \<Rightarrow> hwi res" where
  "set_avail_ivec L off irq s \<equiv>
     (case hwitag_set_avail_ivec L off 0 irq s of None \<Rightarrow> Inl LibraryDiverges | Some (_, s) \<Rightarrow> Inr s)"

abbreviation set_inputclk :: "hwi_lib \<Rightarrow> nat \<Rightarrow> u32 \<times> u32 \<Rightarrow> hwi \<Rightarrow> hwi res" where
  "set_inputclk L off clk s \<equiv> Inr (snd (hwitag_set_inputclk L off 0 clk s))"

text \<open>The internal bus is the item at offset 0, the root of the table.\<close>

definition board_i2c :: "hwi_lib \<Rightarrow> nat \<Rightarrow> u32 \<Rightarrow> u32 \<Rightarrow> u32 \<Rightarrow> hwi \<Rightarrow> hwi res" where
  "board_i2c L unit base len irq s =
     rbind (hwibus_add_i2c L 0 (Some \<lparr>i2c_common = located L s base len base 1, i2c_clks = 0, i2c_busattr = 0\<rparr>) s)
       (\<lambda>(off, s). steps [\<lambda>s. ASSERT (find_unit L s off = unit) s, set_ivec L off irq] s)"

definition board_uart :: "hwi_lib \<Rightarrow> u32 \<Rightarrow> u32 \<Rightarrow> u32 \<Rightarrow> u32 \<Rightarrow> hwi \<Rightarrow> hwi res" where
  "board_uart L uart_clock base len irq s =
     rbind (hwidev_add_uart L (cs ''uart'') (Some \<lparr>clks_common = located L s base len base 1, num_clks = 1\<rparr>) 0 s)
       (\<lambda>(off, s). steps [\<lambda>s. ASSERT (find_unit L s off = 0) s, set_ivec L off irq, set_inputclk L off (uart_clock, 16),
          \<lambda>s. rbind (hwi_add_synonym L (find_device L s (cs ''uart'') 0) (cs ''sermxl'') s) (\<lambda>(_, s). Inr s)] s)"

definition board_fec :: "hwi_lib \<Rightarrow> u32 \<Rightarrow> u32 \<Rightarrow> hwi \<Rightarrow> hwi res" where
  "board_fec L base irq s =
     rbind (hwidev_add_enet L (cs ''fec'') (Some \<lparr>enet_common = located L s base 0x4000 base 1,
              mac = [0, 0, 0, 0, 0, 0], enet_clks = 0, num_phys = 0\<rparr>) 0 s)
       (\<lambda>(off, s). steps [\<lambda>s. ASSERT (find_unit L s off = 0) s, set_avail_ivec L off irq] s)"

definition board_usb :: "hwi_lib \<Rightarrow> u32 \<Rightarrow> u32 \<Rightarrow> u32 \<Rightarrow> hwi \<Rightarrow> hwi res" where
  "board_usb L base len irq s =
     rbind (hwibus_add_usb L 0 (Some (located L s base len base 1)) s)
       (\<lambda>(off, s). steps [ASSERT (off \<noteq> HWI_NULL_OFF), set_avail_ivec L off irq] s)"

definition board_dma :: "hwi_lib \<Rightarrow> u32 \<Rightarrow> u32 \<Rightarrow> u32 \<Rightarrow> hwi \<Rightarrow> hwi res" where
  "board_dma L base len irq s =
     rbind (hwidev_add_dma L (cs ''dma'') (Some (located L s base len base 1)) 0 s)
       (\<lambda>(off, s). steps [\<lambda>s. ASSERT (find_unit L s off = 0) s, set_avail_ivec L off irq] s)"

definition board_wdog :: "hwi_lib \<Rightarrow> u32 \<Rightarrow> u32 \<Rightarrow> hwi \<Rightarrow> hwi res" where
  "board_wdog L base len s =
     rbind (hwidev_add_timer L (cs ''wdog'') (Some \<lparr>clks_common = located L s base len base 0, num_clks = 1\<rparr>) HWI_NULL_OFF s)
       (\<lambda>(off, s). steps [ASSERT (off \<noteq> HWI_NULL_OFF), set_inputclk L off (10, 1)] s)"

text \<open>The board's own version of \<open>hwibus_add_can\<close>, without the empty address tags.\<close>

definition imx_hwibus_add_can :: "hwi_lib \<Rightarrow> nat \<Rightarrow> hwiattr_can option \<Rightarrow> hwi \<Rightarrow> (nat \<times> hwi) res" where
  "imx_hwibus_add_can L parent attr s =
     with_attr (hwibus_add L (cs ''can'') parent s) attr (\<lambda>off a s.
       rbind (hwitag_add_common off (can_common a) s) (\<lambda>s. add_n (can_clks a) (hwitag_add_inputclk off 0 1) s))"

definition board_can :: "hwi_lib \<Rightarrow> nat \<Rightarrow> u32 \<Rightarrow> u32 \<Rightarrow> u32 \<Rightarrow> u32 \<Rightarrow> hwi \<Rightarrow> hwi res" where
  "board_can L unit port m len irq s =
     rbind (imx_hwibus_add_can L 0 (Some \<lparr>can_common = located L s port len port 1, can_clks = 0, num_memaddr = 1\<rparr>) s)
       (\<lambda>(off, s). steps [hwitag_add_location off m len 0 0, \<lambda>s. ASSERT (find_unit L s off = unit) s, set_ivec L off irq] s)"

text \<open>
  A device of no class below the unknown bus. The blocks differ in where they assert: before the tags
  (\<open>first\<close>) or behind them; a block with an interrupt sets it last.
\<close>

definition board_dev :: "hwi_lib \<Rightarrow> bool \<Rightarrow> u8 list \<Rightarrow> u32 \<Rightarrow> u32 \<Rightarrow> u32 \<Rightarrow> nat \<Rightarrow> u32 option \<Rightarrow> hwi \<Rightarrow> hwi res" where
  "board_dev L first name base len as_base n irq s =
     rbind (hwidev_add L name 0 HWI_NULL_OFF s)
       (\<lambda>(off, s). steps [\<lambda>s. if first then ASSERT (off \<noteq> HWI_NULL_OFF) s else Inr s,
          \<lambda>s. hwitag_add_common off (located L s base len as_base n) s,
          \<lambda>s. if first then Inr s else ASSERT (off \<noteq> HWI_NULL_OFF) s,
          \<lambda>s. case irq of None \<Rightarrow> Inr s | Some v \<Rightarrow> set_ivec L off v s] s)"

section \<open>Boards\<close>

definition hwi_imx6dq :: "hwi_lib \<Rightarrow> u32 \<Rightarrow> hwi \<Rightarrow> hwi res" where
  "hwi_imx6dq L uart_clock s = steps
     [board_i2c L 0 0x021A0000 0x4000 68,
      board_i2c L 1 0x021A4000 0x4000 69,
      board_i2c L 2 0x021A8000 0x4000 70,
      board_uart L uart_clock 0x02020000 0x4000 58,
      board_fec L 0x02188000 150,
      board_usb L 0x02184000 0x4000 75,
      board_dma L 0x020EC000 0x4000 34,
      board_wdog L 0x020BC000 0x4000,
      board_can L 0 0x02090000 0x02090080 0x4000 142,
      board_can L 1 0x02094000 0x02094080 0x4000 143,
      board_dev L False (cs ''mlb'') 0x0218C000 0x4000 0x0218C000 1 (Some 85),
      board_dev L False (cs ''gpu2d'') 0x00134000 0x4000 0x00134000 0 None,
      board_dev L False (cs ''gpu3d'') 0x00130000 0x4000 0x00130000 1 (Some 41),
      board_dev L False (cs ''ipu'') 0x02400000 0x400000 0x02800000 0 None,
      board_dev L False (cs ''ipu'') 0x02800000 0x400000 0x02800000 0 None,
      board_dev L False (cs ''vpu'') 0x02040000 0x3C000 0x02040000 1 (Some 44),
      board_dev L False (cs ''esai'') 0x02024000 0x4000 0x02024000 1 None,
      board_dev L True (cs ''ssi'') 0x02028000 0x4000 0x02028000 0 None,
      board_dev L True (cs ''ssi'') 0x0202C000 0x4000 0x0202C000 0 None,
      board_dev L True (cs ''ssi'') 0x02030000 0x4000 0x02030000 0 None] s"

definition hwi_imx51 :: "hwi_lib \<Rightarrow> u32 \<Rightarrow> hwi \<Rightarrow> hwi res" where
  "hwi_imx51 L uart_clock s = steps
     [board_i2c L 0 0x83FC8000 0x4000 62,
      board_i2c L 1 0x83FC4000 0x4000 63,
      board_uart L uart_clock 0x73FBC000 0xE0 31,
      board_fec L 0x83FEC000 87,
      board_usb L 0x73F80300 0x1000 14,
      board_dma L 0x83FB0000 0x4000 6,
      board_dev L True (cs ''ssi'') 0x83FCC000 0x4000 0x83FCC000 0 None,
      board_dev L True (cs ''sdram'') 0x90000000 512 0x90000000 0 None,
      board_wdog L 0x73F98000 0x4000] s"

definition hwi_imx53 :: "hwi_lib \<Rightarrow> u32 \<Rightarrow> hwi \<Rightarrow> hwi res" where
  "hwi_imx53 L uart_clock s = steps
     [board_i2c L 0 0x63FC8000 0x4000 62,
      board_i2c L 1 0x63FC4000 0x4000 63,
      board_uart L uart_clock 0x53FBC000 0xE0 31,
      board_fec L 0x63FEC000 87,
      board_usb L 0x53F80300 0x1000 14,
      board_dma L 0x63FB0000 0x4000 6,
      board_dev L True (cs ''ssi'') 0x63FCC000 0x4000 0x63FCC000 0 None,
      board_dev L True (cs ''sdram'') 0x70000000 512 0x70000000 0 None,
      board_wdog L 0x53F98000 0x4000,
      board_can L 0 0x53FC8000 0x53FC8080 0x4000 82,
      board_can L 1 0x53FCC000 0x53FCC080 0x4000 83,
      board_dev L False (cs ''mlb'') 0x63FE4000 0x4000 0x63FE4000 1 (Some 65),
      board_dev L False (cs ''gpu2d'') 0x20000000 0x10000000 0x20000000 0 None,
      board_dev L False (cs ''gpu3d'') 0x30000000 0x10000000 0x30000000 1 (Some 12),
      board_dev L False (cs ''ipu'') 0x18000000 0x8000000 0x18000000 0 None,
      board_dev L False (cs ''vpu'') 0x63FF4000 0x4000 0x63FF4000 1 (Some 9)] s"

definition init_hwinfo :: "hwi_lib \<Rightarrow> u32 \<Rightarrow> hwi \<Rightarrow> hwi res" where
  "init_hwinfo L uart_clock s = hwi_imx6dq L uart_clock s"

end
