(* ===== verification/Startup_Chip.thy ===== *)
theory Startup_Chip
  imports Prelude
begin

text \<open>
  Register access of the startup program: \<open>chip_access.c\<close> with the address maps
  \<open>arm/map_startup_mem.c\<close> and \<open>arm/map_startup_io.c\<close> of \<open>src/hardware/startup/lib\<close>.

  The hardware is a parameter: a record \<open>io\<close> gives the effect of a read and of a write of each width
  on a hardware state of any type. On ARM an I/O port is a memory location, so a dereference and
  \<open>in8\<close> are the same access. The static variables \<open>chip_base\<close>, \<open>chip_shift\<close> and \<open>chip_mmap\<close>
  stand beside the hardware in the record \<open>chip\<close>. A loop that polls the hardware may never end, which is the
  outcome \<^term>\<open>None\<close>.
\<close>

record 'h io =
  io_in8 :: "u32 \<Rightarrow> 'h \<Rightarrow> u8 \<times> 'h"
  io_in16 :: "u32 \<Rightarrow> 'h \<Rightarrow> u16 \<times> 'h"
  io_in32 :: "u32 \<Rightarrow> 'h \<Rightarrow> u32 \<times> 'h"
  io_out8 :: "u32 \<Rightarrow> u8 \<Rightarrow> 'h \<Rightarrow> 'h"
  io_out16 :: "u32 \<Rightarrow> u16 \<Rightarrow> 'h \<Rightarrow> 'h"
  io_out32 :: "u32 \<Rightarrow> u32 \<Rightarrow> 'h \<Rightarrow> 'h"

record 'h chip =
  chip_base :: u32
  chip_shift :: nat
  chip_mmap :: bool
  chip_hw :: 'h

section \<open>Mapping\<close>

definition startup_memory_map :: "u32 \<Rightarrow> u32 \<Rightarrow> u32" where
  "startup_memory_map len phys = phys"

definition startup_io_map :: "u32 \<Rightarrow> u32 \<Rightarrow> u32" where
  "startup_io_map len phys = phys"

definition chip_access :: "u32 \<Rightarrow> nat \<Rightarrow> bool \<Rightarrow> u32 \<Rightarrow> 'h chip \<Rightarrow> 'h chip" where
  "chip_access base reg_shift mem_mapped len c =
     (let c = c\<lparr>chip_shift := reg_shift, chip_mmap := mem_mapped\<rparr>
      in if mem_mapped
         then c\<lparr>chip_base := startup_memory_map (push_bit reg_shift len) base\<rparr>
         else c\<lparr>chip_base := startup_io_map (push_bit reg_shift len) base\<rparr>)"

definition startup_memory_unmap :: "u32 \<Rightarrow> 'h chip \<Rightarrow> 'h chip" where
  "startup_memory_unmap p c = c"

definition startup_io_unmap :: "u32 \<Rightarrow> 'h chip \<Rightarrow> 'h chip" where
  "startup_io_unmap port c = c"

definition chip_done :: "'h chip \<Rightarrow> 'h chip" where
  "chip_done c =
     (if chip_mmap c then startup_memory_unmap (chip_base c) c else startup_io_unmap (chip_base c) c)"

section \<open>Registers\<close>

text \<open>The address of a register, the same for a mapped chip and for a port.\<close>

definition chip_addr :: "u32 \<Rightarrow> 'h chip \<Rightarrow> u32" where
  "chip_addr off c = chip_base c + push_bit (chip_shift c) off"

definition chip_read8 :: "'h io \<Rightarrow> u32 \<Rightarrow> 'h chip \<Rightarrow> u32 \<times> 'h chip" where
  "chip_read8 io off c =
     (let (val, h) = io_in8 io (chip_addr off c) (chip_hw c) in (ucast val, c\<lparr>chip_hw := h\<rparr>))"

definition chip_write8 :: "'h io \<Rightarrow> u32 \<Rightarrow> u32 \<Rightarrow> 'h chip \<Rightarrow> 'h chip" where
  "chip_write8 io off val c = c\<lparr>chip_hw := io_out8 io (chip_addr off c) (ucast val) (chip_hw c)\<rparr>"

definition chip_read16 :: "'h io \<Rightarrow> u32 \<Rightarrow> 'h chip \<Rightarrow> u32 \<times> 'h chip" where
  "chip_read16 io off c =
     (let (val, h) = io_in16 io (chip_addr off c) (chip_hw c) in (ucast val, c\<lparr>chip_hw := h\<rparr>))"

definition chip_write16 :: "'h io \<Rightarrow> u32 \<Rightarrow> u32 \<Rightarrow> 'h chip \<Rightarrow> 'h chip" where
  "chip_write16 io off val c = c\<lparr>chip_hw := io_out16 io (chip_addr off c) (ucast val) (chip_hw c)\<rparr>"

definition chip_read32 :: "'h io \<Rightarrow> u32 \<Rightarrow> 'h chip \<Rightarrow> u32 \<times> 'h chip" where
  "chip_read32 io off c =
     (let (val, h) = io_in32 io (chip_addr off c) (chip_hw c) in (val, c\<lparr>chip_hw := h\<rparr>))"

definition chip_write32 :: "'h io \<Rightarrow> u32 \<Rightarrow> u32 \<Rightarrow> 'h chip \<Rightarrow> 'h chip" where
  "chip_write32 io off val c = c\<lparr>chip_hw := io_out32 io (chip_addr off c) val (chip_hw c)\<rparr>"

text \<open>A read, a change of some bits and the write back; \<open>in32\<close> and \<open>out32\<close> at an address.\<close>

definition chip_update8 :: "'h io \<Rightarrow> u32 \<Rightarrow> (u32 \<Rightarrow> u32) \<Rightarrow> 'h chip \<Rightarrow> 'h chip" where
  "chip_update8 io off f c = (let (v, c) = chip_read8 io off c in chip_write8 io off (f v) c)"

definition in32 :: "'h io \<Rightarrow> u32 \<Rightarrow> 'h chip \<Rightarrow> u32 \<times> 'h chip" where
  "in32 io a c = (let (v, h) = io_in32 io a (chip_hw c) in (v, c\<lparr>chip_hw := h\<rparr>))"

definition out32 :: "'h io \<Rightarrow> u32 \<Rightarrow> u32 \<Rightarrow> 'h chip \<Rightarrow> 'h chip" where
  "out32 io a v c = c\<lparr>chip_hw := io_out32 io a v (chip_hw c)\<rparr>"

section \<open>Polling loops\<close>

text \<open>\<open>do_until\<close> repeats a body until it delivers a value.\<close>

partial_function (option) do_until :: "('s \<Rightarrow> 'a option \<times> 's) \<Rightarrow> 's \<Rightarrow> ('a \<times> 's) option" where
  "do_until body s =
     (case body s of (None, s') \<Rightarrow> do_until body s' | (Some a, s') \<Rightarrow> Some (a, s'))"

lemma do_until_Some: "body s = (Some a, s') \<Longrightarrow> do_until body s = Some (a, s')"
  by (subst do_until.simps) simp

lemma do_until_None: "body s = (None, s') \<Longrightarrow> do_until body s = do_until body s'"
  by (subst do_until.simps) simp

section \<open>Registers that hold still\<close>

text \<open>
  A chip whose registers do not move while they are read: every byte read leaves the state alone.
  The plain memory is one.
\<close>

definition holds_regs :: "'h io \<Rightarrow> 'h chip \<Rightarrow> (u32 \<Rightarrow> u8) \<Rightarrow> bool" where
  "holds_regs io c regs \<longleftrightarrow> (\<forall>off. chip_read8 io off c = (ucast (regs off), c))"

lemma holds_regsD [simp]: "holds_regs io c regs \<Longrightarrow> chip_read8 io off c = (ucast (regs off), c)"
  by (simp add: holds_regs_def)

definition ram_io :: "(u32 \<Rightarrow> u8) io" where
  "ram_io =
     \<lparr>io_in8 = \<lambda>a h. (h a, h),
      io_in16 = \<lambda>a h. (ucast (h a) OR push_bit 8 (ucast (h (a + 1))), h),
      io_in32 = \<lambda>a h. (ucast (h a) OR push_bit 8 (ucast (h (a + 1))) OR push_bit 16 (ucast (h (a + 2)))
                       OR push_bit 24 (ucast (h (a + 3))), h),
      io_out8 = \<lambda>a v h. h(a := v),
      io_out16 = \<lambda>a v h. h(a := ucast v, a + 1 := ucast (drop_bit 8 v)),
      io_out32 = \<lambda>a v h. h(a := ucast v, a + 1 := ucast (drop_bit 8 v),
                             a + 2 := ucast (drop_bit 16 v), a + 3 := ucast (drop_bit 24 v))\<rparr>"

lemma ram_holds: "holds_regs ram_io c (\<lambda>off. chip_hw c (chip_addr off c))"
  by (simp add: holds_regs_def chip_read8_def ram_io_def Let_def)

lemma chip_access_eq:
  "chip_access base sh m sz c = c\<lparr>chip_shift := sh, chip_mmap := m, chip_base := base\<rparr>"
  by (simp add: chip_access_def startup_memory_map_def startup_io_map_def Let_def)

lemma chip_done_eq [simp]: "chip_done c = c"
  by (simp add: chip_done_def startup_memory_unmap_def startup_io_unmap_def)

end
