(* ===== verification/Startup_Rtc.thy ===== *)
theory Startup_Rtc
  imports Startup_Hwi Startup_Time Startup_Num Startup_Chip
begin

text \<open>
  The real time clocks of the startup library: the \<open>hw_rtc_*.c\<close> files of \<open>src/hardware/startup/lib\<close> and
  of its \<open>arm\<close> directory, \<open>arm/rtc_time.c\<close>, \<open>arm/rtc_time_ep93xx.c\<close> and the board's
  \<open>mx6x_rtc_time.c\<close>.

  A driver enters its chip into the hardware information table, reads the date from the registers
  and returns the seconds since 1970. The outcome \<^term>\<open>None\<close> is a polling loop that never ends; in the
  result, \<^term>\<open>None\<close> in place of the seconds is a read of the month table out of its bounds. Where C
  leaves the order of two register reads in an expression open, it is from left to right here.
\<close>

type_synonym 'h rtc_result = "(u32 option \<times> hwi \<times> 'h chip) res option"

text \<open>The fields of \<open>struct tm\<close> that a driver sets; \<open>calc_time_t\<close> reads no other.\<close>

definition tm_of :: "u32 \<Rightarrow> u32 \<Rightarrow> u32 \<Rightarrow> u32 \<Rightarrow> u32 \<Rightarrow> u32 \<Rightarrow> tm" where
  "tm_of sec mins hour mday mon year =
     \<lparr>tm_sec = sint sec, tm_min = sint mins, tm_hour = sint hour, tm_mday = sint mday, tm_mon = sint mon,
      tm_year = sint year, tm_wday = 0, tm_yday = 0\<rparr>"

text \<open>A clock without a century register: a year below 70 is in the twenty-first century.\<close>

definition year_2000 :: "u32 \<Rightarrow> u32" where
  "year_2000 year = (if year <s 70 then year + 100 else year)"

definition rtc_finish :: "hwi \<Rightarrow> (tm \<times> 'h chip) option \<Rightarrow> 'h rtc_result" where
  "rtc_finish s r = map_option (\<lambda>(tm, c). Inr (calc_time_t tm, s, chip_done c)) r"

definition with_rtc :: "hwi res \<Rightarrow> (hwi \<Rightarrow> 'h rtc_result) \<Rightarrow> 'h rtc_result" where
  "with_rtc r f = (case r of Inl e \<Rightarrow> Some (Inl e) | Inr s \<Rightarrow> f s)"

section \<open>Clocks behind \<open>chip_access\<close>\<close>

subsection \<open>\<open>hw_rtc_ds1386.c\<close>\<close>

definition ds1386_body :: "'h io \<Rightarrow> 'h chip \<Rightarrow> (u32 \<times> u32 \<times> u32 \<times> u32 \<times> u32 \<times> u32) option \<times> 'h chip" where
  "ds1386_body io c =
     (let (v, c) = chip_read8 io 1 c; sec = bcd2bin v;
          (v, c) = chip_read8 io 2 c; mins = bcd2bin v;
          (v, c) = chip_read8 io 4 c; hour = bcd2bin (v AND 0x3f);
          (v, c) = chip_read8 io 8 c; mday = bcd2bin v;
          (v, c) = chip_read8 io 9 c; mon = bcd2bin (v AND 0x3f) - 1;
          (v, c) = chip_read8 io 10 c; year = bcd2bin v;
          (v, c) = chip_read8 io 1 c
      in (if sec \<noteq> bcd2bin v then None else Some (sec, mins, hour, mday, mon, year), c))"

definition rtc_time_ds1386 ::
  "hwi_lib \<Rightarrow> 'h io \<Rightarrow> u32 \<Rightarrow> nat \<Rightarrow> bool \<Rightarrow> int \<Rightarrow> hwi \<Rightarrow> 'h chip \<Rightarrow> 'h rtc_result" where
  "rtc_time_ds1386 L io base reg_shift mmap cent_reg s c =
     with_rtc (hwi_add_rtc L (cs ''ds1386'') base reg_shift 16 mmap cent_reg s) (\<lambda>s.
       rtc_finish s (do {
         ((sec, mins, hour, mday, mon, year), c) \<leftarrow> do_until (ds1386_body io) (chip_access base reg_shift mmap 16 c);
         let (year, c) = (if 0 \<le> cent_reg
           then let (v, c) = chip_read8 io (of_int cent_reg) c; cent = bcd2bin v
                in (if cent = 20 then year + 100 else year, c)
           else (year_2000 year, c));
         Some (tm_of sec mins hour mday mon year, c) }))"

subsection \<open>\<open>hw_rtc_ds1743.c\<close>\<close>

definition ds1743_read :: "'h io \<Rightarrow> 'h chip \<Rightarrow> tm \<times> 'h chip" where
  "ds1743_read io c =
     (let c = chip_update8 io 0x1ff8 (\<lambda>v. v OR 0x40) c;
          (reg, c) = chip_read8 io 0x1ff9 c;
          c = (if reg AND 0x80 \<noteq> 0 then chip_write8 io 0x1ff9 (reg AND NOT 0x80) c else c);
          (reg, c) = chip_read8 io 0x1ffc c;
          c = (if reg AND 0x40 \<noteq> 0 then chip_write8 io 0x1ffc (reg AND NOT 0x40) c else c);
          (v, c) = chip_read8 io 0x1ff9 c; sec = bcd2bin (v AND 0x7f);
          (v, c) = chip_read8 io 0x1ffa c; mins = bcd2bin (v AND 0x7f);
          (v, c) = chip_read8 io 0x1ffb c; hour = bcd2bin (v AND 0x3f);
          (v, c) = chip_read8 io 0x1ffd c; mday = bcd2bin (v AND 0x3f);
          (v, c) = chip_read8 io 0x1ffe c; mon = bcd2bin (v AND 0x1f) - 1;
          (v, c) = chip_read8 io 0x1fff c; year = bcd2bin v;
          (v, c) = chip_read8 io 0x1ff8 c; cent = bcd2bin (v AND 0x3f);
          c = chip_update8 io 0x1ff8 (\<lambda>v. v AND NOT 0x40) c
      in (tm_of sec mins hour mday mon (year + (cent - 19) * 100), c))"

definition rtc_time_ds1743 ::
  "hwi_lib \<Rightarrow> 'h io \<Rightarrow> u32 \<Rightarrow> nat \<Rightarrow> bool \<Rightarrow> int \<Rightarrow> hwi \<Rightarrow> 'h chip \<Rightarrow> 'h rtc_result" where
  "rtc_time_ds1743 L io base reg_shift mmap cent_reg s c =
     with_rtc (hwi_add_rtc L (cs ''ds1743'') base reg_shift 0x2000 mmap (- 1) s) (\<lambda>s.
       rtc_finish s (Some (ds1743_read io (chip_access base reg_shift mmap 0x2000 c))))"

subsection \<open>\<open>hw_rtc_rtc72423.c\<close>\<close>

definition rtc72423_body :: "'h io \<Rightarrow> 'h chip \<Rightarrow> (u32 \<times> u32 \<times> u32 \<times> u32 \<times> u32 \<times> u32) option \<times> 'h chip" where
  "rtc72423_body io c =
     (let (bottom, c) = chip_read8 io 0 c;
          (t, c) = chip_read8 io 1 c; sec = bcd2bin (push_bit 4 t OR bottom);
          (t, c) = chip_read8 io 3 c; (u, c) = chip_read8 io 2 c; mins = bcd2bin (push_bit 4 t OR u);
          (t, c) = chip_read8 io 5 c; (u, c) = chip_read8 io 4 c; hour = bcd2bin (push_bit 4 (t AND 3) OR u);
          (t, c) = chip_read8 io 7 c; (u, c) = chip_read8 io 6 c; mday = bcd2bin (push_bit 4 t OR u);
          (t, c) = chip_read8 io 9 c; (u, c) = chip_read8 io 8 c; mon = bcd2bin (push_bit 4 t OR u);
          (t, c) = chip_read8 io 11 c; (u, c) = chip_read8 io 10 c; year = bcd2bin (push_bit 4 t OR u);
          (v, c) = chip_read8 io 0 c
      in (if bottom \<noteq> v then None else Some (sec, mins, hour, mday, mon, year), c))"

definition rtc_time_rtc72423 ::
  "hwi_lib \<Rightarrow> 'h io \<Rightarrow> u32 \<Rightarrow> nat \<Rightarrow> bool \<Rightarrow> int \<Rightarrow> hwi \<Rightarrow> 'h chip \<Rightarrow> 'h rtc_result" where
  "rtc_time_rtc72423 L io base reg_shift mmap cent_reg s c =
     with_rtc (hwi_add_rtc L (cs ''rtc72423'') base reg_shift 16 mmap cent_reg s) (\<lambda>s.
       rtc_finish s (do {
         ((sec, mins, hour, mday, mon, year), c) \<leftarrow> do_until (rtc72423_body io) (chip_access base reg_shift mmap 16 c);
         Some (tm_of sec mins hour mday mon (year_2000 year), c) }))"

subsection \<open>\<open>hw_rtc_m48t37.c\<close>, \<open>hw_rtc_m48t5x.c\<close>\<close>

text \<open>
  The two timekeepers keep the same registers at different places: \<open>rd\<close> is the file's \<open>rdcmos\<close>,
  \<open>regs\<close> its \<open>TIME_REGS\<close>. The first also reads a century register.
\<close>

definition rdcmos_m48t37 :: "'h io \<Rightarrow> u32 \<Rightarrow> 'h chip \<Rightarrow> u32 \<times> 'h chip" where
  "rdcmos_m48t37 io i c = chip_read8 io i c"

definition rdcmos_m48t5x :: "'h io \<Rightarrow> u32 \<Rightarrow> 'h chip \<Rightarrow> u32 \<times> 'h chip" where
  "rdcmos_m48t5x io i c =
     (let c = chip_write8 io 0 (i AND 0xff) c;
          c = chip_write8 io 1 (drop_bit 8 i AND 0xff) c
      in chip_read8 io 3 c)"

definition m48t_fields ::
  "(u32 \<Rightarrow> 'h chip \<Rightarrow> u32 \<times> 'h chip) \<Rightarrow> u32 \<Rightarrow> 'h chip \<Rightarrow> (u32 \<times> u32 \<times> u32 \<times> u32 \<times> u32 \<times> u32) \<times> 'h chip" where
  "m48t_fields rd regs c =
     (let (sec, c) = rd (regs + 0x9) c;
          (mins, c) = rd (regs + 0xa) c;
          (hour, c) = rd (regs + 0xb) c;
          (mday, c) = rd (regs + 0xd) c;
          (mon, c) = rd (regs + 0xe) c;
          (year, c) = rd (regs + 0xf) c
      in ((sec, mins, hour, mday, mon, year), c))"

definition m48t37_body ::
  "'h io \<Rightarrow> int \<Rightarrow> 'h chip \<Rightarrow> ((u32 \<times> u32 \<times> u32 \<times> u32 \<times> u32 \<times> u32) \<times> u32) option \<times> 'h chip" where
  "m48t37_body io cent_reg c =
     (let (f, c) = m48t_fields (rdcmos_m48t37 io) 0x7ff0 c;
          (cent, c) = (if 0 \<le> cent_reg then rdcmos_m48t37 io (0x7ff0 + of_int cent_reg) c else (0, c));
          (v, c) = rdcmos_m48t37 io (0x7ff0 + 0x9) c
      in (if fst f \<noteq> v then None else Some (f, cent), c))"

definition m48t5x_body :: "'h io \<Rightarrow> 'h chip \<Rightarrow> (u32 \<times> u32 \<times> u32 \<times> u32 \<times> u32 \<times> u32) option \<times> 'h chip" where
  "m48t5x_body io c =
     (let (f, c) = m48t_fields (rdcmos_m48t5x io) 0x1ff0 c;
          (v, c) = rdcmos_m48t5x io (0x1ff0 + 0x9) c
      in (if fst f \<noteq> v then None else Some f, c))"

definition rtc_time_m48t37 ::
  "hwi_lib \<Rightarrow> 'h io \<Rightarrow> u32 \<Rightarrow> nat \<Rightarrow> bool \<Rightarrow> int \<Rightarrow> hwi \<Rightarrow> 'h chip \<Rightarrow> 'h rtc_result" where
  "rtc_time_m48t37 L io base reg_shift mmap cent_reg s c =
     with_rtc (hwi_add_rtc L (cs ''m48t37'') base reg_shift 0x8000 mmap cent_reg s) (\<lambda>s.
       rtc_finish s (do {
         (((sec, mins, hour, mday, mon, year), cent), c) \<leftarrow>
           do_until (m48t37_body io cent_reg) (chip_access base reg_shift mmap 0x8000 c);
         let year = bcd2bin year;
         let year = (if 0 \<le> cent_reg
                     then (if 19 <s cent then year + (bcd2bin cent - 19) * 100 else year)
                     else year_2000 year);
         Some (tm_of (bcd2bin (sec AND NOT 0x80)) (bcd2bin mins) (bcd2bin hour) (bcd2bin mday)
                 (bcd2bin mon - 1) year, c) }))"

definition rtc_time_m48t5x ::
  "hwi_lib \<Rightarrow> 'h io \<Rightarrow> u32 \<Rightarrow> nat \<Rightarrow> bool \<Rightarrow> int \<Rightarrow> hwi \<Rightarrow> 'h chip \<Rightarrow> 'h rtc_result" where
  "rtc_time_m48t5x L io base reg_shift mmap cent_reg s c =
     with_rtc (hwi_add_rtc L (cs ''m48t5x'') base reg_shift 4 mmap cent_reg s) (\<lambda>s.
       rtc_finish s (do {
         ((sec, mins, hour, mday, mon, year), c) \<leftarrow> do_until (m48t5x_body io) (chip_access base reg_shift mmap 4 c);
         Some (tm_of (bcd2bin (sec AND NOT 0x80)) (bcd2bin mins) (bcd2bin hour) (bcd2bin mday)
                 (bcd2bin mon - 1) (year_2000 (bcd2bin year)), c) }))"

subsection \<open>\<open>hw_rtc_ds15x1.c\<close>\<close>

definition ds15x1_body ::
  "'h io \<Rightarrow> 'h chip \<Rightarrow> ((u32 \<times> u32 \<times> u32 \<times> u32 \<times> u32 \<times> u32) \<times> u32) option \<times> 'h chip" where
  "ds15x1_body io c =
     (let (sec, c) = chip_read8 io 0 c;
          (mins, c) = chip_read8 io 1 c;
          (hour, c) = chip_read8 io 2 c;
          (mday, c) = chip_read8 io 4 c;
          (mon, c) = chip_read8 io 5 c;
          (year, c) = chip_read8 io 6 c;
          (centry, c) = chip_read8 io 7 c;
          (v, c) = chip_read8 io 0 c
      in (if sec \<noteq> v then None else Some ((sec, mins, hour, mday, mon, year), centry), c))"

definition rtc_time_ds15x1 ::
  "hwi_lib \<Rightarrow> 'h io \<Rightarrow> u32 \<Rightarrow> nat \<Rightarrow> bool \<Rightarrow> int \<Rightarrow> hwi \<Rightarrow> 'h chip \<Rightarrow> 'h rtc_result" where
  "rtc_time_ds15x1 L io base reg_shift mmap cent_reg s c =
     with_rtc (hwi_add_rtc L (cs ''ds15x1'') base reg_shift 16 mmap 7 s) (\<lambda>s.
       rtc_finish s (do {
         let c = chip_update8 io 0xf (\<lambda>v. v OR 0x80) (chip_access base reg_shift mmap 16 c);
         (((sec, mins, hour, mday, mon, year), centry), c) \<leftarrow> do_until (ds15x1_body io) c;
         let year = bcd2bin year;
         Some (tm_of (bcd2bin sec) (bcd2bin mins) (bcd2bin hour) (bcd2bin mday)
                 (bcd2bin (mon AND 0x1f) - 1) (if centry = 0x20 then year + 100 else year), c) }))"

subsection \<open>\<open>hw_rtc_mc146818.c\<close>\<close>

definition rdcmos :: "'h io \<Rightarrow> u32 \<Rightarrow> 'h chip \<Rightarrow> u32 \<times> 'h chip" where
  "rdcmos io i c = chip_read8 io 1 (chip_write8 io 0 i c)"

definition check_uip_clr :: "'h io \<Rightarrow> 'h chip \<Rightarrow> bool \<times> 'h chip" where
  "check_uip_clr io c = (let (v, c) = rdcmos io 0xa c in (v AND 0x80 = 0, c))"

definition mc146818_body :: "'h io \<Rightarrow> 'h chip \<Rightarrow> (u32 \<times> u32 \<times> u32 \<times> u32 \<times> u32 \<times> u32) option \<times> 'h chip" where
  "mc146818_body io c =
     (let (ok, c) = check_uip_clr io c
      in if ok
         then (let (sec, c) = rdcmos io 0 c;
                   (mins, c) = rdcmos io 2 c;
                   (hour, c) = rdcmos io 4 c;
                   (mday, c) = rdcmos io 7 c;
                   (mon, c) = rdcmos io 8 c;
                   (year, c) = rdcmos io 9 c;
                   (ok, c) = check_uip_clr io c
               in (if ok then Some (sec, mins, hour, mday, mon, year) else None, c))
         else (None, c))"

text \<open>The test of a running clock: \<^term>\<open>False\<close> when the driver gives up.\<close>

definition mc146818_runs :: "'h io \<Rightarrow> 'h chip \<Rightarrow> bool \<times> 'h chip" where
  "mc146818_runs io c =
     (let (sra, c) = rdcmos io 0xa c
      in if sra AND 0x60 \<noteq> 0x20
         then (let c = chip_write8 io 1 (sra OR 0x60) c;
                   (v, c) = rdcmos io 0xa c
               in if v AND 0x60 \<noteq> 0 then (False, chip_write8 io 1 sra c) else (True, c))
         else (True, c))"

definition mc146818_tm ::
  "'h io \<Rightarrow> int \<Rightarrow> u32 \<Rightarrow> u32 \<times> u32 \<times> u32 \<times> u32 \<times> u32 \<times> u32 \<Rightarrow> 'h chip \<Rightarrow> tm \<times> 'h chip" where
  "mc146818_tm io cent_reg reg_b f c =
     (case f of (sec, mins, save_hour, mday, mon, year) \<Rightarrow>
        let conv = (if reg_b AND 4 = 0 then bcd2bin else id);
            hour = conv (save_hour AND NOT 0x80);
            hour = (if reg_b AND 2 = 0 \<and> save_hour AND 0x80 \<noteq> 0 then hour + 12 else hour);
            year = conv year;
            (year, c) = (if 0 \<le> cent_reg
              then let (cent, c) = rdcmos io (of_int cent_reg) c;
                       cent = (if reg_b AND 4 = 0 then bcd2bin (of_int cent_reg) else cent)
                   in (if cent = 20 then year + 100 else year, c)
              else (year_2000 year, c))
        in (tm_of (conv sec) (conv mins) hour (conv mday) (conv mon - 1) year, c))"

definition rtc_time_mc146818 ::
  "hwi_lib \<Rightarrow> 'h io \<Rightarrow> u32 \<Rightarrow> nat \<Rightarrow> bool \<Rightarrow> int \<Rightarrow> hwi \<Rightarrow> 'h chip \<Rightarrow> 'h rtc_result" where
  "rtc_time_mc146818 L io base reg_shift mmap cent_reg s c =
     with_rtc (hwi_add_rtc L (cs ''mc146818'') base reg_shift 2 mmap cent_reg s) (\<lambda>s.
       let (runs, c) = mc146818_runs io (chip_access base reg_shift mmap 2 c)
       in if \<not> runs then Some (Inr (Some 0, s, c))
          else do {
            let (reg_b, c) = rdcmos io 0xb c;
            (f, c) \<leftarrow> do_until (mc146818_body io) c;
            let (tm, c) = mc146818_tm io cent_reg reg_b f (chip_done c);
            Some (Inr (calc_time_t tm, s, c)) })"

subsection \<open>The ARM clocks: \<open>arm/hw_rtc_*.c\<close>\<close>

definition rtc_time_dm816x ::
  "hwi_lib \<Rightarrow> 'h io \<Rightarrow> u32 \<Rightarrow> nat \<Rightarrow> bool \<Rightarrow> int \<Rightarrow> hwi \<Rightarrow> 'h chip \<Rightarrow> 'h rtc_result" where
  "rtc_time_dm816x L io base reg_shift mmap cent_reg s c =
     with_rtc (hwi_add_rtc L (cs ''dm816x'') base reg_shift 32 mmap (- 1) s) (\<lambda>s.
       rtc_finish s (let c = chip_access base reg_shift mmap 32 c;
            (sec, c) = chip_read32 io 0 c; (mins, c) = chip_read32 io 4 c; (hour, c) = chip_read32 io 8 c;
            (mday, c) = chip_read32 io 0xc c; (mon, c) = chip_read32 io 0x10 c; (year, c) = chip_read32 io 0x14 c
          in Some (tm_of (bcd2bin (sec AND 0xff)) (bcd2bin (mins AND 0xff)) (bcd2bin (hour AND 0xff))
                (bcd2bin (mday AND 0xff)) (bcd2bin (mon AND 0xff) - 1) (bcd2bin (year AND 0xff) + 100), c)))"

text \<open>The device entry with its location that the chips at a fixed address make.\<close>

definition add_rtc_at :: "hwi_lib \<Rightarrow> u8 list \<Rightarrow> u32 \<Rightarrow> u32 \<Rightarrow> hwi \<Rightarrow> hwi res" where
  "add_rtc_at L name base len s =
     rbind (hwi_add_device L bus_unknown (cs ''rtc'') name 0 s) (\<lambda>s.
       hwi_add_location base len 0 (as_byte_off L s (hwi_find_as base True (hwi_st s))) s)"

definition rtc_time_omap :: "hwi_lib \<Rightarrow> 'h io \<Rightarrow> u32 \<Rightarrow> hwi \<Rightarrow> 'h chip \<Rightarrow> 'h rtc_result" where
  "rtc_time_omap L io base s c =
     with_rtc (add_rtc_at L (cs ''omap'') base 0x54 s) (\<lambda>s.
       rtc_finish s (let c = chip_write32 io 0x40 1 (chip_access base 0 False 0x54 c);
            (sec, c) = chip_read32 io 0 c; (mins, c) = chip_read32 io 4 c; (hour, c) = chip_read32 io 8 c;
            (mday, c) = chip_read32 io 0xc c; (mon, c) = chip_read32 io 0x10 c; (year, c) = chip_read32 io 0x14 c
          in Some (tm_of (bcd2bin (sec AND 0xff)) (bcd2bin (mins AND 0xff)) (bcd2bin (hour AND 0xff))
                (bcd2bin (mday AND 0xff)) (bcd2bin (mon AND 0xff)) (bcd2bin (year AND 0xff) + 100), c)))"

definition rtc_time_s3c2410 :: "hwi_lib \<Rightarrow> 'h io \<Rightarrow> u32 \<Rightarrow> hwi \<Rightarrow> 'h chip \<Rightarrow> 'h rtc_result" where
  "rtc_time_s3c2410 L io base s c =
     with_rtc (add_rtc_at L (cs ''s3c2410'') base 0x50 s) (\<lambda>s.
       rtc_finish s (let c = chip_update8 io 0 (\<lambda>v. v OR 1) (chip_access base 0 False 0x50 c);
            (sec, c) = chip_read8 io 0x30 c; (mins, c) = chip_read8 io 0x34 c; (hour, c) = chip_read8 io 0x38 c;
            (mday, c) = chip_read8 io 0x3c c; (mon, c) = chip_read8 io 0x44 c; (year, c) = chip_read8 io 0x48 c
          in Some (tm_of (bcd2bin (sec AND 0xff)) (bcd2bin (mins AND 0xff)) (bcd2bin (hour AND 0xff))
                (bcd2bin (mday AND 0xff)) (bcd2bin (mon AND 0xff) - 1) (bcd2bin (year AND 0xff) + 100), c)))"

section \<open>Counters and clocks that are not there\<close>

definition add_rtc_device :: "hwi_lib \<Rightarrow> u8 list \<Rightarrow> hwi \<Rightarrow> hwi res" where
  "add_rtc_device L name s = hwi_add_device L bus_unknown (cs ''rtc'') name 0 s"

definition rtc_time_none :: "hwi_lib \<Rightarrow> hwi \<Rightarrow> (u32 \<times> hwi) res" where
  "rtc_time_none L s = rbind (add_rtc_device L (cs ''NONE'') s) (\<lambda>s. Inr (0, s))"

definition rtc_time_hy7201 :: "hwi_lib \<Rightarrow> 'h io \<Rightarrow> hwi \<Rightarrow> 'h chip \<Rightarrow> (u32 \<times> hwi \<times> 'h chip) res" where
  "rtc_time_hy7201 L io s c =
     rbind (add_rtc_device L (cs ''hy7201'') s) (\<lambda>s. let (v, c) = in32 io 0x80028000 c in Inr (v, s, c))"

definition rtc_time_pxa250 :: "hwi_lib \<Rightarrow> 'h io \<Rightarrow> u32 \<Rightarrow> hwi \<Rightarrow> 'h chip \<Rightarrow> (u32 \<times> hwi \<times> 'h chip) res" where
  "rtc_time_pxa250 L io rttr s c =
     rbind (add_rtc_device L (cs ''pxa250'') s) (\<lambda>s.
       let c = (if rttr \<noteq> 0 then out32 io (0x40900000 + 0x0c) rttr c else c);
           (v, c) = in32 io 0x40900000 c
       in Inr (v, s, c))"

definition rtc_time_sa1100 :: "hwi_lib \<Rightarrow> 'h io \<Rightarrow> u32 \<Rightarrow> hwi \<Rightarrow> 'h chip \<Rightarrow> (u32 \<times> hwi \<times> 'h chip) res" where
  "rtc_time_sa1100 L io rttr s c =
     rbind (add_rtc_device L (cs ''sa1100'') s) (\<lambda>s.
       let c = out32 io (0x90010000 + 0x10) 0 c;
           (tmp, c) = in32 io (0x90010000 + 0x08) c;
           c = (if tmp = 0 then out32 io (0x90010000 + 0x08) (if rttr = 0 then 0x7fff else rttr) c else c);
           (v, c) = in32 io (0x90010000 + 0x04) c
       in Inr (v, s, c))"

text \<open>The header of the PrimeCell chips is not in the repository: the length and the offset of the data register are arguments.\<close>

definition rtc_time_primecell :: "u32 \<Rightarrow> u32 \<Rightarrow> hwi_lib \<Rightarrow> 'h io \<Rightarrow> u32 \<Rightarrow> hwi \<Rightarrow> 'h chip \<Rightarrow> (u32 \<times> hwi \<times> 'h chip) res" where
  "rtc_time_primecell len dr L io base s c =
     rbind (add_rtc_at L (cs ''primecell'') base len s) (\<lambda>s. let (v, c) = in32 io (base + dr) c in Inr (v, s, c))"

text \<open>
  The EP93xx clock is found in the table: \<open>get_rtc\<close> stands for \<open>hwiattr_get_rtc\<close> of the driver
  library. The message of the debug level is left out.
\<close>

definition rtc_time_ep93xx ::
  "hwi_lib \<Rightarrow> (hwi \<Rightarrow> nat \<Rightarrow> hwiattr_rtc option) \<Rightarrow> 'h io \<Rightarrow> hwi \<Rightarrow> 'h chip \<Rightarrow> u32 \<times> 'h chip" where
  "rtc_time_ep93xx L get_rtc io s c =
     (let hwi_off = find_device L s (cs ''rtc'') 0
      in if hwi_off \<noteq> HWI_NULL_OFF
         then (case get_rtc s hwi_off of
                 None \<Rightarrow> (0, c)
               | Some attr \<Rightarrow>
                   if at_base (rtc_common attr) \<noteq> 0 \<and> 0 < at_len (rtc_common attr)
                   then (let reg = startup_io_map (at_len (rtc_common attr)) (at_base (rtc_common attr))
                         in if reg \<noteq> - 1 then (let (t, c) = in32 io reg c in (t, startup_io_unmap reg c)) else (0, c))
                   else (0, c))
         else (0, c))"

definition rtc_time_default :: u32 where
  "rtc_time_default = 0"

definition rtc_time_mx6x :: "hwi_lib \<Rightarrow> hwi \<Rightarrow> (u32 \<times> hwi) res" where
  "rtc_time_mx6x L s =
     rbind (hwi_add_rtc L (cs ''mx6srtc'') 0x020CC000 0 0x4000 True (- 1) s) (\<lambda>s. Inr (0, s))"

section \<open>Reading a date\<close>

lemma with_rtc_rbind: "with_rtc r (\<lambda>s. Some (f s)) = Some (rbind r f)"
  by (simp add: with_rtc_def rbind_def split: sum.split)

definition bcd :: "int \<Rightarrow> u8" where
  "bcd n = of_int (n div 10 * 16 + n mod 10)"

lemma upto_100: "0 \<le> n \<Longrightarrow> n < (100 :: int) \<Longrightarrow> n \<in> set [0..99]"
  by simp

lemma bcd2bin_bcd: "0 \<le> n \<Longrightarrow> n < 100 \<Longrightarrow> bcd2bin (ucast (bcd n)) = of_int n"
proof -
  have "\<forall>n \<in> set [0..99]. bcd2bin (ucast (bcd n)) = of_int n" by code_simp
  then show "0 \<le> n \<Longrightarrow> n < 100 \<Longrightarrow> ?thesis" using upto_100 by blast
qed

lemma bcd_masks:
  "0 \<le> n \<Longrightarrow> n < 40 \<Longrightarrow> ucast (bcd n) AND 0x3f = (ucast (bcd n) :: u32)"
  "0 \<le> n \<Longrightarrow> n < 80 \<Longrightarrow> ucast (bcd n) AND NOT 0x80 = (ucast (bcd n) :: u32)"
  "0 \<le> n \<Longrightarrow> n < 80 \<Longrightarrow> ucast (bcd n) AND 0x80 = (0 :: u32)"
proof -
  have "\<forall>n \<in> set [0..39]. ucast (bcd n) AND 0x3f = (ucast (bcd n) :: u32)" by code_simp
  then show "0 \<le> n \<Longrightarrow> n < 40 \<Longrightarrow> ucast (bcd n) AND 0x3f = (ucast (bcd n) :: u32)" by simp
  have "\<forall>n \<in> set [0..79]. ucast (bcd n) AND NOT 0x80 = (ucast (bcd n) :: u32) \<and> ucast (bcd n) AND 0x80 = (0 :: u32)" by code_simp
  then show "0 \<le> n \<Longrightarrow> n < 80 \<Longrightarrow> ucast (bcd n) AND NOT 0x80 = (ucast (bcd n) :: u32)"
    "0 \<le> n \<Longrightarrow> n < 80 \<Longrightarrow> ucast (bcd n) AND 0x80 = (0 :: u32)" by simp_all
qed

lemma sint_small:
  assumes "0 \<le> n" "n < 1000"
  shows "sint (of_int n :: u32) = n"
proof -
  have "uint (of_int n :: u32) = n"
    using assms by (simp add: unsigned_of_int take_bit_int_eq_self)
  then show ?thesis using assms by (simp add: sint32)
qed

text \<open>The two-digit year and its century: 1970 to 2069.\<close>

lemma year_2000_mod:
  assumes "70 \<le> y" "y < 170"
  shows "year_2000 (of_int (y mod 100)) = of_int y"
proof -
  have lt: "((of_int n :: u32) <s 70) = (n < 70)" if "0 \<le> n" "n < 1000" for n
    using sint_small [OF that] sint_small [of 70] by (simp only: word_sless_alt of_int_numeral)
  have y: "((of_int (y mod 100) :: u32) <s 70) = (y mod 100 < 70)" by (rule lt) auto
  show ?thesis
  proof (cases "y < 100")
    case True
    then have m: "y mod 100 = y" using assms by (intro mod_pos_pos_trivial) simp_all
    have "\<not> (of_int (y mod 100) :: u32) <s 70" by (subst y) (use m assms in linarith)
    then have "year_2000 (of_int (y mod 100)) = of_int (y mod 100)"
      by (simp only: year_2000_def if_False)
    then show ?thesis unfolding m .
  next
    case False
    then have "y mod 100 = (y - 100) mod 100" by (intro mod_pos_geq) simp_all
    also have "\<dots> = y - 100" using assms False by (intro mod_pos_pos_trivial) simp_all
    finally have m: "y mod 100 = y - 100" .
    then have "(of_int (y mod 100) :: u32) <s 70" by (subst y) (use m assms in linarith)
    then have "year_2000 (of_int (y mod 100)) = of_int (y mod 100) + of_int 100"
      by (simp only: year_2000_def if_True of_int_numeral)
    also have "\<dots> = of_int (y mod 100 + 100)" by (simp only: of_int_add)
    finally show ?thesis unfolding m by simp
  qed
qed

text \<open>The six fields of a date read back give its seconds.\<close>

lemma calc_time_t_read:
  assumes t: "unat t < 3155760000" and g: "g = gmtime t"
  shows "calc_time_t (tm_of (of_int (tm_sec g)) (of_int (tm_min g)) (of_int (tm_hour g)) (of_int (tm_mday g))
     (of_int (tm_mon g)) (of_int (tm_year g))) = Some t"
proof -
  have "tm_of (of_int (tm_sec g)) (of_int (tm_min g)) (of_int (tm_hour g)) (of_int (tm_mday g))
     (of_int (tm_mon g)) (of_int (tm_year g)) = g\<lparr>tm_wday := 0, tm_yday := 0\<rparr>"
    using gmtime_ranges [OF t] unfolding g by (simp add: tm_of_def sint_small)
  then show ?thesis
    using t by (simp add: calc_time_t_cong g calc_time_t_of_gmtime)
qed

text \<open>A month register in BCD counts from one.\<close>

lemma bcd_month: "0 \<le> m \<Longrightarrow> m < 12 \<Longrightarrow> bcd2bin (ucast (bcd (m + 1))) - 1 = of_int m"
  by (simp add: bcd2bin_bcd)

text \<open>
  A DS1386 without a century register that holds a date between 1970 and 2069 still while it is
  read gives the seconds of that date.
\<close>

theorem rtc_time_ds1386_date:
  assumes t: "unat t < 3155760000" and g: "g = gmtime t" and cent: "cent_reg < 0"
    and c': "c' = chip_access base reg_shift mmap 16 c" and regs: "holds_regs io c' regs"
    and date: "regs 1 = bcd (tm_sec g)" "regs 2 = bcd (tm_min g)" "regs 4 = bcd (tm_hour g)" "regs 8 = bcd (tm_mday g)"
      "regs 9 = bcd (tm_mon g + 1)" "regs 10 = bcd (tm_year g mod 100)"
  shows "rtc_time_ds1386 L io base reg_shift mmap cent_reg s c =
    Some (rbind (hwi_add_rtc L (cs ''ds1386'') base reg_shift 16 mmap cent_reg s) (\<lambda>s'. Inr (Some t, s', c')))"
proof -
  note r = gmtime_ranges [OF t, folded g]
  have "ds1386_body io c' =
      (Some (of_int (tm_sec g), of_int (tm_min g), of_int (tm_hour g), of_int (tm_mday g), of_int (tm_mon g),
         of_int (tm_year g mod 100)), c')"
    using r by (simp add: ds1386_body_def holds_regsD [OF regs] date bcd2bin_bcd bcd_month bcd_masks)
  then have "do_until (ds1386_body io) c' =
      Some ((of_int (tm_sec g), of_int (tm_min g), of_int (tm_hour g), of_int (tm_mday g), of_int (tm_mon g),
         of_int (tm_year g mod 100)), c')"
    by (rule do_until_Some)
  then show ?thesis
    using cent r by (simp add: rtc_time_ds1386_def with_rtc_rbind rtc_finish_def year_2000_mod
      calc_time_t_read [OF t g] flip: c')
qed

theorem rtc_time_ds1386_date_witness:
  "\<forall>L s. rtc_time_ds1386 L ram_io 0 0 True (- 1) s \<lparr>chip_base = 0, chip_shift = 0, chip_mmap = False,
      chip_hw = ((\<lambda>_. 0)(1 := 0x20, 2 := 0x13, 4 := 0x22, 8 := 0x14, 9 := 0x11, 10 := 0x23))\<rparr> =
    Some (rbind (hwi_add_rtc L (cs ''ds1386'') 0 0 16 True (- 1) s) (\<lambda>s'. Inr (Some 1700000000, s',
      \<lparr>chip_base = 0, chip_shift = 0, chip_mmap = True,
       chip_hw = ((\<lambda>_. 0)(1 := 0x20, 2 := 0x13, 4 := 0x22, 8 := 0x14, 9 := 0x11, 10 := 0x23))\<rparr>)))"
proof (intro allI)
  fix L s
  let ?h = "(\<lambda>_. 0 :: u8)(1 := 0x20, 2 := 0x13, 4 := 0x22, 8 := 0x14, 9 := 0x11, 10 := 0x23)"
  have g: "gmtime 1700000000 = \<lparr>tm_sec = 20, tm_min = 13, tm_hour = 22, tm_mday = 14, tm_mon = 10, tm_year = 123,
      tm_wday = 2, tm_yday = 317\<rparr>"
    by (simp add: gmtime_def gm_year.simps gm_mon.simps mdays_def)
  let ?c = "\<lparr>chip_base = 0, chip_shift = 0, chip_mmap = True, chip_hw = ?h\<rparr>"
  have "chip_read8 ram_io off ?c = (ucast (?h off), ?c)" for off
    by (simp add: chip_read8_def ram_io_def chip_addr_def)
  then have "holds_regs ram_io ?c ?h" unfolding holds_regs_def by blast
  then show "rtc_time_ds1386 L ram_io 0 0 True (- 1) s \<lparr>chip_base = 0, chip_shift = 0, chip_mmap = False, chip_hw = ?h\<rparr> =
    Some (rbind (hwi_add_rtc L (cs ''ds1386'') 0 0 16 True (- 1) s) (\<lambda>s'. Inr (Some 1700000000, s', ?c)))"
    using rtc_time_ds1386_date [of 1700000000 "gmtime 1700000000" "- 1" ?c 0 0 True _ ram_io ?h L s]
    by (simp add: chip_access_eq g bcd_def)
qed

text \<open>
  The CMOS clock of a PC, as its data sheet has it: a write to the first port selects a register, a read of
  the second port shows it; the index port cannot be read. The clock runs on while it is read: at every access it is at the
  next step of its history, which says at which steps an update is in progress (the \<open>UIP\<close> bit of register A), the time
  that the registers hold at a step, and what they show during an update. The data mode is BCD or binary, with 24 hours.
\<close>

record cmos_history =
  ck_uip :: "nat \<Rightarrow> bool"
  ck_secs :: "nat \<Rightarrow> u32"
  ck_junk :: "nat \<Rightarrow> u8 \<Rightarrow> u8"
  ck_binary :: bool

definition cmos_digits :: "bool \<Rightarrow> int \<Rightarrow> u8" where
  "cmos_digits bin n = (if bin then of_int n else bcd n)"

definition cmos_reg :: "cmos_history \<Rightarrow> nat \<Rightarrow> u8 \<Rightarrow> u8" where
  "cmos_reg W k i =
     (if i = 0xa then (if ck_uip W k then 0xa6 else 0x26)
      else if i = 0xb then (if ck_binary W then 6 else 2)
      else if ck_uip W k then ck_junk W k i
      else (let g = gmtime (ck_secs W k); e = cmos_digits (ck_binary W)
            in if i = 0 then e (tm_sec g) else if i = 2 then e (tm_min g) else if i = 4 then e (tm_hour g)
               else if i = 7 then e (tm_mday g) else if i = 8 then e (tm_mon g + 1)
               else if i = 9 then e (tm_year g mod 100) else 0))"

definition cmos_clock :: "cmos_history \<Rightarrow> u32 \<Rightarrow> (u8 \<times> nat) io" where
  "cmos_clock W base =
     \<lparr>io_in8 = \<lambda>a (i, k). (if a = base + 1 then cmos_reg W k i else 0xff, (i, Suc k)),
      io_in16 = \<lambda>a (i, k). (0xffff, (i, Suc k)),
      io_in32 = \<lambda>a (i, k). (0xffffffff, (i, Suc k)),
      io_out8 = \<lambda>a v (i, k). (if a = base then v else i, Suc k),
      io_out16 = \<lambda>a v (i, k). (i, Suc k),
      io_out32 = \<lambda>a v (i, k). (i, Suc k)\<rparr>"

text \<open>
  An update takes longer than the accesses from one test of the \<open>UIP\<close> bit to the other, and the time changes
  in updates only: between two tests that close together that find no update there is none, and the time stands.
\<close>

definition slow_updates :: "cmos_history \<Rightarrow> bool" where
  "slow_updates W \<longleftrightarrow> (\<forall>i j k. \<not> ck_uip W i \<longrightarrow> \<not> ck_uip W j \<longrightarrow> i \<le> k \<longrightarrow> k \<le> j \<longrightarrow> j \<le> i + 14 \<longrightarrow>
     \<not> ck_uip W k \<and> ck_secs W k = ck_secs W i)"

lemma cmos_digits_read:
  assumes "0 \<le> n" "n < 100"
  shows "(if bin then id else bcd2bin) (ucast (cmos_digits bin n)) = of_int n"
proof (cases bin)
  case True
  have "\<forall>n \<in> set [0..99]. (ucast (of_int n :: u8) :: u32) = of_int n" by code_simp
  then show ?thesis using True upto_100 [OF assms] by (simp add: cmos_digits_def)
qed (simp add: cmos_digits_def bcd2bin_bcd assms)

lemma cmos_digits_masks:
  assumes "0 \<le> n" "n < 80"
  shows "ucast (cmos_digits bin n) AND NOT 0x80 = (ucast (cmos_digits bin n) :: u32)"
proof (cases bin)
  case True
  have "\<forall>n \<in> set [0..79]. ucast (of_int n :: u8) AND NOT 0x80 = (ucast (of_int n :: u8) :: u32)" by code_simp
  then show ?thesis using True assms by (simp add: cmos_digits_def)
qed (use bcd_masks assms in \<open>simp add: cmos_digits_def\<close>)

lemma rdcmos_clock:
  assumes "chip_base c = base" "chip_shift c = 0" "chip_hw c = (j, k)"
  shows "rdcmos (cmos_clock W base) i c = (ucast (cmos_reg W (Suc k) (ucast i)), c\<lparr>chip_hw := (ucast i, Suc (Suc k))\<rparr>)"
  using assms by (simp add: rdcmos_def chip_read8_def chip_write8_def cmos_clock_def chip_addr_def)

text \<open>The registers at the steps at which one round reads them.\<close>

definition round_fields :: "cmos_history \<Rightarrow> nat \<Rightarrow> u32 \<times> u32 \<times> u32 \<times> u32 \<times> u32 \<times> u32" where
  "round_fields W k = (ucast (cmos_reg W (k + 3) 0), ucast (cmos_reg W (k + 5) 2), ucast (cmos_reg W (k + 7) 4),
     ucast (cmos_reg W (k + 9) 7), ucast (cmos_reg W (k + 11) 8), ucast (cmos_reg W (k + 13) 9))"

lemma uip_bit: "((ucast (cmos_reg W k 0xa) :: u32) AND 0x80 = 0) = (\<not> ck_uip W k)" "(ucast (cmos_reg W k 0xa) :: u32) AND 0x60 = 0x20"
  by (simp_all add: cmos_reg_def)

lemma body_clock:
  assumes "chip_base c = base" "chip_shift c = 0"
  shows "mc146818_body (cmos_clock W base) (c\<lparr>chip_hw := (j, k)\<rparr>) =
    (if ck_uip W (k + 1) then (None, c\<lparr>chip_hw := (0xa, k + 2)\<rparr>)
     else (if ck_uip W (k + 15) then None else Some (round_fields W k), c\<lparr>chip_hw := (0xa, k + 16)\<rparr>))"
proof -
  have rd: "rdcmos (cmos_clock W base) i (c\<lparr>chip_hw := (j, n)\<rparr>) =
      (ucast (cmos_reg W (Suc n) (ucast i)), c\<lparr>chip_hw := (ucast i, Suc (Suc n))\<rparr>)" for i j n
    using assms by (subst rdcmos_clock) simp_all
  have rd0: "rdcmos (cmos_clock W base) i (c\<lparr>chip_hw := (j, k)\<rparr>) =
      (ucast (cmos_reg W (k + 1) (ucast i)), c\<lparr>chip_hw := (ucast i, k + 2)\<rparr>)" for i j
    unfolding rd by simp
  have suc: "Suc (k + numeral a) = k + numeral (a + num.One)" for a
    by (simp only: numeral_add numeral_One Suc_eq_plus1 add.assoc)
  have rdn: "rdcmos (cmos_clock W base) i (c\<lparr>chip_hw := (j, k + numeral a)\<rparr>) =
      (ucast (cmos_reg W (k + numeral (a + num.One)) (ucast i)), c\<lparr>chip_hw := (ucast i, k + numeral (a + num.One + num.One))\<rparr>)" for i j a
    by (simp only: rd suc)
  have ck0: "check_uip_clr (cmos_clock W base) (c\<lparr>chip_hw := (j, k)\<rparr>) = (\<not> ck_uip W (k + 1), c\<lparr>chip_hw := (0xa, k + 2)\<rparr>)" for j
    unfolding check_uip_clr_def rd0 Let_def prod.case using uip_bit(1) [of W "k + 1"] by simp
  have ckn: "check_uip_clr (cmos_clock W base) (c\<lparr>chip_hw := (j, k + 14)\<rparr>) = (\<not> ck_uip W (k + 15), c\<lparr>chip_hw := (0xa, k + 16)\<rparr>)" for j
    unfolding check_uip_clr_def rdn Let_def prod.case using uip_bit(1) [of W "k + 15"] by simp
  have i: "(ucast (0 :: u32) :: u8) = 0" "(ucast (2 :: u32) :: u8) = 2" "(ucast (4 :: u32) :: u8) = 4" "(ucast (7 :: u32) :: u8) = 7"
    "(ucast (8 :: u32) :: u8) = 8" "(ucast (9 :: u32) :: u8) = 9" by simp_all
  show ?thesis
    unfolding mc146818_body_def ck0 Let_def prod.case rdn i
    by (simp only: add_num_simps ckn round_fields_def prod.case if_not_P if_P not_True_eq_False not_False_eq_True split: if_split) simp
qed

text \<open>The loop ends when the clock is left alone for 32 accesses, with a round that two tests without an update enclose.\<close>

lemma loop_clock:
  assumes c: "chip_base c = base" "chip_shift c = 0" and idle: "k \<le> N + 15" "\<forall>i<32. \<not> ck_uip W (N + i)"
  shows "\<exists>q. k \<le> q \<and> \<not> ck_uip W (q + 1) \<and> \<not> ck_uip W (q + 15) \<and>
    do_until (mc146818_body (cmos_clock W base)) (c\<lparr>chip_hw := (j, k)\<rparr>) = Some (round_fields W q, c\<lparr>chip_hw := (0xa, q + 16)\<rparr>)"
  using idle(1)
proof (induction "N + 16 - k" arbitrary: j k rule: less_induct)
  case less
  note b = body_clock [OF c, of W j k]
  show ?case
  proof (cases "ck_uip W (k + 1) \<or> ck_uip W (k + 15)")
    case False
    then have "mc146818_body (cmos_clock W base) (c\<lparr>chip_hw := (j, k)\<rparr>) = (Some (round_fields W k), c\<lparr>chip_hw := (0xa, k + 16)\<rparr>)"
      using b by simp
    then have "do_until (mc146818_body (cmos_clock W base)) (c\<lparr>chip_hw := (j, k)\<rparr>) = Some (round_fields W k, c\<lparr>chip_hw := (0xa, k + 16)\<rparr>)"
      by (rule do_until_Some)
    then show ?thesis using False by (intro exI [of _ k]) simp
  next
    case True
    have lt: "k < N"
    proof (rule ccontr)
      assume "\<not> k < N"
      then have "N + (k + 1 - N) = k + 1" "N + (k + 15 - N) = k + 15" "k + 1 - N < 32" "k + 15 - N < 32"
        using less.prems by linarith+
      then show False using True idle(2) [rule_format, of "k + 1 - N"] idle(2) [rule_format, of "k + 15 - N"] by simp
    qed
    obtain n where n: "k < n" "n \<le> k + 16" "mc146818_body (cmos_clock W base) (c\<lparr>chip_hw := (j, k)\<rparr>) = (None, c\<lparr>chip_hw := (0xa, n)\<rparr>)"
    proof (cases "ck_uip W (k + 1)")
      case True
      then show ?thesis using b by (intro that [of "k + 2"]) simp_all
    next
      case False
      then show ?thesis using b True by (intro that [of "k + 16"]) simp_all
    qed
    have "N + 16 - n < N + 16 - k" "n \<le> N + 15" using lt n(1,2) by linarith+
    from less.hyps [OF this] obtain q where "n \<le> q" "\<not> ck_uip W (q + 1)" "\<not> ck_uip W (q + 15)"
      "do_until (mc146818_body (cmos_clock W base)) (c\<lparr>chip_hw := (0xa, n)\<rparr>) = Some (round_fields W q, c\<lparr>chip_hw := (0xa, q + 16)\<rparr>)"
      by blast
    moreover have "do_until (mc146818_body (cmos_clock W base)) (c\<lparr>chip_hw := (j, k)\<rparr>) =
        do_until (mc146818_body (cmos_clock W base)) (c\<lparr>chip_hw := (0xa, n)\<rparr>)"
      using n(3) by (rule do_until_None)
    ultimately show ?thesis using n(1) by (intro exI [of _ q]) simp
  qed
qed

lemma tm_clock:
  assumes slow: "slow_updates W" and q: "\<not> ck_uip W (q + 1)" "\<not> ck_uip W (q + 15)" and t: "unat (ck_secs W (q + 1)) < 3155760000"
    and cent: "cent_reg < 0"
  defines "g \<equiv> gmtime (ck_secs W (q + 1))"
  shows "mc146818_tm io cent_reg (if ck_binary W then 6 else 2) (round_fields W q) c =
    (tm_of (of_int (tm_sec g)) (of_int (tm_min g)) (of_int (tm_hour g)) (of_int (tm_mday g)) (of_int (tm_mon g)) (of_int (tm_year g)), c)"
proof -
  have h: "\<not> ck_uip W k \<and> ck_secs W k = ck_secs W (q + 1)" if "q + 1 \<le> k" "k \<le> q + 15" for k
    using slow [unfolded slow_updates_def, rule_format, OF q that] by simp
  note r = gmtime_ranges [OF t, folded g_def]
  define D where "D = cmos_digits (ck_binary W)"
  have f: "round_fields W q = (ucast (D (tm_sec g)), ucast (D (tm_min g)), ucast (D (tm_hour g)), ucast (D (tm_mday g)),
      ucast (D (tm_mon g + 1)), ucast (D (tm_year g mod 100)))"
    using h [of "q + 3"] h [of "q + 5"] h [of "q + 7"] h [of "q + 9"] h [of "q + 11"] h [of "q + 13"]
    by (simp add: round_fields_def cmos_reg_def Let_def g_def D_def)
  have conv: "(if (if ck_binary W then 6 else 2 :: u32) AND 4 = 0 then bcd2bin else id) = (if ck_binary W then id else bcd2bin)"
    by simp
  have d: "(if ck_binary W then id else bcd2bin) (ucast (D n)) = of_int n" if "0 \<le> n" "n < 100" for n
    unfolding D_def using that by (rule cmos_digits_read)
  have m: "ucast (D (tm_hour g)) AND NOT 0x80 = (ucast (D (tm_hour g)) :: u32)"
    unfolding D_def using r by (intro cmos_digits_masks) simp_all
  have "(if ck_binary W then 6 else 2 :: u32) AND 2 \<noteq> 0" by simp
  then show ?thesis
    using r cent unfolding mc146818_tm_def f prod.case conv m Let_def
    by (simp add: d [of "tm_sec g"] d [of "tm_min g"] d [of "tm_hour g"] d [of "tm_mday g"] d [of "tm_mon g + 1"] d [of "tm_year g mod 100"] year_2000_mod)
qed

text \<open>
  C38: the driver of the AT clock, for a clock at two adjacent ports, in 24-hour mode without a century register, its data in BCD or binary,
  that holds times from 1970 to 2069. The clock runs on and is updated while it is read; an update takes longer than the
  accesses from one test of \<open>UIP\<close> to the other. When the clock is once not updated for 32
  accesses in a row the driver returns, and it returns the seconds of a time that the clock held during the
  call, whatever the registers show while they are updated.
\<close>

theorem rtc_time_mc146818_date:
  assumes slow: "slow_updates W" and t: "\<forall>i. unat (ck_secs W i) < 3155760000" and cent: "cent_reg < 0"
    and hw: "chip_hw c = (j, k)" and idle: "\<exists>N\<ge>k. \<forall>i<32. \<not> ck_uip W (N + i)"
  shows "\<exists>q\<ge>k. \<not> ck_uip W q \<and> rtc_time_mc146818 L (cmos_clock W base) base 0 mmap cent_reg s c =
    Some (rbind (hwi_add_rtc L (cs ''mc146818'') base 0 2 mmap cent_reg s) (\<lambda>s'. Inr (Some (ck_secs W q), s',
      (chip_access base 0 mmap 2 c)\<lparr>chip_hw := (0xa, q + 15)\<rparr>)))"
proof -
  obtain N where N: "k \<le> N" "\<forall>i<32. \<not> ck_uip W (N + i)" using idle by blast
  define c' where "c' = chip_access base 0 mmap 2 c"
  have c': "chip_base c' = base" "chip_shift c' = 0" "chip_hw c' = (j, k)" by (simp_all add: c'_def chip_access_eq hw)
  have rd: "rdcmos (cmos_clock W base) i (c'\<lparr>chip_hw := (x, n)\<rparr>) =
      (ucast (cmos_reg W (Suc n) (ucast i)), c'\<lparr>chip_hw := (ucast i, Suc (Suc n))\<rparr>)" for i x n
    using c' by (subst rdcmos_clock) simp_all
  have runs: "mc146818_runs (cmos_clock W base) c' = (True, c'\<lparr>chip_hw := (0xa, k + 2)\<rparr>)"
    unfolding mc146818_runs_def rdcmos_clock [OF c'] Let_def prod.case using uip_bit(2) [of W "Suc k"] by simp
  have b: "rdcmos (cmos_clock W base) 0xb (c'\<lparr>chip_hw := (0xa, k + 2)\<rparr>) =
      (if ck_binary W then 6 else 2, c'\<lparr>chip_hw := (0xb, k + 4)\<rparr>)"
    by (simp add: rd cmos_reg_def)
  have "k + 4 \<le> N + 15" using N(1) by simp
  from loop_clock [OF c'(1,2) this N(2)] obtain q where q: "k + 4 \<le> q" "\<not> ck_uip W (q + 1)" "\<not> ck_uip W (q + 15)"
    "do_until (mc146818_body (cmos_clock W base)) (c'\<lparr>chip_hw := (0xb, k + 4)\<rparr>) = Some (round_fields W q, c'\<lparr>chip_hw := (0xa, q + 16)\<rparr>)"
    by blast
  note tm = tm_clock [OF slow q(2,3) t [rule_format] cent]
  have "rtc_time_mc146818 L (cmos_clock W base) base 0 mmap cent_reg s c =
    Some (rbind (hwi_add_rtc L (cs ''mc146818'') base 0 2 mmap cent_reg s) (\<lambda>s'. Inr (Some (ck_secs W (q + 1)), s', c'\<lparr>chip_hw := (0xa, q + 16)\<rparr>)))"
    using t by (simp add: rtc_time_mc146818_def flip: c'_def)
      (simp add: runs b [simplified] q(4) tm [simplified] with_rtc_rbind calc_time_t_read [OF t [rule_format] refl])
  then show ?thesis using q(1,2) by (intro exI [of _ "q + 1"]) (simp add: c'_def add.commute [of 16])
qed

text \<open>A clock whose registers show nothing but ones while it steps from one second to the next, during the first round.\<close>

definition demo_history :: cmos_history where
  "demo_history = \<lparr>ck_uip = \<lambda>k. 10 \<le> k \<and> k < 30, ck_secs = \<lambda>k. (if k < 20 then 1699999999 else 1700000000),
     ck_junk = \<lambda>_ _. 0xff, ck_binary = False\<rparr>"

theorem rtc_time_mc146818_date_witness:
  "\<forall>L s. \<exists>t\<in>{1699999999, 1700000000}. \<exists>c'.
    rtc_time_mc146818 L (cmos_clock demo_history 0x70) 0x70 0 False (- 1) s \<lparr>chip_base = 0, chip_shift = 0, chip_mmap = False, chip_hw = (0, 0)\<rparr> =
    Some (rbind (hwi_add_rtc L (cs ''mc146818'') 0x70 0 2 False (- 1) s) (\<lambda>s'. Inr (Some t, s', c')))"
proof (intro allI)
  fix L s
  let ?c = "\<lparr>chip_base = 0, chip_shift = 0, chip_mmap = False, chip_hw = (0, 0)\<rparr> :: (u8 \<times> nat) chip"
  have slow: "slow_updates demo_history"
    unfolding slow_updates_def
  proof (intro allI impI)
    fix i j k
    assume u: "\<not> ck_uip demo_history i" "\<not> ck_uip demo_history j" "i \<le> k" "k \<le> j" "j \<le> i + 14"
    then consider "k < 10" "i < 10" | "30 \<le> k" "30 \<le> i" unfolding demo_history_def by simp linarith
    then show "\<not> ck_uip demo_history k \<and> ck_secs demo_history k = ck_secs demo_history i" by cases (simp_all add: demo_history_def)
  qed
  have t: "\<forall>i. unat (ck_secs demo_history i) < 3155760000" by (simp add: demo_history_def)
  have n: "\<exists>N\<ge>0. \<forall>i<32. \<not> ck_uip demo_history (N + i)" by (intro exI [of _ 30]) (simp add: demo_history_def)
  have cent: "(- 1 :: int) < 0" and hw: "chip_hw ?c = (0, 0)" by simp_all
  from rtc_time_mc146818_date [OF slow t cent hw n, of L "0x70" False s] obtain q where
    "rtc_time_mc146818 L (cmos_clock demo_history 0x70) 0x70 0 False (- 1) s ?c =
     Some (rbind (hwi_add_rtc L (cs ''mc146818'') 0x70 0 2 False (- 1) s) (\<lambda>s'. Inr (Some (ck_secs demo_history q), s',
       (chip_access 0x70 0 False 2 ?c)\<lparr>chip_hw := (0xa, q + 15)\<rparr>)))" by blast
  moreover have "ck_secs demo_history q \<in> {1699999999, 1700000000}" by (simp add: demo_history_def)
  ultimately show "\<exists>t\<in>{1699999999, 1700000000}. \<exists>c'. rtc_time_mc146818 L (cmos_clock demo_history 0x70) 0x70 0 False (- 1) s ?c =
    Some (rbind (hwi_add_rtc L (cs ''mc146818'') 0x70 0 2 False (- 1) s) (\<lambda>s'. Inr (Some t, s', c')))" by blast
qed

text \<open>
  Two drivers forget that the month counts from one: the OMAP clock and the RTC-72423 in December
  read the month table out of its bounds.
\<close>

lemma rtc_time_omap_december:
  assumes "c' = chip_write32 io 0x40 1 (chip_access base 0 False 0x54 c)"
    and "\<And>off. chip_read32 io off c' = (regs off, c')" "regs 0x10 = 0x12"
    and "add_rtc_at L (cs ''omap'') base 0x54 s = Inr s'"
  shows "rtc_time_omap L io base s c = Some (Inr (None, s', c'))"
proof -
  have "bcd2bin 0x12 = 12" by (simp add: bcd2bin_def)
  then show ?thesis
    using assms(3,4) by (simp add: rtc_time_omap_def with_rtc_def rtc_finish_def calc_time_t_def tm_of_def assms(2)
      flip: assms(1))
qed

text \<open>
  The century register of the AT clock is read, and in BCD mode its number is converted in place of
  its value: with the register at \<open>0x32\<close> the century never counts.
\<close>

lemma mc146818_century_ignored:
  assumes "reg_b AND 4 = 0"
  shows "tm_year (fst (mc146818_tm io 0x32 reg_b (sec, mins, hour, mday, mon, year) c)) = sint (bcd2bin year)"
proof -
  have "bcd2bin 0x32 = 32" by (simp add: bcd2bin_def)
  then show ?thesis
    using assms by (simp add: mc146818_tm_def tm_of_def Let_def split: prod.splits)
qed

end
