(* ===== verification/Startup_Armchip.thy ===== *)
theory Startup_Armchip
  imports Prelude
begin

text \<open>
  The ARM processors the startup library knows: the descriptors \<open>arm/armv_chip_*.c\<close>, their page table
  bits \<open>arm/armv_pte_*.c\<close>, the list \<open>arm/armv_list.c\<close>, the detection \<open>arm/armv_chip_detect.c\<close>,
  \<open>arm/armv_detect_a9.c\<close>, \<open>arm/armv_detect_sheeva.c\<close> and the choice \<open>arm/arm_pte.c\<close>, with the bits of
  \<open>arm/mmu.h\<close>.

  The page table fields are \<open>unsigned short\<close> and are widened where they are used; they are 32 bits wide here and
  \<open>pte_sane\<close> bounds them. A pointer to a cache description, to a callout or to a set-up function
  is the name of its target. What the coprocessor registers hold is the record \<open>cp15\<close>.
\<close>

section \<open>The bits of \<open>arm/mmu.h\<close>\<close>

abbreviation (input) ARM_PTE_RO :: u32 where "ARM_PTE_RO \<equiv> 0"
abbreviation (input) ARM_PTE_RW :: u32 where "ARM_PTE_RW \<equiv> 1"
abbreviation (input) ARM_PTE_U :: u32 where "ARM_PTE_U \<equiv> 2"
abbreviation (input) ARM_PTE_C :: u32 where "ARM_PTE_C \<equiv> 8"
abbreviation (input) ARM_PTE_CB :: u32 where "ARM_PTE_CB \<equiv> 12"
abbreviation (input) ARM_PTE_WT :: u32 where "ARM_PTE_WT \<equiv> ARM_PTE_C"
abbreviation (input) ARM_PTE_WB :: u32 where "ARM_PTE_WB \<equiv> ARM_PTE_CB"
abbreviation (input) ARM_PTE_SP :: u32 where "ARM_PTE_SP \<equiv> 2"
abbreviation (input) ARM_PTE_XSP :: u32 where "ARM_PTE_XSP \<equiv> 3"
abbreviation (input) ARM_PTE_XS_X :: u32 where "ARM_PTE_XS_X \<equiv> 0x40"
abbreviation (input) ARM_PTE_XS_WA :: u32 where "ARM_PTE_XS_WA \<equiv> ARM_PTE_XS_X OR ARM_PTE_WB"
abbreviation (input) ARM_PTE_V5_SP_TEX_MASK :: u32 where "ARM_PTE_V5_SP_TEX_MASK \<equiv> 0x3c0"

abbreviation (input) ARM_PTE_PROT :: "u32 \<Rightarrow> u32" where
  "ARM_PTE_PROT f \<equiv> push_bit 4 f OR push_bit 6 f OR push_bit 8 f OR push_bit 10 f"
abbreviation (input) ARM_XSP_PROT :: "u32 \<Rightarrow> u32" where "ARM_XSP_PROT f \<equiv> push_bit 4 f"

abbreviation (input) ARM_PTE_V6_AP0 :: u32 where "ARM_PTE_V6_AP0 \<equiv> 0x10"
abbreviation (input) ARM_PTE_V6_AP1 :: u32 where "ARM_PTE_V6_AP1 \<equiv> 0x20"
abbreviation (input) ARM_PTE_V6_APX :: u32 where "ARM_PTE_V6_APX \<equiv> 0x200"
abbreviation (input) ARM_PTE_V6_S :: u32 where "ARM_PTE_V6_S \<equiv> 0x400"
abbreviation (input) ARM_PTE_V6_nG :: u32 where "ARM_PTE_V6_nG \<equiv> 0x800"
abbreviation (input) ARM_PTE_V6_AP_URO :: u32 where "ARM_PTE_V6_AP_URO \<equiv> ARM_PTE_V6_AP1 OR ARM_PTE_V6_APX"
abbreviation (input) ARM_PTE_V6_AP_URW :: u32 where "ARM_PTE_V6_AP_URW \<equiv> ARM_PTE_V6_AP1 OR ARM_PTE_V6_AP0"
abbreviation (input) ARM_PTE_V6_AP_KRO :: u32 where "ARM_PTE_V6_AP_KRO \<equiv> ARM_PTE_V6_AP0 OR ARM_PTE_V6_APX"
abbreviation (input) ARM_PTE_V6_AP_KRW :: u32 where "ARM_PTE_V6_AP_KRW \<equiv> ARM_PTE_V6_AP0"
abbreviation (input) ARM_PTE_V6_SP_XN :: u32 where "ARM_PTE_V6_SP_XN \<equiv> 1"
abbreviation (input) ARM_PTE_V6_SP_TEX :: "u32 \<Rightarrow> u32" where "ARM_PTE_V6_SP_TEX x \<equiv> push_bit 6 (x AND 7)"
abbreviation (input) ARM_PTE_V6_SP_TEX_MASK :: u32 where "ARM_PTE_V6_SP_TEX_MASK \<equiv> ARM_PTE_V6_SP_TEX 7"
abbreviation (input) ARM_PTE_V6_WA :: u32 where "ARM_PTE_V6_WA \<equiv> ARM_PTE_V6_SP_TEX 1 OR ARM_PTE_CB"

abbreviation (input) ARM_PTP_L2 :: u32 where "ARM_PTP_L2 \<equiv> 0x11"
abbreviation (input) ARM_PTP_SC :: u32 where "ARM_PTP_SC \<equiv> 0x12"
abbreviation (input) ARM_PTP_V6_L2 :: u32 where "ARM_PTP_V6_L2 \<equiv> 1"
abbreviation (input) ARM_PTP_V6_SC :: u32 where "ARM_PTP_V6_SC \<equiv> 2"
abbreviation (input) ARM_PTP_VALID :: u32 where "ARM_PTP_VALID \<equiv> 3"
abbreviation (input) ARM_PTP_CB :: u32 where "ARM_PTP_CB \<equiv> 12"
abbreviation (input) ARM_PTP_WB :: u32 where "ARM_PTP_WB \<equiv> 12"
abbreviation (input) ARM_PTP_WT :: u32 where "ARM_PTP_WT \<equiv> 8"
abbreviation (input) ARM_PTP_XS_WA :: u32 where "ARM_PTP_XS_WA \<equiv> ARM_PTP_CB OR push_bit 12 (1 AND 0xf)"
abbreviation (input) ARM_PTP_AP_RO :: u32 where "ARM_PTP_AP_RO \<equiv> 0"
abbreviation (input) ARM_PTP_AP_RW :: u32 where "ARM_PTP_AP_RW \<equiv> 0x400"
abbreviation (input) ARM_PTP_V6_S :: u32 where "ARM_PTP_V6_S \<equiv> 0x10000"
abbreviation (input) ARM_PTP_V6_TEX :: "u32 \<Rightarrow> u32" where "ARM_PTP_V6_TEX x \<equiv> push_bit 12 (x AND 7)"
abbreviation (input) ARM_PTP_V6_AP_KRO :: u32 where "ARM_PTP_V6_AP_KRO \<equiv> 0x400 OR 0x8000"
abbreviation (input) ARM_PTP_V6_AP_KRW :: u32 where "ARM_PTP_V6_AP_KRW \<equiv> 0x400"

abbreviation (input) ARM_MMU_CR_S :: u32 where "ARM_MMU_CR_S \<equiv> 0x100"
abbreviation (input) ARM_MMU_CR_R :: u32 where "ARM_MMU_CR_R \<equiv> 0x200"
abbreviation (input) ARM_MMU_CR_F :: u32 where "ARM_MMU_CR_F \<equiv> 0x400"
abbreviation (input) ARM_MMU_CR_Z :: u32 where "ARM_MMU_CR_Z \<equiv> 0x800"
abbreviation (input) ARM_MMU_CR_I :: u32 where "ARM_MMU_CR_I \<equiv> 0x1000"
abbreviation (input) ARM_MMU_CR_RR :: u32 where "ARM_MMU_CR_RR \<equiv> 0x4000"
abbreviation (input) ARM_MMU_CR_XP :: u32 where "ARM_MMU_CR_XP \<equiv> 0x800000"
abbreviation (input) ARM_MMU_CR_L2 :: u32 where "ARM_MMU_CR_L2 \<equiv> 0x4000000"
abbreviation (input) ARM_MMU_CR_nF :: u32 where "ARM_MMU_CR_nF \<equiv> 0x40000000"
abbreviation (input) ARM_MMU_CR_iA :: u32 where "ARM_MMU_CR_iA \<equiv> 0x80000000"

abbreviation (input) ARM_TTBR_S :: u32 where "ARM_TTBR_S \<equiv> 2"
abbreviation (input) ARM_TTBR_NOS :: u32 where "ARM_TTBR_NOS \<equiv> 0x20"
abbreviation (input) ARM_TTBR_RGN_WA :: u32 where "ARM_TTBR_RGN_WA \<equiv> push_bit 3 (1 AND 3)"
abbreviation (input) ARM_TTBR_RGN_WT :: u32 where "ARM_TTBR_RGN_WT \<equiv> push_bit 3 (2 AND 3)"
abbreviation (input) ARM_TTBR_IRGN_WA :: u32 where "ARM_TTBR_IRGN_WA \<equiv> push_bit 6 (1 AND 1) OR drop_bit 1 (1 AND 2)"

section \<open>Descriptors\<close>

record armv_pte =
  upte_ro :: u32
  upte_rw :: u32
  kpte_ro :: u32
  kpte_rw :: u32
  mask_nc :: u32
  l1_pgtable :: u32
  kscn_ro :: u32
  kscn_rw :: u32
  kscn_cb :: u32

datatype detect_fun = Detect_a9 | Detect_sheeva

record armv_chip =
  chip_cpuid :: u32
  chip_name :: "string option"
  chip_mmu_cr_set :: u32
  chip_mmu_cr_clr :: u32
  chip_cycles :: nat
  chip_cache :: "string option"
  chip_power :: "string option"
  chip_flush :: "string option"
  chip_deferred :: "string option"
  chip_pte :: "armv_pte option"
  chip_pte_wa :: "armv_pte option"
  chip_pte_wb :: "armv_pte option"
  chip_pte_wt :: "armv_pte option"
  chip_setup :: "string option"
  chip_detect :: "detect_fun option"
  chip_ttb_attr :: u32
  chip_pte_attr :: u32

subsection \<open>Page table bits: \<open>armv_pte_*.c\<close>\<close>

text \<open>In a chip's initialiser that names a field twice the last value counts, as in C.\<close>

definition armv_pte_ixp2xxx :: armv_pte where
  "armv_pte_ixp2xxx =
     \<lparr>upte_ro = ARM_PTE_XSP OR ARM_XSP_PROT (ARM_PTE_RO OR ARM_PTE_U) OR ARM_PTE_CB,
      upte_rw = ARM_PTE_XSP OR ARM_XSP_PROT (ARM_PTE_RW OR ARM_PTE_U) OR ARM_PTE_XS_WA,
      kpte_ro = ARM_PTE_XSP OR ARM_XSP_PROT ARM_PTE_RO OR ARM_PTE_CB,
      kpte_rw = ARM_PTE_XSP OR ARM_XSP_PROT ARM_PTE_RW OR ARM_PTE_XS_WA,
      mask_nc = ARM_PTE_C,
      l1_pgtable = ARM_PTP_L2,
      kscn_ro = ARM_PTP_SC OR ARM_PTP_AP_RO,
      kscn_rw = ARM_PTP_SC OR ARM_PTP_AP_RW,
      kscn_cb = ARM_PTP_XS_WA\<rparr>"

definition armv_pte_v4wb :: armv_pte where
  "armv_pte_v4wb =
     \<lparr>upte_ro = ARM_PTE_SP OR ARM_PTE_PROT (ARM_PTE_RO OR ARM_PTE_U) OR ARM_PTE_CB,
      upte_rw = ARM_PTE_SP OR ARM_PTE_PROT (ARM_PTE_RW OR ARM_PTE_U) OR ARM_PTE_CB,
      kpte_ro = ARM_PTE_SP OR ARM_PTE_PROT ARM_PTE_RO OR ARM_PTE_CB,
      kpte_rw = ARM_PTE_SP OR ARM_PTE_PROT ARM_PTE_RW OR ARM_PTE_CB,
      mask_nc = ARM_PTE_CB,
      l1_pgtable = ARM_PTP_L2,
      kscn_ro = ARM_PTP_SC OR ARM_PTP_AP_RO,
      kscn_rw = ARM_PTP_SC OR ARM_PTP_AP_RW,
      kscn_cb = ARM_PTP_WB\<rparr>"

definition armv_pte_v4wt :: armv_pte where
  "armv_pte_v4wt =
     \<lparr>upte_ro = ARM_PTE_SP OR ARM_PTE_PROT (ARM_PTE_RO OR ARM_PTE_U) OR ARM_PTE_WT,
      upte_rw = ARM_PTE_SP OR ARM_PTE_PROT (ARM_PTE_RW OR ARM_PTE_U) OR ARM_PTE_WT,
      kpte_ro = ARM_PTE_SP OR ARM_PTE_PROT ARM_PTE_RO OR ARM_PTE_WT,
      kpte_rw = ARM_PTE_SP OR ARM_PTE_PROT ARM_PTE_RW OR ARM_PTE_WT,
      mask_nc = ARM_PTE_CB,
      l1_pgtable = ARM_PTP_L2,
      kscn_ro = ARM_PTP_SC OR ARM_PTP_AP_RO,
      kscn_rw = ARM_PTP_SC OR ARM_PTP_AP_RW,
      kscn_cb = ARM_PTP_WT\<rparr>"

definition armv_pte_v5wa :: armv_pte where
  "armv_pte_v5wa =
     \<lparr>upte_ro = ARM_PTE_XSP OR ARM_XSP_PROT (ARM_PTE_RO OR ARM_PTE_U) OR ARM_PTE_CB,
      upte_rw = ARM_PTE_XSP OR ARM_XSP_PROT (ARM_PTE_RW OR ARM_PTE_U) OR ARM_PTE_XS_WA,
      kpte_ro = ARM_PTE_XSP OR ARM_XSP_PROT ARM_PTE_RO OR ARM_PTE_CB,
      kpte_rw = ARM_PTE_XSP OR ARM_XSP_PROT ARM_PTE_RW OR ARM_PTE_XS_WA,
      mask_nc = ARM_PTE_CB OR ARM_PTE_XS_X,
      l1_pgtable = ARM_PTP_L2,
      kscn_ro = ARM_PTP_SC OR ARM_PTP_AP_RO,
      kscn_rw = ARM_PTP_SC OR ARM_PTP_AP_RW,
      kscn_cb = ARM_PTP_XS_WA\<rparr>"

definition armv_pte_v5wb :: armv_pte where
  "armv_pte_v5wb =
     \<lparr>upte_ro = ARM_PTE_XSP OR ARM_XSP_PROT (ARM_PTE_RO OR ARM_PTE_U) OR ARM_PTE_WT,
      upte_rw = ARM_PTE_XSP OR ARM_XSP_PROT (ARM_PTE_RW OR ARM_PTE_U) OR ARM_PTE_CB,
      kpte_ro = ARM_PTE_XSP OR ARM_XSP_PROT ARM_PTE_RO OR ARM_PTE_WT,
      kpte_rw = ARM_PTE_XSP OR ARM_XSP_PROT ARM_PTE_RW OR ARM_PTE_CB,
      mask_nc = ARM_PTE_CB OR ARM_PTE_XS_X,
      l1_pgtable = ARM_PTP_L2,
      kscn_ro = ARM_PTP_SC OR ARM_PTP_AP_RO,
      kscn_rw = ARM_PTP_SC OR ARM_PTP_AP_RW,
      kscn_cb = ARM_PTP_WB\<rparr>"

definition armv_pte_v5wt :: armv_pte where
  "armv_pte_v5wt =
     \<lparr>upte_ro = ARM_PTE_XSP OR ARM_XSP_PROT (ARM_PTE_RO OR ARM_PTE_U) OR ARM_PTE_WT,
      upte_rw = ARM_PTE_XSP OR ARM_XSP_PROT (ARM_PTE_RW OR ARM_PTE_U) OR ARM_PTE_WT,
      kpte_ro = ARM_PTE_XSP OR ARM_XSP_PROT ARM_PTE_RO OR ARM_PTE_WT,
      kpte_rw = ARM_PTE_XSP OR ARM_XSP_PROT ARM_PTE_RW OR ARM_PTE_WT,
      mask_nc = ARM_PTE_CB OR ARM_PTE_XS_X,
      l1_pgtable = ARM_PTP_L2,
      kscn_ro = ARM_PTP_SC OR ARM_PTP_AP_RO,
      kscn_rw = ARM_PTP_SC OR ARM_PTP_AP_RW,
      kscn_cb = ARM_PTP_WT\<rparr>"

definition armv_pte_v6mp :: armv_pte where
  "armv_pte_v6mp =
     \<lparr>upte_ro = ARM_PTE_SP OR ARM_PTE_CB OR ARM_PTE_V6_SP_TEX 1 OR ARM_PTE_V6_S OR ARM_PTE_V6_AP_URO OR ARM_PTE_V6_nG,
      upte_rw = ARM_PTE_SP OR ARM_PTE_CB OR ARM_PTE_V6_SP_TEX 1 OR ARM_PTE_V6_S OR ARM_PTE_V6_AP_URW OR ARM_PTE_V6_nG,
      kpte_ro = ARM_PTE_SP OR ARM_PTE_CB OR ARM_PTE_V6_SP_TEX 1 OR ARM_PTE_V6_S OR ARM_PTE_V6_AP_KRO,
      kpte_rw = ARM_PTE_SP OR ARM_PTE_CB OR ARM_PTE_V6_SP_TEX 1 OR ARM_PTE_V6_S OR ARM_PTE_V6_AP_KRW,
      mask_nc = ARM_PTE_CB OR ARM_PTE_V6_SP_TEX_MASK,
      l1_pgtable = ARM_PTP_V6_L2,
      kscn_ro = ARM_PTP_V6_SC OR ARM_PTP_V6_AP_KRO OR ARM_PTP_V6_S,
      kscn_rw = ARM_PTP_V6_SC OR ARM_PTP_V6_AP_KRW OR ARM_PTP_V6_S,
      kscn_cb = ARM_PTP_WB OR ARM_PTP_V6_TEX 1\<rparr>"

definition armv_pte_v6wa :: armv_pte where
  "armv_pte_v6wa =
     \<lparr>upte_ro = ARM_PTE_SP OR ARM_PTE_V6_SP_TEX 1 OR ARM_PTE_CB OR ARM_PTE_V6_AP_URO OR ARM_PTE_V6_nG,
      upte_rw = ARM_PTE_SP OR ARM_PTE_V6_SP_TEX 1 OR ARM_PTE_CB OR ARM_PTE_V6_AP_URW OR ARM_PTE_V6_nG,
      kpte_ro = ARM_PTE_SP OR ARM_PTE_V6_SP_TEX 1 OR ARM_PTE_CB OR ARM_PTE_V6_AP_KRO,
      kpte_rw = ARM_PTE_SP OR ARM_PTE_V6_SP_TEX 1 OR ARM_PTE_CB OR ARM_PTE_V6_AP_KRW,
      mask_nc = ARM_PTE_V6_SP_TEX 1 OR ARM_PTE_CB,
      l1_pgtable = ARM_PTP_V6_L2,
      kscn_ro = ARM_PTP_V6_SC OR ARM_PTP_V6_AP_KRO,
      kscn_rw = ARM_PTP_V6_SC OR ARM_PTP_V6_AP_KRW,
      kscn_cb = ARM_PTP_V6_TEX 1 OR ARM_PTP_CB\<rparr>"

definition armv_pte_v6wb :: armv_pte where
  "armv_pte_v6wb =
     \<lparr>upte_ro = ARM_PTE_SP OR ARM_PTE_WB OR ARM_PTE_V6_AP_URO OR ARM_PTE_V6_nG,
      upte_rw = ARM_PTE_SP OR ARM_PTE_WB OR ARM_PTE_V6_AP_URW OR ARM_PTE_V6_nG,
      kpte_ro = ARM_PTE_SP OR ARM_PTE_WB OR ARM_PTE_V6_AP_KRO,
      kpte_rw = ARM_PTE_SP OR ARM_PTE_WB OR ARM_PTE_V6_AP_KRW,
      mask_nc = ARM_PTE_CB,
      l1_pgtable = ARM_PTP_V6_L2,
      kscn_ro = ARM_PTP_V6_SC OR ARM_PTP_V6_AP_KRO,
      kscn_rw = ARM_PTP_V6_SC OR ARM_PTP_V6_AP_KRW,
      kscn_cb = ARM_PTP_WB\<rparr>"

definition armv_pte_v6wt :: armv_pte where
  "armv_pte_v6wt =
     \<lparr>upte_ro = ARM_PTE_SP OR ARM_PTE_WT OR ARM_PTE_V6_AP_URO OR ARM_PTE_V6_nG,
      upte_rw = ARM_PTE_SP OR ARM_PTE_WT OR ARM_PTE_V6_AP_URW OR ARM_PTE_V6_nG,
      kpte_ro = ARM_PTE_SP OR ARM_PTE_WT OR ARM_PTE_V6_AP_KRO,
      kpte_rw = ARM_PTE_SP OR ARM_PTE_WT OR ARM_PTE_V6_AP_KRW,
      mask_nc = ARM_PTE_CB,
      l1_pgtable = ARM_PTP_V6_L2,
      kscn_ro = ARM_PTP_V6_SC OR ARM_PTP_V6_AP_KRO,
      kscn_rw = ARM_PTP_V6_SC OR ARM_PTP_V6_AP_KRW,
      kscn_cb = ARM_PTP_WT\<rparr>"

definition armv_pte_v7mp :: armv_pte where
  "armv_pte_v7mp =
     \<lparr>upte_ro = ARM_PTE_SP OR ARM_PTE_CB OR ARM_PTE_V6_SP_TEX 1 OR ARM_PTE_V6_S OR ARM_PTE_V6_AP_URO OR ARM_PTE_V6_nG,
      upte_rw = ARM_PTE_SP OR ARM_PTE_CB OR ARM_PTE_V6_SP_TEX 1 OR ARM_PTE_V6_S OR ARM_PTE_V6_AP_URW OR ARM_PTE_V6_nG,
      kpte_ro = ARM_PTE_SP OR ARM_PTE_CB OR ARM_PTE_V6_SP_TEX 1 OR ARM_PTE_V6_S OR ARM_PTE_V6_AP_KRO,
      kpte_rw = ARM_PTE_SP OR ARM_PTE_CB OR ARM_PTE_V6_SP_TEX 1 OR ARM_PTE_V6_S OR ARM_PTE_V6_AP_KRW,
      mask_nc = ARM_PTE_CB OR ARM_PTE_V6_SP_TEX_MASK,
      l1_pgtable = ARM_PTP_V6_L2,
      kscn_ro = ARM_PTP_V6_SC OR ARM_PTP_V6_AP_KRO OR ARM_PTP_V6_S,
      kscn_rw = ARM_PTP_V6_SC OR ARM_PTP_V6_AP_KRW OR ARM_PTP_V6_S,
      kscn_cb = ARM_PTP_WB OR ARM_PTP_V6_TEX 1\<rparr>"

definition armv_pte_v7wa :: armv_pte where
  "armv_pte_v7wa =
     \<lparr>upte_ro = ARM_PTE_SP OR ARM_PTE_V6_SP_TEX 1 OR ARM_PTE_CB OR ARM_PTE_V6_AP_URO OR ARM_PTE_V6_nG,
      upte_rw = ARM_PTE_SP OR ARM_PTE_V6_SP_TEX 1 OR ARM_PTE_CB OR ARM_PTE_V6_AP_URW OR ARM_PTE_V6_nG,
      kpte_ro = ARM_PTE_SP OR ARM_PTE_V6_SP_TEX 1 OR ARM_PTE_CB OR ARM_PTE_V6_AP_KRO,
      kpte_rw = ARM_PTE_SP OR ARM_PTE_V6_SP_TEX 1 OR ARM_PTE_CB OR ARM_PTE_V6_AP_KRW,
      mask_nc = ARM_PTE_V6_SP_TEX 1 OR ARM_PTE_CB,
      l1_pgtable = ARM_PTP_V6_L2,
      kscn_ro = ARM_PTP_V6_SC OR ARM_PTP_V6_AP_KRO,
      kscn_rw = ARM_PTP_V6_SC OR ARM_PTP_V6_AP_KRW,
      kscn_cb = ARM_PTP_V6_TEX 1 OR ARM_PTP_CB\<rparr>"

definition armv_pte_v7wb :: armv_pte where
  "armv_pte_v7wb =
     \<lparr>upte_ro = ARM_PTE_SP OR ARM_PTE_WB OR ARM_PTE_V6_AP_URO OR ARM_PTE_V6_nG,
      upte_rw = ARM_PTE_SP OR ARM_PTE_WB OR ARM_PTE_V6_AP_URW OR ARM_PTE_V6_nG,
      kpte_ro = ARM_PTE_SP OR ARM_PTE_WB OR ARM_PTE_V6_AP_KRO,
      kpte_rw = ARM_PTE_SP OR ARM_PTE_WB OR ARM_PTE_V6_AP_KRW,
      mask_nc = ARM_PTE_CB,
      l1_pgtable = ARM_PTP_V6_L2,
      kscn_ro = ARM_PTP_V6_SC OR ARM_PTP_V6_AP_KRO,
      kscn_rw = ARM_PTP_V6_SC OR ARM_PTP_V6_AP_KRW,
      kscn_cb = ARM_PTP_WB\<rparr>"

definition armv_pte_v7wt :: armv_pte where
  "armv_pte_v7wt =
     \<lparr>upte_ro = ARM_PTE_SP OR ARM_PTE_WT OR ARM_PTE_V6_AP_URO OR ARM_PTE_V6_nG,
      upte_rw = ARM_PTE_SP OR ARM_PTE_WT OR ARM_PTE_V6_AP_URW OR ARM_PTE_V6_nG,
      kpte_ro = ARM_PTE_SP OR ARM_PTE_WT OR ARM_PTE_V6_AP_KRO,
      kpte_rw = ARM_PTE_SP OR ARM_PTE_WT OR ARM_PTE_V6_AP_KRW,
      mask_nc = ARM_PTE_CB,
      l1_pgtable = ARM_PTP_V6_L2,
      kscn_ro = ARM_PTP_V6_SC OR ARM_PTP_V6_AP_KRO,
      kscn_rw = ARM_PTP_V6_SC OR ARM_PTP_V6_AP_KRW,
      kscn_cb = ARM_PTP_WT\<rparr>"

definition armv_pte_xsc3 :: armv_pte where
  "armv_pte_xsc3 =
     \<lparr>upte_ro = ARM_PTE_XSP OR ARM_XSP_PROT (ARM_PTE_RO OR ARM_PTE_U) OR ARM_PTE_XS_WA,
      upte_rw = ARM_PTE_XSP OR ARM_XSP_PROT (ARM_PTE_RW OR ARM_PTE_U) OR ARM_PTE_XS_WA,
      kpte_ro = ARM_PTE_XSP OR ARM_XSP_PROT ARM_PTE_RO OR ARM_PTE_XS_WA,
      kpte_rw = ARM_PTE_XSP OR ARM_XSP_PROT ARM_PTE_RW OR ARM_PTE_XS_WA,
      mask_nc = ARM_PTE_C,
      l1_pgtable = ARM_PTP_L2,
      kscn_ro = ARM_PTP_SC OR ARM_PTP_AP_RO,
      kscn_rw = ARM_PTP_SC OR ARM_PTP_AP_RW,
      kscn_cb = ARM_PTP_XS_WA\<rparr>"

definition armv_chip_1020 :: armv_chip where
  "armv_chip_1020 =
     \<lparr>chip_cpuid = 0xa200,
      chip_name = Some ''arm1020'',
      chip_mmu_cr_set = ARM_MMU_CR_S OR ARM_MMU_CR_I OR ARM_MMU_CR_Z,
      chip_mmu_cr_clr = 0,
      chip_cycles = 2,
      chip_cache = Some ''armv_cache_1020'',
      chip_power = Some ''power_cp15_wfi'',
      chip_flush = Some ''page_flush_1020'',
      chip_deferred = Some ''page_flush_deferred_1020'',
      chip_pte = Some armv_pte_v4wb,
      chip_pte_wa = None,
      chip_pte_wb = Some armv_pte_v4wb,
      chip_pte_wt = Some armv_pte_v4wt,
      chip_setup = None,
      chip_detect = None,
      chip_ttb_attr = 0,
      chip_pte_attr = 0\<rparr>"

definition armv_chip_1022 :: armv_chip where
  "armv_chip_1022 =
     \<lparr>chip_cpuid = 0xa220,
      chip_name = Some ''arm1022'',
      chip_mmu_cr_set = ARM_MMU_CR_S OR ARM_MMU_CR_I OR ARM_MMU_CR_Z,
      chip_mmu_cr_clr = 0,
      chip_cycles = 2,
      chip_cache = Some ''armv_cache_1020'',
      chip_power = Some ''power_cp15_wfi'',
      chip_flush = Some ''page_flush_1020'',
      chip_deferred = Some ''page_flush_deferred_1020'',
      chip_pte = Some armv_pte_v4wb,
      chip_pte_wa = None,
      chip_pte_wb = Some armv_pte_v4wb,
      chip_pte_wt = Some armv_pte_v4wt,
      chip_setup = None,
      chip_detect = None,
      chip_ttb_attr = 0,
      chip_pte_attr = 0\<rparr>"

definition armv_chip_1136 :: armv_chip where
  "armv_chip_1136 =
     \<lparr>chip_cpuid = 0xb360,
      chip_name = Some ''arm1136'',
      chip_mmu_cr_set = ARM_MMU_CR_XP OR ARM_MMU_CR_I OR ARM_MMU_CR_Z,
      chip_mmu_cr_clr = ARM_MMU_CR_R OR ARM_MMU_CR_S,
      chip_cycles = 2,
      chip_cache = Some ''armv_cache_1136'',
      chip_power = None,
      chip_flush = Some ''page_flush_1136'',
      chip_deferred = Some ''page_flush_deferred_1136'',
      chip_pte = Some armv_pte_v6wb,
      chip_pte_wa = None,
      chip_pte_wb = Some armv_pte_v6wb,
      chip_pte_wt = Some armv_pte_v6wt,
      chip_setup = Some ''armv_setup_1136'',
      chip_detect = None,
      chip_ttb_attr = ARM_TTBR_RGN_WT,
      chip_pte_attr = ARM_PTE_V6_SP_XN OR ARM_PTE_WT\<rparr>"

definition armv_chip_1176 :: armv_chip where
  "armv_chip_1176 =
     \<lparr>chip_cpuid = 0xb760,
      chip_name = Some ''arm1176'',
      chip_mmu_cr_set = ARM_MMU_CR_XP OR ARM_MMU_CR_I OR ARM_MMU_CR_Z,
      chip_mmu_cr_clr = ARM_MMU_CR_R OR ARM_MMU_CR_S,
      chip_cycles = 2,
      chip_cache = Some ''armv_cache_1136'',
      chip_power = None,
      chip_flush = Some ''page_flush_1136'',
      chip_deferred = Some ''page_flush_deferred_1136'',
      chip_pte = Some armv_pte_v6wb,
      chip_pte_wa = None,
      chip_pte_wb = Some armv_pte_v6wb,
      chip_pte_wt = Some armv_pte_v6wt,
      chip_setup = Some ''armv_setup_1136'',
      chip_detect = None,
      chip_ttb_attr = ARM_TTBR_RGN_WT,
      chip_pte_attr = ARM_PTE_V6_SP_XN OR ARM_PTE_WT\<rparr>"

definition armv_chip_ixp1200 :: armv_chip where
  "armv_chip_ixp1200 =
     \<lparr>chip_cpuid = 0xc120,
      chip_name = Some ''ixp1200'',
      chip_mmu_cr_set = ARM_MMU_CR_S OR ARM_MMU_CR_I,
      chip_mmu_cr_clr = 0,
      chip_cycles = 3,
      chip_cache = Some ''armv_cache_sa1100'',
      chip_power = None,
      chip_flush = Some ''page_flush_sa'',
      chip_deferred = Some ''page_flush_deferred_sa'',
      chip_pte = Some armv_pte_v4wb,
      chip_pte_wa = None,
      chip_pte_wb = Some armv_pte_v4wb,
      chip_pte_wt = None,
      chip_setup = None,
      chip_detect = None,
      chip_ttb_attr = 0,
      chip_pte_attr = 0\<rparr>"

definition armv_chip_ixp23xx :: armv_chip where
  "armv_chip_ixp23xx =
     \<lparr>chip_cpuid = 0x6200,
      chip_name = Some ''ixp23xx'',
      chip_mmu_cr_set = ARM_MMU_CR_S OR ARM_MMU_CR_I OR ARM_MMU_CR_L2,
      chip_mmu_cr_clr = ARM_MMU_CR_Z,
      chip_cycles = 2,
      chip_cache = Some ''armv_cache_xsc3'',
      chip_power = None,
      chip_flush = Some ''page_flush_xsc3'',
      chip_deferred = Some ''page_flush_deferred_xsc3'',
      chip_pte = Some armv_pte_xsc3,
      chip_pte_wa = None,
      chip_pte_wb = Some armv_pte_xsc3,
      chip_pte_wt = None,
      chip_setup = Some ''armv_setup_xscale'',
      chip_detect = None,
      chip_ttb_attr = 0,
      chip_pte_attr = 0\<rparr>"

definition armv_chip_ixp2400 :: armv_chip where
  "armv_chip_ixp2400 =
     \<lparr>chip_cpuid = 0x4190,
      chip_name = Some ''ixp2400'',
      chip_mmu_cr_set = ARM_MMU_CR_S OR ARM_MMU_CR_I OR ARM_MMU_CR_Z,
      chip_mmu_cr_clr = 0,
      chip_cycles = 2,
      chip_cache = Some ''armv_cache_xscale'',
      chip_power = Some ''power_xscale'',
      chip_flush = Some ''page_flush_xscale'',
      chip_deferred = Some ''page_flush_deferred_xscale'',
      chip_pte = Some armv_pte_ixp2xxx,
      chip_pte_wa = Some armv_pte_ixp2xxx,
      chip_pte_wb = None,
      chip_pte_wt = None,
      chip_setup = Some ''armv_setup_xscale'',
      chip_detect = None,
      chip_ttb_attr = 0,
      chip_pte_attr = 0\<rparr>"

definition armv_chip_ixp2800 :: armv_chip where
  "armv_chip_ixp2800 =
     \<lparr>chip_cpuid = 0x41a0,
      chip_name = Some ''ixp2800'',
      chip_mmu_cr_set = ARM_MMU_CR_S OR ARM_MMU_CR_I OR ARM_MMU_CR_Z,
      chip_mmu_cr_clr = 0,
      chip_cycles = 2,
      chip_cache = Some ''armv_cache_xscale'',
      chip_power = Some ''power_xscale'',
      chip_flush = Some ''page_flush_xscale'',
      chip_deferred = Some ''page_flush_deferred_xscale'',
      chip_pte = Some armv_pte_ixp2xxx,
      chip_pte_wa = Some armv_pte_ixp2xxx,
      chip_pte_wb = None,
      chip_pte_wt = None,
      chip_setup = Some ''armv_setup_xscale'',
      chip_detect = None,
      chip_ttb_attr = 0,
      chip_pte_attr = 0\<rparr>"

definition armv_chip_ixp425 :: armv_chip where
  "armv_chip_ixp425 =
     \<lparr>chip_cpuid = 0x41c0,
      chip_name = Some ''ixp425'',
      chip_mmu_cr_set = ARM_MMU_CR_S OR ARM_MMU_CR_I OR ARM_MMU_CR_Z,
      chip_mmu_cr_clr = 0,
      chip_cycles = 2,
      chip_cache = Some ''armv_cache_xscale'',
      chip_power = Some ''power_xscale'',
      chip_flush = Some ''page_flush_xscale'',
      chip_deferred = Some ''page_flush_deferred_xscale'',
      chip_pte = Some armv_pte_v5wa,
      chip_pte_wa = Some armv_pte_v5wa,
      chip_pte_wb = Some armv_pte_v5wb,
      chip_pte_wt = Some armv_pte_v5wt,
      chip_setup = Some ''armv_setup_xscale'',
      chip_detect = None,
      chip_ttb_attr = 0,
      chip_pte_attr = 0\<rparr>"

definition armv_chip_ixp465 :: armv_chip where
  "armv_chip_ixp465 =
     \<lparr>chip_cpuid = 0x4200,
      chip_name = Some ''ixp465'',
      chip_mmu_cr_set = ARM_MMU_CR_S OR ARM_MMU_CR_I OR ARM_MMU_CR_Z,
      chip_mmu_cr_clr = 0,
      chip_cycles = 2,
      chip_cache = Some ''armv_cache_xscale'',
      chip_power = Some ''power_xscale'',
      chip_flush = Some ''page_flush_xscale'',
      chip_deferred = Some ''page_flush_deferred_xscale'',
      chip_pte = Some armv_pte_v5wa,
      chip_pte_wa = Some armv_pte_v5wa,
      chip_pte_wb = Some armv_pte_v5wb,
      chip_pte_wt = Some armv_pte_v5wt,
      chip_setup = Some ''armv_setup_xscale'',
      chip_detect = None,
      chip_ttb_attr = 0,
      chip_pte_attr = 0\<rparr>"

definition armv_chip_720 :: armv_chip where
  "armv_chip_720 =
     \<lparr>chip_cpuid = 0x7200,
      chip_name = Some ''arm720'',
      chip_mmu_cr_set = ARM_MMU_CR_S,
      chip_mmu_cr_clr = 0,
      chip_cycles = 0,
      chip_cache = Some ''armv_cache_720'',
      chip_power = None,
      chip_flush = Some ''page_flush_720'',
      chip_deferred = Some ''page_flush_deferred_720'',
      chip_pte = Some armv_pte_v4wb,
      chip_pte_wa = None,
      chip_pte_wb = Some armv_pte_v4wb,
      chip_pte_wt = None,
      chip_setup = None,
      chip_detect = None,
      chip_ttb_attr = 0,
      chip_pte_attr = 0\<rparr>"

definition armv_chip_80200 :: armv_chip where
  "armv_chip_80200 =
     \<lparr>chip_cpuid = 0x2000,
      chip_name = Some ''i80200'',
      chip_mmu_cr_set = ARM_MMU_CR_S OR ARM_MMU_CR_I OR ARM_MMU_CR_Z,
      chip_mmu_cr_clr = 0,
      chip_cycles = 2,
      chip_cache = Some ''armv_cache_xscale'',
      chip_power = Some ''power_xscale'',
      chip_flush = Some ''page_flush_xscale'',
      chip_deferred = Some ''page_flush_deferred_xscale'',
      chip_pte = Some armv_pte_v5wb,
      chip_pte_wa = Some armv_pte_v5wa,
      chip_pte_wb = Some armv_pte_v5wb,
      chip_pte_wt = Some armv_pte_v5wt,
      chip_setup = Some ''armv_setup_xscale'',
      chip_detect = None,
      chip_ttb_attr = 0,
      chip_pte_attr = 0\<rparr>"

definition armv_chip_920 :: armv_chip where
  "armv_chip_920 =
     \<lparr>chip_cpuid = 0x9200,
      chip_name = Some ''arm920'',
      chip_mmu_cr_set = ARM_MMU_CR_S OR ARM_MMU_CR_I OR ARM_MMU_CR_nF OR ARM_MMU_CR_iA,
      chip_mmu_cr_clr = 0,
      chip_cycles = 4,
      chip_cache = Some ''armv_cache_920'',
      chip_power = Some ''power_cp15_wfi'',
      chip_flush = Some ''page_flush_920'',
      chip_deferred = Some ''page_flush_deferred_920'',
      chip_pte = Some armv_pte_v4wb,
      chip_pte_wa = None,
      chip_pte_wb = Some armv_pte_v4wb,
      chip_pte_wt = Some armv_pte_v4wt,
      chip_setup = None,
      chip_detect = None,
      chip_ttb_attr = 0,
      chip_pte_attr = 0\<rparr>"

definition armv_chip_922 :: armv_chip where
  "armv_chip_922 =
     \<lparr>chip_cpuid = 0x9200,
      chip_name = Some ''arm922'',
      chip_mmu_cr_set = ARM_MMU_CR_S OR ARM_MMU_CR_I OR ARM_MMU_CR_nF OR ARM_MMU_CR_iA,
      chip_mmu_cr_clr = 0,
      chip_cycles = 4,
      chip_cache = Some ''armv_cache_920'',
      chip_power = Some ''power_cp15_wfi'',
      chip_flush = Some ''page_flush_920'',
      chip_deferred = Some ''page_flush_deferred_920'',
      chip_pte = Some armv_pte_v4wb,
      chip_pte_wa = Some armv_pte_v4wt,
      chip_pte_wb = Some armv_pte_v4wb,
      chip_pte_wt = None,
      chip_setup = None,
      chip_detect = None,
      chip_ttb_attr = 0,
      chip_pte_attr = 0\<rparr>"

definition armv_chip_925 :: armv_chip where
  "armv_chip_925 =
     \<lparr>chip_cpuid = 0x9250,
      chip_name = Some ''arm925'',
      chip_mmu_cr_set = ARM_MMU_CR_S OR ARM_MMU_CR_I,
      chip_mmu_cr_clr = 0,
      chip_cycles = 4,
      chip_cache = Some ''armv_cache_925'',
      chip_power = Some ''power_cp15_wfi'',
      chip_flush = Some ''page_flush_925'',
      chip_deferred = Some ''page_flush_deferred_925'',
      chip_pte = Some armv_pte_v4wb,
      chip_pte_wa = None,
      chip_pte_wb = Some armv_pte_v4wb,
      chip_pte_wt = Some armv_pte_v4wt,
      chip_setup = None,
      chip_detect = None,
      chip_ttb_attr = 0,
      chip_pte_attr = 0\<rparr>"

definition armv_chip_926 :: armv_chip where
  "armv_chip_926 =
     \<lparr>chip_cpuid = 0x9260,
      chip_name = Some ''arm926'',
      chip_mmu_cr_set = ARM_MMU_CR_S OR ARM_MMU_CR_I,
      chip_mmu_cr_clr = 0,
      chip_cycles = 4,
      chip_cache = Some ''armv_cache_926'',
      chip_power = Some ''power_926'',
      chip_flush = Some ''page_flush_920'',
      chip_deferred = Some ''page_flush_deferred_920'',
      chip_pte = Some armv_pte_v4wb,
      chip_pte_wa = None,
      chip_pte_wb = Some armv_pte_v4wb,
      chip_pte_wt = Some armv_pte_v4wt,
      chip_setup = None,
      chip_detect = None,
      chip_ttb_attr = 0,
      chip_pte_attr = 0\<rparr>"

definition armv_chip_a15 :: armv_chip where
  "armv_chip_a15 =
     \<lparr>chip_cpuid = 0xc0f0,
      chip_name = Some ''Cortex A15'',
      chip_mmu_cr_set = ARM_MMU_CR_XP OR ARM_MMU_CR_I OR ARM_MMU_CR_Z OR ARM_MMU_CR_F,
      chip_mmu_cr_clr = 0,
      chip_cycles = 2,
      chip_cache = Some ''armv_cache_a15'',
      chip_power = Some ''power_v7_wfi'',
      chip_flush = Some ''page_flush_a15'',
      chip_deferred = Some ''page_flush_deferred_a15'',
      chip_pte = Some armv_pte_v7mp,
      chip_pte_wa = Some armv_pte_v7mp,
      chip_pte_wb = None,
      chip_pte_wt = None,
      chip_setup = Some ''armv_setup_a15'',
      chip_detect = None,
      chip_ttb_attr = ARM_TTBR_IRGN_WA OR ARM_TTBR_RGN_WA OR ARM_TTBR_S,
      chip_pte_attr = ARM_PTE_V6_SP_XN OR ARM_PTE_V6_WA OR ARM_PTE_V6_S\<rparr>"

definition armv_chip_a8 :: armv_chip where
  "armv_chip_a8 =
     \<lparr>chip_cpuid = 0xc080,
      chip_name = Some ''Cortex A8'',
      chip_mmu_cr_set = ARM_MMU_CR_XP OR ARM_MMU_CR_I OR ARM_MMU_CR_Z,
      chip_mmu_cr_clr = 0,
      chip_cycles = 2,
      chip_cache = Some ''armv_cache_a8'',
      chip_power = Some ''power_v7_wfi'',
      chip_flush = Some ''page_flush_a8'',
      chip_deferred = Some ''page_flush_deferred_a8'',
      chip_pte = Some armv_pte_v7wa,
      chip_pte_wa = Some armv_pte_v7wa,
      chip_pte_wb = Some armv_pte_v7wb,
      chip_pte_wt = Some armv_pte_v7wt,
      chip_setup = Some ''armv_setup_a8'',
      chip_detect = None,
      chip_ttb_attr = ARM_TTBR_RGN_WT,
      chip_pte_attr = ARM_PTE_V6_SP_XN OR ARM_PTE_WT\<rparr>"

definition armv_chip_a9 :: armv_chip where
  "armv_chip_a9 =
     \<lparr>chip_cpuid = 0xc090,
      chip_name = None,
      chip_mmu_cr_set = 0,
      chip_mmu_cr_clr = 0,
      chip_cycles = 0,
      chip_cache = None,
      chip_power = None,
      chip_flush = None,
      chip_deferred = None,
      chip_pte = None,
      chip_pte_wa = None,
      chip_pte_wb = None,
      chip_pte_wt = None,
      chip_setup = None,
      chip_detect = Some Detect_a9,
      chip_ttb_attr = 0,
      chip_pte_attr = 0\<rparr>"

definition armv_chip_a9mp :: armv_chip where
  "armv_chip_a9mp =
     \<lparr>chip_cpuid = 0xc090,
      chip_name = Some ''Cortex A9 MPCore'',
      chip_mmu_cr_set = ARM_MMU_CR_XP OR ARM_MMU_CR_I OR ARM_MMU_CR_Z OR ARM_MMU_CR_F,
      chip_mmu_cr_clr = 0,
      chip_cycles = 2,
      chip_cache = Some ''armv_cache_a9mp'',
      chip_power = Some ''power_v7_wfi'',
      chip_flush = Some ''page_flush_a9mp'',
      chip_deferred = Some ''page_flush_deferred_a9mp'',
      chip_pte = Some armv_pte_v7mp,
      chip_pte_wa = Some armv_pte_v7mp,
      chip_pte_wb = None,
      chip_pte_wt = None,
      chip_setup = Some ''armv_setup_a9mp'',
      chip_detect = None,
      chip_ttb_attr = ARM_TTBR_IRGN_WA OR ARM_TTBR_RGN_WA OR ARM_TTBR_NOS OR ARM_TTBR_S,
      chip_pte_attr = ARM_PTE_V6_SP_XN OR ARM_PTE_V6_WA OR ARM_PTE_V6_S\<rparr>"

definition armv_chip_a9up :: armv_chip where
  "armv_chip_a9up =
     \<lparr>chip_cpuid = 0xc090,
      chip_name = Some ''Cortex A9'',
      chip_mmu_cr_set = ARM_MMU_CR_XP OR ARM_MMU_CR_I OR ARM_MMU_CR_Z OR ARM_MMU_CR_F,
      chip_mmu_cr_clr = 0,
      chip_cycles = 2,
      chip_cache = Some ''armv_cache_a9up'',
      chip_power = Some ''power_v7_wfi'',
      chip_flush = Some ''page_flush_a9up'',
      chip_deferred = Some ''page_flush_deferred_a9up'',
      chip_pte = Some armv_pte_v7wa,
      chip_pte_wa = Some armv_pte_v7wa,
      chip_pte_wb = Some armv_pte_v7wb,
      chip_pte_wt = Some armv_pte_v7wt,
      chip_setup = Some ''armv_setup_a9up'',
      chip_detect = None,
      chip_ttb_attr = ARM_TTBR_RGN_WA OR ARM_TTBR_IRGN_WA,
      chip_pte_attr = ARM_PTE_V6_SP_XN OR ARM_PTE_V6_WA\<rparr>"

definition armv_chip_mp11 :: armv_chip where
  "armv_chip_mp11 =
     \<lparr>chip_cpuid = 0xb020,
      chip_name = Some ''arm11 MPcore'',
      chip_mmu_cr_set = ARM_MMU_CR_XP OR ARM_MMU_CR_I OR ARM_MMU_CR_Z OR ARM_MMU_CR_RR,
      chip_mmu_cr_clr = ARM_MMU_CR_R OR ARM_MMU_CR_S,
      chip_cycles = 2,
      chip_cache = Some ''armv_cache_mp11'',
      chip_power = Some ''power_cp15_wfi'',
      chip_flush = Some ''page_flush_mp11'',
      chip_deferred = Some ''page_flush_deferred_mp11'',
      chip_pte = Some armv_pte_v6mp,
      chip_pte_wa = None,
      chip_pte_wb = None,
      chip_pte_wt = None,
      chip_setup = Some ''armv_setup_mp11'',
      chip_detect = None,
      chip_ttb_attr = ARM_TTBR_S,
      chip_pte_attr = ARM_PTE_V6_SP_XN\<rparr>"

definition armv_chip_pxa210b :: armv_chip where
  "armv_chip_pxa210b =
     \<lparr>chip_cpuid = 0x2920,
      chip_name = Some ''pxa210'',
      chip_mmu_cr_set = ARM_MMU_CR_S OR ARM_MMU_CR_I OR ARM_MMU_CR_Z,
      chip_mmu_cr_clr = 0,
      chip_cycles = 2,
      chip_cache = Some ''armv_cache_xscale'',
      chip_power = Some ''power_xscale'',
      chip_flush = Some ''page_flush_xscale'',
      chip_deferred = Some ''page_flush_deferred_xscale'',
      chip_pte = Some armv_pte_v5wb,
      chip_pte_wa = Some armv_pte_v5wa,
      chip_pte_wb = Some armv_pte_v5wb,
      chip_pte_wt = Some armv_pte_v5wt,
      chip_setup = Some ''armv_setup_xscale'',
      chip_detect = None,
      chip_ttb_attr = 0,
      chip_pte_attr = 0\<rparr>"

definition armv_chip_pxa210c :: armv_chip where
  "armv_chip_pxa210c =
     \<lparr>chip_cpuid = 0x2d20,
      chip_name = Some ''pxa210'',
      chip_mmu_cr_set = ARM_MMU_CR_S OR ARM_MMU_CR_I OR ARM_MMU_CR_Z,
      chip_mmu_cr_clr = 0,
      chip_cycles = 2,
      chip_cache = Some ''armv_cache_xscale'',
      chip_power = Some ''power_xscale'',
      chip_flush = Some ''page_flush_xscale'',
      chip_deferred = Some ''page_flush_deferred_xscale'',
      chip_pte = Some armv_pte_v5wb,
      chip_pte_wa = Some armv_pte_v5wa,
      chip_pte_wb = Some armv_pte_v5wb,
      chip_pte_wt = Some armv_pte_v5wt,
      chip_setup = Some ''armv_setup_xscale'',
      chip_detect = None,
      chip_ttb_attr = 0,
      chip_pte_attr = 0\<rparr>"

definition armv_chip_pxa250a :: armv_chip where
  "armv_chip_pxa250a =
     \<lparr>chip_cpuid = 0x2100,
      chip_name = Some ''pxa250'',
      chip_mmu_cr_set = ARM_MMU_CR_S OR ARM_MMU_CR_I OR ARM_MMU_CR_Z,
      chip_mmu_cr_clr = 0,
      chip_cycles = 2,
      chip_cache = Some ''armv_cache_xscale'',
      chip_power = Some ''power_xscale'',
      chip_flush = Some ''page_flush_xscale'',
      chip_deferred = Some ''page_flush_deferred_xscale'',
      chip_pte = Some armv_pte_v5wb,
      chip_pte_wa = Some armv_pte_v5wa,
      chip_pte_wb = Some armv_pte_v5wb,
      chip_pte_wt = Some armv_pte_v5wt,
      chip_setup = Some ''armv_setup_xscale'',
      chip_detect = None,
      chip_ttb_attr = 0,
      chip_pte_attr = 0\<rparr>"

definition armv_chip_pxa250b :: armv_chip where
  "armv_chip_pxa250b =
     \<lparr>chip_cpuid = 0x2900,
      chip_name = Some ''pxa250'',
      chip_mmu_cr_set = ARM_MMU_CR_S OR ARM_MMU_CR_I OR ARM_MMU_CR_Z,
      chip_mmu_cr_clr = 0,
      chip_cycles = 2,
      chip_cache = Some ''armv_cache_xscale'',
      chip_power = Some ''power_xscale'',
      chip_flush = Some ''page_flush_xscale'',
      chip_deferred = Some ''page_flush_deferred_xscale'',
      chip_pte = Some armv_pte_v5wb,
      chip_pte_wa = Some armv_pte_v5wa,
      chip_pte_wb = Some armv_pte_v5wb,
      chip_pte_wt = Some armv_pte_v5wt,
      chip_setup = Some ''armv_setup_xscale'',
      chip_detect = None,
      chip_ttb_attr = 0,
      chip_pte_attr = 0\<rparr>"

definition armv_chip_pxa255 :: armv_chip where
  "armv_chip_pxa255 =
     \<lparr>chip_cpuid = 0x2d00,
      chip_name = Some ''pxa255'',
      chip_mmu_cr_set = ARM_MMU_CR_S OR ARM_MMU_CR_I OR ARM_MMU_CR_Z,
      chip_mmu_cr_clr = 0,
      chip_cycles = 2,
      chip_cache = Some ''armv_cache_xscale'',
      chip_power = Some ''power_xscale'',
      chip_flush = Some ''page_flush_xscale'',
      chip_deferred = Some ''page_flush_deferred_xscale'',
      chip_pte = Some armv_pte_v5wb,
      chip_pte_wa = Some armv_pte_v5wa,
      chip_pte_wb = Some armv_pte_v5wb,
      chip_pte_wt = Some armv_pte_v5wt,
      chip_setup = Some ''armv_setup_xscale'',
      chip_detect = None,
      chip_ttb_attr = 0,
      chip_pte_attr = 0\<rparr>"

definition armv_chip_pxa270 :: armv_chip where
  "armv_chip_pxa270 =
     \<lparr>chip_cpuid = 0x4110,
      chip_name = Some ''pxa270'',
      chip_mmu_cr_set = ARM_MMU_CR_S OR ARM_MMU_CR_I OR ARM_MMU_CR_Z,
      chip_mmu_cr_clr = 0,
      chip_cycles = 2,
      chip_cache = Some ''armv_cache_xscale'',
      chip_power = Some ''power_xscale'',
      chip_flush = Some ''page_flush_xscale'',
      chip_deferred = Some ''page_flush_deferred_xscale'',
      chip_pte = Some armv_pte_v5wb,
      chip_pte_wa = Some armv_pte_v5wa,
      chip_pte_wb = Some armv_pte_v5wb,
      chip_pte_wt = Some armv_pte_v5wt,
      chip_setup = Some ''armv_setup_xscale'',
      chip_detect = None,
      chip_ttb_attr = 0,
      chip_pte_attr = 0\<rparr>"

definition armv_chip_sa1100 :: armv_chip where
  "armv_chip_sa1100 =
     \<lparr>chip_cpuid = 0xa110,
      chip_name = Some ''sa1100'',
      chip_mmu_cr_set = ARM_MMU_CR_S OR ARM_MMU_CR_I,
      chip_mmu_cr_clr = 0,
      chip_cycles = 3,
      chip_cache = Some ''armv_cache_sa1100'',
      chip_power = Some ''power_sa1100'',
      chip_flush = Some ''page_flush_sa'',
      chip_deferred = Some ''page_flush_deferred_sa'',
      chip_pte = Some armv_pte_v4wb,
      chip_pte_wa = None,
      chip_pte_wb = Some armv_pte_v4wb,
      chip_pte_wt = None,
      chip_setup = None,
      chip_detect = None,
      chip_ttb_attr = 0,
      chip_pte_attr = 0\<rparr>"

definition armv_chip_sa1110 :: armv_chip where
  "armv_chip_sa1110 =
     \<lparr>chip_cpuid = 0xb110,
      chip_name = Some ''sa1110'',
      chip_mmu_cr_set = ARM_MMU_CR_S OR ARM_MMU_CR_I,
      chip_mmu_cr_clr = 0,
      chip_cycles = 3,
      chip_cache = Some ''armv_cache_sa1100'',
      chip_power = Some ''power_sa1100'',
      chip_flush = Some ''page_flush_sa'',
      chip_deferred = Some ''page_flush_deferred_sa'',
      chip_pte = Some armv_pte_v4wb,
      chip_pte_wa = None,
      chip_pte_wb = Some armv_pte_v4wb,
      chip_pte_wt = None,
      chip_setup = None,
      chip_detect = None,
      chip_ttb_attr = 0,
      chip_pte_attr = 0\<rparr>"

definition armv_chip_sheeva :: armv_chip where
  "armv_chip_sheeva =
     \<lparr>chip_cpuid = 0x5810,
      chip_name = None,
      chip_mmu_cr_set = 0,
      chip_mmu_cr_clr = 0,
      chip_cycles = 0,
      chip_cache = None,
      chip_power = None,
      chip_flush = None,
      chip_deferred = None,
      chip_pte = None,
      chip_pte_wa = None,
      chip_pte_wb = None,
      chip_pte_wt = None,
      chip_setup = None,
      chip_detect = Some Detect_sheeva,
      chip_ttb_attr = 0,
      chip_pte_attr = 0\<rparr>"

definition armv_chip_sheeva_v6 :: armv_chip where
  "armv_chip_sheeva_v6 =
     \<lparr>chip_cpuid = 0x5810,
      chip_name = Some ''Sheeva(v6)'',
      chip_mmu_cr_set = ARM_MMU_CR_XP OR ARM_MMU_CR_I OR ARM_MMU_CR_Z OR ARM_MMU_CR_L2,
      chip_mmu_cr_clr = 0,
      chip_cycles = 2,
      chip_cache = Some ''armv_cache_sheeva_v6'',
      chip_power = Some ''power_sheeva_v6'',
      chip_flush = Some ''page_flush_sheeva_v6'',
      chip_deferred = Some ''page_flush_deferred_sheeva_v6'',
      chip_pte = Some armv_pte_v6wb,
      chip_pte_wa = Some armv_pte_v6wa,
      chip_pte_wb = Some armv_pte_v6wb,
      chip_pte_wt = Some armv_pte_v6wt,
      chip_setup = Some ''armv_setup_sheeva_v6'',
      chip_detect = None,
      chip_ttb_attr = ARM_TTBR_RGN_WT,
      chip_pte_attr = ARM_PTE_V6_SP_XN OR ARM_PTE_WT\<rparr>"

definition armv_chip_sheeva_v7 :: armv_chip where
  "armv_chip_sheeva_v7 =
     \<lparr>chip_cpuid = 0x5810,
      chip_name = Some ''Sheeva(v7)'',
      chip_mmu_cr_set = ARM_MMU_CR_XP OR ARM_MMU_CR_I OR ARM_MMU_CR_Z,
      chip_mmu_cr_clr = 0,
      chip_cycles = 2,
      chip_cache = Some ''armv_cache_sheeva_v7'',
      chip_power = Some ''power_sheeva_v7'',
      chip_flush = Some ''page_flush_sheeva_v7'',
      chip_deferred = Some ''page_flush_deferred_sheeva_v7'',
      chip_pte = Some armv_pte_v7wb,
      chip_pte_wa = Some armv_pte_v7wa,
      chip_pte_wb = Some armv_pte_v7wb,
      chip_pte_wt = Some armv_pte_v7wt,
      chip_setup = Some ''armv_setup_sheeva_v7'',
      chip_detect = None,
      chip_ttb_attr = ARM_TTBR_RGN_WT,
      chip_pte_attr = ARM_PTE_V6_SP_XN OR ARM_PTE_WT\<rparr>"

definition armv_list :: "armv_chip list" where
  "armv_list =
     [armv_chip_720, armv_chip_920, armv_chip_922, armv_chip_925, armv_chip_926,
      armv_chip_1020, armv_chip_1022, armv_chip_sa1100, armv_chip_sa1110, armv_chip_ixp1200,
      armv_chip_80200, armv_chip_pxa250a, armv_chip_pxa250b, armv_chip_pxa255, armv_chip_pxa210b,
      armv_chip_pxa210c, armv_chip_pxa270, armv_chip_ixp2400, armv_chip_ixp2800, armv_chip_ixp23xx,
      armv_chip_ixp425, armv_chip_ixp465, armv_chip_1136, armv_chip_1176, armv_chip_mp11,
      armv_chip_a8, armv_chip_sheeva, armv_chip_a9, armv_chip_a15]"

section \<open>Detection: \<open>armv_chip_detect.c\<close>\<close>

record cp15 =
  cp_cpuid :: u32
  cp_scu :: u32
  cp_sheeva :: u32

text \<open>The fields of the system page's \<open>arm_cpu\<close> section that depend on the chip.\<close>

record arm_cpu_entry =
  cpu_upte_ro :: u32
  cpu_upte_rw :: u32
  cpu_kpte_ro :: u32
  cpu_kpte_rw :: u32
  cpu_mask_nc :: u32
  cpu_ttb_attr :: u32
  cpu_pte_attr :: u32

record arm_vars =
  av_chip :: "armv_chip option"
  av_pte :: "armv_pte option"
  av_v6_mmu :: bool
  av_altpte :: "char option"
  av_scu_base :: u32
  av_cpu :: arm_cpu_entry

definition armv_detect_a9 :: "cp15 \<Rightarrow> arm_vars \<Rightarrow> armv_chip option \<times> arm_vars" where
  "armv_detect_a9 p v =
     (if cp_scu p = 0 then (Some armv_chip_a9up, v) else (Some armv_chip_a9mp, v\<lparr>av_scu_base := cp_scu p\<rparr>))"

definition armv_detect_sheeva :: "cp15 \<Rightarrow> armv_chip option" where
  "armv_detect_sheeva p =
     (if cp_sheeva p = 0x00020001 then Some armv_chip_sheeva_v6
      else if cp_sheeva p = 0x00030001 then Some armv_chip_sheeva_v7 else None)"

definition armv_chip_detect :: "cp15 \<Rightarrow> arm_vars \<Rightarrow> armv_chip option \<times> arm_vars" where
  "armv_chip_detect p v =
     (case av_chip v of
        Some chip \<Rightarrow> (Some chip, v)
      | None \<Rightarrow>
          (let chip = find (\<lambda>c. chip_cpuid c = cp_cpuid p AND 0xfff0) armv_list;
               (chip, v) = (case chip of
                  None \<Rightarrow> (None, v)
                | Some c \<Rightarrow>
                    (if chip_name c = None
                     then (case chip_detect c of
                             Some Detect_a9 \<Rightarrow> armv_detect_a9 p v
                           | Some Detect_sheeva \<Rightarrow> (armv_detect_sheeva p, v)
                           | None \<Rightarrow> (Some c, v))
                     else (Some c, v)))
           in (chip, v\<lparr>av_chip := chip\<rparr>)))"

section \<open>\<open>arm_pte.c\<close>\<close>

text \<open>The \<open>-w\<close> option: the warning about an unsupported choice is left out.\<close>

definition choose_pte :: "char option \<Rightarrow> armv_chip \<Rightarrow> armv_pte \<Rightarrow> armv_pte" where
  "choose_pte altpte chip dflt =
     (case (case altpte of
              None \<Rightarrow> Some dflt
            | Some w \<Rightarrow> if w = CHR ''a'' then chip_pte_wa chip else if w = CHR ''b'' then chip_pte_wb chip
                        else if w = CHR ''t'' then chip_pte_wt chip else None)
      of None \<Rightarrow> dflt | Some pte \<Rightarrow> pte)"

definition set_arm_cpu :: "armv_pte \<Rightarrow> armv_chip \<Rightarrow> arm_vars \<Rightarrow> arm_vars" where
  "set_arm_cpu pte chip v =
     v\<lparr>av_cpu := \<lparr>cpu_upte_ro = upte_ro pte, cpu_upte_rw = upte_rw pte, cpu_kpte_ro = kpte_ro pte,
         cpu_kpte_rw = kpte_rw pte, cpu_mask_nc = mask_nc pte, cpu_ttb_attr = chip_ttb_attr chip,
         cpu_pte_attr = chip_pte_attr chip\<rparr>,
       av_v6_mmu := (chip_mmu_cr_set chip AND ARM_MMU_CR_XP \<noteq> 0 \<or> av_v6_mmu v)\<rparr>"

text \<open>
  When the descriptors are set already the chip must be too: a null chip would be read, which is the
  crash \<open>UnsupportedCpu\<close> here.
\<close>

definition arm_pte_setup :: "cp15 \<Rightarrow> arm_vars \<Rightarrow> arm_vars res" where
  "arm_pte_setup p v =
     (case av_pte v of
        Some pte \<Rightarrow> (case av_chip v of None \<Rightarrow> Inl UnsupportedCpu | Some chip \<Rightarrow> Inr (set_arm_cpu pte chip v))
      | None \<Rightarrow>
          (case armv_chip_detect p v of
             (None, v) \<Rightarrow> Inl UnsupportedCpu
           | (Some chip, v) \<Rightarrow>
               (case chip_pte chip of
                  None \<Rightarrow> Inl NoPteDescriptors
                | Some dflt \<Rightarrow>
                    (let pte = choose_pte (av_altpte v) chip dflt
                     in Inr (set_arm_cpu pte chip (v\<lparr>av_pte := Some pte\<rparr>))))))"

section \<open>The descriptors are sane\<close>

lemmas pte_defs =
  armv_pte_ixp2xxx_def armv_pte_v4wb_def armv_pte_v4wt_def armv_pte_v5wa_def armv_pte_v5wb_def armv_pte_v5wt_def
  armv_pte_v6mp_def armv_pte_v6wa_def armv_pte_v6wb_def armv_pte_v6wt_def armv_pte_v7mp_def armv_pte_v7wa_def
  armv_pte_v7wb_def armv_pte_v7wt_def armv_pte_xsc3_def

definition armv_ptes :: "armv_pte list" where
  "armv_ptes =
     [armv_pte_ixp2xxx, armv_pte_v4wb, armv_pte_v4wt, armv_pte_v5wa, armv_pte_v5wb, armv_pte_v5wt, armv_pte_v6mp,
      armv_pte_v6wa, armv_pte_v6wb, armv_pte_v6wt, armv_pte_v7mp, armv_pte_v7wa, armv_pte_v7wb, armv_pte_v7wt,
      armv_pte_xsc3]"

text \<open>
  A sane set of descriptors: page descriptors are small pages and stay within the page offset,
  clearing the cache bits does not clear the type, the first-level descriptor is a page table of
  1K alignment, sections are sections and stay within the section offset.
\<close>

definition page_sane :: "u32 \<Rightarrow> bool" where
  "page_sane f \<longleftrightarrow> f AND NOT 0xfff = 0 \<and> f AND 2 = 2"

definition pte_sane :: "armv_pte \<Rightarrow> bool" where
  "pte_sane p \<longleftrightarrow> page_sane (upte_ro p) \<and> page_sane (upte_rw p) \<and> page_sane (kpte_ro p) \<and> page_sane (kpte_rw p)
     \<and> mask_nc p AND NOT 0xfff = 0 \<and> mask_nc p AND 3 = 0
     \<and> l1_pgtable p AND NOT 0x3ff = 0 \<and> l1_pgtable p AND 3 = 1
     \<and> (kscn_ro p OR kscn_cb p) AND NOT 0xfffff = 0 \<and> (kscn_rw p OR kscn_cb p) AND NOT 0xfffff = 0
     \<and> (kscn_ro p OR kscn_cb p) AND 3 = 2 \<and> (kscn_rw p OR kscn_cb p) AND 3 = 2
     \<and> kscn_ro p AND NOT 0xfffff = 0 \<and> kscn_rw p AND NOT 0xfffff = 0 \<and> kscn_ro p AND 3 = 2 \<and> kscn_rw p AND 3 = 2"

definition pte_v6 :: "armv_pte \<Rightarrow> bool" where
  "pte_v6 p \<longleftrightarrow> l1_pgtable p = ARM_PTP_V6_L2"

lemma armv_ptes_sane: "\<forall>p \<in> set armv_ptes. pte_sane p"
  by (simp add: armv_ptes_def pte_defs pte_sane_def page_sane_def)

text \<open>Every chip's descriptors are of its architecture.\<close>

definition chip_sane :: "armv_chip \<Rightarrow> bool" where
  "chip_sane c \<longleftrightarrow> (\<forall>p \<in> set_option (chip_pte c) \<union> set_option (chip_pte_wa c) \<union> set_option (chip_pte_wb c) \<union> set_option (chip_pte_wt c).
     p \<in> set armv_ptes \<and> pte_v6 p = (chip_mmu_cr_set c AND ARM_MMU_CR_XP \<noteq> 0))"

lemmas chip_defs =
  armv_chip_1020_def armv_chip_1022_def armv_chip_1136_def armv_chip_1176_def armv_chip_ixp1200_def
  armv_chip_ixp23xx_def armv_chip_ixp2400_def armv_chip_ixp2800_def armv_chip_ixp425_def armv_chip_ixp465_def
  armv_chip_720_def armv_chip_80200_def armv_chip_920_def armv_chip_922_def armv_chip_925_def
  armv_chip_926_def armv_chip_a15_def armv_chip_a8_def armv_chip_a9_def armv_chip_a9mp_def
  armv_chip_a9up_def armv_chip_mp11_def armv_chip_pxa210b_def armv_chip_pxa210c_def armv_chip_pxa250a_def
  armv_chip_pxa250b_def armv_chip_pxa255_def armv_chip_pxa270_def armv_chip_sa1100_def armv_chip_sa1110_def
  armv_chip_sheeva_def armv_chip_sheeva_v6_def armv_chip_sheeva_v7_def

lemma armv_list_sane: "\<forall>c \<in> set (armv_chip_a9up # armv_chip_a9mp # armv_chip_sheeva_v6 # armv_chip_sheeva_v7 # armv_list). chip_sane c"
  by (simp add: armv_list_def chip_defs chip_sane_def pte_v6_def armv_ptes_def) (simp add: pte_defs)

lemma armv_chip_detect_sane:
  assumes "av_chip v = None" "armv_chip_detect p v = (Some c, v')"
  shows "chip_sane c \<and> av_chip v' = Some c \<and> av_v6_mmu v' = av_v6_mmu v \<and> av_altpte v' = av_altpte v"
proof -
  obtain d where f: "find (\<lambda>c. chip_cpuid c = cp_cpuid p AND 0xfff0) armv_list = Some d"
    using assms by (cases "find (\<lambda>c. chip_cpuid c = cp_cpuid p AND 0xfff0) armv_list") (auto simp: armv_chip_detect_def)
  then have "d \<in> set armv_list" by (auto simp: find_Some_iff)
  then show ?thesis
    using assms f armv_list_sane
    by (auto simp: armv_chip_detect_def armv_detect_a9_def armv_detect_sheeva_def
        split: option.splits if_splits detect_fun.splits)
qed

text \<open>
  C39: whatever processor is found and whatever \<open>-w\<close> asks for, the page table bits that
  \<open>arm_pte_setup\<close> chooses are sane and of the architecture the MMU is switched to.
\<close>

theorem arm_pte_setup_sane:
  assumes "av_chip v = None" "av_pte v = None" "\<not> av_v6_mmu v" "arm_pte_setup p v = Inr v'"
  shows "\<exists>pte. av_pte v' = Some pte \<and> pte_sane pte \<and> pte_v6 pte = av_v6_mmu v'"
proof -
  obtain c w where d: "armv_chip_detect p v = (Some c, w)"
    using assms(2,4) by (cases "armv_chip_detect p v") (auto simp: arm_pte_setup_def split: option.splits)
  note s = armv_chip_detect_sane [OF assms(1) d]
  obtain dflt where dflt: "chip_pte c = Some dflt"
    using assms(2,4) d by (cases "chip_pte c") (auto simp: arm_pte_setup_def)
  define pte where "pte = choose_pte (av_altpte w) c dflt"
  have "pte \<in> set_option (chip_pte c) \<union> set_option (chip_pte_wa c) \<union> set_option (chip_pte_wb c) \<union> set_option (chip_pte_wt c)"
    using dflt by (auto simp: pte_def choose_pte_def split: option.splits if_splits)
  then have "pte \<in> set armv_ptes" "pte_v6 pte = (chip_mmu_cr_set c AND ARM_MMU_CR_XP \<noteq> 0)"
    using s by (auto simp: chip_sane_def)
  moreover have "v' = set_arm_cpu pte c (w\<lparr>av_pte := Some pte\<rparr>)"
    using assms(2,4) d dflt by (simp add: arm_pte_setup_def Let_def pte_def)
  ultimately show ?thesis
    using armv_ptes_sane assms(3) s by (intro exI [of _ pte]) (simp add: set_arm_cpu_def)
qed

text \<open>The ARM922 has the number of the ARM920, which comes before it: it is never found.\<close>

lemma armv_chip_922_never_found: "find (\<lambda>c. chip_cpuid c = n) armv_list \<noteq> Some armv_chip_922"
proof
  assume f: "find (\<lambda>c. chip_cpuid c = n) armv_list = Some armv_chip_922"
  then have "chip_cpuid armv_chip_922 = n" by (auto simp: find_Some_iff)
  then have "n = 0x9200" by (simp add: armv_chip_922_def)
  then have "find (\<lambda>c. chip_cpuid c = n) armv_list = Some armv_chip_920"
    by (simp add: armv_list_def armv_chip_720_def armv_chip_920_def)
  then have "chip_name armv_chip_922 = chip_name armv_chip_920" using f by simp
  then show False by (simp add: armv_chip_920_def armv_chip_922_def)
qed

definition example_cp15 :: cp15 where
  "example_cp15 = \<lparr>cp_cpuid = 0x412fc09a, cp_scu = 0x00a00000, cp_sheeva = 0\<rparr>"

definition example_arm_vars :: arm_vars where
  "example_arm_vars = \<lparr>av_chip = None, av_pte = None, av_v6_mmu = False, av_altpte = Some (CHR ''t''), av_scu_base = - 1,
     av_cpu = \<lparr>cpu_upte_ro = 0, cpu_upte_rw = 0, cpu_kpte_ro = 0, cpu_kpte_rw = 0, cpu_mask_nc = 0, cpu_ttb_attr = 0, cpu_pte_attr = 0\<rparr>\<rparr>"

lemma example_setup:
  "\<exists>v'. arm_pte_setup example_cp15 example_arm_vars = Inr v' \<and> av_pte v' = Some armv_pte_v7mp"
proof -
  have "find (\<lambda>c. chip_cpuid c = 0xc090) armv_list = Some armv_chip_a9"
    by (simp add: armv_list_def chip_defs)
  then have "armv_chip_detect example_cp15 example_arm_vars =
      (Some armv_chip_a9mp, example_arm_vars\<lparr>av_scu_base := 0x00a00000, av_chip := Some armv_chip_a9mp\<rparr>)"
    by (simp add: armv_chip_detect_def example_cp15_def example_arm_vars_def armv_chip_a9_def armv_detect_a9_def)
  then show ?thesis
    by (simp add: arm_pte_setup_def choose_pte_def example_arm_vars_def armv_chip_a9mp_def set_arm_cpu_def)
qed

theorem arm_pte_setup_sane_witness:
  "\<exists>v' pte. arm_pte_setup example_cp15 example_arm_vars = Inr v' \<and> av_pte v' = Some pte \<and> pte_sane pte \<and> pte_v6 pte = av_v6_mmu v'"
proof -
  obtain v' where "arm_pte_setup example_cp15 example_arm_vars = Inr v'" using example_setup by blast
  moreover from this have "\<exists>pte. av_pte v' = Some pte \<and> pte_sane pte \<and> pte_v6 pte = av_v6_mmu v'"
    by (intro arm_pte_setup_sane [of example_arm_vars example_cp15]) (simp_all add: example_arm_vars_def)
  ultimately show ?thesis by blast
qed

end
