(* ===== verification/Startup_Mmu.thy ===== *)
theory Startup_Mmu
  imports Startup_Ram Startup_Strings Startup_Armchip
begin

text \<open>
  The page tables the startup program builds: \<open>arm/arm_map.c\<close>, \<open>arm/init_mmu.c\<close> and \<open>arm/elf_map.c\<close> of
  \<open>src/hardware/startup/lib\<close>.

  The tables are words in the physical memory of the system page model, which is indexed by byte
  address; a \<open>pte_t *\<close> or \<open>ptp_t *\<close> is such an address. Every processor has a first-level table of 16K
  at \<open>CPU_L1_TABLE\<close> and a page directory of 4K at \<open>CPU_L2_TABLE\<close>. Loops over a size that is a multiple of
  the page size count pages. Memory that runs out is not checked for: the pointer is then \<open>NULL_PADDR\<close>,
  as in the code. Messages of the debug level are left out.
\<close>

section \<open>State\<close>

record mmu =
  mm_rs :: ram_state
  mm_v :: arm_vars
  mm_L1 :: u32
  mm_L1v :: u32
  mm_L2 :: u32
  mm_next :: u32
  mm_virtual :: bool
  mm_base :: u32
  mm_size :: u32
  mm_segs :: "(u32 \<times> u32 \<times> u32 \<times> u32) list option"

abbreviation ARM_STARTUP_BASE :: u32 where "ARM_STARTUP_BASE \<equiv> 0xfc400000"
abbreviation (input) ARM_1TO1_BASE :: u32 where "ARM_1TO1_BASE \<equiv> 0xe0000000"
abbreviation (input) ARM_1TO1_SIZE :: u32 where "ARM_1TO1_SIZE \<equiv> 0x10000000"
abbreviation (input) ARM_PTP_BASE :: u32 where "ARM_PTP_BASE \<equiv> 0xffbfe000"
abbreviation (input) ARM_MAP_SYSPAGE :: u32 where "ARM_MAP_SYSPAGE \<equiv> 0xffffffff"
abbreviation (input) ARM_MAP_NOEXEC :: u32 where "ARM_MAP_NOEXEC \<equiv> 0x80000000"

abbreviation mm_lsp :: "mmu \<Rightarrow> lsp" where
  "mm_lsp s \<equiv> st_lsp (rs_st (mm_rs s))"

abbreviation mm_mem :: "mmu \<Rightarrow> nat \<Rightarrow> u8" where
  "mm_mem s \<equiv> lsp_mem (mm_lsp s)"

abbreviation ncpu :: "mmu \<Rightarrow> nat" where
  "ncpu s \<equiv> sp_num_cpu (mm_lsp s)"

definition set_mem :: "(nat \<Rightarrow> u8) \<Rightarrow> mmu \<Rightarrow> mmu" where
  "set_mem m s = s\<lparr>mm_rs := (mm_rs s)\<lparr>rs_st := (rs_st (mm_rs s))\<lparr>st_lsp := (mm_lsp s)\<lparr>lsp_mem := m\<rparr>\<rparr>\<rparr>\<rparr>"

definition ld32 :: "(nat \<Rightarrow> u8) \<Rightarrow> u32 \<Rightarrow> u32" where
  "ld32 m a = word_at (map m [unat a..<unat a + 4]) 0"

definition st32 :: "u32 \<Rightarrow> u32 \<Rightarrow> (nat \<Rightarrow> u8) \<Rightarrow> nat \<Rightarrow> u8" where
  "st32 a v m = mem_write m (unat a) (le32 v)"

definition put :: "u32 \<Rightarrow> u32 \<Rightarrow> mmu \<Rightarrow> mmu" where
  "put a v s = set_mem (st32 a v (mm_mem s)) s"

definition the_pte :: "mmu \<Rightarrow> armv_pte" where
  "the_pte s = the (av_pte (mm_v s))"

definition the_chip :: "mmu \<Rightarrow> armv_chip" where
  "the_chip s = the (av_chip (mm_v s))"

text \<open>The macros \<open>CPU_L1_TABLE\<close> and \<open>CPU_L2_TABLE\<close>.\<close>

definition cpu_L1 :: "nat \<Rightarrow> mmu \<Rightarrow> u32" where
  "cpu_L1 cpu s = (mm_L1 s + of_nat cpu * 0x4000) AND NOT 0x7f"

definition cpu_L2 :: "nat \<Rightarrow> mmu \<Rightarrow> u32" where
  "cpu_L2 cpu s = mm_L2 s + of_nat cpu * 0x1000"

section \<open>\<open>arm_map.c\<close>\<close>

definition set_prot :: "armv_pte \<Rightarrow> bool \<Rightarrow> u32 \<Rightarrow> u32 \<Rightarrow> u32" where
  "set_prot pte v6 paddr flags =
     (if flags = ARM_MAP_SYSPAGE
      then (if v6 then (paddr OR upte_rw pte) AND NOT (ARM_PTE_V6_AP0 OR ARM_PTE_V6_nG)
            else paddr OR upte_ro pte)
      else
        (let paddr = (if flags AND ARM_PTE_U \<noteq> 0
                      then paddr OR (if flags AND ARM_PTE_RW \<noteq> 0 then upte_rw pte else upte_ro pte)
                      else paddr OR (if flags AND ARM_PTE_RW \<noteq> 0 then kpte_rw pte else kpte_ro pte));
             paddr = (if flags AND ARM_PTE_CB \<noteq> ARM_PTE_CB then paddr AND NOT (mask_nc pte) else paddr)
         in if v6
            then (let paddr = paddr OR flags AND (ARM_PTE_V6_S OR ARM_PTE_V6_SP_TEX_MASK OR ARM_PTE_CB)
                  in if flags AND ARM_MAP_NOEXEC \<noteq> 0 then paddr OR ARM_PTE_V6_SP_XN else paddr)
            else paddr OR flags AND (ARM_PTE_V5_SP_TEX_MASK OR ARM_PTE_CB)))"

text \<open>The four first-level entries of a page table.\<close>

fun put_ptps :: "nat \<Rightarrow> u32 \<Rightarrow> u32 \<Rightarrow> mmu \<Rightarrow> mmu" where
  "put_ptps 0 ptp ptbl s = s"
| "put_ptps (Suc k) ptp ptbl s =
     put_ptps k (ptp + 4) (ptbl + 1024) (put ptp (ptbl OR l1_pgtable (the_pte s)) s)"

definition map_ptbl_cpu :: "nat \<Rightarrow> u32 \<Rightarrow> u32 \<Rightarrow> mmu \<Rightarrow> mmu" where
  "map_ptbl_cpu cpu ptbl vaddr s =
     (let pte = cpu_L2 cpu s + push_bit 2 (drop_bit 22 vaddr);
          ptp = cpu_L1 cpu s + push_bit 2 (drop_bit 20 vaddr AND NOT 3);
          s = put pte ((ptbl OR kpte_rw (the_pte s)) AND NOT (mask_nc (the_pte s)) OR chip_pte_attr (the_chip s)) s
      in put_ptps 4 ptp ptbl s)"

definition map_ptbl :: "u32 \<Rightarrow> u32 \<Rightarrow> mmu \<Rightarrow> mmu" where
  "map_ptbl pt vaddr s = fold (\<lambda>cpu. map_ptbl_cpu cpu pt vaddr) [0..<ncpu s] s"

definition arm_pdmap :: "u32 \<Rightarrow> mmu \<Rightarrow> mmu" where
  "arm_pdmap vaddr s = fold (\<lambda>cpu s. map_ptbl_cpu cpu (cpu_L2 cpu s) vaddr s) [0..<ncpu s] s"

definition sc_entry :: "nat \<Rightarrow> u32 \<Rightarrow> mmu \<Rightarrow> u32" where
  "sc_entry cpu vaddr s = cpu_L1 cpu s + push_bit 2 (drop_bit 20 vaddr)"

definition arm_scmap :: "u32 \<Rightarrow> u32 \<Rightarrow> u32 \<Rightarrow> mmu \<Rightarrow> mmu" where
  "arm_scmap vaddr paddr flags s =
     (let prot = (if flags AND ARM_PTE_RW \<noteq> 0 then kscn_rw (the_pte s) else kscn_ro (the_pte s));
          prot = (if flags AND ARM_PTE_CB \<noteq> 0 then prot OR kscn_cb (the_pte s) else prot)
      in fold (\<lambda>cpu s. put (sc_entry cpu vaddr s) (paddr OR prot) s) [0..<ncpu s] s)"

definition arm_scunmap :: "u32 \<Rightarrow> mmu \<Rightarrow> mmu" where
  "arm_scunmap vaddr s = fold (\<lambda>cpu s. put (sc_entry cpu vaddr s) 0 s) [0..<ncpu s] s"

text \<open>
  \<open>page_table\<close> finds the page table of a first-level entry or allocates one, which \<open>link\<close> maps.
\<close>

definition page_table :: "(u32 \<Rightarrow> mmu \<Rightarrow> mmu) \<Rightarrow> u32 \<Rightarrow> mmu \<Rightarrow> (u32 \<times> mmu) res" where
  "page_table link ptp s =
     (if ld32 (mm_mem s) ptp AND ARM_PTP_VALID = 0
      then rbind (calloc_ram 0x1000 0x1000 (mm_rs s)) (\<lambda>(pte, rs). Inr (pte, link pte (s\<lparr>mm_rs := rs\<rparr>)))
      else Inr (ld32 (mm_mem s) ptp AND NOT 0xfff, s))"

text \<open>The inner loop writes the entries of one page table, \<open>i\<close> counting up to 1024; it gives the pages left.\<close>

fun put_ptes :: "nat \<Rightarrow> nat \<Rightarrow> u32 \<Rightarrow> u32 \<Rightarrow> mmu \<Rightarrow> nat \<times> mmu" where
  "put_ptes 0 i pte pa s = (0, s)"
| "put_ptes (Suc n) i pte pa s =
     (if i < 1024 then put_ptes n (Suc i) (pte + 4) (pa + 0x1000) (put pte pa s) else (Suc n, s))"

definition l2_index :: "u32 \<Rightarrow> nat" where
  "l2_index va = unat (drop_bit 12 va AND 1023)"

lemma put_ptes_less: "0 < n \<Longrightarrow> i < 1024 \<Longrightarrow> fst (put_ptes n i pte pa s) < n"
proof -
  have le: "fst (put_ptes n i pte pa s) \<le> n" for n i pte pa s
    by (induction n i pte pa s rule: put_ptes.induct) (auto intro: le_SucI)
  show "0 < n \<Longrightarrow> i < 1024 \<Longrightarrow> ?thesis"
    using le by (cases n) (auto simp: less_Suc_eq_le)
qed

lemma l2_index_eq: "l2_index va = unat va div 4096 mod 1024"
proof -
  have "(1023 :: u32) = mask 10" by (simp add: mask_eq_exp_minus_1)
  then have "unat (drop_bit 12 va AND 1023) = unat (take_bit 10 (drop_bit 12 va))" by (simp only: take_bit_eq_mask)
  also have "\<dots> = take_bit 10 (unat (drop_bit 12 va))" by (simp only: unsigned_take_bit_eq)
  also have "\<dots> = unat va div 4096 mod 1024" unfolding unat_drop_bit take_bit_eq_mod by simp
  finally show ?thesis by (simp only: l2_index_def)
qed

lemma l2_index_less: "l2_index va < 1024"
  by (simp add: l2_index_eq)

function map_pages :: "nat \<Rightarrow> u32 \<Rightarrow> u32 \<Rightarrow> u32 \<Rightarrow> mmu \<Rightarrow> mmu res" where
  "map_pages n va pa ptp s =
     (if n = 0 then Inr s
      else (case page_table (\<lambda>pt. map_ptbl pt va) ptp s of
              Inl e \<Rightarrow> Inl e
            | Inr (pte, s) \<Rightarrow>
                (case put_ptes n (l2_index va) (pte + 4 * of_nat (l2_index va)) pa s of
                   (n', s) \<Rightarrow> map_pages n' (va + 0x1000 * of_nat (n - n')) (pa + 0x1000 * of_nat (n - n')) (ptp + 16) s)))"
  by pat_completeness auto
termination
proof (relation "measure (\<lambda>(n, va, pa, ptp, s). n)", goal_cases)
  case (2 n va pa ptp s x pte s' n' s'')
  then show ?case
    using put_ptes_less [of n "l2_index va" "pte + 4 * of_nat (l2_index va)" pa s'] l2_index_less [of va]
    by (simp add: prod_eq_iff)
qed simp

declare map_pages.simps [simp del]

fun for_cpus :: "(nat \<Rightarrow> mmu \<Rightarrow> mmu res) \<Rightarrow> nat list \<Rightarrow> mmu \<Rightarrow> mmu res" where
  "for_cpus f [] s = Inr s"
| "for_cpus f (cpu # cpus) s = rbind (f cpu s) (for_cpus f cpus)"

definition arm_map :: "u32 \<Rightarrow> u32 \<Rightarrow> u32 \<Rightarrow> u32 \<Rightarrow> mmu \<Rightarrow> (u32 \<times> mmu) res" where
  "arm_map vaddr paddr len flags s =
     (let off = paddr AND 0xfff
      in if \<not> mm_virtual s then Inr (paddr, s)
         else
           (let paddr = paddr AND NOT 0xfff;
                len = ROUND (len + off) 0x1000;
                (vaddr, s) = (if vaddr = - 1 then (mm_next s, s\<lparr>mm_next := mm_next s + len\<rparr>) else (vaddr, s));
                paddr = set_prot (the_pte s) (av_v6_mmu (mm_v s)) paddr flags
            in rbind (for_cpus (\<lambda>cpu s. map_pages (unat len div 0x1000) vaddr paddr
                        (cpu_L1 cpu s + push_bit 2 (drop_bit 20 vaddr AND NOT 3)) s) [0..<ncpu s] s)
                 (\<lambda>s. Inr (vaddr + off, s))))"

definition arm_map_cpu :: "nat \<Rightarrow> u32 \<Rightarrow> u32 \<Rightarrow> u32 \<Rightarrow> mmu \<Rightarrow> mmu res" where
  "arm_map_cpu cpu vaddr paddr flags s =
     (let ptp = cpu_L1 cpu s + push_bit 2 (drop_bit 20 vaddr AND NOT 3)
      in rbind (page_table (\<lambda>pt. map_ptbl_cpu cpu pt vaddr) ptp s) (\<lambda>(pte, s).
           Inr (put (pte + 4 * of_nat (l2_index vaddr)) (set_prot (the_pte s) (av_v6_mmu (mm_v s)) paddr flags) s)))"

definition elf_vaddr_to_paddr :: "mmu \<Rightarrow> u32 \<Rightarrow> u32" where
  "elf_vaddr_to_paddr s vaddr =
     (let e = ld32 (mm_mem s) (cpu_L1 0 s + push_bit 2 (drop_bit 20 vaddr AND NOT 3))
      in if e AND ARM_PTP_VALID = ARM_PTP_SC AND ARM_PTP_VALID
         then (e AND NOT 0xfffff) + (vaddr AND 0xfffff)
         else (let pte = (e AND NOT 0xfff) + 4 * of_nat (l2_index vaddr)
               in (ld32 (mm_mem s) pte AND NOT 0xfff) + (vaddr AND 0xfff)))"

section \<open>\<open>init_mmu.c\<close>\<close>

text \<open>The loops of \<open>map_1to1_ram\<close> and \<open>elf_map\<close> over whole sections.\<close>

fun scmap_run :: "nat \<Rightarrow> u32 \<Rightarrow> u32 \<Rightarrow> u32 \<Rightarrow> mmu \<Rightarrow> mmu" where
  "scmap_run 0 va pa flags s = s"
| "scmap_run (Suc n) va pa flags s = scmap_run n (va + 0x100000) (pa + 0x100000) flags (arm_scmap va pa flags s)"

text \<open>The largest entry named \<open>ram\<close>: its base and size.\<close>

function largest_ram :: "nat option \<Rightarrow> u32 \<Rightarrow> u32 \<Rightarrow> sst \<Rightarrow> u32 \<times> u32" where
  "largest_ram off base sz st =
     (case as_find off [cs ''ram''] st of
        Inr (Some i) \<Rightarrow>
          (let as = as_off2info st i;
               n = ucast (as_end as - as_start as + 1)
           in if n > sz then largest_ram (Some i) (ucast (as_start as)) n st else largest_ram (Some i) base sz st)
      | _ \<Rightarrow> (base, sz))"
  by pat_completeness auto
termination
  by (relation "measure (\<lambda>(off, base, sz, st). length (st_as st) - (case off of None \<Rightarrow> 0 | Some i \<Rightarrow> i + 1))")
    (auto simp: as_find_def find_Some_iff nth_append split: option.splits)

declare largest_ram.simps [simp del]

definition map_1to1_ram :: "mmu \<Rightarrow> mmu res" where
  "map_1to1_ram s =
     (let st = rs_st (mm_rs s);
          (base, sz) = largest_ram None 0 0 st
      in if sz = 0 then Inl NoRamEntry
         else if base AND 0xfffff \<noteq> 0 then Inr s
         else
           (let sz = (if sz > ARM_1TO1_SIZE then ARM_1TO1_SIZE else sz);
                sz = (sz + 0xfffff) AND NOT 0xfffff
            in rbind (as_default st) (\<lambda>(mem, st).
               rbind (as_add base (base + sz - 1) (AS_ATTR_RAM (st_abi st)) (cs ''1to1'') (Some mem) st) (\<lambda>(_, st).
               Inr (scmap_run (unat sz div 0x100000) ARM_1TO1_BASE base (ARM_PTE_RW OR ARM_PTE_CB)
                      (s\<lparr>mm_rs := (mm_rs s)\<lparr>rs_st := st\<rparr>\<rparr>))))))"

text \<open>The loop over the image is \<^term>\<open>None\<close> when it never ends: a limit in the last megabyte.\<close>

partial_function (option) map_sections :: "u32 \<Rightarrow> u32 \<Rightarrow> mmu \<Rightarrow> mmu option" where
  "map_sections base lim s =
     (if base < lim then map_sections (base + 0x100000) lim (arm_scmap base base 0 s) else Some s)"

definition init_mmu :: "cp15 \<Rightarrow> mmu \<Rightarrow> mmu res" where
  "init_mmu p s =
     (let L1size = of_nat (ncpu s) * 0x4000;
          L2size = of_nat (ncpu s) * 0x1000
      in rbind (arm_pte_setup p (mm_v s)) (\<lambda>v.
         rbind (calloc_ram L1size 0x4000 (mm_rs s)) (\<lambda>(l1, rs).
         rbind (calloc_ram L2size 0x1000 rs) (\<lambda>(l2, rs).
           let s = arm_pdmap ARM_PTP_BASE (s\<lparr>mm_v := v, mm_rs := rs, mm_L1 := l1, mm_L2 := l2\<rparr>)
           in rbind (arm_map (- 1) (mm_L1 s) L1size (ARM_MAP_NOEXEC OR ARM_PTE_RW OR chip_pte_attr (the_chip s)) s) (\<lambda>(va, s).
                let h = rs_shdr (mm_rs s);
                    s = s\<lparr>mm_L1v := va, mm_L1 := mm_L1 s OR chip_ttb_attr (the_chip s),
                          mm_base := ram_paddr h AND NOT 0xfffff, mm_size := ram_size h\<rparr>
                in case map_sections (mm_base s) (mm_base s + mm_size s) s of
                     None \<Rightarrow> Inl LoopDiverges
                   | Some s \<Rightarrow> map_1to1_ram s)))))"

section \<open>\<open>elf_map.c\<close>\<close>

text \<open>
  \<open>mm_segs\<close> holds the static arrays: the segments mapped so far by sections, or \<^term>\<open>None\<close> for
  \<open>phdr = -1\<close>, after the change to pages.
\<close>

fun map_segs :: "(u32 \<times> u32 \<times> u32 \<times> u32) list \<Rightarrow> mmu \<Rightarrow> mmu res" where
  "map_segs [] s = Inr s"
| "map_segs ((va, pa, sz, fl) # segs) s = rbind (arm_map va pa sz fl s) (\<lambda>(_, s). map_segs segs s)"

definition elf_map :: "u32 \<Rightarrow> u32 \<Rightarrow> u32 \<Rightarrow> u32 \<Rightarrow> mmu \<Rightarrow> mmu res" where
  "elf_map vaddr paddr sz flags s =
     (let flags = (if flags AND 2 \<noteq> 0 then ARM_PTE_RW OR ARM_PTE_CB else ARM_PTE_CB);
          segs = (case mm_segs s of None \<Rightarrow> [] | Some l \<Rightarrow> l);
          apart = (case mm_segs s of
                     None \<Rightarrow> True
                   | Some l \<Rightarrow> l \<noteq> [] \<and> (case last l of (_, pa, z, _) \<Rightarrow> pa + z \<noteq> paddr))
      in if vaddr AND 0xfffff \<noteq> paddr AND 0xfffff \<or> apart
         then rbind (map_segs segs (fold (\<lambda>(va, _). arm_scunmap va) segs s)) (\<lambda>s.
              rbind (arm_map vaddr paddr sz flags s) (\<lambda>(_, s). Inr (s\<lparr>mm_segs := None\<rparr>)))
         else if length segs = 2 then Inl TooManySegments
         else
           (let s = s\<lparr>mm_segs := Some (segs @ [(vaddr, paddr, sz, flags)])\<rparr>;
                sz = (sz + (vaddr AND 0xfffff) + 0xfffff) AND NOT 0xfffff
            in Inr (scmap_run (unat sz div 0x100000) (vaddr AND NOT 0xfffff) (paddr AND NOT 0xfffff) (ARM_PTE_RW OR ARM_PTE_CB) s)))"

section \<open>Words in memory\<close>

definition al4 :: "u32 \<Rightarrow> bool" where
  "al4 a \<longleftrightarrow> 4 dvd unat a"

lemma mem_write_read: "length bs = n \<Longrightarrow> map (mem_write m a bs) [a..<a + n] = bs"
  by (intro nth_equalityI) (simp_all add: mem_write_def)

lemma ld32_st32_same: "ld32 (st32 a v m) a = v"
  using word_at_le32 [of "[]" 0 v "[]"] mem_write_read [of "le32 v" 4 m "unat a"]
  by (simp add: ld32_def st32_def)

lemma ld32_cong: "(\<And>i. unat a \<le> i \<Longrightarrow> i < unat a + 4 \<Longrightarrow> m i = m' i) \<Longrightarrow> ld32 m a = ld32 m' a"
proof -
  assume "\<And>i. unat a \<le> i \<Longrightarrow> i < unat a + 4 \<Longrightarrow> m i = m' i"
  then have "map m [unat a..<unat a + 4] = map m' [unat a..<unat a + 4]" by (intro map_cong) auto
  then show ?thesis by (simp only: ld32_def)
qed

lemma ld32_st32:
  assumes "al4 a" "al4 b"
  shows "ld32 (st32 a v m) b = (if b = a then v else ld32 m b)"
proof (cases "b = a")
  case False
  then have "unat a \<noteq> unat b" by (simp add: word_unat_eq_iff)
  moreover obtain x where "unat a = 4 * x" using assms(1) unfolding al4_def by (rule dvdE)
  moreover obtain y where "unat b = 4 * y" using assms(2) unfolding al4_def by (rule dvdE)
  ultimately have "unat b + 4 \<le> unat a \<or> unat a + 4 \<le> unat b" by simp linarith
  then have "ld32 (st32 a v m) b = ld32 m b"
    by (intro ld32_cong) (auto simp: st32_def mem_write_def)
  then show ?thesis using False by simp
qed (simp add: ld32_st32_same)

lemma ld32_zero:
  assumes "unat d \<le> unat b" "unat b + 4 \<le> unat d + n"
  shows "ld32 (mem_zero m (unat d) n) b = 0"
proof -
  have "map (mem_zero m (unat d) n) [unat b..<unat b + 4] = [0, 0, 0, 0]"
    using assms by (simp add: mem_zero_def upt_rec)
  then show ?thesis by (simp add: ld32_def word_at_def)
qed

lemma ld32_zero_apart:
  "unat b + 4 \<le> unat d \<or> unat d + n \<le> unat b \<Longrightarrow> ld32 (mem_zero m (unat d) n) b = ld32 m b"
  by (intro ld32_cong) (auto simp: mem_zero_def)

text \<open>Addresses of table entries.\<close>

lemma unat_of_nat32: "n < 2 ^ 32 \<Longrightarrow> unat (of_nat n :: u32) = n"
  by (simp add: unsigned_of_nat take_bit_nat_eq_self)

lemma unat_add_nat:
  assumes "unat (a :: u32) + n < 2 ^ 32"
  shows "unat (a + of_nat n) = unat a + n"
proof -
  have "unat (of_nat n :: u32) = n" using assms by (intro unat_of_nat32) simp
  then show ?thesis using assms unat_add_no_wrap [of a "of_nat n"] by simp
qed

lemma al4_add: "al4 a \<Longrightarrow> 4 dvd n \<Longrightarrow> unat a + n < 2 ^ 32 \<Longrightarrow> al4 (a + of_nat n)"
  unfolding al4_def by (subst unat_add_nat) (assumption, rule dvd_add)

lemma entry_inj:
  assumes "unat (a :: u32) + n < 2 ^ 32" "unat a + k < 2 ^ 32" "a + of_nat n = a + of_nat k"
  shows "n = k"
proof -
  have "unat (a + of_nat n) = unat (a + of_nat k)" using assms(3) by (rule arg_cong)
  then show ?thesis unfolding unat_add_nat [OF assms(1)] unat_add_nat [OF assms(2)] by simp
qed

lemma put_simps [simp]:
  "mm_v (put a v s) = mm_v s" "mm_L1 (put a v s) = mm_L1 s" "mm_L2 (put a v s) = mm_L2 s"
  "ncpu (put a v s) = ncpu s" "ram_list (mm_rs (put a v s)) = ram_list (mm_rs s)"
  "avoid_list (mm_rs (put a v s)) = avoid_list (mm_rs s)" "sysram_added (mm_rs (put a v s)) = sysram_added (mm_rs s)"
  "mm_mem (put a v s) = st32 a v (mm_mem s)" "mm_virtual (put a v s) = mm_virtual s" "mm_next (put a v s) = mm_next s"
  by (simp_all add: put_def set_mem_def)

text \<open>What no step of the table code changes.\<close>

definition same_frame :: "mmu \<Rightarrow> mmu \<Rightarrow> bool" where
  "same_frame s s' \<longleftrightarrow> mm_v s' = mm_v s \<and> mm_L1 s' = mm_L1 s \<and> mm_L2 s' = mm_L2 s \<and> ncpu s' = ncpu s
     \<and> avoid_list (mm_rs s') = avoid_list (mm_rs s) \<and> sysram_added (mm_rs s') = sysram_added (mm_rs s)"

lemma same_frameD:
  assumes "same_frame s s'"
  shows "cpu_L1 c s' = cpu_L1 c s" "cpu_L2 c s' = cpu_L2 c s" "the_pte s' = the_pte s" "the_chip s' = the_chip s" "ncpu s' = ncpu s"
  using assms by (simp_all add: same_frame_def cpu_L1_def cpu_L2_def the_pte_def the_chip_def)

lemma same_frame_refl: "same_frame s s"
  by (simp add: same_frame_def)

lemma same_frame_trans: "same_frame s s' \<Longrightarrow> same_frame s' s'' \<Longrightarrow> same_frame s s''"
  by (simp add: same_frame_def)

lemma same_frame_put [simp]: "same_frame s (put a v s)"
  by (simp add: same_frame_def)

text \<open>What the loops write.\<close>

lemma same_rs_put:
  "ram_list (mm_rs (put a v s)) = ram_list (mm_rs s)"
  by simp

lemma put_ptps_frame:
  "same_frame s (put_ptps k ptp ptbl s) \<and> ram_list (mm_rs (put_ptps k ptp ptbl s)) = ram_list (mm_rs s)"
  by (induction k ptp ptbl s rule: put_ptps.induct) (auto intro: same_frame_refl same_frame_trans [OF same_frame_put])

lemma put_ptps_other:
  assumes "al4 ptp" "unat ptp + 4 * k < 2 ^ 32" "al4 b" "\<forall>i<k. b \<noteq> ptp + of_nat (4 * i)"
  shows "ld32 (mm_mem (put_ptps k ptp ptbl s)) b = ld32 (mm_mem s) b"
  using assms
proof (induction k arbitrary: ptp ptbl s)
  case (Suc k)
  have n: "al4 (ptp + 4)" "unat (ptp + 4) = unat ptp + 4"
    using al4_add [of ptp 4] unat_add_nat [of ptp 4] Suc.prems by simp_all
  have "b \<noteq> ptp + 4 + of_nat (4 * i)" if "i < k" for i
    using Suc.prems(4) that by (auto dest!: spec [of _ "Suc i"] simp: algebra_simps)
  then have "ld32 (mm_mem (put_ptps (Suc k) ptp ptbl s)) b = ld32 (mm_mem (put ptp (ptbl OR l1_pgtable (the_pte s)) s)) b"
    using Suc.IH [of "ptp + 4"] Suc.prems n by simp
  moreover have "b \<noteq> ptp" using Suc.prems(4) by (auto dest!: spec [of _ 0])
  ultimately show ?case using Suc.prems by (simp add: ld32_st32)
qed simp

lemma put_ptps_at:
  assumes "al4 ptp" "unat ptp + 4 * k < 2 ^ 32" "i < k"
  shows "ld32 (mm_mem (put_ptps k ptp ptbl s)) (ptp + of_nat (4 * i)) = (ptbl + of_nat (1024 * i)) OR l1_pgtable (the_pte s)"
  using assms
proof (induction k arbitrary: i ptp ptbl s)
  case (Suc k)
  have n: "al4 (ptp + 4)" "unat (ptp + 4) = unat ptp + 4"
    using al4_add [of ptp 4] unat_add_nat [of ptp 4] Suc.prems by simp_all
  show ?case
  proof (cases i)
    case 0
    have "ptp \<noteq> ptp + 4 + of_nat (4 * j)" if "j < k" for j
      using entry_inj [of ptp 0 "4 + 4 * j"] Suc.prems that by (auto simp: algebra_simps)
    then show ?thesis
      using 0 put_ptps_other [of "ptp + 4" k ptp] n Suc.prems by (simp add: ld32_st32_same)
  next
    case (Suc j)
    then show ?thesis
      using Suc.IH [of "ptp + 4" j] Suc.prems n same_frameD(3) [OF same_frame_put] by (simp add: algebra_simps)
  qed
qed simp

lemma put_ptes_frame:
  "same_frame s (snd (put_ptes n i pte pa s)) \<and> ram_list (mm_rs (snd (put_ptes n i pte pa s))) = ram_list (mm_rs s)
     \<and> fst (put_ptes n i pte pa s) = n - (1024 - i)"
  by (induction n i pte pa s rule: put_ptes.induct) (auto intro: same_frame_refl same_frame_trans [OF same_frame_put])

lemma put_ptes_other:
  assumes "al4 pte" "unat pte + 4 * min n (1024 - i) \<le> 2 ^ 32" "al4 b" "\<forall>j<min n (1024 - i). b \<noteq> pte + of_nat (4 * j)"
  shows "ld32 (mm_mem (snd (put_ptes n i pte pa s))) b = ld32 (mm_mem s) b"
  using assms
proof (induction n i pte pa s rule: put_ptes.induct)
  case (2 n i pte pa s)
  show ?case
  proof (cases "i < 1024")
    case True
    have m: "min (Suc n) (1024 - i) = Suc (min n (1024 - Suc i))" using True by simp
    have "b \<noteq> pte" using 2(5) unfolding m by (auto dest!: spec [of _ 0])
    moreover have "ld32 (mm_mem (snd (put_ptes n (Suc i) (pte + 4) (pa + 0x1000) (put pte pa s)))) b = ld32 (mm_mem (put pte pa s)) b"
    proof (cases "min n (1024 - Suc i) = 0")
      case True
      then show ?thesis by (cases n) auto
    next
      case False
      then have "unat pte + 8 \<le> 2 ^ 32" using 2(3) unfolding m by (cases "min n (1024 - Suc i)") (blast, simp only:, simp)
      then have n4: "al4 (pte + 4)" "unat (pte + 4) = unat pte + 4"
        using al4_add [of pte 4] unat_add_nat [of pte 4] 2(2) by simp_all
      have "b \<noteq> pte + 4 + of_nat (4 * j)" if "j < min n (1024 - Suc i)" for j
        using 2(5) that unfolding m by (auto dest!: spec [of _ "Suc j"] simp: algebra_simps)
      then show ?thesis using 2(1) [OF True n4(1)] 2(3,4) n4(2) unfolding m by simp
    qed
    ultimately show ?thesis using True 2(2,4) by (simp add: ld32_st32)
  qed simp
qed simp

lemma put_ptes_at:
  assumes "al4 pte" "unat pte + 4 * min n (1024 - i) \<le> 2 ^ 32" "j < min n (1024 - i)"
  shows "ld32 (mm_mem (snd (put_ptes n i pte pa s))) (pte + of_nat (4 * j)) = pa + of_nat (0x1000 * j)"
  using assms
proof (induction n i pte pa s arbitrary: j rule: put_ptes.induct)
  case (2 n i pte pa s)
  have i: "i < 1024" using 2(4) by linarith
  have m: "min (Suc n) (1024 - i) = Suc (min n (1024 - Suc i))" using i by simp
  show ?case
  proof (cases j)
    case 0
    show ?thesis
    proof (cases "min n (1024 - Suc i) = 0")
      case True
      then show ?thesis using 0 i by (cases n) (auto simp: ld32_st32_same)
    next
      case False
      then have "unat pte + 8 \<le> 2 ^ 32" using 2(3) unfolding m by (cases "min n (1024 - Suc i)") (blast, simp only:, simp)
      then have n4: "al4 (pte + 4)" "unat (pte + 4) = unat pte + 4"
        using al4_add [of pte 4] unat_add_nat [of pte 4] 2(2) by simp_all
      have "pte \<noteq> pte + 4 + of_nat (4 * k)" if "k < min n (1024 - Suc i)" for k
      proof -
        have "4 * Suc k \<le> 4 * min n (1024 - Suc i)" using that by (intro mult_le_mono) (simp_all only: Suc_le_eq)
        then have "unat pte + (4 + 4 * k) < 2 ^ 32" using 2(3) unfolding m by simp
        then show ?thesis using entry_inj [of pte 0 "4 + 4 * k"] by (auto simp: algebra_simps)
      qed
      then show ?thesis
        using 0 i put_ptes_other [OF n4(1), of n "Suc i" pte "pa + 0x1000" "put pte pa s"] n4(2) 2(2,3) unfolding m
        by (simp add: ld32_st32_same)
    qed
  next
    case (Suc k)
    then have "k < min n (1024 - Suc i)" using 2(4) unfolding m by simp
    moreover from this have "unat pte + 8 \<le> 2 ^ 32" using 2(3) unfolding m by (cases "min n (1024 - Suc i)") (simp_all only: not_less0, simp)
    then have n4: "al4 (pte + 4)" "unat (pte + 4) = unat pte + 4"
      using al4_add [of pte 4] unat_add_nat [of pte 4] 2(2) by simp_all
    ultimately show ?thesis
      using 2(1) [OF i n4(1), of k] 2(3) n4(2) Suc i unfolding m by (simp add: algebra_simps)
  qed
qed simp

section \<open>The invariant of the tables\<close>

text \<open>The 4M group an address is in, and where its entries stand.\<close>

abbreviation grp :: "u32 \<Rightarrow> nat" where
  "grp va \<equiv> unat va div 0x400000"

lemma ptp_offset: "push_bit 2 (drop_bit 20 va AND NOT 3) = (of_nat (16 * grp va) :: u32)"
proof -
  have "unat (TRUNC (drop_bit 20 va) (2 ^ 2)) = unat va div 2 ^ 20 div 2 ^ 2 * 2 ^ 2"
    using unat_TRUNC [of 2 "drop_bit 20 va"] by (simp only: unat_drop_bit)
  then have "unat (drop_bit 20 va AND NOT 3) = grp va * 4"
    by (simp add: TRUNC_def div_mult2_eq [symmetric])
  moreover have "grp va < 1024" using unat_lt32 [of va] by (simp add: less_mult_imp_div_less)
  ultimately have "unat (push_bit 2 (drop_bit 20 va AND NOT 3)) = 16 * grp va"
    by (subst unat_push_bit_no_wrap) simp_all
  then show ?thesis by (metis of_nat_unat ucast_id)
qed

lemma pde_offset: "push_bit 2 (drop_bit 22 va) = (of_nat (4 * grp va) :: u32)"
proof -
  have "grp va < 1024" using unat_lt32 [of va] by (simp add: less_mult_imp_div_less)
  then have "unat (push_bit 2 (drop_bit 22 va)) = 4 * grp va"
    by (subst unat_push_bit_no_wrap) (simp_all add: unat_drop_bit)
  then show ?thesis by (metis of_nat_unat ucast_id)
qed

definition span :: "u32 \<Rightarrow> nat \<Rightarrow> nat set" where
  "span a n = {unat a..<unat a + n}"

lemma in_span: "unat a + n < 2 ^ 32 \<Longrightarrow> k < n \<Longrightarrow> unat (a + of_nat k) \<in> span a n"
  by (simp add: span_def unat_add_nat)

lemma span_apart: "unat a \<in> A \<Longrightarrow> unat b \<in> B \<Longrightarrow> A \<inter> B = {} \<Longrightarrow> a \<noteq> b"
  by auto

definition tables_ok :: "mmu \<Rightarrow> bool" where
  "tables_ok s \<longleftrightarrow>
     (\<forall>c<ncpu s. al4 (cpu_L1 c s) \<and> al4 (cpu_L2 c s) \<and> unat (cpu_L1 c s) + 0x4000 < 2 ^ 32 \<and> unat (cpu_L2 c s) + 0x1000 < 2 ^ 32)
     \<and> (\<forall>c<ncpu s. \<forall>c'<ncpu s. span (cpu_L1 c s) 0x4000 \<inter> span (cpu_L2 c' s) 0x1000 = {}
          \<and> (c \<noteq> c' \<longrightarrow> span (cpu_L1 c s) 0x4000 \<inter> span (cpu_L1 c' s) 0x4000 = {}))"

lemma tables_okD:
  assumes "tables_ok s" "c < ncpu s"
  shows "al4 (cpu_L1 c s)" "al4 (cpu_L2 c s)" "unat (cpu_L1 c s) + 0x4000 < 2 ^ 32" "unat (cpu_L2 c s) + 0x1000 < 2 ^ 32"
    "c' < ncpu s \<Longrightarrow> span (cpu_L1 c s) 0x4000 \<inter> span (cpu_L2 c' s) 0x1000 = {}"
    "c' < ncpu s \<Longrightarrow> c \<noteq> c' \<Longrightarrow> span (cpu_L1 c s) 0x4000 \<inter> span (cpu_L1 c' s) 0x4000 = {}"
  using assms by (simp_all add: tables_ok_def)

lemma tables_ok_frame: "same_frame s s' \<Longrightarrow> tables_ok s' = tables_ok s"
  by (simp add: tables_ok_def same_frameD)

text \<open>The address of a first-level entry: \<open>i\<close> counts the four entries of group \<open>g\<close>.\<close>

definition l1_entry :: "nat \<Rightarrow> nat \<Rightarrow> nat \<Rightarrow> mmu \<Rightarrow> u32" where
  "l1_entry c g i s = cpu_L1 c s + of_nat (16 * g + 4 * i)"

lemma l1_entry:
  assumes "tables_ok s" "c < ncpu s" "g < 1024" "i < 4"
  shows "al4 (l1_entry c g i s)" "unat (l1_entry c g i s) \<in> span (cpu_L1 c s) 0x4000"
    "unat (l1_entry c g i s) = unat (cpu_L1 c s) + (16 * g + 4 * i)"
proof -
  note t = tables_okD [OF assms(1,2)]
  have n: "16 * g + 4 * i < 0x4000" using assms(3,4) by simp
  then have "unat (cpu_L1 c s) + (16 * g + 4 * i) < 2 ^ 32" using t(3) by linarith
  then show "al4 (l1_entry c g i s)" "unat (l1_entry c g i s) = unat (cpu_L1 c s) + (16 * g + 4 * i)"
    unfolding l1_entry_def using al4_add [OF t(1), of "16 * g + 4 * i"] unat_add_nat [of "cpu_L1 c s" "16 * g + 4 * i"]
    by simp_all
  show "unat (l1_entry c g i s) \<in> span (cpu_L1 c s) 0x4000"
    unfolding l1_entry_def by (rule in_span [OF t(3) n])
qed

lemma l1_entry_frame: "same_frame s s' \<Longrightarrow> l1_entry c g i s' = l1_entry c g i s"
  by (simp add: l1_entry_def same_frameD)

text \<open>Linking a page table on one processor and on all of them.\<close>

lemma map_ptbl_cpu_frame:
  "same_frame s (map_ptbl_cpu c pt va s) \<and> ram_list (mm_rs (map_ptbl_cpu c pt va s)) = ram_list (mm_rs s)"
  unfolding map_ptbl_cpu_def Let_def
  by (intro conjI same_frame_trans [OF same_frame_put conjunct1 [OF put_ptps_frame]]) (simp only: conjunct2 [OF put_ptps_frame] same_rs_put)

lemma map_ptbl_cpu_spec:
  assumes "tables_ok s" "c < ncpu s"
  shows "i < 4 \<Longrightarrow> ld32 (mm_mem (map_ptbl_cpu c pt va s)) (l1_entry c (grp va) i s) = (pt + of_nat (1024 * i)) OR l1_pgtable (the_pte s)"
    "al4 b \<Longrightarrow> unat b \<notin> span (cpu_L2 c s) 0x1000 \<Longrightarrow> \<forall>i<4. b \<noteq> l1_entry c (grp va) i s \<Longrightarrow>
       ld32 (mm_mem (map_ptbl_cpu c pt va s)) b = ld32 (mm_mem s) b"
proof -
  note t = tables_okD [OF assms]
  have g: "grp va < 1024" using unat_lt32 [of va] by (simp add: less_mult_imp_div_less)
  let ?x = "(pt OR kpte_rw (the_pte s)) AND NOT (mask_nc (the_pte s)) OR chip_pte_attr (the_chip s)"
  let ?pde = "cpu_L2 c s + of_nat (4 * grp va)"
  let ?s = "put ?pde ?x s"
  have m: "map_ptbl_cpu c pt va s = put_ptps 4 (l1_entry c (grp va) 0 s) pt ?s"
    unfolding map_ptbl_cpu_def ptp_offset pde_offset Let_def l1_entry_def by simp
  have e: "l1_entry c (grp va) 0 s + of_nat (4 * i) = l1_entry c (grp va) i s" for i
    by (simp add: l1_entry_def)
  have b16: "unat (l1_entry c (grp va) 0 s) + 4 * 4 < 2 ^ 32"
    using l1_entry(3) [OF assms g, of 0] t(3) g by simp
  note al = l1_entry(1) [OF assms g, of 0, simplified]
  have pde: "unat ?pde \<in> span (cpu_L2 c s) 0x1000" "al4 ?pde"
    using in_span [OF t(4), of "4 * grp va"] al4_add [OF t(2), of "4 * grp va"] t(4) g by simp_all
  show "ld32 (mm_mem (map_ptbl_cpu c pt va s)) (l1_entry c (grp va) i s) = (pt + of_nat (1024 * i)) OR l1_pgtable (the_pte s)"
    if "i < 4"
    using put_ptps_at [OF al b16 that, of pt ?s] same_frameD(3) [OF same_frame_put] unfolding m e by simp
  show "ld32 (mm_mem (map_ptbl_cpu c pt va s)) b = ld32 (mm_mem s) b"
    if b: "al4 b" "unat b \<notin> span (cpu_L2 c s) 0x1000" "\<forall>i<4. b \<noteq> l1_entry c (grp va) i s"
  proof -
    have "ld32 (mm_mem (map_ptbl_cpu c pt va s)) b = ld32 (mm_mem ?s) b"
      unfolding m using b(3) by (intro put_ptps_other [OF al b16 b(1)]) (simp only: e)
    moreover have "b \<noteq> ?pde" using pde(1) b(2) by auto
    ultimately show ?thesis using ld32_st32 [OF pde(2) b(1)] by simp
  qed
qed

lemma fold_map_ptbl:
  fixes pt va :: u32 and s :: mmu and ks :: "nat list"
  assumes "tables_ok s" "set ks \<subseteq> {..<ncpu s}" "distinct ks"
  defines "s' \<equiv> fold (\<lambda>c. map_ptbl_cpu c pt va) ks s"
  shows "same_frame s s' \<and> ram_list (mm_rs s') = ram_list (mm_rs s)
    \<and> (\<forall>c\<in>set ks. \<forall>i<4. ld32 (mm_mem s') (l1_entry c (grp va) i s) = (pt + of_nat (1024 * i)) OR l1_pgtable (the_pte s))
    \<and> (\<forall>b. al4 b \<longrightarrow> (\<forall>c\<in>set ks. unat b \<notin> span (cpu_L2 c s) 0x1000 \<and> (\<forall>i<4. b \<noteq> l1_entry c (grp va) i s)) \<longrightarrow>
          ld32 (mm_mem s') b = ld32 (mm_mem s) b)"
  using assms(1-3) unfolding s'_def
proof (induction ks arbitrary: s)
  case Nil
  then show ?case by (simp add: same_frame_refl)
next
  case (Cons c ks)
  let ?s = "map_ptbl_cpu c pt va s"
  note fr = map_ptbl_cpu_frame [of s c pt va]
  have c: "c < ncpu s" "c \<notin> set ks" using Cons.prems by auto
  have g: "grp va < 1024" using unat_lt32 [of va] by (simp add: less_mult_imp_div_less)
  note sp = map_ptbl_cpu_spec [OF Cons.prems(1) c(1)]
  have ih: "same_frame ?s (fold (\<lambda>c. map_ptbl_cpu c pt va) ks ?s)
    \<and> ram_list (mm_rs (fold (\<lambda>c. map_ptbl_cpu c pt va) ks ?s)) = ram_list (mm_rs ?s)
    \<and> (\<forall>c\<in>set ks. \<forall>i<4. ld32 (mm_mem (fold (\<lambda>c. map_ptbl_cpu c pt va) ks ?s)) (l1_entry c (grp va) i s) = (pt + of_nat (1024 * i)) OR l1_pgtable (the_pte s))
    \<and> (\<forall>b. al4 b \<longrightarrow> (\<forall>c\<in>set ks. unat b \<notin> span (cpu_L2 c s) 0x1000 \<and> (\<forall>i<4. b \<noteq> l1_entry c (grp va) i s)) \<longrightarrow>
          ld32 (mm_mem (fold (\<lambda>c. map_ptbl_cpu c pt va) ks ?s)) b = ld32 (mm_mem ?s) b)"
    using Cons.IH [of ?s] Cons.prems
    unfolding same_frameD [OF conjunct1 [OF fr]] tables_ok_frame [OF conjunct1 [OF fr]] l1_entry_frame [OF conjunct1 [OF fr]]
    by simp
  have own: "ld32 (mm_mem (fold (\<lambda>c. map_ptbl_cpu c pt va) ks ?s)) (l1_entry c (grp va) i s) = (pt + of_nat (1024 * i)) OR l1_pgtable (the_pte s)"
    if i: "i < 4" for i
  proof -
    note e = l1_entry [OF Cons.prems(1) c(1) g i]
    have "unat (l1_entry c (grp va) i s) \<notin> span (cpu_L2 c' s) 0x1000 \<and> (\<forall>j<4. l1_entry c (grp va) i s \<noteq> l1_entry c' (grp va) j s)"
      if c': "c' \<in> set ks" for c'
    proof -
      have n: "c' < ncpu s" "c \<noteq> c'" using Cons.prems(2) c(2) c' by auto
      note d = tables_okD(5,6) [OF Cons.prems(1) c(1) n(1)]
      have "l1_entry c (grp va) i s \<noteq> l1_entry c' (grp va) j s" if "j < 4" for j
        using span_apart [OF e(2) l1_entry(2) [OF Cons.prems(1) n(1) g that] d(2) [OF n(2)]] .
      then show ?thesis using e(2) d(1) by auto
    qed
    then show ?thesis using ih e(1) sp(1) [OF i] by simp
  qed
  show ?case
    using ih fr own sp(2) same_frame_trans [of s ?s] by auto
qed

section \<open>Allocating a page table\<close>

definition free_ram :: "ram_state \<Rightarrow> nat set" where
  "free_ram rs = covers (ram_list rs) - rs_avoided rs"

text \<open>\<open>can_alloc k\<close>: the allocator has \<open>k\<close> more pages.\<close>

fun can_alloc :: "nat \<Rightarrow> ram_state \<Rightarrow> bool" where
  "can_alloc 0 rs = True"
| "can_alloc (Suc k) rs = (case ram_alloc_any (0x1000, 12) rs of None \<Rightarrow> False | Some (b, rs') \<Rightarrow> can_alloc k rs')"

text \<open>Before \<open>add_sysram\<close> the allocator looks at its own two lists only.\<close>

definition same_ram :: "ram_state \<Rightarrow> ram_state \<Rightarrow> bool" where
  "same_ram r rs \<longleftrightarrow> ram_list r = ram_list rs \<and> avoid_list r = avoid_list rs \<and> sysram_added r = sysram_added rs"

lemma alloc_ram_same:
  assumes "same_ram r rs" "\<not> sysram_added rs" "alloc_ram NULL_PADDR sz al rs = Inr (x, rs')"
  shows "alloc_ram NULL_PADDR sz al r = Inr (x, r\<lparr>ram_list := ram_list rs'\<rparr>) \<and> same_ram (r\<lparr>ram_list := ram_list rs'\<rparr>) rs' \<and> \<not> sysram_added rs'"
proof -
  have f: "find_ram sz al 0 0 r = find_ram sz al 0 0 rs"
    using assms(1) by (simp add: find_ram_def find_ram_in_range_def same_ram_def)
  show ?thesis
    using assms unfolding alloc_ram_def f
    by (auto simp: Let_def same_ram_def rbind_Inr_iff split: if_splits option.splits)
qed

lemma same_ram_rules:
  assumes "same_ram r rs"
  shows "ram_alloc_ok r = ram_alloc_ok rs" "free_ram r = free_ram rs"
  using assms by (simp_all add: same_ram_def ram_alloc_ok_def free_ram_def rs_avoided_def)

lemma ram_alloc_same:
  assumes "same_ram r rs" "\<not> sysram_added rs" "ram_alloc_any (0x1000, 12) rs = Some (b, rs')"
  shows "\<exists>r'. ram_alloc_any (0x1000, 12) r = Some (b, r') \<and> same_ram r' rs' \<and> \<not> sysram_added rs'"
proof -
  obtain x where x: "alloc_ram NULL_PADDR 0x1000 (2 ^ 12) rs = Inr (x, rs')" "x \<noteq> NULL_PADDR"
    "length (ram_list rs') < 191" "b = {unat x..<unat x + 0x1000}"
    using assms(3) by (auto simp: ram_alloc_any_def not_le split: sum.splits if_splits)
  then show ?thesis
    using alloc_ram_same [OF assms(1,2) x(1)] by (auto simp: ram_alloc_any_def same_ram_def)
qed

lemma can_alloc_same: "same_ram r rs \<Longrightarrow> \<not> sysram_added rs \<Longrightarrow> can_alloc k rs \<Longrightarrow> can_alloc k r"
proof (induction k arbitrary: r rs)
  case (Suc k)
  then obtain b rs' where b: "ram_alloc_any (0x1000, 12) rs = Some (b, rs')" "can_alloc k rs'"
    by (auto split: option.splits)
  then show ?case
    using ram_alloc_same [OF Suc.prems(1,2) b(1)] Suc.IH by auto
qed simp

lemma calloc_page:
  assumes ok: "ram_alloc_ok rs" and can: "can_alloc (Suc k) rs"
  shows "\<exists>p rs'. calloc_ram 0x1000 0x1000 rs = Inr (p, rs') \<and> 0x1000 dvd unat p \<and> unat p + 0x1000 < 2 ^ 32
    \<and> span p 0x1000 \<subseteq> free_ram rs \<and> ram_alloc_ok rs' \<and> free_ram rs' = free_ram rs - span p 0x1000 \<and> can_alloc k rs'
    \<and> lsp_mem (st_lsp (rs_st rs')) = mem_zero (lsp_mem (st_lsp (rs_st rs))) (unat p) 0x1000
    \<and> sp_num_cpu (st_lsp (rs_st rs')) = sp_num_cpu (st_lsp (rs_st rs))
    \<and> avoid_list rs' = avoid_list rs \<and> sysram_added rs' = sysram_added rs"
proof -
  obtain b r1 where b: "ram_alloc_any (0x1000, 12) rs = Some (b, r1)" and can1: "can_alloc k r1"
    using can by (auto split: option.splits)
  obtain p where p: "alloc_ram NULL_PADDR 0x1000 0x1000 rs = Inr (p, r1)" "p \<noteq> NULL_PADDR" "b = span p 0x1000"
    using b by (auto simp: ram_alloc_any_def span_def split: sum.splits if_splits)
  note laws = ram_alloc_any_laws [OF ok b]
  have k: "ram_ok (ram_list rs)" "\<not> sysram_added rs" "length (ram_list rs) < 191" "\<forall>r \<in> set (ram_list rs). hi r + 2 ^ 12 \<le> 2 ^ 32"
    using ok by (auto simp: ram_alloc_ok_def)
  have spec: "2 ^ 12 dvd unat p" "span p 0x1000 \<subseteq> covers (ram_list rs)" "r1 = rs\<lparr>ram_list := ram_list r1\<rparr>"
    using alloc_ram_any [OF k(1,2,3) _ k(4), of "0x1000"] p by (auto simp: span_def)
  have "unat p + 0xfff \<in> covers (ram_list rs)" using spec(2) by (auto simp: span_def)
  then obtain q where "q \<in> set (ram_list rs)" "unat p + 0xfff < hi q" by (auto simp: covers_def)
  then have lim: "unat p + 0x1000 < 2 ^ 32" using ok by (fastforce simp: ram_alloc_ok_def)
  define l where "l = (st_lsp (rs_st r1))\<lparr>lsp_mem := mem_zero (lsp_mem (st_lsp (rs_st r1))) (unat p) 0x1000\<rparr>"
  define r2 where "r2 = r1\<lparr>rs_st := (rs_st r1)\<lparr>st_lsp := l\<rparr>\<rparr>"
  have st: "rs_st r1 = rs_st rs" "avoid_list r1 = avoid_list rs" "sysram_added r1 = sysram_added rs" by (subst spec(3), simp)+
  have same: "same_ram r2 r1" by (simp add: same_ram_def r2_def)
  have "calloc_ram 0x1000 0x1000 rs = Inr (p, r2)"
    using p(1,2) by (simp add: calloc_ram_def r2_def l_def Let_def)
  moreover have "can_alloc k r2" using can_alloc_same [OF same _ can1] st(3) k(2) by simp
  moreover have "span p 0x1000 \<subseteq> free_ram rs" unfolding free_ram_def p(3) [symmetric] by (rule laws(1))
  moreover have "ram_alloc_ok r2" unfolding same_ram_rules [OF same] by (rule laws(3))
  moreover have "free_ram r1 = free_ram rs - b" unfolding free_ram_def by (rule laws(2))
  then have "free_ram r2 = free_ram rs - span p 0x1000" by (simp only: same_ram_rules(2) [OF same] p(3))
  moreover have "lsp_mem (st_lsp (rs_st r2)) = mem_zero (lsp_mem (st_lsp (rs_st rs))) (unat p) 0x1000"
    "sp_num_cpu (st_lsp (rs_st r2)) = sp_num_cpu (st_lsp (rs_st rs))" "avoid_list r2 = avoid_list rs"
    "sysram_added r2 = sysram_added rs"
    using st by (simp_all add: r2_def l_def)
  moreover have "0x1000 dvd unat p" using spec(1) by simp
  ultimately show ?thesis using lim by blast
qed

lemma ld32_zero_page:
  assumes "al4 b" "0x1000 dvd unat p" "unat b \<notin> span p 0x1000"
  shows "ld32 (mem_zero m (unat p) 0x1000) b = ld32 m b"
proof -
  obtain x where x: "unat b = 4 * x" using assms(1) unfolding al4_def by (rule dvdE)
  obtain y where y: "unat p = 0x1000 * y" using assms(2) by (rule dvdE)
  have "unat b < unat p \<or> unat p + 0x1000 \<le> unat b" using assms(3) by (auto simp: span_def)
  moreover have "x < 1024 * y \<Longrightarrow> 4 * x + 4 \<le> 0x1000 * y" by simp
  moreover have "4 * x < 0x1000 * y \<Longrightarrow> x < 1024 * y" by simp
  ultimately have "unat b + 4 \<le> unat p \<or> unat p + 0x1000 \<le> unat b" unfolding x y by blast
  then show ?thesis by (rule ld32_zero_apart)
qed

section \<open>The invariant and one group\<close>

text \<open>
  \<open>T\<close> gives the page table of each group of 4M that has one, for the groups \<open>G\<close> that are kept by page
  tables, the same on every processor.
\<close>

definition pt_inv :: "nat set \<Rightarrow> (nat \<Rightarrow> u32 option) \<Rightarrow> mmu \<Rightarrow> bool" where
  "pt_inv G T s \<longleftrightarrow>
     tables_ok s \<and> pte_sane (the_pte s) \<and> ram_alloc_ok (mm_rs s)
     \<and> (\<forall>c<ncpu s. span (cpu_L1 c s) 0x4000 \<inter> free_ram (mm_rs s) = {} \<and> span (cpu_L2 c s) 0x1000 \<inter> free_ram (mm_rs s) = {})
     \<and> (\<forall>g p. T g = Some p \<longrightarrow> g \<in> G \<and> 0x1000 dvd unat p \<and> unat p + 0x1000 < 2 ^ 32 \<and> span p 0x1000 \<inter> free_ram (mm_rs s) = {}
          \<and> (\<forall>c<ncpu s. span (cpu_L1 c s) 0x4000 \<inter> span p 0x1000 = {} \<and> span (cpu_L2 c s) 0x1000 \<inter> span p 0x1000 = {}))
     \<and> (\<forall>g g' p p'. T g = Some p \<longrightarrow> T g' = Some p' \<longrightarrow> g \<noteq> g' \<longrightarrow> span p 0x1000 \<inter> span p' 0x1000 = {})
     \<and> (\<forall>g\<in>G. g < 1024 \<and> (\<forall>c<ncpu s. case T g of
            None \<Rightarrow> ld32 (mm_mem s) (l1_entry c g 0 s) AND 3 = 0
          | Some p \<Rightarrow> \<forall>i<4. ld32 (mm_mem s) (l1_entry c g i s) = (p + of_nat (1024 * i)) OR l1_pgtable (the_pte s)))"

text \<open>The page descriptor of a page, counted from address zero.\<close>

definition pte_entry :: "(nat \<Rightarrow> u32 option) \<Rightarrow> mmu \<Rightarrow> nat \<Rightarrow> u32" where
  "pte_entry T s v = (case T (v div 1024) of None \<Rightarrow> 0 | Some p \<Rightarrow> ld32 (mm_mem s) (p + of_nat (4 * (v mod 1024))))"

lemma pt_invD:
  assumes "pt_inv G T s"
  shows "tables_ok s" "pte_sane (the_pte s)" "ram_alloc_ok (mm_rs s)"
    "c < ncpu s \<Longrightarrow> span (cpu_L1 c s) 0x4000 \<inter> free_ram (mm_rs s) = {}"
    "c < ncpu s \<Longrightarrow> span (cpu_L2 c s) 0x1000 \<inter> free_ram (mm_rs s) = {}"
    "T g = Some p \<Longrightarrow> g \<in> G" "T g = Some p \<Longrightarrow> 0x1000 dvd unat p" "T g = Some p \<Longrightarrow> unat p + 0x1000 < 2 ^ 32"
    "T g = Some p \<Longrightarrow> span p 0x1000 \<inter> free_ram (mm_rs s) = {}"
    "T g = Some p \<Longrightarrow> c < ncpu s \<Longrightarrow> span (cpu_L1 c s) 0x4000 \<inter> span p 0x1000 = {}"
    "T g = Some p \<Longrightarrow> c < ncpu s \<Longrightarrow> span (cpu_L2 c s) 0x1000 \<inter> span p 0x1000 = {}"
    "T g = Some p \<Longrightarrow> T g' = Some p' \<Longrightarrow> g \<noteq> g' \<Longrightarrow> span p 0x1000 \<inter> span p' 0x1000 = {}"
    "g \<in> G \<Longrightarrow> g < 1024"
    "g \<in> G \<Longrightarrow> c < ncpu s \<Longrightarrow> T g = None \<Longrightarrow> ld32 (mm_mem s) (l1_entry c g 0 s) AND 3 = 0"
    "T g = Some p \<Longrightarrow> c < ncpu s \<Longrightarrow> i < 4 \<Longrightarrow> ld32 (mm_mem s) (l1_entry c g i s) = (p + of_nat (1024 * i)) OR l1_pgtable (the_pte s)"
  using assms unfolding pt_inv_def by (fastforce split: option.splits)+

lemma page_al4: "0x1000 dvd unat p \<Longrightarrow> al4 p"
  by (auto simp: al4_def dvd_def)

lemma page_low:
  assumes "0x1000 dvd unat (p :: u32)"
  shows "p AND 0xfff = 0"
proof -
  have m: "mask 12 = (0xfff :: u32)" by (simp add: mask_eq_exp_minus_1)
  have "p AND 0xfff = take_bit 12 p" unfolding take_bit_eq_mask m ..
  moreover have "unat (take_bit 12 p) = take_bit 12 (unat p)" by (simp only: unsigned_take_bit_eq)
  moreover have "take_bit 12 (unat p) = unat p mod 2 ^ 12" by (simp only: take_bit_eq_mod)
  moreover have "unat p mod 2 ^ 12 = 0" using assms by simp
  ultimately show ?thesis by (simp only: unat_eq_zero)
qed

lemma and_sub:
  assumes "x AND m = 0" "n AND m = n"
  shows "x AND n = (0 :: u32)"
proof -
  have "x AND n = x AND (n AND m)" by (simp only: assms(2))
  also have "\<dots> = (x AND m) AND n" by (simp only: ac_simps)
  finally show ?thesis by (simp only: assms(1) and_zero_eq zero_and_eq)
qed

lemma page_ptp:
  assumes "0x1000 dvd unat p" "l AND NOT 0x3ff = 0" "l AND 3 = (1 :: u32)"
  shows "(p OR l) AND 3 = 1" "(p OR l) AND NOT 0xfff = p"
proof -
  have "p AND 3 = 0" by (rule and_sub [OF page_low [OF assms(1)]]) simp
  then show "(p OR l) AND 3 = 1" using assms(3) by (simp add: bit.conj_disj_distrib2)
  have "l AND NOT 0xfff = 0" by (rule and_sub [OF assms(2)]) simp
  moreover have "p AND NOT 0xfff = p"
  proof -
    have "p = p AND (0xfff OR NOT 0xfff)" by simp
    also have "\<dots> = (p AND 0xfff) OR (p AND NOT 0xfff)" by (simp only: bit.conj_disj_distrib)
    finally show ?thesis using page_low [OF assms(1)] by simp
  qed
  ultimately show "(p OR l) AND NOT 0xfff = p" by (simp add: bit.conj_disj_distrib2)
qed

lemma page_table_found:
  assumes inv: "pt_inv G T s" and c: "c < ncpu s" and T: "T (grp va) = Some p"
  shows "page_table link (l1_entry c (grp va) 0 s) s = Inr (p, s)"
proof -
  have e: "ld32 (mm_mem s) (l1_entry c (grp va) 0 s) = p OR l1_pgtable (the_pte s)"
    using pt_invD(15) [OF inv T c, of 0] by simp
  have l: "l1_pgtable (the_pte s) AND NOT 0x3ff = 0" "l1_pgtable (the_pte s) AND 3 = 1"
    using pt_invD(2) [OF inv] by (simp_all add: pte_sane_def)
  show ?thesis
    using page_ptp [OF pt_invD(7) [OF inv T] l] unfolding page_table_def e by simp
qed

lemma page_table_new:
  assumes inv: "pt_inv G T s" and c: "c < ncpu s" and T: "T (grp va) = None" and g: "grp va \<in> G"
    and can: "can_alloc (Suc k) (mm_rs s)"
  shows "\<exists>p s'. page_table (\<lambda>pt. map_ptbl pt va) (l1_entry c (grp va) 0 s) s = Inr (p, s') \<and> same_frame s s'
    \<and> pt_inv G (T(grp va \<mapsto> p)) s' \<and> can_alloc k (mm_rs s') \<and> (\<forall>v. pte_entry (T(grp va \<mapsto> p)) s' v = pte_entry T s v)"
proof -
  note D = pt_invD [OF inv]
  obtain p rs' where al: "calloc_ram 0x1000 0x1000 (mm_rs s) = Inr (p, rs')" and p: "0x1000 dvd unat p" "unat p + 0x1000 < 2 ^ 32"
    "span p 0x1000 \<subseteq> free_ram (mm_rs s)" and rs: "ram_alloc_ok rs'" "free_ram rs' = free_ram (mm_rs s) - span p 0x1000"
    "can_alloc k rs'" "lsp_mem (st_lsp (rs_st rs')) = mem_zero (mm_mem s) (unat p) 0x1000"
    "sp_num_cpu (st_lsp (rs_st rs')) = ncpu s" "avoid_list rs' = avoid_list (mm_rs s)" "sysram_added rs' = sysram_added (mm_rs s)"
    using calloc_page [OF D(3) can] by blast
  define s1 where "s1 = s\<lparr>mm_rs := rs'\<rparr>"
  define s' where "s' = map_ptbl p va s1"
  let ?T = "T(grp va \<mapsto> p)"
  have f1: "same_frame s s1" using rs by (simp add: same_frame_def s1_def)
  note F1 = same_frameD [OF f1] l1_entry_frame [OF f1] tables_ok_frame [OF f1]
  have pt: "page_table (\<lambda>pt. map_ptbl pt va) (l1_entry c (grp va) 0 s) s = Inr (p, s')"
    using D(14) [OF g c T] al by (simp add: page_table_def s'_def s1_def)
  have fold: "same_frame s1 s' \<and> ram_list (mm_rs s') = ram_list (mm_rs s1)
    \<and> (\<forall>c\<in>set [0..<ncpu s1]. \<forall>i<4. ld32 (mm_mem s') (l1_entry c (grp va) i s1) = (p + of_nat (1024 * i)) OR l1_pgtable (the_pte s1))
    \<and> (\<forall>b. al4 b \<longrightarrow> (\<forall>c\<in>set [0..<ncpu s1]. unat b \<notin> span (cpu_L2 c s1) 0x1000 \<and> (\<forall>i<4. b \<noteq> l1_entry c (grp va) i s1)) \<longrightarrow>
          ld32 (mm_mem s') b = ld32 (mm_mem s1) b)"
    unfolding s'_def map_ptbl_def by (rule fold_map_ptbl) (use D(1) F1 in auto)
  have f: "same_frame s s'" using f1 fold same_frame_trans by blast
  note F = same_frameD [OF f] l1_entry_frame [OF f] tables_ok_frame [OF f]
  have set: "ld32 (mm_mem s') (l1_entry d (grp va) i s) = (p + of_nat (1024 * i)) OR l1_pgtable (the_pte s)"
    if "d < ncpu s" "i < 4" for d i
    using fold that unfolding F1 by auto
  have g1024: "grp va < 1024" using D(13) [OF g] .
  have away: "ld32 (mm_mem s') b = ld32 (mm_mem s1) b"
    if "al4 b" "\<And>d. d < ncpu s \<Longrightarrow> unat b \<notin> span (cpu_L2 d s) 0x1000" "\<And>d i. d < ncpu s \<Longrightarrow> i < 4 \<Longrightarrow> b \<noteq> l1_entry d (grp va) i s" for b
    using fold that unfolding F1 by auto
  have m1: "mm_mem s1 = mem_zero (mm_mem s) (unat p) 0x1000" using rs(4) by (simp add: s1_def)
  have apart: "span (cpu_L1 d s) 0x4000 \<inter> span p 0x1000 = {}" "span (cpu_L2 d s) 0x1000 \<inter> span p 0x1000 = {}" if "d < ncpu s" for d
    using D(4,5) [OF that] p(3) by blast+
  have page_away: "ld32 (mm_mem s') b = ld32 (mm_mem s1) b" if b: "al4 b" "unat b \<in> span q 0x1000"
    and q: "\<And>d. d < ncpu s \<Longrightarrow> span (cpu_L1 d s) 0x4000 \<inter> span q 0x1000 = {} \<and> span (cpu_L2 d s) 0x1000 \<inter> span q 0x1000 = {}" for b q
    using b(2) q l1_entry(2) [OF D(1) _ g1024] by (intro away [OF b(1)]) blast+
  have entries: "ld32 (mm_mem s') (l1_entry d g' i s) = ld32 (mm_mem s) (l1_entry d g' i s)"
    if d: "d < ncpu s" and g': "g' \<in> G" "g' \<noteq> grp va" and i: "i < 4" for d g' i
  proof -
    note e = l1_entry [OF D(1) d D(13) [OF g'(1)] i]
    have "l1_entry d g' i s \<noteq> l1_entry d' (grp va) j s" if d': "d' < ncpu s" and j: "j < 4" for d' j
    proof (cases "d = d'")
      case True
      have dv: "(16 * x + 4 * k) div 16 = x" if "k < 4" for x k :: nat by (rule div_nat_eqI) (use that in simp_all)
      have "16 * g' + 4 * i \<noteq> 16 * h + 4 * j" if "g' \<noteq> h" for h using dv [OF i, of g'] dv [OF j, of h] that by auto
      then have "unat (l1_entry d g' i s) \<noteq> unat (l1_entry d' (grp va) j s)"
        using e(3) l1_entry(3) [OF D(1) d' g1024 j] g'(2) True by (metis add_left_cancel)
      then show ?thesis by auto
    next
      case False
      then show ?thesis
        using span_apart [OF e(2) l1_entry(2) [OF D(1) d' g1024 j]] tables_okD(6) [OF D(1) d d'] by blast
    qed
    moreover have "unat (l1_entry d g' i s) \<notin> span (cpu_L2 d' s) 0x1000" if "d' < ncpu s" for d'
      using e(2) tables_okD(5) [OF D(1) d that] by blast
    ultimately have "ld32 (mm_mem s') (l1_entry d g' i s) = ld32 (mm_mem s1) (l1_entry d g' i s)"
      by (intro away [OF e(1)]) blast+
    also have "\<dots> = ld32 (mm_mem s) (l1_entry d g' i s)"
      unfolding m1 using e(2) apart(1) [OF d] by (intro ld32_zero_page [OF e(1) p(1)]) blast
    finally show ?thesis .
  qed
  have span4: "unat (q + of_nat (4 * n)) \<in> span q 0x1000" "al4 (q + of_nat (4 * n))"
    if "0x1000 dvd unat q" "unat q + 0x1000 < 2 ^ 32" "n < 1024" for q n
  proof -
    have n: "4 * n < 0x1000" using that(3) by simp
    show "unat (q + of_nat (4 * n)) \<in> span q 0x1000" by (rule in_span [OF that(2) n])
    have "unat q + 4 * n < 2 ^ 32" using that(2) n by linarith
    then show "al4 (q + of_nat (4 * n))" by (intro al4_add page_al4 [OF that(1)]) simp_all
  qed
  have old: "pte_entry ?T s' v = pte_entry T s v" for v
  proof (cases "v div 1024 = grp va")
    case True
    have vm: "v mod 1024 < 1024" by simp
    note b = span4 [OF p(1,2) vm]
    have "ld32 (mm_mem s') (p + of_nat (4 * (v mod 1024))) = ld32 (mm_mem s1) (p + of_nat (4 * (v mod 1024)))"
      by (rule page_away [OF b(2,1)]) (use apart in blast)
    also have "\<dots> = 0"
    proof -
      have "unat p + 4 * (v mod 1024) + 4 \<le> unat p + 0x1000" by simp
      moreover have "unat (p + of_nat (4 * (v mod 1024))) = unat p + 4 * (v mod 1024)" using p(2) by (intro unat_add_nat) simp
      ultimately show ?thesis unfolding m1 by (intro ld32_zero) linarith+
    qed
    finally show ?thesis using True T by (simp add: pte_entry_def)
  next
    case False
    show ?thesis
    proof (cases "T (v div 1024)")
      case None
      then show ?thesis using False by (simp add: pte_entry_def)
    next
      case (Some q)
      have vm: "v mod 1024 < 1024" by simp
      note b = span4 [OF D(7,8) [OF Some] vm]
      have "ld32 (mm_mem s') (q + of_nat (4 * (v mod 1024))) = ld32 (mm_mem s1) (q + of_nat (4 * (v mod 1024)))"
        by (rule page_away [OF b(2,1)]) (use D(10,11) [OF Some] in blast)
      also have "\<dots> = ld32 (mm_mem s) (q + of_nat (4 * (v mod 1024)))"
        unfolding m1 using b(1) D(9) [OF Some] p(3) by (intro ld32_zero_page [OF b(2) p(1)]) auto
      finally show ?thesis using False Some by (simp add: pte_entry_def)
    qed
  qed
  have rs': "same_ram (mm_rs s') rs'"
    using fold rs(6,7) by (simp add: same_ram_def same_frame_def s1_def)
  have inv': "pt_inv G ?T s'"
    unfolding pt_inv_def F same_ram_rules [OF rs'] rs(2)
  proof (intro conjI allI impI ballI)
    fix g' q assume q: "?T g' = Some q"
    have "g' \<in> G \<and> 0x1000 dvd unat q \<and> unat q + 0x1000 < 2 ^ 32 \<and> span q 0x1000 \<inter> (free_ram (mm_rs s) - span p 0x1000) = {}
      \<and> (\<forall>d<ncpu s. span (cpu_L1 d s) 0x4000 \<inter> span q 0x1000 = {} \<and> span (cpu_L2 d s) 0x1000 \<inter> span q 0x1000 = {})"
    proof (cases "g' = grp va")
      case True
      then have "q = p" using q by simp
      then show ?thesis using True g p(1,2) apart by blast
    next
      case False
      then have Tq: "T g' = Some q" using q by simp
      show ?thesis using D(6-9) [OF Tq] D(10,11) [OF Tq] by blast
    qed
    then show "g' \<in> G" "0x1000 dvd unat q" "unat q + 0x1000 < 2 ^ 32" "span q 0x1000 \<inter> (free_ram (mm_rs s) - span p 0x1000) = {}"
      "\<And>d. d < ncpu s \<Longrightarrow> span (cpu_L1 d s) 0x4000 \<inter> span q 0x1000 = {}" "\<And>d. d < ncpu s \<Longrightarrow> span (cpu_L2 d s) 0x1000 \<inter> span q 0x1000 = {}"
      by blast+
  next
    fix g1 g2 q1 q2 assume q: "?T g1 = Some q1" "?T g2 = Some q2" "g1 \<noteq> g2"
    have pq: "span p 0x1000 \<inter> span r 0x1000 = {}" if "T h = Some r" for h r using D(9) [OF that] p(3) by blast
    show "span q1 0x1000 \<inter> span q2 0x1000 = {}"
    proof (cases "g1 = grp va \<or> g2 = grp va")
      case True
      then show ?thesis using q pq [of g1 q1] pq [of g2 q2] by auto
    next
      case False
      then show ?thesis using q D(12) [of g1 q1 g2 q2] by simp
    qed
  next
    fix g' d assume g': "g' \<in> G" and d: "d < ncpu s"
    show "case ?T g' of None \<Rightarrow> ld32 (mm_mem s') (l1_entry d g' 0 s) AND 3 = 0
        | Some q \<Rightarrow> \<forall>i<4. ld32 (mm_mem s') (l1_entry d g' i s) = (q + of_nat (1024 * i)) OR l1_pgtable (the_pte s)"
      using set [OF d] entries [OF d g'] D(14) [OF g' d] D(15) [OF _ d]
      by (cases "g' = grp va") (auto split: option.splits)
  qed (use D(1,2,4,5,13) rs(1) in auto)
  show ?thesis
    using pt f inv' old can_alloc_same [OF rs' _ rs(3)] rs(1) by (intro exI [of _ p] exI [of _ s']) (simp add: ram_alloc_ok_def)
qed

lemma page_span:
  assumes "0x1000 dvd unat q" "unat q + 0x1000 < 2 ^ 32" "n < 1024"
  shows "unat (q + of_nat (4 * n)) \<in> span q 0x1000" "al4 (q + of_nat (4 * n))" "unat (q + of_nat (4 * n)) = unat q + 4 * n"
proof -
  have n: "4 * n < 0x1000" using assms(3) by simp
  show "unat (q + of_nat (4 * n)) \<in> span q 0x1000" by (rule in_span [OF assms(2) n])
  have l: "unat q + 4 * n < 2 ^ 32" using assms(2) n by linarith
  then show "al4 (q + of_nat (4 * n))" by (intro al4_add page_al4 [OF assms(1)]) simp_all
  show "unat (q + of_nat (4 * n)) = unat q + 4 * n" by (rule unat_add_nat [OF l])
qed

lemma pt_inv_write:
  assumes inv: "pt_inv G T s" and fr: "same_frame s s'" "ram_list (mm_rs s') = ram_list (mm_rs s)"
    and same: "\<And>b d. al4 b \<Longrightarrow> d < ncpu s \<Longrightarrow> unat b \<in> span (cpu_L1 d s) 0x4000 \<Longrightarrow> ld32 (mm_mem s') b = ld32 (mm_mem s) b"
  shows "pt_inv G T s'"
proof -
  note F = same_frameD [OF fr(1)] l1_entry_frame [OF fr(1)] tables_ok_frame [OF fr(1)]
  have r: "same_ram (mm_rs s') (mm_rs s)" using fr by (simp add: same_ram_def same_frame_def)
  have "ld32 (mm_mem s') (l1_entry d g i s) = ld32 (mm_mem s) (l1_entry d g i s)" if "d < ncpu s" "g \<in> G" "i < 4" for d g i
    using l1_entry [OF pt_invD(1) [OF inv] that(1) pt_invD(13) [OF inv that(2)] that(3)] same [OF _ that(1)] by blast
  then show ?thesis
    using inv unfolding pt_inv_def F same_ram_rules [OF r] by (auto split: option.splits)
qed

lemma put_ptes_inv:
  fixes pa :: u32 and n :: nat
  assumes inv: "pt_inv G T s" and T: "T g = Some q" and i: "i < 1024"
  defines "s' \<equiv> snd (put_ptes n i (q + 4 * of_nat i) pa s)"
  shows "pt_inv G T s'" "same_frame s s'" "same_ram (mm_rs s') (mm_rs s)"
    "pte_entry T s' x = (if x div 1024 = g \<and> i \<le> x mod 1024 \<and> x mod 1024 < i + min n (1024 - i)
       then pa + of_nat (0x1000 * (x mod 1024 - i)) else pte_entry T s x)"
proof -
  note D = pt_invD [OF inv]
  note q = D(7,8) [OF T]
  have a: "q + 4 * of_nat i = q + of_nat (4 * i)" by simp
  have pte: "al4 (q + of_nat (4 * i))" "unat (q + of_nat (4 * i)) = unat q + 4 * i" using page_span [OF q i] by simp_all
  have lim: "unat (q + of_nat (4 * i)) + 4 * min n (1024 - i) \<le> 2 ^ 32"
  proof -
    have "4 * i + 4 * min n (1024 - i) \<le> 0x1000" using i by simp
    then show ?thesis unfolding pte(2) using q(2) by linarith
  qed
  have at: "q + of_nat (4 * i) + of_nat (4 * j) = q + of_nat (4 * (i + j))" for j by (simp add: algebra_simps)
  have fr: "same_frame s s'" "ram_list (mm_rs s') = ram_list (mm_rs s)" using put_ptes_frame by (simp_all add: s'_def)
  then show "same_frame s s'" "same_ram (mm_rs s') (mm_rs s)" by (simp_all add: same_ram_def same_frame_def)
  have other: "ld32 (mm_mem s') b = ld32 (mm_mem s) b"
    if "al4 b" "\<And>j. j < min n (1024 - i) \<Longrightarrow> b \<noteq> q + of_nat (4 * (i + j))" for b
    unfolding s'_def a using that(2) by (intro put_ptes_other [OF pte(1) lim that(1)]) (simp only: at, blast)
  have inq: "unat (q + of_nat (4 * (i + j))) \<in> span q 0x1000" if "j < min n (1024 - i)" for j
    using that i by (intro page_span(1) [OF q]) linarith
  have outside: "ld32 (mm_mem s') b = ld32 (mm_mem s) b" if "al4 b" "unat b \<notin> span q 0x1000" for b
    using that inq by (intro other) auto
  show "pt_inv G T s'"
    using D(10) [OF T] by (intro pt_inv_write [OF inv fr] outside) blast+
  show "pte_entry T s' x = (if x div 1024 = g \<and> i \<le> x mod 1024 \<and> x mod 1024 < i + min n (1024 - i)
       then pa + of_nat (0x1000 * (x mod 1024 - i)) else pte_entry T s x)"
  proof (cases "x div 1024 = g \<and> i \<le> x mod 1024 \<and> x mod 1024 < i + min n (1024 - i)")
    case True
    then have j: "x mod 1024 - i < min n (1024 - i)" "i + (x mod 1024 - i) = x mod 1024" by linarith+
    have "ld32 (mm_mem s') (q + of_nat (4 * i) + of_nat (4 * (x mod 1024 - i))) = pa + of_nat (0x1000 * (x mod 1024 - i))"
      unfolding s'_def a by (rule put_ptes_at [OF pte(1) lim j(1)])
    then show ?thesis unfolding at j(2) using True T by (simp add: pte_entry_def)
  next
    case False
    have "pte_entry T s' x = pte_entry T s x"
    proof (cases "T (x div 1024)")
      case (Some p)
      have xm: "x mod 1024 < 1024" by simp
      note b = page_span [OF D(7,8) [OF Some] xm]
      have "ld32 (mm_mem s') (p + of_nat (4 * (x mod 1024))) = ld32 (mm_mem s) (p + of_nat (4 * (x mod 1024)))"
      proof (cases "x div 1024 = g")
        case True
        then have p: "p = q" using Some T by simp
        have "x mod 1024 \<noteq> i + j" if "j < min n (1024 - i)" for j using False True that by linarith
        moreover have "unat (q + of_nat (4 * (i + j))) = unat q + 4 * (i + j)" if "j < min n (1024 - i)" for j
          using that i by (intro page_span(3) [OF q]) linarith
        ultimately show ?thesis using b p by (intro other [OF b(2)]) (metis add_left_cancel mult_cancel1 zero_neq_numeral)
      next
        case False
        then show ?thesis using b D(12) [OF Some T] by (intro outside [OF b(2)]) blast
      qed
      then show ?thesis using Some by (simp add: pte_entry_def)
    qed (simp add: pte_entry_def)
    then show ?thesis using False by (simp only: if_False)
  qed
qed

section \<open>Mapping a range\<close>

text \<open>Enough memory to map pages \<open>v\<close> up to \<open>v + n\<close>: the groups have their tables, or there is a page for each.\<close>

definition enough :: "nat \<Rightarrow> nat \<Rightarrow> (nat \<Rightarrow> u32 option) \<Rightarrow> ram_state \<Rightarrow> bool" where
  "enough v n T rs \<longleftrightarrow> (\<forall>k<n. T ((v + k) div 1024) \<noteq> None) \<or> can_alloc (Suc ((v + n - 1) div 1024) - v div 1024) rs"

lemma can_alloc_less: "can_alloc (Suc k) rs \<Longrightarrow> can_alloc k rs"
  by (induction k arbitrary: rs) (auto split: option.splits)

lemma page_table_group:
  assumes inv: "pt_inv G T s" and c: "c < ncpu s" and g: "grp va \<in> G" and en: "T (grp va) \<noteq> None \<or> can_alloc (Suc k) (mm_rs s)"
  shows "\<exists>p s' T'. page_table (\<lambda>pt. map_ptbl pt va) (l1_entry c (grp va) 0 s) s = Inr (p, s') \<and> same_frame s s' \<and> pt_inv G T' s'
    \<and> T' = T(grp va \<mapsto> p) \<and> T \<subseteq>\<^sub>m T' \<and> (\<forall>v. pte_entry T' s' v = pte_entry T s v)
    \<and> (can_alloc (Suc k) (mm_rs s) \<longrightarrow> can_alloc k (mm_rs s'))"
proof (cases "T (grp va)")
  case None
  then show ?thesis
    using page_table_new [OF inv c None g, of k] en by (force simp: map_le_def)
next
  case (Some p)
  then have "T(grp va \<mapsto> p) = T" by (simp add: fun_upd_idem)
  then show ?thesis
    using page_table_found [OF inv c Some] inv same_frame_refl can_alloc_less
    by (intro exI [of _ p] exI [of _ s] exI [of _ T]) auto
qed

lemma map_pages_spec:
  assumes "pt_inv G T s" "c < ncpu s" "v = unat va div 0x1000" "v + n \<le> 2 ^ 20" "\<forall>k<n. (v + k) div 1024 \<in> G" "enough v n T (mm_rs s)"
  shows "\<exists>s' T'. map_pages n va pa (l1_entry c (v div 1024) 0 s) s = Inr s' \<and> same_frame s s' \<and> pt_inv G T' s' \<and> T \<subseteq>\<^sub>m T'
    \<and> (\<forall>k<n. T' ((v + k) div 1024) \<noteq> None)
    \<and> (\<forall>x. pte_entry T' s' x = (if v \<le> x \<and> x < v + n then pa + of_nat (0x1000 * (x - v)) else pte_entry T s x))"
  using assms
proof (induction n arbitrary: v va pa T s rule: less_induct)
  case (less n)
  show ?case
  proof (cases "n = 0")
    case True
    then show ?thesis
      using less.prems(1) same_frame_refl [of s]
      by (intro exI [of _ s] exI [of _ T]) (auto simp: map_pages.simps)
  next
    case False
    define i where "i = v mod 1024"
    define g where "g = v div 1024"
    define m where "m = min n (1024 - i)"
    have i: "i < 1024" "l2_index va = i" by (simp_all add: i_def l2_index_eq less.prems(3))
    have gv: "grp va = g" by (simp add: g_def less.prems(3) div_mult2_eq [symmetric])
    have vgi: "v = 1024 * g + i" by (simp add: g_def i_def)
    have m: "0 < m" "m \<le> n" "i + m \<le> 1024" "n - (1024 - i) = n - m" "n - (n - m) = m" using False i by (auto simp: m_def)
    have gG: "g \<in> G" using less.prems(5) False by (auto simp: g_def dest: spec [of _ 0])
    define N where "N = Suc ((v + n - 1) div 1024) - g"
    have N: "N = Suc (N - 1)" using False div_le_mono [of v "v + n - 1" 1024] by (simp add: N_def g_def)
    have "T g \<noteq> None \<or> can_alloc (Suc (N - 1)) (mm_rs s)"
    proof (cases "T g = None")
      case True
      then have "\<not> (\<forall>k<n. T ((v + k) div 1024) \<noteq> None)" using False by (auto simp: g_def intro!: exI [of _ 0])
      then show ?thesis using less.prems(6) unfolding enough_def g_def [symmetric] N_def [symmetric] N [symmetric] by blast
    qed simp
    from page_table_group [where va = va and k = "N - 1", OF less.prems(1,2), unfolded gv, OF gG this]
    obtain p s1 T1 where grp: "page_table (\<lambda>pt. map_ptbl pt va) (l1_entry c g 0 s) s = Inr (p, s1) \<and> same_frame s s1 \<and> pt_inv G T1 s1
      \<and> T1 = T(g \<mapsto> p) \<and> T \<subseteq>\<^sub>m T1 \<and> (\<forall>v. pte_entry T1 s1 v = pte_entry T s v)
      \<and> (can_alloc (Suc (N - 1)) (mm_rs s) \<longrightarrow> can_alloc (N - 1) (mm_rs s1))" by (elim exE)
    then have pt: "page_table (\<lambda>pt. map_ptbl pt va) (l1_entry c g 0 s) s = Inr (p, s1)" and f1: "same_frame s s1"
      and inv1: "pt_inv G T1 s1" and T1: "T1 = T(g \<mapsto> p)" "T \<subseteq>\<^sub>m T1" and e1: "\<forall>v. pte_entry T1 s1 v = pte_entry T s v"
      and can1: "can_alloc (Suc (N - 1)) (mm_rs s) \<longrightarrow> can_alloc (N - 1) (mm_rs s1)"
      by blast+
    have Tg: "T1 g = Some p" by (simp add: T1)
    define s2 where "s2 = snd (put_ptes n i (p + 4 * of_nat i) pa s1)"
    note put = put_ptes_inv [OF inv1 Tg i(1), where n = n and pa = pa, folded s2_def]
    have pp: "put_ptes n i (p + 4 * of_nat i) pa s1 = (n - m, s2)"
      using put_ptes_frame [of s1 n i "p + 4 * of_nat i" pa] m(4) by (simp add: s2_def prod_eq_iff)
    have f2: "same_frame s s2" using same_frame_trans [OF f1 put(2)] .
    have e2: "pte_entry T1 s2 x = (if v \<le> x \<and> x < v + m then pa + of_nat (0x1000 * (x - v)) else pte_entry T s x)" for x
    proof -
      have "(x div 1024 = g \<and> i \<le> x mod 1024 \<and> x mod 1024 < i + m) = (v \<le> x \<and> x < v + m)"
      proof -
        have "(a = g \<and> i \<le> b \<and> b < i + m) = (1024 * g + i \<le> 1024 * a + b \<and> 1024 * a + b < 1024 * g + i + m)"
          if b: "b < 1024" for a b
        proof (cases a g rule: linorder_cases)
          case less
          then have "1024 * a + 1024 \<le> 1024 * g" by simp
          then show ?thesis using less b by linarith
        next
          case equal
          then show ?thesis by auto
        next
          case greater
          then have "1024 * g + 1024 \<le> 1024 * a" by simp
          then show ?thesis using greater m(3) by linarith
        qed
        from this [of "x mod 1024" "x div 1024"] show ?thesis unfolding vgi by simp
      qed
      moreover have "x div 1024 = g \<Longrightarrow> x mod 1024 - i = x - v" 
        using div_mult_mod_eq [of x 1024] unfolding vgi by linarith
      ultimately show ?thesis using put(4) [of x] e1 unfolding m_def [symmetric] by (cases "v \<le> x \<and> x < v + m") auto
    qed
    have step: "map_pages n va pa (l1_entry c (v div 1024) 0 s) s =
        map_pages (n - m) (va + 0x1000 * of_nat m) (pa + 0x1000 * of_nat m) (l1_entry c (v div 1024) 0 s + 16) s2"
      using False pt pp m(5) unfolding g_def [symmetric] by (subst map_pages.simps) (simp add: i(2))
    show ?thesis
    proof (cases "n - m = 0")
      case True
      then have mn: "m = n" using m(2) by simp
      have "v + k < v + n \<Longrightarrow> (v + k) div 1024 = g" for k
        using m(3) unfolding vgi mn by simp
      then have "\<forall>k<n. T1 ((v + k) div 1024) \<noteq> None" using Tg by auto
      then show ?thesis
        using step put(1) f2 T1(2) e2 unfolding True mn by (intro exI [of _ s2] exI [of _ T1]) (auto simp: map_pages.simps)
    next
      case False
      then have mi: "m = 1024 - i" by (auto simp: m_def min_def split: if_splits)
      then have vm: "v + m = 1024 * (g + 1)" using i(1) by (simp add: vgi)
      then have vmg: "(v + m) div 1024 = g + 1" by simp
      have ua: "unat (va + of_nat (0x1000 * m)) = unat va + 0x1000 * m"
      proof -
        have "unat va < 0x1000 * (v + 1)" unfolding less.prems(3) by (simp add: dividend_less_div_times)
        moreover have "v + 1 + m \<le> 2 ^ 20" using less.prems(4) False by linarith
        then have "0x1000 * (v + 1) + 0x1000 * m \<le> 0x1000 * 2 ^ 20" by simp
        ultimately show ?thesis by (intro unat_add_nat) simp
      qed
      have va': "v + m = unat (va + 0x1000 * of_nat m) div 0x1000" using ua less.prems(3) by simp
      have l1: "l1_entry c (v div 1024) 0 s + 16 = l1_entry c ((v + m) div 1024) 0 s2"
        unfolding l1_entry_frame [OF f2] vmg g_def [symmetric] by (simp add: l1_entry_def)
      have Gm: "\<forall>k<n - m. (v + m + k) div 1024 \<in> G" using less.prems(5) by (auto simp: add.assoc)
      have "enough (v + m) (n - m) T1 (mm_rs s2)"
      proof (cases "can_alloc N (mm_rs s)")
        case True
        then have "can_alloc (N - 1) (mm_rs s1)" using can1 N by simp
        moreover have "\<not> sysram_added (mm_rs s1)" using pt_invD(3) [OF inv1] by (simp add: ram_alloc_ok_def)
        ultimately have "can_alloc (N - 1) (mm_rs s2)" using can_alloc_same [OF put(3)] by simp
        moreover have "v + m + (n - m) = v + n" using m(2) by simp
        ultimately show ?thesis unfolding enough_def vmg by (simp add: N_def)
      next
        case False
        then have "\<forall>k<n. T ((v + k) div 1024) \<noteq> None"
          using less.prems(6) unfolding enough_def N_def g_def by blast
        then have "\<forall>k<n - m. T ((v + m + k) div 1024) \<noteq> None" by (auto simp: add.assoc)
        then show ?thesis unfolding enough_def T1(1) by simp
      qed
      from less.IH [OF _ put(1) _ va' _ Gm this, of "pa + 0x1000 * of_nat m"]
      obtain s3 T3 where ih: "map_pages (n - m) (va + 0x1000 * of_nat m) (pa + 0x1000 * of_nat m) (l1_entry c ((v + m) div 1024) 0 s2) s2 = Inr s3"
        "same_frame s2 s3" "pt_inv G T3 s3" "T1 \<subseteq>\<^sub>m T3" "\<forall>k<n - m. T3 ((v + m + k) div 1024) \<noteq> None"
        "\<forall>x. pte_entry T3 s3 x = (if v + m \<le> x \<and> x < v + m + (n - m) then pa + 0x1000 * of_nat m + of_nat (0x1000 * (x - (v + m))) else pte_entry T1 s2 x)"
        using m less.prems(2,4) same_frameD(5) [OF f2] False by auto
      have "T3 ((v + k) div 1024) \<noteq> None" if "k < n" for k
      proof (cases "k < m")
        case True
        then have "(v + k) div 1024 = g" using m(3) by (simp add: vgi)
        then show ?thesis using Tg ih(4) by (auto simp: map_le_def dom_def)
      next
        case False
        then show ?thesis using ih(5) that by (auto dest: spec [of _ "k - m"])
      qed
      moreover have "pte_entry T3 s3 x = (if v \<le> x \<and> x < v + n then pa + of_nat (0x1000 * (x - v)) else pte_entry T s x)" for x
      proof -
        have "v + m \<le> x \<Longrightarrow> pa + 0x1000 * of_nat m + of_nat (0x1000 * (x - (v + m))) = pa + of_nat (0x1000 * (x - v))"
        proof -
          assume x: "v + m \<le> x"
          have "pa + of_nat (0x1000 * m) + of_nat (0x1000 * (x - (v + m))) = pa + of_nat (0x1000 * (m + (x - (v + m))))"
            by (simp only: of_nat_add [symmetric] add.assoc distrib_left)
          then show ?thesis using x by simp
        qed
        then show ?thesis using ih(6) e2 [of x] m(2) by auto
      qed
      ultimately show ?thesis
        using step ih(1-3) l1 same_frame_trans [OF f2] map_le_trans [OF T1(2) ih(4)]
        by (intro exI [of _ s3] exI [of _ T3]) simp
    qed
  qed
qed

lemma arm_map_cpus:
  assumes "pt_inv G T s" "set ks \<subseteq> {..<ncpu s}" "v = unat va div 0x1000" "v + n \<le> 2 ^ 20" "\<forall>k<n. (v + k) div 1024 \<in> G" "enough v n T (mm_rs s)"
  shows "\<exists>s' T'. for_cpus (\<lambda>cpu s. map_pages n va pa (cpu_L1 cpu s + push_bit 2 (drop_bit 20 va AND NOT 3)) s) ks s = Inr s'
    \<and> same_frame s s' \<and> pt_inv G T' s' \<and> T \<subseteq>\<^sub>m T' \<and> (ks \<noteq> [] \<longrightarrow> (\<forall>k<n. T' ((v + k) div 1024) \<noteq> None))
    \<and> (\<forall>x. pte_entry T' s' x = (if ks \<noteq> [] \<and> v \<le> x \<and> x < v + n then pa + of_nat (0x1000 * (x - v)) else pte_entry T s x))"
  using assms
proof (induction ks arbitrary: T s)
  case Nil
  then show ?case using same_frame_refl by (intro exI [of _ s] exI [of _ T]) simp
next
  case (Cons c ks)
  have gv: "grp va = v div 1024" by (simp add: Cons.prems(3) div_mult2_eq [symmetric])
  have ptp: "cpu_L1 c s + push_bit 2 (drop_bit 20 va AND NOT 3) = l1_entry c (v div 1024) 0 s"
    unfolding ptp_offset gv by (simp add: l1_entry_def)
  obtain s1 T1 where one: "map_pages n va pa (l1_entry c (v div 1024) 0 s) s = Inr s1" "same_frame s s1" "pt_inv G T1 s1" "T \<subseteq>\<^sub>m T1"
    "\<forall>k<n. T1 ((v + k) div 1024) \<noteq> None"
    "\<forall>x. pte_entry T1 s1 x = (if v \<le> x \<and> x < v + n then pa + of_nat (0x1000 * (x - v)) else pte_entry T s x)"
    using map_pages_spec [OF Cons.prems(1) _ Cons.prems(3-6), of c pa] Cons.prems(2) by auto
  have "enough v n T1 (mm_rs s1)" using one(5) by (simp add: enough_def)
  moreover have "set ks \<subseteq> {..<ncpu s1}" using Cons.prems(2) same_frameD(5) [OF one(2)] by simp
  ultimately obtain s2 T2 where two:
    "for_cpus (\<lambda>cpu s. map_pages n va pa (cpu_L1 cpu s + push_bit 2 (drop_bit 20 va AND NOT 3)) s) ks s1 = Inr s2"
    "same_frame s1 s2" "pt_inv G T2 s2" "T1 \<subseteq>\<^sub>m T2" "ks \<noteq> [] \<longrightarrow> (\<forall>k<n. T2 ((v + k) div 1024) \<noteq> None)"
    "\<forall>x. pte_entry T2 s2 x = (if ks \<noteq> [] \<and> v \<le> x \<and> x < v + n then pa + of_nat (0x1000 * (x - v)) else pte_entry T1 s1 x)"
    using Cons.IH [OF one(3) _ Cons.prems(3-5)] by blast
  have "\<forall>k<n. T2 ((v + k) div 1024) \<noteq> None"
    using one(5) two(4) unfolding map_le_def dom_def by (metis (mono_tags, lifting) mem_Collect_eq)
  then show ?case
    using one(1,6) two same_frame_trans [OF one(2) two(2)] map_le_trans [OF one(4) two(4)] ptp
    by (intro exI [of _ s2] exI [of _ T2]) simp
qed

section \<open>The translation of the processor\<close>

text \<open>
  The table walk of the architecture: a section, or a small page through a page table; everything
  else faults.
\<close>

definition arm_walk :: "mmu \<Rightarrow> nat \<Rightarrow> u32 \<Rightarrow> u32 option" where
  "arm_walk s cpu va =
     (let e = ld32 (mm_mem s) (cpu_L1 cpu s + push_bit 2 (drop_bit 20 va))
      in if e AND 3 = 2 then Some ((e AND NOT 0xfffff) + (va AND 0xfffff))
         else if e AND 3 = 1
         then (let d = ld32 (mm_mem s) ((e AND NOT 0x3ff) + push_bit 2 (drop_bit 12 va AND 0xff))
               in if d AND 2 = 2 then Some ((d AND NOT 0xfff) + (va AND 0xfff)) else None)
         else None)"

subsection \<open>Bits of a descriptor\<close>

lemma hi_or: "f AND M = 0 \<Longrightarrow> (x OR f) AND M = x AND (M :: u32)"
  by (simp add: bit.conj_disj_distrib2)

lemma hi_and: "K AND M = 0 \<Longrightarrow> (x AND K) AND M = (0 :: u32)"
  by (simp add: and.assoc)

lemma hi_andn:
  assumes "m AND M = 0"
  shows "(x AND NOT m) AND M = x AND (M :: u32)"
proof (rule bit_word_eqI)
  fix n
  have "\<not> bit (m AND M) n" by (simp add: assms)
  then show "bit ((x AND NOT m) AND M) n = bit (x AND M) n" if "n < LENGTH(32)"
    using that by (auto simp: bit_and_iff bit_not_iff)
qed

lemma lo_or:
  assumes "f AND M = (M :: u32)"
  shows "(x OR f) AND M = M" "(f OR x) AND M = M"
proof -
  have f: "bit f n" if "bit M n" for n
    using that arg_cong [OF assms, of "\<lambda>w. bit w n"] by (simp add: bit_and_iff)
  show "(x OR f) AND M = M" "(f OR x) AND M = M"
    by (rule bit_word_eqI, use f in \<open>auto simp: bit_and_iff bit_or_iff\<close>)+
qed

lemma and_split: "(x AND m) + (x AND NOT m) = (x :: u32)"
proof -
  have "(x AND m) + (x AND NOT m) = (x AND m) OR (x AND NOT m)"
    by (rule disjunctive_add) (simp add: bit_and_iff bit_not_iff)
  then show ?thesis by (simp flip: bit.conj_disj_distrib)
qed

lemma unat_take12: "unat (take_bit 12 (x :: u32)) = unat x mod 4096"
proof -
  have "unat (take_bit 12 x) = take_bit 12 (unat x)" by (simp only: unsigned_take_bit_eq)
  then show ?thesis by (simp add: take_bit_eq_mod)
qed

lemma take_bit_low: "take_bit 12 (x + 0x1000 * k) = take_bit 12 (x :: u32)"
proof -
  have d: "(4096 :: nat) dvd 2 ^ 32" by simp
  have "unat (x + 0x1000 * k) = (unat x + (4096 * unat k) mod 2 ^ 32) mod 2 ^ 32" by (simp add: unat_word_ariths)
  then have "unat (x + 0x1000 * k) mod 4096 = (unat x + (4096 * unat k) mod 2 ^ 32) mod 4096"
    by (simp only: mod_mod_cancel [OF d])
  also have "\<dots> = (unat x + (4096 * unat k) mod 2 ^ 32 mod 4096) mod 4096" by (simp only: mod_add_right_eq)
  also have "\<dots> = (unat x + (4096 * unat k) mod 4096) mod 4096" by (simp only: mod_mod_cancel [OF d])
  also have "\<dots> = unat x mod 4096" by simp
  finally show ?thesis unfolding word_unat_eq_iff unat_take12 .
qed

lemma and_low12: "x AND 0xfff = take_bit 12 (x :: u32)"
proof -
  have m: "mask 12 = (0xfff :: u32)" by (simp add: mask_eq_exp_minus_1)
  show ?thesis unfolding take_bit_eq_mask m ..
qed

lemma add_pages:
  "(x + 0x1000 * k) AND 0xfff = x AND (0xfff :: u32)" "(x + 0x1000 * k) AND NOT 0xfff = (x AND NOT 0xfff) + 0x1000 * (k :: u32)"
proof -
  show l: "(x + 0x1000 * k) AND 0xfff = x AND (0xfff :: u32)" by (simp only: and_low12 take_bit_low)
  have "(x + 0x1000 * k) AND NOT 0xfff = (x + 0x1000 * k) - ((x + 0x1000 * k) AND 0xfff)"
    using and_split [of "x + 0x1000 * k" "0xfff"] by (metis add_diff_cancel_left')
  also have "\<dots> = (x - (x AND 0xfff)) + 0x1000 * k" unfolding l by simp
  also have "x - (x AND 0xfff) = x AND NOT 0xfff" using and_split [of x "0xfff"] by (metis add_diff_cancel_left')
  finally show "(x + 0x1000 * k) AND NOT 0xfff = (x AND NOT 0xfff) + 0x1000 * k" .
qed

lemma set_prot_bits:
  assumes "pte_sane pte"
  shows "set_prot pte v6 pa flags AND NOT 0xfff = pa AND NOT 0xfff" "set_prot pte v6 pa flags AND 2 = 2"
proof -
  define H where "H = NOT (0xfff :: u32)"
  define B where "B = (2 :: u32)"
  have F: "upte_ro pte AND H = 0" "upte_rw pte AND H = 0" "kpte_ro pte AND H = 0" "kpte_rw pte AND H = 0" "mask_nc pte AND H = 0"
    "(ARM_PTE_V6_AP0 OR ARM_PTE_V6_nG) AND H = 0" "ARM_PTE_V6_SP_XN AND H = 0"
    "(ARM_PTE_V6_S OR ARM_PTE_V6_SP_TEX_MASK OR ARM_PTE_CB) AND H = 0" "(ARM_PTE_V5_SP_TEX_MASK OR ARM_PTE_CB) AND H = 0"
    using assms by (simp_all add: H_def pte_sane_def page_sane_def)
  have L: "upte_ro pte AND B = B" "upte_rw pte AND B = B" "kpte_ro pte AND B = B" "kpte_rw pte AND B = B" "mask_nc pte AND B = 0"
    "(ARM_PTE_V6_AP0 OR ARM_PTE_V6_nG) AND B = 0"
  proof -
    show "upte_ro pte AND B = B" "upte_rw pte AND B = B" "kpte_ro pte AND B = B" "kpte_rw pte AND B = B" "(ARM_PTE_V6_AP0 OR ARM_PTE_V6_nG) AND B = 0"
      using assms by (simp_all add: B_def pte_sane_def page_sane_def)
    have "mask_nc pte AND 3 = 0" using assms by (simp add: pte_sane_def)
    then show "mask_nc pte AND B = 0" by (rule and_sub) (simp add: B_def)
  qed
  have "set_prot pte v6 pa flags AND H = pa AND H"
    unfolding set_prot_def Let_def by (simp only: hi_or hi_andn hi_and F split: if_split) simp
  then show "set_prot pte v6 pa flags AND NOT 0xfff = pa AND NOT 0xfff" by (simp only: H_def)
  have "set_prot pte v6 pa flags AND B = B"
    unfolding set_prot_def Let_def by (simp only: lo_or hi_andn L split: if_split) simp
  then show "set_prot pte v6 pa flags AND 2 = 2" by (simp only: B_def)
qed

lemma sect_offset: "push_bit 2 (drop_bit 20 va) = (of_nat (16 * grp va + 4 * (unat va div 0x100000 mod 4)) :: u32)"
proof -
  have "unat va div 0x100000 < 4096" using unat_lt32 [of va] by (simp add: less_mult_imp_div_less)
  then have "unat (push_bit 2 (drop_bit 20 va)) = 4 * (unat va div 0x100000)"
    by (subst unat_push_bit_no_wrap) (simp_all add: unat_drop_bit)
  moreover have "grp va = unat va div 0x100000 div 4" by (simp add: div_mult2_eq [symmetric])
  then have "4 * (unat va div 0x100000) = 16 * grp va + 4 * (unat va div 0x100000 mod 4)"
    using div_mult_mod_eq [of "unat va div 0x100000" 4] by linarith
  ultimately show ?thesis by (metis of_nat_unat ucast_id)
qed

lemma small_offset: "push_bit 2 (drop_bit 12 va AND 0xff) = (of_nat (4 * (unat va div 0x1000 mod 256)) :: u32)"
proof -
  have m: "mask 8 = (0xff :: u32)" by (simp add: mask_eq_exp_minus_1)
  have "drop_bit 12 va AND 0xff = take_bit 8 (drop_bit 12 va)" unfolding take_bit_eq_mask m ..
  moreover have "unat (take_bit 8 (drop_bit 12 va)) = take_bit 8 (unat (drop_bit 12 va))" by (simp only: unsigned_take_bit_eq)
  moreover have "take_bit 8 (unat (drop_bit 12 va)) = unat va div 0x1000 mod 256" by (simp add: take_bit_eq_mod unat_drop_bit)
  ultimately have u: "unat (drop_bit 12 va AND 0xff) = unat va div 0x1000 mod 256" by (simp only:)
  have "unat (push_bit 2 (drop_bit 12 va AND 0xff)) = 4 * (unat va div 0x1000 mod 256)"
    by (subst unat_push_bit_no_wrap) (simp_all only: u, simp_all)
  then show ?thesis by (metis of_nat_unat ucast_id)
qed

text \<open>A table of 256 entries within the page of four.\<close>

lemma quarter_ptp:
  assumes "0x1000 dvd unat p" "unat p + 0x1000 < 2 ^ 32" "i < 4" "l AND NOT 0x3ff = 0" "l AND 3 = (1 :: u32)"
  shows "((p + of_nat (1024 * i)) OR l) AND 3 = 1" "((p + of_nat (1024 * i)) OR l) AND NOT 0x3ff = p + of_nat (1024 * i)"
proof -
  let ?q = "p + of_nat (1024 * i)"
  have "unat ?q = unat p + 1024 * i" using assms(2,3) by (intro unat_add_nat) simp
  then have d: "unat ?q mod 1024 = 0" using assms(1) by (auto simp: dvd_def)
  have m: "mask 10 = (0x3ff :: u32)" by (simp add: mask_eq_exp_minus_1)
  have "?q AND 0x3ff = take_bit 10 ?q" unfolding take_bit_eq_mask m ..
  moreover have "unat (take_bit 10 ?q) = take_bit 10 (unat ?q)" by (simp only: unsigned_take_bit_eq)
  moreover have "take_bit 10 (unat ?q) = 0" unfolding take_bit_eq_mod using d by simp
  ultimately have z: "?q AND 0x3ff = 0" by (metis unat_eq_zero)
  have "?q AND 3 = 0" by (rule and_sub [OF z]) simp
  then show "(?q OR l) AND 3 = 1" using assms(5) by (simp add: bit.conj_disj_distrib2)
  have "?q AND NOT 0x3ff = ?q" using and_split [of ?q "0x3ff"] z by (metis add_0)
  then show "(?q OR l) AND NOT 0x3ff = ?q" unfolding hi_or [OF assms(4)] .
qed

lemma arm_walk_entry:
  assumes inv: "pt_inv G T s" and c: "c < ncpu s" and T: "T (grp va) = Some p"
  shows "arm_walk s c va =
    (let d = pte_entry T s (unat va div 0x1000) in if d AND 2 = 2 then Some ((d AND NOT 0xfff) + (va AND 0xfff)) else None)"
proof -
  note D = pt_invD [OF inv]
  define i where "i = unat va div 0x100000 mod 4"
  have i: "i < 4" by (simp add: i_def)
  have e: "ld32 (mm_mem s) (cpu_L1 c s + push_bit 2 (drop_bit 20 va)) = (p + of_nat (1024 * i)) OR l1_pgtable (the_pte s)"
    using D(15) [OF T c i] unfolding sect_offset i_def [symmetric] l1_entry_def .
  have l: "l1_pgtable (the_pte s) AND NOT 0x3ff = 0" "l1_pgtable (the_pte s) AND 3 = 1"
    using D(2) by (simp_all add: pte_sane_def)
  note q = quarter_ptp [OF D(7,8) [OF T] i l]
  have "unat va div 0x1000 mod 1024 = 256 * i + unat va div 0x1000 mod 256"
    using mod_mult2_eq [of "unat va div 0x1000" 256 4] by (simp add: i_def div_mult2_eq [symmetric])
  then have a: "p + of_nat (1024 * i) + of_nat (4 * (unat va div 0x1000 mod 256)) = p + of_nat (4 * (unat va div 0x1000 mod 1024))"
    by (simp add: algebra_simps)
  have g: "unat va div 0x1000 div 1024 = grp va" by (simp add: div_mult2_eq [symmetric])
  show ?thesis
    unfolding arm_walk_def Let_def e q small_offset a by (simp add: pte_entry_def g T)
qed

lemma pt_inv_next: "pt_inv G T (s\<lparr>mm_next := x\<rparr>) = pt_inv G T s"
proof -
  have c: "cpu_L1 c (s\<lparr>mm_next := x\<rparr>) = cpu_L1 c s" "cpu_L2 c (s\<lparr>mm_next := x\<rparr>) = cpu_L2 c s"
    "the_pte (s\<lparr>mm_next := x\<rparr>) = the_pte s" for c by (simp_all add: cpu_L1_def cpu_L2_def the_pte_def)
  have l: "l1_entry c g i (s\<lparr>mm_next := x\<rparr>) = l1_entry c g i s" for c g i
    unfolding l1_entry_def c ..
  have t: "tables_ok (s\<lparr>mm_next := x\<rparr>) = tables_ok s" by (simp add: tables_ok_def c)
  have r: "mm_rs (s\<lparr>mm_next := x\<rparr>) = mm_rs s" by simp
  show ?thesis unfolding pt_inv_def c l t r ..
qed

lemma page_offset:
  assumes "unat va div 0x1000 + n \<le> 2 ^ 20" "d < 0x1000 * n"
  shows "unat ((va AND NOT 0xfff) + of_nat d) div 0x1000 = unat va div 0x1000 + d div 0x1000"
    "((va AND NOT 0xfff) + of_nat d) AND 0xfff = (of_nat (d mod 0x1000) :: u32)"
proof -
  have t: "unat (va AND NOT 0xfff) = unat va div 0x1000 * 0x1000"
    using unat_TRUNC [of 12 va] by (simp add: TRUNC_def)
  have "0x1000 * (unat va div 0x1000 + n) \<le> 0x1000 * 2 ^ 20" using assms(1) by simp
  then have "unat va div 0x1000 * 0x1000 + d < 2 ^ 32" using assms(2) by simp
  then have u: "unat ((va AND NOT 0xfff) + of_nat d) = unat va div 0x1000 * 0x1000 + d"
    using unat_add_nat [of "va AND NOT 0xfff" d] unfolding t by blast
  then show "unat ((va AND NOT 0xfff) + of_nat d) div 0x1000 = unat va div 0x1000 + d div 0x1000" by simp
  have "unat (((va AND NOT 0xfff) + of_nat d) AND 0xfff) = d mod 0x1000"
    unfolding and_low12 unat_take12 u by simp
  then show "((va AND NOT 0xfff) + of_nat d) AND 0xfff = (of_nat (d mod 0x1000) :: u32)" by (metis of_nat_unat ucast_id)
qed

lemma mapped_page:
  assumes "sp AND NOT 0xfff = pa" "sp AND 2 = (2 :: u32)" "e = sp + of_nat (0x1000 * k)"
  shows "e AND 2 = 2" "(e AND NOT 0xfff) + of_nat r = pa + of_nat (0x1000 * k + r)"
proof -
  have e: "e = sp + 0x1000 * of_nat k" using assms(3) by simp
  have "e AND 2 = (e AND 0xfff) AND 2" by (simp add: and.assoc)
  also have "\<dots> = sp AND 2" unfolding e add_pages(1) by (simp add: and.assoc)
  finally show "e AND 2 = 2" using assms(2) by simp
  show "(e AND NOT 0xfff) + of_nat r = pa + of_nat (0x1000 * k + r)"
    unfolding e add_pages(2) assms(1) by simp
qed

text \<open>
  C2: \<open>arm_map\<close> returns, and then every processor's table walk takes every byte of the range to the
  byte at the same distance in physical memory; what was mapped through page tables before is mapped
  as before, and the invariant of the tables holds for the next call.
\<close>

theorem arm_map_translates:
  assumes virt: "mm_virtual s" and inv: "pt_inv G T s" and base: "base = (if vaddr = - 1 then mm_next s else vaddr)"
    and n: "n = unat (ROUND (len + (paddr AND 0xfff)) 0x1000) div 0x1000" and fit: "unat base div 0x1000 + n \<le> 2 ^ 20"
    and G: "\<forall>k<n. (unat base div 0x1000 + k) div 1024 \<in> G" and en: "enough (unat base div 0x1000) n T (mm_rs s)"
  shows "\<exists>s' T'. arm_map vaddr paddr len flags s = Inr (base + (paddr AND 0xfff), s') \<and> pt_inv G T' s' \<and>
    (\<forall>c<ncpu s. \<forall>d<0x1000 * n. arm_walk s' c ((base AND NOT 0xfff) + of_nat d) = Some ((paddr AND NOT 0xfff) + of_nat d)) \<and>
    (\<forall>c<ncpu s. \<forall>a. grp a \<in> dom T \<longrightarrow> unat a div 0x1000 \<notin> {unat base div 0x1000..<unat base div 0x1000 + n} \<longrightarrow>
       arm_walk s' c a = arm_walk s c a)"
proof -
  define v where "v = unat base div 0x1000"
  define s0 where "s0 = (if vaddr = - 1 then s\<lparr>mm_next := mm_next s + ROUND (len + (paddr AND 0xfff)) 0x1000\<rparr> else s)"
  define pa where "pa = set_prot (the_pte s) (av_v6_mmu (mm_v s)) (paddr AND NOT 0xfff) flags"
  have s0: "pt_inv G T s0" "ncpu s0 = ncpu s" "mm_rs s0 = mm_rs s" "the_pte s0 = the_pte s" "mm_v s0 = mm_v s"
    "pte_entry T s0 = pte_entry T s" "(vaddr = - 1 \<longrightarrow> s0 = s\<lparr>mm_next := mm_next s + ROUND (len + (paddr AND 0xfff)) 0x1000\<rparr>) \<and> (vaddr \<noteq> - 1 \<longrightarrow> s0 = s)"
    using inv by (auto simp: s0_def pt_inv_next the_pte_def pte_entry_def fun_eq_iff split: option.split)
  have sub: "set [0..<ncpu s] \<subseteq> {..<ncpu s0}" using s0(2) by auto
  have pr: "v + n \<le> 2 ^ 20" "\<forall>k<n. (v + k) div 1024 \<in> G" "enough v n T (mm_rs s0)"
    using fit G en unfolding v_def s0(3) by blast+
  note ex = arm_map_cpus [OF s0(1) sub v_def pr, where pa = pa, unfolded s0(6)]
  obtain s' T' where r: "for_cpus (\<lambda>cpu s. map_pages n base pa (cpu_L1 cpu s + push_bit 2 (drop_bit 20 base AND NOT 3)) s) [0..<ncpu s] s0 = Inr s'"
    "same_frame s0 s'" "pt_inv G T' s'" "T \<subseteq>\<^sub>m T'" "[0..<ncpu s] \<noteq> [] \<longrightarrow> (\<forall>k<n. T' ((v + k) div 1024) \<noteq> None)"
    "\<forall>x. pte_entry T' s' x = (if [0..<ncpu s] \<noteq> [] \<and> v \<le> x \<and> x < v + n then pa + of_nat (0x1000 * (x - v)) else pte_entry T s x)"
    using ex by blast
  have nc: "ncpu s' = ncpu s" using same_frameD(5) [OF r(2)] s0(2) by simp
  have "arm_map vaddr paddr len flags s = Inr (base + (paddr AND 0xfff), s')"
    using virt r(1) s0(2-5,7) unfolding arm_map_def Let_def base n pa_def
    by (cases "vaddr = - 1") simp_all
  moreover have "arm_walk s' c ((base AND NOT 0xfff) + of_nat d) = Some ((paddr AND NOT 0xfff) + of_nat d)"
    if c: "c < ncpu s" and d: "d < 0x1000 * n" for c d
  proof -
    let ?a = "(base AND NOT 0xfff) + of_nat d"
    note o = page_offset [OF fit d]
    have k: "d div 0x1000 < n" using d by (simp add: less_mult_imp_div_less mult.commute)
    have ne: "[0..<ncpu s] \<noteq> []" using c by simp
    have "grp ?a = (v + d div 0x1000) div 1024" using o(1) by (simp add: v_def div_mult2_eq [symmetric])
    then obtain p where p: "T' (grp ?a) = Some p" using r(5) ne k by auto
    have e: "pte_entry T' s' (unat ?a div 0x1000) = pa + of_nat (0x1000 * (d div 0x1000))"
      using r(6) ne k unfolding o(1) v_def [symmetric] by simp
    have sp: "pa AND NOT 0xfff = paddr AND NOT 0xfff" "pa AND 2 = 2"
      using set_prot_bits [OF pt_invD(2) [OF inv]] unfolding pa_def by (simp_all only: and.assoc and.idem)
    note m = mapped_page [OF sp e]
    have c': "c < ncpu s'" using c nc by simp
    show ?thesis
      unfolding arm_walk_entry [OF r(3) c' p] Let_def m(1) o(2) m(2) by (simp only: simp_thms if_True mult_div_mod_eq)
  qed
  moreover have "arm_walk s' c a = arm_walk s c a" if c: "c < ncpu s" and a: "grp a \<in> dom T" "unat a div 0x1000 \<notin> {v..<v + n}" for c a
  proof -
    obtain p where p: "T (grp a) = Some p" using a(1) by blast
    then have p': "T' (grp a) = Some p" using r(4) by (auto simp: map_le_def dom_def)
    have "pte_entry T' s' (unat a div 0x1000) = pte_entry T s (unat a div 0x1000)" using r(6) a(2) by auto
    then show ?thesis
      using arm_walk_entry [OF r(3) _ p', of c] arm_walk_entry [OF inv c p] c nc by simp
  qed
  ultimately show ?thesis using r(3) unfolding v_def by blast
qed


section \<open>An instance\<close>

definition mmu_ram_example :: ram_state where
  "mmu_ram_example = ram_example\<lparr>rs_st := as_example\<lparr>st_lsp := (st_lsp as_example)\<lparr>lsp_mem := (\<lambda>_. 0), sp_num_cpu := 2\<rparr>\<rparr>\<rparr>"

definition mmu_example :: mmu where
  "mmu_example =
     \<lparr>mm_rs = mmu_ram_example, mm_v = example_arm_vars\<lparr>av_chip := Some armv_chip_a9mp, av_pte := Some armv_pte_v7mp, av_v6_mmu := True\<rparr>,
      mm_L1 = 0x00100000, mm_L1v = 0, mm_L2 = 0x00108000, mm_next = ARM_STARTUP_BASE, mm_virtual = True, mm_base = 0, mm_size = 0,
      mm_segs = Some []\<rparr>"

lemma mmu_ram_example_same: "same_ram mmu_ram_example ram_example"
  by (simp add: mmu_ram_example_def same_ram_def)

lemma mmu_ram_example_can: "can_alloc 1 mmu_ram_example"
  using can_alloc_same [OF mmu_ram_example_same, of 1] ram_example_first by (simp add: ram_example_def)

lemma mmu_example_tables:
  "cpu_L1 0 mmu_example = 0x00100000" "cpu_L1 1 mmu_example = 0x00104000" "cpu_L1 (Suc 0) mmu_example = 0x00104000"
  "cpu_L2 0 mmu_example = 0x00108000" "cpu_L2 1 mmu_example = 0x00109000" "cpu_L2 (Suc 0) mmu_example = 0x00109000"
  by (simp_all add: mmu_example_def cpu_L1_def cpu_L2_def)

lemma mmu_example_ncpu: "ncpu mmu_example = 2"
  by (simp add: mmu_example_def mmu_ram_example_def)

lemma less_two: "(\<forall>c<(2 :: nat). P c) = (P 0 \<and> P (Suc 0))"
  by (auto simp: less_2_cases_iff)

lemma mmu_example_inv: "pt_inv {0..<1024} (\<lambda>_. None) mmu_example"
proof -
  have "tables_ok mmu_example"
    unfolding tables_ok_def mmu_example_ncpu less_two mmu_example_tables by (simp add: al4_def span_def)
  moreover have "pte_sane (the_pte mmu_example)"
    using armv_ptes_sane by (simp add: armv_ptes_def mmu_example_def the_pte_def)
  moreover have r: "mm_rs mmu_example = mmu_ram_example" "mm_mem mmu_example = (\<lambda>_. 0)"
    by (simp_all add: mmu_example_def mmu_ram_example_def)
  moreover have "ram_alloc_ok mmu_ram_example"
    using same_ram_rules(1) [OF mmu_ram_example_same] ram_example_ok by simp
  moreover have "free_ram mmu_ram_example \<subseteq> {0x10000000..<0x20000000}"
    unfolding same_ram_rules(2) [OF mmu_ram_example_same] by (auto simp: free_ram_def ram_example_def)
  moreover from this have "span (0x00100000) 0x4000 \<inter> free_ram mmu_ram_example = {}" "span (0x00104000) 0x4000 \<inter> free_ram mmu_ram_example = {}"
    "span (0x00108000) 0x1000 \<inter> free_ram mmu_ram_example = {}" "span (0x00109000) 0x1000 \<inter> free_ram mmu_ram_example = {}"
    by (auto simp: span_def)
  moreover from this have "\<forall>c<2. span (cpu_L1 c mmu_example) 0x4000 \<inter> free_ram mmu_ram_example = {} \<and> span (cpu_L2 c mmu_example) 0x1000 \<inter> free_ram mmu_ram_example = {}"
    unfolding less_two mmu_example_tables by simp
  moreover have "ld32 (\<lambda>_. 0) a = 0" for a by (simp add: ld32_def word_at_def upt_rec)
  moreover note mmu_example_ncpu [unfolded r(1)]
  ultimately show ?thesis unfolding pt_inv_def r by simp
qed

theorem arm_map_translates_witness:
  "\<exists>s'. arm_map 0xfc400000 0x02020040 0x2000 (ARM_PTE_RW OR 0) mmu_example = Inr (0xfc400040, s') \<and>
    arm_walk s' 0 0xfc402008 = Some 0x02022008 \<and> arm_walk s' 1 0xfc402008 = Some 0x02022008"
proof -
  have n: "3 = unat (ROUND (0x2000 + ((0x02020040 :: u32) AND 0xfff)) 0x1000) div 0x1000" by (simp add: ROUND_def TRUNC_def)
  have en: "enough (unat (0xfc400000 :: u32) div 0x1000) 3 (\<lambda>_. None) (mm_rs mmu_example)"
    using mmu_ram_example_can by (simp add: enough_def mmu_example_def)
  have v: "mm_virtual mmu_example" by (simp add: mmu_example_def)
  have G: "\<forall>k<3. (unat (0xfc400000 :: u32) div 0x1000 + k) div 1024 \<in> {0..<1024}" by auto
  obtain s' where m: "arm_map 0xfc400000 0x02020040 0x2000 (ARM_PTE_RW OR 0) mmu_example = Inr (0xfc400000 + (0x02020040 AND 0xfff), s')"
    and w: "\<forall>c<2. \<forall>d<0x1000 * 3. arm_walk s' c ((0xfc400000 AND NOT 0xfff) + of_nat d) = Some ((0x02020040 AND NOT 0xfff) + of_nat d)"
    using arm_map_translates [OF v mmu_example_inv _ n _ G en, of "0xfc400000" "ARM_PTE_RW OR 0"] unfolding mmu_example_ncpu by auto
  have "arm_walk s' c 0xfc402008 = Some 0x02022008" if "c < 2" for c
    using w [rule_format, OF that, of "0x2008"] by simp
  then show ?thesis using m by simp
qed


section \<open>Mapping sections\<close>

definition sect_entry :: "nat \<Rightarrow> nat \<Rightarrow> mmu \<Rightarrow> u32" where
  "sect_entry c i s = cpu_L1 c s + of_nat (4 * i)"

lemma sc_offset: "push_bit 2 (drop_bit 20 va) = (of_nat (4 * (unat va div 0x100000)) :: u32)"
proof -
  have "16 * grp va + 4 * (unat va div 0x100000 mod 4) = 4 * (unat va div 0x100000)"
  proof -
    have "grp va = unat va div 0x100000 div 4" by (simp add: div_mult2_eq [symmetric])
    then show ?thesis using div_mult_mod_eq [of "unat va div 0x100000" 4] by linarith
  qed
  then show ?thesis unfolding sect_offset by (rule arg_cong)
qed

lemma sc_entry_eq: "sc_entry c va s = sect_entry c (unat va div 0x100000) s"
  unfolding sc_entry_def sect_entry_def sc_offset ..

lemma sect_entry_frame: "same_frame s s' \<Longrightarrow> sect_entry c i s' = sect_entry c i s"
  by (simp add: sect_entry_def same_frameD)

lemma sect_entry:
  assumes "tables_ok s" "c < ncpu s" "i < 4096"
  shows "al4 (sect_entry c i s)" "unat (sect_entry c i s) \<in> span (cpu_L1 c s) 0x4000"
    "unat (sect_entry c i s) = unat (cpu_L1 c s) + 4 * i"
proof -
  note t = tables_okD [OF assms(1,2)]
  have n: "4 * i < 0x4000" using assms(3) by simp
  then have "unat (cpu_L1 c s) + 4 * i < 2 ^ 32" using t(3) by linarith
  then show "al4 (sect_entry c i s)" "unat (sect_entry c i s) = unat (cpu_L1 c s) + 4 * i"
    unfolding sect_entry_def using al4_add [OF t(1), of "4 * i"] unat_add_nat [of "cpu_L1 c s" "4 * i"] by simp_all
  show "unat (sect_entry c i s) \<in> span (cpu_L1 c s) 0x4000"
    unfolding sect_entry_def by (rule in_span [OF t(3) n])
qed

lemma sect_entry_eq_iff:
  assumes "tables_ok s" "c < ncpu s" "i < 4096" "c' < ncpu s" "i' < 4096"
  shows "sect_entry c i s = sect_entry c' i' s \<longleftrightarrow> c = c' \<and> i = i'"
proof
  assume e: "sect_entry c i s = sect_entry c' i' s"
  show "c = c' \<and> i = i'"
  proof (cases "c = c'")
    case True
    have "unat (sect_entry c i s) = unat (sect_entry c i' s)" using e True by simp
    then show ?thesis
      using True unfolding sect_entry(3) [OF assms(1-3)] sect_entry(3) [OF assms(1,2,5)] by simp
  next
    case False
    from span_apart [OF sect_entry(2) [OF assms(1-3)] sect_entry(2) [OF assms(1,4,5)] tables_okD(6) [OF assms(1,2,4) False]] e
    show ?thesis by (rule notE)
  qed
qed simp

lemma fold_sections:
  assumes "tables_ok s" "set ks \<subseteq> {..<ncpu s}" "i < 4096" "i = unat va div 0x100000"
  shows "same_frame s (fold (\<lambda>c s. put (sc_entry c va s) x s) ks s) \<and>
    (\<forall>c<ncpu s. \<forall>j<4096. ld32 (mm_mem (fold (\<lambda>c s. put (sc_entry c va s) x s) ks s)) (sect_entry c j s) =
       (if c \<in> set ks \<and> j = i then x else ld32 (mm_mem s) (sect_entry c j s)))"
  using assms(1,2)
proof (induction ks arbitrary: s)
  case Nil
  then show ?case by (simp add: same_frame_refl)
next
  case (Cons k ks)
  let ?s = "put (sect_entry k i s) x s"
  have fr: "same_frame s ?s" by simp
  have k: "k < ncpu s" using Cons.prems by simp
  have one: "ld32 (mm_mem ?s) (sect_entry c j s) = (if c = k \<and> j = i then x else ld32 (mm_mem s) (sect_entry c j s))"
    if "c < ncpu s" "j < 4096" for c j
    unfolding put_simps(8) ld32_st32 [OF sect_entry(1) [OF Cons.prems(1) k assms(3)] sect_entry(1) [OF Cons.prems(1) that]]
      sect_entry_eq_iff [OF Cons.prems(1) that k assms(3)] by (rule refl)
  have ih: "same_frame ?s (fold (\<lambda>c s. put (sc_entry c va s) x s) ks ?s) \<and>
    (\<forall>c<ncpu s. \<forall>j<4096. ld32 (mm_mem (fold (\<lambda>c s. put (sc_entry c va s) x s) ks ?s)) (sect_entry c j s) =
       (if c \<in> set ks \<and> j = i then x else ld32 (mm_mem ?s) (sect_entry c j s)))"
    using Cons.IH [of ?s] Cons.prems
    unfolding same_frameD [OF fr] tables_ok_frame [OF fr] sect_entry_frame [OF fr] by simp
  have f: "fold (\<lambda>c s. put (sc_entry c va s) x s) (k # ks) s = fold (\<lambda>c s. put (sc_entry c va s) x s) ks ?s"
    by (simp add: sc_entry_eq assms(4))
  show ?case
    unfolding f using ih one same_frame_trans [OF fr] by auto
qed

text \<open>The section descriptor that \<open>arm_scmap\<close> adds to the address.\<close>

definition sect_prot :: "u32 \<Rightarrow> armv_pte \<Rightarrow> u32" where
  "sect_prot flags pte =
     (let prot = (if flags AND ARM_PTE_RW \<noteq> 0 then kscn_rw pte else kscn_ro pte)
      in if flags AND ARM_PTE_CB \<noteq> 0 then prot OR kscn_cb pte else prot)"

lemma sect_prot_bits:
  assumes "pte_sane pte"
  shows "sect_prot flags pte AND NOT 0xfffff = 0" "sect_prot flags pte AND 3 = 2"
  using assms by (simp_all add: sect_prot_def pte_sane_def Let_def)

lemma arm_scmap_spec:
  assumes "tables_ok s" "i = unat va div 0x100000"
  shows "same_frame s (arm_scmap va pa flags s) \<and>
    (\<forall>c<ncpu s. \<forall>j<4096. ld32 (mm_mem (arm_scmap va pa flags s)) (sect_entry c j s) =
       (if j = i then pa OR sect_prot flags (the_pte s) else ld32 (mm_mem s) (sect_entry c j s)))"
proof -
  have "i < 4096" unfolding assms(2) using unat_lt32 [of va] by (simp add: less_mult_imp_div_less)
  moreover have "set [0..<ncpu s] \<subseteq> {..<ncpu s}" by auto
  moreover have "arm_scmap va pa flags s = fold (\<lambda>c s. put (sc_entry c va s) (pa OR sect_prot flags p) s) [0..<ncpu s] s"
    if "p = the_pte s" for p
    using that by (simp add: arm_scmap_def sect_prot_def Let_def)
  ultimately show ?thesis
    using fold_sections [OF assms(1) _ _ assms(2), of "[0..<ncpu s]" "pa OR sect_prot flags (the_pte s)"] by simp
qed

lemma scmap_run_spec:
  assumes "tables_ok s" "0 < n \<longrightarrow> v = unat va div 0x100000" "v + n \<le> 4096"
  shows "same_frame s (scmap_run n va pa flags s) \<and>
    (\<forall>c<ncpu s. \<forall>j<4096. ld32 (mm_mem (scmap_run n va pa flags s)) (sect_entry c j s) =
       (if v \<le> j \<and> j < v + n then (pa + of_nat (0x100000 * (j - v))) OR sect_prot flags (the_pte s)
        else ld32 (mm_mem s) (sect_entry c j s)))"
  using assms
proof (induction n arbitrary: v va pa s)
  case 0
  then show ?case by (auto simp: same_frame_refl)
next
  case (Suc n)
  let ?s = "arm_scmap va pa flags s"
  have v: "v = unat va div 0x100000" using Suc.prems(2) by simp
  note one = arm_scmap_spec [OF Suc.prems(1) v, of pa flags]
  then have fr: "same_frame s ?s" by blast
  have nx: "0 < n \<longrightarrow> Suc v = unat (va + 0x100000) div 0x100000"
  proof
    assume "0 < n"
    then have "unat va div 0x100000 + 1 < 4096" using Suc.prems(3) v by linarith
    then have "unat va div 0x100000 < 4095" by simp
    then have "unat va < 4095 * 0x100000" by (simp only: div_less_iff_less_mult)
    then have "unat va + 0x100000 < 2 ^ 32" by simp
    then have "unat (va + 0x100000) = unat va + 0x100000" using unat_add_nat [of va "0x100000"] by simp
    then show "Suc v = unat (va + 0x100000) div 0x100000" by (simp add: v)
  qed
  have ih: "same_frame ?s (scmap_run n (va + 0x100000) (pa + 0x100000) flags ?s) \<and>
    (\<forall>c<ncpu s. \<forall>j<4096. ld32 (mm_mem (scmap_run n (va + 0x100000) (pa + 0x100000) flags ?s)) (sect_entry c j s) =
       (if Suc v \<le> j \<and> j < Suc v + n then (pa + 0x100000 + of_nat (0x100000 * (j - Suc v))) OR sect_prot flags (the_pte s)
        else ld32 (mm_mem ?s) (sect_entry c j s)))"
    using Suc.IH [of ?s "Suc v" "va + 0x100000" "pa + 0x100000"] Suc.prems nx
    unfolding same_frameD [OF fr] tables_ok_frame [OF fr] sect_entry_frame [OF fr] by simp
  have pa: "pa + 0x100000 + of_nat (0x100000 * (j - Suc v)) = pa + of_nat (0x100000 * (j - v))" if "Suc v \<le> j" for j
  proof -
    have "0x100000 * (j - v) = 0x100000 + 0x100000 * (j - Suc v)" using that by (simp add: algebra_simps)
    then show ?thesis by (simp only: of_nat_add) simp
  qed
  have "same_frame s (scmap_run (Suc n) va pa flags s)" using ih same_frame_trans [OF fr] by simp
  moreover have "ld32 (mm_mem (scmap_run (Suc n) va pa flags s)) (sect_entry c j s) =
       (if v \<le> j \<and> j < v + Suc n then (pa + of_nat (0x100000 * (j - v))) OR sect_prot flags (the_pte s)
        else ld32 (mm_mem s) (sect_entry c j s))" if "c < ncpu s" "j < 4096" for c j
    using ih one that pa by (cases "j = v") auto
  ultimately show ?case by blast
qed


lemma low20: "unat (a AND NOT 0xfffff) = unat (a :: u32) div 0x100000 * 0x100000" "unat (a AND 0xfffff) = unat a mod 0x100000"
proof -
  show "unat (a AND NOT 0xfffff) = unat a div 0x100000 * 0x100000"
    using unat_TRUNC [of 20 a] by (simp add: TRUNC_def)
  have m: "(0xfffff :: u32) = mask 20" by (simp add: mask_eq_exp_minus_1)
  have "unat (take_bit 20 a) = take_bit 20 (unat a)" by (simp only: unsigned_take_bit_eq)
  then show "unat (a AND 0xfffff) = unat a mod 0x100000" unfolding m take_bit_eq_mask [symmetric] take_bit_eq_mod by simp
qed

lemma low20_of_nat: "(of_nat (unat a mod 0x100000) :: u32) = a AND 0xfffff"
  unfolding low20(2) [symmetric] by simp

lemma sect_base_add:
  "((pa AND NOT 0xfffff) + of_nat (0x100000 * k)) AND NOT 0xfffff = (pa AND NOT 0xfffff) + (of_nat (0x100000 * k) :: u32)"
proof -
  let ?x = "(pa AND NOT 0xfffff) + of_nat (0x100000 * k) :: u32"
  have d: "0x100000 dvd unat (pa AND NOT 0xfffff) + 0x100000 * k" unfolding low20 by (simp add: dvd_add)
  have u: "unat (of_nat m :: u32) = m mod 2 ^ 32" "unat (a + b) = (unat a + unat b) mod 2 ^ 32" for m and a b :: u32
    by (simp_all add: unsigned_of_nat take_bit_eq_mod unat_word_ariths)
  have "unat ?x = (unat (pa AND NOT 0xfffff) + 0x100000 * k) mod 2 ^ 32"
    unfolding u mod_add_right_eq ..
  then have "0x100000 dvd unat ?x" using d by (simp add: dvd_mod)
  then have "unat (?x AND NOT 0xfffff) = unat ?x" unfolding low20 by simp
  then show ?thesis by (simp only: word_unat_eq_iff)
qed

text \<open>A translation through a section descriptor.\<close>

lemma arm_walk_section:
  assumes "pte_sane (the_pte s)"
    and e: "ld32 (mm_mem s) (sect_entry c (unat va div 0x100000) s) =
      ((pa AND NOT 0xfffff) + of_nat (0x100000 * k)) OR sect_prot flags (the_pte s)"
  shows "arm_walk s c va = Some ((pa AND NOT 0xfffff) + of_nat (0x100000 * k) + (va AND 0xfffff))"
proof -
  let ?b = "(pa AND NOT 0xfffff) + of_nat (0x100000 * k)"
  note b = sect_prot_bits [OF assms(1), of flags]
  have "?b AND 3 = (?b AND NOT 0xfffff) AND 3" unfolding sect_base_add ..
  also have "\<dots> = 0" by (simp add: and.assoc)
  finally have "(?b OR sect_prot flags (the_pte s)) AND 3 = 2" using b(2) by (simp add: bit.conj_disj_distrib2)
  moreover have "(?b OR sect_prot flags (the_pte s)) AND NOT 0xfffff = ?b"
    unfolding hi_or [OF b(1)] by (rule sect_base_add)
  ultimately show ?thesis
    unfolding arm_walk_def Let_def sc_offset sect_entry_def [symmetric] e by simp
qed

lemma sect_count:
  fixes va sz :: u32
  assumes "unat va + unat sz + 0x100000 \<le> 2 ^ 32"
  shows "unat ((sz + (va AND 0xfffff) + 0xfffff) AND NOT 0xfffff) div 0x100000 = (unat va mod 0x100000 + unat sz + 0xfffff) div 0x100000"
proof -
  have "unat va mod 0x100000 \<le> unat va" by simp
  then have b: "unat va mod 0x100000 + unat sz + 0xfffff < 2 ^ 32" using assms by linarith
  have "sz + (va AND 0xfffff) = sz + of_nat (unat va mod 0x100000)" using low20_of_nat [of va] by simp
  then have "unat (sz + (va AND 0xfffff)) = unat sz + unat va mod 0x100000"
    using unat_add_nat [of sz "unat va mod 0x100000"] b by simp
  then have "unat (sz + (va AND 0xfffff) + 0xfffff) = unat va mod 0x100000 + unat sz + 0xfffff"
    using unat_add_nat [of "sz + (va AND 0xfffff)" "0xfffff"] b by simp
  then show ?thesis unfolding low20(1) by simp
qed

lemma byte_section:
  assumes "v = unat (va :: u32) div 0x100000" "off = unat va mod 0x100000" "unat va + d < 2 ^ 32"
  shows "unat (va + of_nat d) div 0x100000 = v + (off + d) div 0x100000" "unat ((va + of_nat d) AND 0xfffff) = (off + d) mod 0x100000"
proof -
  have u: "unat (va + of_nat d) = v * 0x100000 + (off + d)"
    unfolding unat_add_nat [OF assms(3)] assms(1,2) using div_mult_mod_eq [of "unat va" "0x100000"] by linarith
  show "unat (va + of_nat d) div 0x100000 = v + (off + d) div 0x100000" unfolding u by simp
  show "unat ((va + of_nat d) AND 0xfffff) = (off + d) mod 0x100000" unfolding low20 u by simp
qed

text \<open>The address is mapped by a section.\<close>

definition by_section :: "mmu \<Rightarrow> nat \<Rightarrow> u32 \<Rightarrow> bool" where
  "by_section s c a \<longleftrightarrow> ld32 (mm_mem s) (cpu_L1 c s + push_bit 2 (drop_bit 20 a)) AND 3 = 2"

lemma by_section_eq: "by_section s c a \<longleftrightarrow> ld32 (mm_mem s) (sect_entry c (unat a div 0x100000) s) AND 3 = 2"
  unfolding by_section_def sc_offset sect_entry_def ..

lemma by_section_walk:
  "by_section s c a \<Longrightarrow> arm_walk s c a = Some ((ld32 (mm_mem s) (sect_entry c (unat a div 0x100000) s) AND NOT 0xfffff) + (a AND 0xfffff))"
  unfolding by_section_eq arm_walk_def Let_def sc_offset sect_entry_def by simp

text \<open>The segments of a list are mapped by sections, byte for byte, on every processor.\<close>

definition segs_mapped :: "mmu \<Rightarrow> (u32 \<times> u32 \<times> u32 \<times> u32) list \<Rightarrow> bool" where
  "segs_mapped s l \<longleftrightarrow> (\<forall>(v, p, z, f) \<in> set l. \<forall>c<ncpu s. \<forall>d<unat z.
     by_section s c (v + of_nat d) \<and> arm_walk s c (v + of_nat d) = Some (p + of_nat d))"

lemma scmap_run_segs: "mm_segs (scmap_run k va pa f t) = mm_segs t"
proof (induction k va pa f t rule: scmap_run.induct)
  case (2 k va pa f t)
  have "mm_segs (fold (\<lambda>c s. put (sc_entry c va s) x s) ks t) = mm_segs t" for ks x
    by (induction ks arbitrary: t) (simp_all add: put_def set_mem_def)
  then show ?case using 2 by (simp add: arm_scmap_def Let_def)
qed simp

text \<open>An address in a section that was written, and one in another.\<close>

lemma section_low:
  "x AND NOT 0xfffff = x \<Longrightarrow> p AND 3 = 2 \<Longrightarrow> (x OR p) AND 3 = (2 :: u32)"
proof -
  assume x: "x AND NOT 0xfffff = x" and p: "p AND 3 = 2"
  have "x AND 3 = (x AND NOT 0xfffff) AND 3" unfolding x ..
  also have "\<dots> = 0" by (simp add: and.assoc)
  finally show ?thesis using p by (simp add: bit.conj_disj_distrib2)
qed

lemma section_covered:
  assumes off: "vaddr AND 0xfffff = paddr AND (0xfffff :: u32)" and k: "unat a div 0x100000 = unat vaddr div 0x100000 + k"
  shows "(paddr AND NOT 0xfffff) + of_nat (0x100000 * k) + (a AND 0xfffff) = a + (paddr - vaddr)"
proof -
  have hi: "x AND NOT 0xfffff = of_nat (0x100000 * (unat x div 0x100000))" for x :: u32
    unfolding mult.commute [of "0x100000"] low20(1) [symmetric] by simp
  have "a AND NOT 0xfffff = (vaddr AND NOT 0xfffff) + of_nat (0x100000 * k)"
    unfolding hi k distrib_left of_nat_add ..
  then have a: "a = (a AND 0xfffff) + ((vaddr AND NOT 0xfffff) + of_nat (0x100000 * k))" using and_split [of a "0xfffff"] by metis
  have "vaddr = (vaddr AND 0xfffff) + (vaddr AND NOT 0xfffff)" "paddr = (vaddr AND 0xfffff) + (paddr AND NOT 0xfffff)"
    using and_split [of vaddr "0xfffff"] and_split [of paddr "0xfffff"] off by simp_all
  moreover have "y + w + z = x + (p - q)" if "x = z + (g + w)" "q = h + g" "p = h + y" for x y z w g h p q :: u32
    unfolding that by (simp add: algebra_simps)
  ultimately show ?thesis using a by blast
qed

lemma scmap_run_sections:
  fixes vaddr paddr flags :: u32
  defines "v \<equiv> unat vaddr div 0x100000"
  assumes ok: "tables_ok s" and sane: "pte_sane (the_pte s)" and off: "vaddr AND 0xfffff = paddr AND 0xfffff"
    and n: "v + n \<le> 4096" and c: "c < ncpu s"
  defines "s' \<equiv> scmap_run n (vaddr AND NOT 0xfffff) (paddr AND NOT 0xfffff) flags s"
  shows "v \<le> unat a div 0x100000 \<Longrightarrow> unat a div 0x100000 < v + n \<Longrightarrow> by_section s' c a \<and> arm_walk s' c a = Some (a + (paddr - vaddr))"
    and "\<not> (v \<le> unat a div 0x100000 \<and> unat a div 0x100000 < v + n) \<Longrightarrow> by_section s c a \<Longrightarrow>
      by_section s' c a \<and> arm_walk s' c a = arm_walk s c a"
proof -
  have v': "0 < n \<longrightarrow> v = unat (vaddr AND NOT 0xfffff) div 0x100000" unfolding low20 v_def by simp
  note r = scmap_run_spec [OF ok v' n, of "paddr AND NOT 0xfffff" flags, folded s'_def]
  then have fr: "same_frame s s'" by blast
  have j: "unat a div 0x100000 < 4096" using unat_lt32 [of a] by (simp add: less_mult_imp_div_less)
  have e: "ld32 (mm_mem s') (sect_entry c (unat a div 0x100000) s') =
       (if v \<le> unat a div 0x100000 \<and> unat a div 0x100000 < v + n
        then ((paddr AND NOT 0xfffff) + of_nat (0x100000 * (unat a div 0x100000 - v))) OR sect_prot flags (the_pte s')
        else ld32 (mm_mem s) (sect_entry c (unat a div 0x100000) s))"
    using r c j unfolding sect_entry_frame [OF fr] same_frameD [OF fr] by simp
  have sane': "pte_sane (the_pte s')" unfolding same_frameD [OF fr] by (rule sane)
  show "by_section s' c a \<and> arm_walk s' c a = Some (a + (paddr - vaddr))"
    if "v \<le> unat a div 0x100000" "unat a div 0x100000 < v + n"
  proof -
    have "unat a div 0x100000 = unat vaddr div 0x100000 + (unat a div 0x100000 - v)" using that(1) unfolding v_def by simp
    note k = section_covered [OF off this]
    have e': "ld32 (mm_mem s') (sect_entry c (unat a div 0x100000) s') =
        ((paddr AND NOT 0xfffff) + of_nat (0x100000 * (unat a div 0x100000 - v))) OR sect_prot flags (the_pte s')" using e that by simp
    then have "ld32 (mm_mem s') (sect_entry c (unat a div 0x100000) s') AND 3 = 2"
      unfolding e' using sect_prot_bits(2) [OF sane', of flags] sect_base_add [of paddr "unat a div 0x100000 - v"]
      by (metis (no_types, lifting) section_low)
    then show ?thesis using arm_walk_section [OF sane' e'] k unfolding by_section_eq by simp
  qed
  show "by_section s' c a \<and> arm_walk s' c a = arm_walk s c a"
    if "\<not> (v \<le> unat a div 0x100000 \<and> unat a div 0x100000 < v + n)" "by_section s c a"
  proof -
    have e': "ld32 (mm_mem s') (sect_entry c (unat a div 0x100000) s') = ld32 (mm_mem s) (sect_entry c (unat a div 0x100000) s)"
      unfolding e using that(1) by (rule if_not_P)
    have "by_section s' c a" using that(2) unfolding by_section_eq e' .
    then show ?thesis using that(2) e' by (simp add: by_section_walk)
  qed
qed

text \<open>
  C36: segments that follow each other in physical memory, at the same offset within a megabyte, are
  mapped by sections: \<open>elf_map\<close> returns, records the segment with its size and flags, and on every processor the table walk takes each
  byte of it to its place. The segments recorded before stay mapped when they were, those that share a
  megabyte with the new one too when they have the same distance from virtual to physical addresses. The list
  has room for two segments.
\<close>

theorem elf_map_sections:
  assumes ok: "tables_ok s" and sane: "pte_sane (the_pte s)" and off: "vaddr AND 0xfffff = paddr AND 0xfffff"
    and segs: "mm_segs s = Some l" "length l < 2" "\<forall>v p z f. l \<noteq> [] \<longrightarrow> last l = (v, p, z, f) \<longrightarrow> p + z = paddr"
    and fit: "unat vaddr + unat sz + 0x100000 \<le> 2 ^ 32"
    and before: "segs_mapped s l" "\<forall>(v, p, z, f) \<in> set l. p - v = paddr - vaddr \<or>
      unat v + unat z \<le> unat vaddr div 0x100000 * 0x100000 \<or>
      unat vaddr + unat sz \<le> unat v div 0x100000 * 0x100000 \<and> unat v + unat z \<le> 2 ^ 32"
  shows "\<exists>s'. elf_map vaddr paddr sz flags s = Inr s' \<and> same_frame s s' \<and>
    mm_segs s' = Some (l @ [(vaddr, paddr, sz, if flags AND 2 \<noteq> 0 then ARM_PTE_RW OR ARM_PTE_CB else ARM_PTE_CB)]) \<and>
    segs_mapped s' (the (mm_segs s'))"
proof -
  define fl where "fl = (if flags AND 2 \<noteq> 0 then ARM_PTE_RW OR ARM_PTE_CB else ARM_PTE_CB)"
  define s0 where "s0 = s\<lparr>mm_segs := Some (l @ [(vaddr, paddr, sz, fl)])\<rparr>"
  define n where "n = (unat vaddr mod 0x100000 + unat sz + 0xfffff) div 0x100000"
  define s' where "s' = scmap_run n (vaddr AND NOT 0xfffff) (paddr AND NOT 0xfffff) (ARM_PTE_RW OR ARM_PTE_CB) s0"
  have fr0: "same_frame s s0" by (simp add: s0_def same_frame_def)
  have ap: "(l \<noteq> [] \<and> (case last l of (_, pa, z, _) \<Rightarrow> pa + z \<noteq> paddr)) = False"
    using segs(3) by (cases "last l") auto
  have m: "elf_map vaddr paddr sz flags s = Inr s'"
    using segs(2) unfolding elf_map_def Let_def s'_def s0_def n_def fl_def sect_count [OF fit] segs(1) option.case ap by (simp add: off)
  have segs': "mm_segs s' = Some (l @ [(vaddr, paddr, sz, fl)])" unfolding s'_def scmap_run_segs by (simp add: s0_def)
  have n: "unat vaddr div 0x100000 + n = (unat vaddr + unat sz + 0xfffff) div 0x100000"
  proof -
    have "unat vaddr + unat sz + 0xfffff = unat vaddr mod 0x100000 + unat sz + 0xfffff + unat vaddr div 0x100000 * 0x100000"
      using div_mult_mod_eq [of "unat vaddr" "0x100000"] by linarith
    then show ?thesis
      unfolding n_def using div_mult_self1 [of "0x100000" "unat vaddr mod 0x100000 + unat sz + 0xfffff" "unat vaddr div 0x100000"] by simp
  qed
  have nb: "unat vaddr div 0x100000 + n \<le> 4096"
  proof -
    have "(unat vaddr + unat sz + 0xfffff) div 0x100000 \<le> 2 ^ 32 div 0x100000" using fit by (intro div_le_mono) linarith
    then show ?thesis unfolding n by simp
  qed
  have sane0: "pte_sane (the_pte s0)" and ok0: "tables_ok s0"
    using sane ok unfolding same_frameD [OF fr0] tables_ok_frame [OF fr0] by simp_all
  have v': "0 < n \<longrightarrow> unat vaddr div 0x100000 = unat (vaddr AND NOT 0xfffff) div 0x100000" unfolding low20 by simp
  have fr: "same_frame s s'"
    unfolding s'_def using scmap_run_spec [OF ok0 v' nb] same_frame_trans [OF fr0] by blast
  note run = scmap_run_sections [OF ok0 sane0 off nb, where flags = "ARM_PTE_RW OR ARM_PTE_CB", folded s'_def]
  have nc: "ncpu s0 = ncpu s" by (rule same_frameD(5) [OF fr0])
  have old: "by_section s0 c a = by_section s c a" "arm_walk s0 c a = arm_walk s c a" for c a
    by (simp_all add: s0_def by_section_def arm_walk_def cpu_L1_def Let_def)
  have new: "by_section s' c (vaddr + of_nat d) \<and> arm_walk s' c (vaddr + of_nat d) = Some (paddr + of_nat d)"
    if c: "c < ncpu s" and d: "d < unat sz" for c d
  proof -
    have "unat vaddr + d < 2 ^ 32" using fit d by simp
    note b = byte_section [OF refl refl this]
    have "(unat vaddr mod 0x100000 + d) div 0x100000 < n" unfolding n_def using d by linarith
    then show ?thesis using run(1) [of c "vaddr + of_nat d"] c b(1) nc by simp
  qed
  have kept: "by_section s' c (v + of_nat d) \<and> arm_walk s' c (v + of_nat d) = Some (p + of_nat d)"
    if e: "(v, p, z, f) \<in> set l" and c: "c < ncpu s" and d: "d < unat z" for v p z f c d
  proof -
    let ?a = "v + of_nat d"
    have w: "by_section s0 c ?a" "arm_walk s0 c ?a = Some (p + of_nat d)"
      using before(1) e c d unfolding segs_mapped_def old by blast+
    show ?thesis
    proof (cases "unat vaddr div 0x100000 \<le> unat ?a div 0x100000 \<and> unat ?a div 0x100000 < unat vaddr div 0x100000 + n")
      case False
      then show ?thesis using run(2) [OF _ False w(1)] w(2) c nc by simp
    next
      case True
      have "p - v = paddr - vaddr"
      proof (rule ccontr)
        assume ne: "p - v \<noteq> paddr - vaddr"
        with before(2) e consider "unat v + unat z \<le> unat vaddr div 0x100000 * 0x100000"
          | "unat vaddr + unat sz \<le> unat v div 0x100000 * 0x100000" "unat v + unat z \<le> 2 ^ 32" by blast
        then show False
        proof cases
          case 1
          have "unat vaddr div 0x100000 * 0x100000 \<le> unat vaddr" by (rule div_times_less_eq_dividend)
          moreover have "unat vaddr < 2 ^ 32" using unat_lt32 [of vaddr] by simp
          ultimately have "unat v + d < 2 ^ 32" using 1 d by linarith
          then have "unat ?a < unat vaddr div 0x100000 * 0x100000" unfolding unat_add_nat [OF \<open>unat v + d < 2 ^ 32\<close>] using 1 d by linarith
          then have "unat ?a div 0x100000 < unat vaddr div 0x100000" by (simp only: div_less_iff_less_mult)
          then show False using True by simp
        next
          case 2
          then have "unat v + d < 2 ^ 32" using d by linarith
          then have "unat v div 0x100000 \<le> unat ?a div 0x100000" by (simp add: unat_add_nat div_le_mono)
          moreover have "unat ?a div 0x100000 < (unat v div 0x100000 * 0x100000 + 0xfffff) div 0x100000"
            using True 2(1) div_le_mono [of "unat vaddr + unat sz + 0xfffff" "unat v div 0x100000 * 0x100000 + 0xfffff" "0x100000"]
            unfolding n by linarith
          ultimately show False by simp
        qed
      qed
      then have "?a + (paddr - vaddr) = p + of_nat d" by (simp add: algebra_simps flip: \<open>p - v = paddr - vaddr\<close>)
      then show ?thesis using run(1) [of c ?a] True c nc by simp
    qed
  qed
  have "segs_mapped s' (l @ [(vaddr, paddr, sz, fl)])"
    using new kept unfolding segs_mapped_def same_frameD [OF fr] by auto
  then show ?thesis using m fr segs' unfolding fl_def by auto
qed

theorem elf_map_sections_witness:
  "\<exists>s1 s2. elf_map 0xfe000010 0x10200010 0x180000 2 mmu_example = Inr s1 \<and> elf_map 0xfe180010 0x10380010 0x90000 0 s1 = Inr s2 \<and>
    mm_segs s2 = Some [(0xfe000010, 0x10200010, 0x180000, ARM_PTE_RW OR ARM_PTE_CB), (0xfe180010, 0x10380010, 0x90000, ARM_PTE_CB)] \<and>
    arm_walk s2 1 0xfe123456 = Some 0x10323456 \<and> arm_walk s2 1 0xfe200000 = Some 0x10400000"
proof -
  have ok: "tables_ok mmu_example" "pte_sane (the_pte mmu_example)" using pt_invD(1,2) [OF mmu_example_inv] by blast+
  have l: "mm_segs mmu_example = Some []" "segs_mapped s []" for s by (simp_all add: mmu_example_def segs_mapped_def)
  let ?a = "(0xfe000010, 0x10200010, 0x180000, ARM_PTE_RW OR ARM_PTE_CB) :: u32 \<times> u32 \<times> u32 \<times> u32"
  obtain s1 where 1: "elf_map 0xfe000010 0x10200010 0x180000 2 mmu_example = Inr s1" "same_frame mmu_example s1"
      "mm_segs s1 = Some [?a]" "segs_mapped s1 [?a]"
    using elf_map_sections [OF ok, of "0xfe000010" "0x10200010" "[]" "0x180000" 2] l by auto
  have ok1: "tables_ok s1" "pte_sane (the_pte s1)" using ok unfolding same_frameD [OF 1(2)] tables_ok_frame [OF 1(2)] by simp_all
  obtain s2 where 2: "elf_map 0xfe180010 0x10380010 0x90000 0 s1 = Inr s2" "same_frame s1 s2"
      "mm_segs s2 = Some [?a, (0xfe180010, 0x10380010, 0x90000, ARM_PTE_CB)]"
      "segs_mapped s2 [?a, (0xfe180010, 0x10380010, 0x90000, ARM_PTE_CB)]"
    using elf_map_sections [OF ok1, of "0xfe180010" "0x10380010" "[?a]" "0x90000" 0] 1(3,4) by auto
  have nc: "ncpu s2 = 2" using same_frameD(5) [OF 2(2)] same_frameD(5) [OF 1(2)] mmu_example_ncpu by simp
  from 2(4) have w: "arm_walk s2 1 (0xfe000010 + of_nat d) = Some (0x10200010 + of_nat d)" if "d < 0x180000" for d
    using that unfolding segs_mapped_def nc by simp
  from 2(4) have x: "arm_walk s2 1 (0xfe180010 + of_nat d) = Some (0x10380010 + of_nat d)" if "d < 0x90000" for d
    using that unfolding segs_mapped_def nc by simp
  show ?thesis using 1(1) 2(1,3) w [of "0x123446"] x [of "0x7fff0"] by auto
qed

lemma next_section:
  assumes "0x100000 dvd unat (base :: u32)"
  shows "0x100000 dvd unat (base + 0x100000)" "unat base \<le> 0xfff00000"
proof -
  have "unat (base + 0x100000) = (unat base + 0x100000) mod 2 ^ 32" by (simp add: unat_word_ariths)
  moreover have "0x100000 dvd (unat base + 0x100000) mod 2 ^ 32" by (rule dvd_mod [OF dvd_add [OF assms]]) simp_all
  ultimately show "0x100000 dvd unat (base + 0x100000)" by (simp only:)
  obtain k where k: "unat base = 0x100000 * k" using assms by (rule dvdE)
  then show "unat base \<le> 0xfff00000" using unat_lt32 [of base] by simp
qed

lemma map_sections_limit:
  assumes "map_sections base lim s = Some s'"
  shows "0x100000 dvd unat base \<longrightarrow> lim \<le> 0xfff00000"
proof (rule map_sections.raw_induct [where P = "\<lambda>base lim s s'. 0x100000 dvd unat base \<longrightarrow> lim \<le> 0xfff00000", OF _ assms], intro impI)
  fix rec base lim s s'
  assume IH: "\<And>base lim s s'. rec base lim s = Some s' \<Longrightarrow> 0x100000 dvd unat base \<longrightarrow> lim \<le> 0xfff00000"
    and eq: "(if base < lim then rec (base + 0x100000) lim (arm_scmap base base 0 s) else Some s) = Some s'"
    and d: "0x100000 dvd unat base"
  show "lim \<le> 0xfff00000"
  proof (cases "base < lim")
    case True
    then show ?thesis using IH eq next_section(1) [OF d] by simp
  next
    case False
    then show ?thesis using next_section(2) [OF d] by (simp add: word_le_nat_alt word_less_nat_alt)
  qed
qed

text \<open>
  C37: The loop of \<open>init_mmu\<close> that maps the image a megabyte at a time ends exactly when the end of the
  image is not in the last megabyte of the address space, where the counter would wrap around.
\<close>

theorem map_sections_returns_iff:
  assumes al: "0x100000 dvd unat base"
  shows "(\<exists>s'. map_sections base lim s = Some s') \<longleftrightarrow> lim \<le> 0xfff00000"
proof
  show "lim \<le> 0xfff00000" if "\<exists>s'. map_sections base lim s = Some s'" using that map_sections_limit al by blast
  assume lim: "lim \<le> 0xfff00000"
  show "\<exists>s'. map_sections base lim s = Some s'"
  proof (induction "unat lim - unat base" arbitrary: base s rule: less_induct)
    case less
    show ?case
    proof (cases "base < lim")
      case True
      then have "unat base < unat lim" "unat lim \<le> 0xfff00000" using lim by (simp_all add: word_less_nat_alt word_le_nat_alt)
      then have "unat (base + 0x100000) = unat base + 0x100000" using unat_add_nat [of base "0x100000"] by simp
      then have "unat lim - unat (base + 0x100000) < unat lim - unat base" using \<open>unat base < unat lim\<close> by simp
      from less [OF this] show ?thesis using True by (simp add: map_sections.simps)
    qed (simp add: map_sections.simps)
  qed
qed

theorem map_sections_returns_iff_witness:
  "\<exists>s'. map_sections 0x10000000 0x10200000 mmu_example = Some s'"
  using map_sections_returns_iff [of "0x10000000" "0x10200000" mmu_example] by simp

text \<open>
  \<open>elf_vaddr_to_paddr\<close> reads the first of the four entries of a group also for a section: in the second
  megabyte of a group it gives the address of the first.
\<close>

lemma elf_vaddr_to_paddr_second:
  assumes "grp va = g" "ld32 (mm_mem s) (l1_entry 0 g 0 s) AND 3 = 2"
  shows "elf_vaddr_to_paddr s va = (ld32 (mm_mem s) (l1_entry 0 g 0 s) AND NOT 0xfffff) + (va AND 0xfffff)"
  using assms unfolding elf_vaddr_to_paddr_def Let_def ptp_offset l1_entry_def by simp

end
