(* ===== verification/Spec2Isabelle.thy ===== *)
theory Spec2Isabelle
  imports Ipl_Div Startup_Num Startup_Time Startup_Strings Startup_As Startup_Ram
    Ipl_Memtest Ipl_Main Startup_Hwiboard Startup_Rtc Startup_Mmu
begin

text \<open>
  A verification library for the boot software of the board support package: the initial program
  loader (IPL) under \<open>src/hardware/ipl\<close> and the startup program under \<open>src/hardware/startup\<close>, for the
  i.MX6 boards with ARM processors.

  \<^bold>\<open>The program.\<close> After reset the IPL sets up clocks, pins and a serial line, takes a command from the
  console, and gets a boot image: over the serial line, from an SD/MMC card with a FAT32 file system, or
  from where it already lies in memory. It scans memory for the image's header, checks two sums, copies the
  startup program out and jumps to it. The startup program keeps the list of free RAM, builds the
  system page (a block of sections: strings, typed strings, address spaces, hardware table and others)
  that the kernel reads later, detects the processor, reads the clock, and builds the page tables.
  Everything is single-threaded; the parts interact by calls and through static variables.

  \<^bold>\<open>Theories of the IPL.\<close>
  \<^item> \<open>Ipl_Div\<close>: the software division (\<open>divsi3.c\<close>) of the board's loader, with the inputs for which it never
    returns.
  \<^item> \<open>Ipl_Mem\<close>: the byte memory and \<open>copy.c\<close>.
  \<^item> \<open>Ipl_Image\<close>: \<open>image_scan.c\<close>, \<open>image_setup.c\<close>, \<open>image_start.c\<close>: headers are bytes of the memory; the
    scan finds the newest valid image of its path, or runs forever at a header whose sizes are zero.
  \<^item> \<open>Ipl_Serial\<close>: \<open>ser_dev.c\<close> and the UART drivers of \<open>lib\<close> and \<open>lib/arm\<close>; the locale \<open>serial_line\<close> is
    the interface (bytes in order), interpreted on each driver.
  \<^item> \<open>Ipl_Download\<close>: the record protocol of the \<open>image_download_*.c\<close> files; the theorems rest on
    \<open>serial_line\<close>.
  \<^item> \<open>Ipl_Memtest\<close>: the memory tests (\<open>mem_tests.c\<close>), which fail exactly for stuck or aliased lines.
  \<^item> \<open>Ipl_Sdmmc\<close>: the card driver (\<open>sdmmc.c\<close>): clock divisors, command engine, identification, reading.
  \<^item> \<open>Ipl_Fat\<close>: \<open>fat-fs.c\<close> on the locale \<open>block_device\<close>, interpreted by the card driver: a named file is
    copied from its chain of clusters.
  \<^item> \<open>Ipl_Main\<close>: \<open>main.c\<close> and \<open>init.c\<close>: one round of the command loop, the loop, and the end-to-end
    theorems: a transfer of a valid image ends with the jump into it, and after one transfer in which
    the scan finds nothing no image is ever started.

  \<^bold>\<open>Theories of the startup program.\<close>
  \<^item> \<open>Startup_Num\<close>, \<open>Startup_Time\<close>: number parsing and formatted output (\<open>strtoul.c\<close>, \<open>getsize.c\<close>,
    \<open>ultoa_end.c\<close>, \<open>kprintf.c\<close>), calendar time and timer scaling; the round trips between them.
  \<^item> \<open>Startup_Syspage\<close>, \<open>Startup_Strings\<close>, \<open>Startup_As\<close>: the system page's memory
    (\<open>syspage_memory.c\<close>), its string tables (\<open>strings.c\<close>, locale \<open>string_store\<close>) and its address space
    table (\<open>as_*.c\<close>). The record \<open>lsp\<close> is the page: its bytes and, for each section, pointer and size.
  \<^item> \<open>Startup_Ram\<close>: the allocator of \<open>ram.c\<close>; the locale \<open>block_allocator\<close> states what an allocator
    promises and is interpreted on it; an allocation takes an aligned free block, or fails only when
    none is in sight. The static block and avoid lists are fields of \<open>ram_state\<close>.
  \<^item> \<open>Startup_Hwi\<close>, \<open>Startup_Hwitab\<close>, \<open>Startup_Hwiboard\<close>: the hardware table: the \<open>hwi*_*.c\<close> files as writes
    of bytes, the invariant that the bytes are a list of tags, and the tables of the boards, whose unit
    numbers depend on the library's searches.
  \<^item> \<open>Startup_Chip\<close>, \<open>Startup_Rtc\<close>: register access and the real time clocks; a clock that holds a date gives
    its seconds, and the PC's clock, which is updated while it is read, those of a time it held.
  \<^item> \<open>Startup_Armchip\<close>, \<open>Startup_Mmu\<close>: the processor and page descriptor tables, and the page tables:
    \<open>arm_map\<close> is correct against a walk of the tables as the processor does it (\<open>arm_walk\<close>), and so
    are the sections that \<open>elf_map\<close> makes.
  \<^item> \<open>Prelude\<close>: word types, results and byte lists shared by all.

  \<^bold>\<open>Conventions.\<close> Machine integers are words of their width and wrap; \<open>paddr_t\<close> and pointers are 32 bits. A crash is
  the left value of a sum, with a code for its message. A loop that need not end is a
  \<open>partial_function\<close> whose value \<^term>\<open>None\<close> means that it does not return; claims that it returns are
  proved as such, with no fuel. Loops over a count recurse on the count. Code outside the repository is a
  parameter: hardware registers (records \<open>bus\<close>, \<open>io\<close>: read and write with their effect on a
  hardware state of any type), the searches of the driver library (\<open>hwi_lib\<close>), coprocessor registers (\<open>cp15\<close>), the
  contents of uninitialised stack memory, and the constants of headers that are missing where no
  documentation fixes them. What is assumed of them is a premise of the theorem, and a witness instantiates it with
  a concrete device. Delays have no effect; console and debug messages are left out unless the printing
  is what is modelled.

  \<^bold>\<open>Not modelled.\<close> Assembler (\<open>_start.S\<close>, the kernel callouts); the drivers and servers for the running
  system (\<open>devb\<close>, \<open>devc\<close>, \<open>deva\<close>, \<open>devnp\<close>, \<open>flash\<close>, \<open>i2c\<close>, \<open>spi\<close>, \<open>pci\<close>, \<open>wfd\<close>), which are glue between the
  libraries of an operating system that is not in the repository and a chip; the image decompressors, whose
  algorithms are in headers that are missing; the
  set-up of boards in straight lines of register writes; prebuilt headers and binaries.

  \<^bold>\<open>What the proofs showed.\<close> Besides the correctness theorems: the loops that can run forever (division,
  image scan, cluster count, baud rates, section mapping), the image variable of the command loop that is not
  reset, a deleted typed string that leaves a word, the hidden allocation offset of
  \<open>hwi_grow_tag\<close>, the leap year rule of \<open>_gmtime\<close>, the month of the OMAP clock, the century of the PC clock, the
  unreachable ARM922 entry, and sections that \<open>elf_vaddr_to_paddr\<close> translates through the wrong entry.
\<close>

end
